(* ===== verification/Ostool_Prelude.thy ===== *)
theory Ostool_Prelude
  imports Main "HOL-Library.Word"
begin

text \<open>
  The vocabulary every component theory shares.

  \<^item> Machine integers keep their Rust width: \<open>u8\<close>, \<open>u16\<close>, \<open>u32\<close>, \<open>u64\<close> are words of
    8, 16, 32 and 64 bits, so \<open>+\<close> wraps as it does in a release build. A \<open>usize\<close> that
    counts the elements of a vector is a \<open>nat\<close>: a Rust vector never holds more than
    \<open>isize::MAX\<close> bytes, so such a count cannot wrap. A cast \<open>n as u32\<close> is \<open>word_of_nat n\<close>.
  \<^item> A Rust \<open>str\<close> is its UTF-8 bytes, a \<open>string\<close> here (HOL characters are 8 bit wide);
    \<open>str_bytes\<close> is \<open>as_bytes\<close>.
  \<^item> A \<open>Result\<close> is a sum: \<open>Inl\<close> the error, \<open>Inr\<close> the value. \<open>rbind\<close> is the \<open>?\<close> operator.
  \<^item> \<open>to_be\<close>, \<open>to_le\<close>, \<open>of_be\<close> and \<open>of_le\<close> are the \<open>to_be_bytes\<close>/\<open>from_le_bytes\<close> family, with
    their round trips in both directions.
  \<^item> The locale \<open>invariant_machine\<close> is the shared contract of the stateful components: a
    step function and an invariant each step keeps; what it proves once is the lifting to
    runs. \<open>absorbing_machine\<close> extends it with states no step leaves.
\<close>

unbundle bit_operations_syntax

section \<open>Types and automation\<close>

type_synonym u8 = "8 word"
type_synonym u16 = "16 word"
type_synonym u32 = "32 word"
type_synonym u64 = "64 word"
type_synonym bytes = "u8 list"

named_theorems be_simps \<open>evaluation of the byte encodings\<close>
named_theorems align_simps \<open>alignment arithmetic\<close>
named_theorems len_simps \<open>lengths of what a component writes\<close>

section \<open>Results\<close>

definition rbind :: "'e + 'a \<Rightarrow> ('a \<Rightarrow> 'e + 'b) \<Rightarrow> 'e + 'b" where
  "rbind r f = (case r of Inl e \<Rightarrow> Inl e | Inr x \<Rightarrow> f x)"

lemma rbind_simps [simp]:
  "rbind (Inl e) f = Inl e"
  "rbind (Inr x) f = f x"
  by (simp_all add: rbind_def)

lemma rbind_Inr_iff: "rbind r f = Inr y \<longleftrightarrow> (\<exists>x. r = Inr x \<and> f x = Inr y)"
  by (cases r) auto

lemma rbind_Inl_iff: "rbind r f = Inl e \<longleftrightarrow> r = Inl e \<or> (\<exists>x. r = Inr x \<and> f x = Inl e)"
  by (cases r) auto

definition is_ok :: "'e + 'a \<Rightarrow> bool" where
  "is_ok r = (case r of Inl _ \<Rightarrow> False | Inr _ \<Rightarrow> True)"

lemma is_ok_simps [simp]: "is_ok (Inr x)" "\<not> is_ok (Inl e)"
  by (simp_all add: is_ok_def)

lemma is_ok_iff: "is_ok r \<longleftrightarrow> (\<exists>x. r = Inr x)"
  by (cases r) auto

section \<open>Options\<close>

text \<open>\<open>Option::is_some_and\<close> and \<open>Option::is_none_or\<close>.\<close>

definition is_some_and :: "'a option \<Rightarrow> ('a \<Rightarrow> bool) \<Rightarrow> bool" where
  "is_some_and x p = (case x of None \<Rightarrow> False | Some y \<Rightarrow> p y)"

definition is_none_or :: "'a option \<Rightarrow> ('a \<Rightarrow> bool) \<Rightarrow> bool" where
  "is_none_or x p = (case x of None \<Rightarrow> True | Some y \<Rightarrow> p y)"

lemma is_some_and_simps [simp]:
  "is_some_and None p = False"
  "is_some_and (Some y) p = p y"
  by (simp_all add: is_some_and_def)

lemma is_none_or_simps [simp]:
  "is_none_or None p = True"
  "is_none_or (Some y) p = p y"
  by (simp_all add: is_none_or_def)

lemma is_some_and_iff: "is_some_and x p \<longleftrightarrow> (\<exists>y. x = Some y \<and> p y)"
  by (cases x) auto

lemma is_none_or_iff: "is_none_or x p \<longleftrightarrow> (\<forall>y. x = Some y \<longrightarrow> p y)"
  by (cases x) auto

definition unwrap_or :: "'a option \<Rightarrow> 'a \<Rightarrow> 'a" where
  "unwrap_or x d = (case x of None \<Rightarrow> d | Some y \<Rightarrow> y)"

lemma unwrap_or_simps [simp]: "unwrap_or None d = d" "unwrap_or (Some y) d = y"
  by (simp_all add: unwrap_or_def)

section \<open>Strings as bytes\<close>

definition str_bytes :: "string \<Rightarrow> bytes" where
  "str_bytes s = map of_char s"

lemma str_bytes_simps [simp]:
  "str_bytes [] = []"
  "str_bytes (c # s) = of_char c # str_bytes s"
  "str_bytes (s @ t) = str_bytes s @ str_bytes t"
  by (simp_all add: str_bytes_def)

lemma length_str_bytes [simp]: "length (str_bytes s) = length s"
  by (simp add: str_bytes_def)

lemma unat_of_char_byte [simp]: "unat (of_char c :: u8) = of_char c"
proof -
  have "(of_char c :: u8) = word_of_nat (of_char c)"
    by (simp only: of_nat_of_char)
  moreover have "(of_char c :: nat) < 256"
    using of_char_mod_256 [of c] by (metis mod_less_divisor zero_less_numeral)
  ultimately show ?thesis
    by (simp add: unat_of_nat)
qed

lemma of_char_byte_eq_iff [simp]: "(of_char c :: u8) = of_char d \<longleftrightarrow> c = d"
  by (metis of_char_eq_iff unat_of_char_byte)

lemma str_bytes_eq_iff [simp]: "str_bytes s = str_bytes t \<longleftrightarrow> s = t"
  by (auto simp: str_bytes_def inj_map_eq_map inj_def)

text \<open>A string with no NUL character: what survives as a NUL-terminated name.\<close>

definition nul_free :: "string \<Rightarrow> bool" where
  "nul_free s \<longleftrightarrow> (0::u8) \<notin> set (str_bytes s)"

section \<open>Byte order\<close>

definition to_be :: "nat \<Rightarrow> 'a::len word \<Rightarrow> bytes" where
  "to_be n w = map (\<lambda>i. ucast (drop_bit (8 * i) w)) (rev [0..<n])"

definition to_le :: "nat \<Rightarrow> 'a::len word \<Rightarrow> bytes" where
  "to_le n w = rev (to_be n w)"

definition of_be_from :: "'a::len word \<Rightarrow> bytes \<Rightarrow> 'a word" where
  "of_be_from a bs = foldl (\<lambda>acc b. push_bit 8 acc OR ucast b) a bs"

definition of_be :: "bytes \<Rightarrow> 'a::len word" where
  "of_be bs = of_be_from 0 bs"

definition of_le :: "bytes \<Rightarrow> 'a::len word" where
  "of_le bs = of_be (rev bs)"

lemma to_be_0 [simp]: "to_be 0 w = []"
  by (simp add: to_be_def)

lemma to_be_Suc: "to_be (Suc n) w = ucast (drop_bit (8 * n) w) # to_be n w"
  by (simp add: to_be_def)

lemma length_to_be [simp, len_simps]: "length (to_be n w) = n"
  by (simp add: to_be_def)

lemma length_to_le [simp, len_simps]: "length (to_le n w) = n"
  by (simp add: to_le_def)

lemma of_be_from_simps [simp]:
  "of_be_from a [] = a"
  "of_be_from a (b # bs) = of_be_from (push_bit 8 a OR ucast b) bs"
  by (simp_all add: of_be_from_def)

lemma of_be_from_to_be:
  "of_be_from a (to_be n w) = push_bit (8 * n) a OR take_bit (8 * n) w"
proof (induction n arbitrary: a)
  case 0
  then show ?case by simp
next
  case (Suc n)
  show ?case
    unfolding to_be_Suc of_be_from_simps Suc.IH
    by (rule bit_word_eqI) (auto simp: bit_simps not_le not_less add.commute)
qed

lemma of_be_to_be: "LENGTH('a) \<le> 8 * n \<Longrightarrow> of_be (to_be n (w :: 'a::len word)) = w"
  by (simp add: of_be_def of_be_from_to_be take_bit_word_eq_self)

lemma of_le_to_le: "LENGTH('a) \<le> 8 * n \<Longrightarrow> of_le (to_le n (w :: 'a::len word)) = w"
  by (simp add: of_le_def to_le_def of_be_to_be)

text \<open>The other direction: what \<open>n\<close> bytes decode to encodes to these \<open>n\<close> bytes.\<close>

lemma bit_of_be_from:
  "bit (of_be_from a bs :: 'a::len word) i \<longleftrightarrow>
     i < LENGTH('a) \<and>
     (if i < 8 * length bs then bit (rev bs ! (i div 8)) (i mod 8) else bit a (i - 8 * length bs))"
proof (induction bs arbitrary: a)
  case Nil
  then show ?case by (auto dest: bit_imp_le_length)
next
  case (Cons b bs)
  have byte: "bit b j \<Longrightarrow> j < 8" for j
    using bit_imp_le_length [of b j] by simp
  have high: "i div 8 = length bs \<and> i mod 8 = i - 8 * length bs"
    if "8 * length bs \<le> i" "i < 8 + 8 * length bs"
  proof -
    have "i div 8 = length bs"
      using that by (intro div_nat_eqI) simp_all
    then show ?thesis
      by (simp flip: minus_mult_div_eq_mod)
  qed
  have low: "i < 8 * length bs \<Longrightarrow> i div 8 < length bs"
    by (simp add: less_mult_imp_div_less mult.commute)
  show ?case
    using high low by (auto simp: Cons.IH bit_simps nth_append add.commute dest: byte)
qed

lemma to_be_of_be:
  assumes "length bs = n" "8 * n \<le> LENGTH('a::len)"
  shows "to_be n (of_be bs :: 'a word) = bs"
proof (rule nth_equalityI)
  show "length (to_be n (of_be bs :: 'a word)) = length bs"
    using assms by simp
next
  fix i
  assume "i < length (to_be n (of_be bs :: 'a word))"
  then have i: "i < n" by simp
  show "to_be n (of_be bs :: 'a word) ! i = bs ! i"
  proof (rule bit_word_eqI)
    fix j
    assume "j < LENGTH(8)"
    then have j: "j < 8" by simp
    let ?k = "8 * (n - Suc i) + j"
    have k: "?k < 8 * n" "?k div 8 = n - Suc i" "?k mod 8 = j"
      using i j by simp_all
    show "bit (to_be n (of_be bs :: 'a word) ! i) j = bit (bs ! i) j"
      using i j k assms
      by (simp add: to_be_def rev_nth bit_simps of_be_def bit_of_be_from add.commute)
  qed
qed

lemma to_le_of_le:
  "length bs = n \<Longrightarrow> 8 * n \<le> LENGTH('a::len) \<Longrightarrow> to_le n (of_le bs :: 'a word) = bs"
  by (simp add: to_le_def of_le_def to_be_of_be)

section \<open>Formatting numbers\<close>

text \<open>\<open>{:02x}\<close> and \<open>{:08x}\<close>: fixed-width lower-case hexadecimal, and \<open>{}\<close> of an unsigned number.\<close>

definition hex_digit :: "nat \<Rightarrow> char" where
  "hex_digit n = (if n < 10 then char_of (48 + n) else char_of (87 + n))"

definition hex_fixed :: "nat \<Rightarrow> 'a::len word \<Rightarrow> string" where
  "hex_fixed n w = map (\<lambda>i. hex_digit (unat (drop_bit (4 * i) w AND 0xF))) (rev [0..<n])"

fun dec_str :: "nat \<Rightarrow> string" where
  "dec_str n = (if n < 10 then [char_of (48 + n)] else dec_str (n div 10) @ [char_of (48 + n mod 10)])"

declare dec_str.simps [simp del]

definition dec_value :: "string \<Rightarrow> nat" where
  "dec_value s = foldl (\<lambda>acc c. 10 * acc + (of_char c - 48)) 0 s"

lemma length_hex_fixed [simp, len_simps]: "length (hex_fixed n w) = n"
  by (simp add: hex_fixed_def)

lemma dec_str_digits: "c \<in> set (dec_str n) \<Longrightarrow> 48 \<le> (of_char c :: nat) \<and> (of_char c :: nat) < 58"
proof (induction n rule: dec_str.induct)
  case (1 n)
  have digit: "(of_char (char_of (48 + d :: nat)) :: nat) = 48 + d" if "d < 10" for d
    using that by (simp add: of_char_of)
  show ?case
  proof (cases "n < 10")
    case True
    with "1.prems" digit [of n] show ?thesis by (simp add: dec_str.simps)
  next
    case False
    have m: "n mod 10 < 10" by simp
    from "1.prems" False have "c \<in> set (dec_str (n div 10)) \<or> c = char_of (48 + n mod 10)"
      by (subst (asm) dec_str.simps) auto
    with "1.IH" False digit [OF m] m show ?thesis by auto
  qed
qed

lemma dec_value_dec_str: "dec_value (dec_str n) = n"
proof (induction n rule: dec_str.induct)
  case (1 n)
  have digit: "(of_char (char_of (48 + d :: nat)) :: nat) = 48 + d" if "d < 10" for d
    using that by (simp add: of_char_of)
  show ?case
  proof (cases "n < 10")
    case True
    with digit [of n] show ?thesis by (simp add: dec_str.simps dec_value_def)
  next
    case False
    have m: "n mod 10 < 10" by simp
    have "dec_value (dec_str n) =
        10 * dec_value (dec_str (n div 10)) + (of_char (char_of (48 + n mod 10)) - 48)"
      using False by (subst dec_str.simps) (simp add: dec_value_def)
    with "1.IH" False digit [OF m] show ?thesis by simp
  qed
qed

section \<open>Alignment\<close>

text \<open>Padding a length to the next multiple of four, as \<open>(4 - len % 4) % 4\<close> computes it.\<close>

lemma div_mod_cases4:
  fixes n :: nat
  obtains q r where "n = r + 4 * q" "r = 0 \<or> r = 1 \<or> r = 2 \<or> r = 3"
proof -
  have "n = n mod 4 + 4 * (n div 4)" "n mod 4 < 4" by simp_all
  then show ?thesis
    by (intro that [of "n mod 4" "n div 4"]) linarith+
qed

lemma pad4_eq [align_simps]: "n + (4 - n mod 4) mod 4 = 4 * ((n + 3) div 4)" for n :: nat
  by (rule div_mod_cases4 [of n]) (elim disjE; simp del: add_2_eq_Suc add_2_eq_Suc')+

lemma pad4_mod [align_simps]: "(n + (4 - n mod 4) mod 4) mod 4 = 0" for n :: nat
  by (simp add: pad4_eq)

lemma pad4_ge: "n \<le> 4 * ((n + 3) div 4)" for n :: nat
  by (rule div_mod_cases4 [of n]) (elim disjE; simp del: add_2_eq_Suc add_2_eq_Suc')+

lemma pad4_id: "n mod 4 = 0 \<Longrightarrow> 4 * ((n + 3) div 4) = n" for n :: nat
  by (rule div_mod_cases4 [of n]) (elim disjE; simp del: add_2_eq_Suc add_2_eq_Suc')+

section \<open>Machines\<close>

text \<open>
  A component with state and operations: \<open>step s e\<close> is the state after operation \<open>e\<close>. An
  invariant that every operation keeps holds after every run.
\<close>

locale invariant_machine =
  fixes step :: "'s \<Rightarrow> 'e \<Rightarrow> 's"
    and inv :: "'s \<Rightarrow> bool"
  assumes step_inv: "inv s \<Longrightarrow> inv (step s e)"
begin

lemma run_inv: "inv s \<Longrightarrow> inv (foldl step s es)"
  by (induction es arbitrary: s) (auto intro: step_inv)

lemma run_append_inv: "inv (foldl step s es) \<Longrightarrow> inv (foldl step s (es @ fs))"
  using run_inv by simp

end

text \<open>
  A machine with absorbing states: once \<open>final\<close> holds it holds for ever, and what \<open>view\<close> shows
  of the state does not change any more.
\<close>

locale absorbing_machine = invariant_machine +
  fixes final :: "'s \<Rightarrow> bool"
    and view :: "'s \<Rightarrow> 'v"
  assumes final_step: "inv s \<Longrightarrow> final s \<Longrightarrow> final (step s e) \<and> view (step s e) = view s"
begin

lemma run_final:
  "inv s \<Longrightarrow> final s \<Longrightarrow> final (foldl step s es) \<and> view (foldl step s es) = view s"
  by (induction es arbitrary: s) (simp_all add: final_step step_inv)

end

end
