(* ===== verification/String_Table.thy ===== *)
theory String_Table
  imports Ostool_Prelude
begin

text \<open>
  The strings block of a flattened device tree, \<open>fitimage/src/fit/string_table.rs\<close>: property
  names stored once, NUL terminated, each padded to a multiple of four bytes, and a map from
  a name to its offset. The locale \<open>interner\<close> is what the tree builder relies on; its
  interpretation on the table is at the end.
\<close>

section \<open>The table\<close>

record string_table =
  strings :: bytes
  offsets :: "string \<rightharpoonup> u32"

definition table_new :: string_table where
  "table_new = \<lparr>strings = [], offsets = Map.empty\<rparr>"

definition table_append :: "bytes \<Rightarrow> string \<Rightarrow> bytes" where
  "table_append bs s =
     (let with_nul = bs @ str_bytes s @ [0];
          padding_needed = (4 - length with_nul mod 4) mod 4
      in with_nul @ replicate padding_needed 0)"

definition add_string :: "string_table \<Rightarrow> string \<Rightarrow> u32 \<times> string_table" where
  "add_string t s =
     (case offsets t s of
        Some off \<Rightarrow> (off, t)
      | None \<Rightarrow>
          let off = word_of_nat (length (strings t)) in
          (off, t\<lparr>strings := table_append (strings t) s, offsets := (offsets t)(s \<mapsto> off)\<rparr>))"

definition get_offset :: "string_table \<Rightarrow> string \<Rightarrow> u32 option" where
  "get_offset t s = offsets t s"

definition contains :: "string_table \<Rightarrow> string \<Rightarrow> bool" where
  "contains t s \<longleftrightarrow> offsets t s \<noteq> None"

definition table_size :: "string_table \<Rightarrow> nat" where
  "table_size t = length (strings t)"

definition table_data :: "string_table \<Rightarrow> bytes" where
  "table_data t = strings t"

definition table_len :: "string_table \<Rightarrow> nat" where
  "table_len t = card (dom (offsets t))"

definition table_is_empty :: "string_table \<Rightarrow> bool" where
  "table_is_empty t \<longleftrightarrow> dom (offsets t) = {}"

text \<open>The keys of a \<open>HashMap\<close> come in no particular order, so \<open>get_all_strings\<close> is a set.\<close>

definition get_all_strings :: "string_table \<Rightarrow> string set" where
  "get_all_strings t = dom (offsets t)"

section \<open>Reading a name back\<close>

text \<open>What a reader of the tree does with an offset: the bytes up to the first NUL.\<close>

definition name_at :: "bytes \<Rightarrow> nat \<Rightarrow> bytes" where
  "name_at block off = takeWhile (\<lambda>b. b \<noteq> 0) (drop off block)"

text \<open>
  \<open>resolves block off s\<close>: \<open>s\<close> and its NUL stand at \<open>off\<close>. It is stable under appending to the
  block, and for a name without NUL it gives the name back.
\<close>

definition resolves :: "bytes \<Rightarrow> nat \<Rightarrow> string \<Rightarrow> bool" where
  "resolves block off s \<longleftrightarrow> (\<exists>rest. drop off block = str_bytes s @ 0 # rest)"

lemma resolves_append: "resolves block off s \<Longrightarrow> resolves (block @ ext) off s"
proof -
  assume "resolves block off s"
  then obtain rest where rest: "drop off block = str_bytes s @ 0 # rest"
    by (auto simp: resolves_def)
  then have "off < length block"
    by (cases "off < length block") simp_all
  with rest have "drop off (block @ ext) = str_bytes s @ 0 # (rest @ ext)"
    by simp
  then show ?thesis
    by (auto simp: resolves_def)
qed

lemma resolves_bound: "resolves block off s \<Longrightarrow> off + length s < length block"
proof -
  assume "resolves block off s"
  then obtain rest where "drop off block = str_bytes s @ 0 # rest"
    by (auto simp: resolves_def)
  then have "length (drop off block) = length s + Suc (length rest)"
    by simp
  then show ?thesis by simp
qed

lemma name_at_resolves: "resolves block off s \<Longrightarrow> nul_free s \<Longrightarrow> name_at block off = str_bytes s"
  by (auto simp: resolves_def name_at_def nul_free_def takeWhile_append)

lemma table_append_prefix: "\<exists>ext. table_append bs s = bs @ ext"
  by (simp add: table_append_def Let_def)

lemma table_append_resolves: "resolves (table_append bs s) (length bs) s"
  by (simp add: table_append_def resolves_def Let_def)

lemma length_table_append [len_simps]:
  "length (table_append bs s) = 4 * ((length bs + length s + 4) div 4)"
proof -
  have "length (table_append bs s) =
      (length bs + length s + 1) + (4 - (length bs + length s + 1) mod 4) mod 4"
    by (simp add: table_append_def Let_def)
  then show ?thesis
    unfolding pad4_eq by simp
qed

lemma length_table_append_gt: "length bs < length (table_append bs s)"
  using pad4_ge [of "length bs + length s + 1"] by (simp add: length_table_append)

section \<open>Invariant\<close>

text \<open>
  The block is padded, and every recorded offset is the aligned position of its name. The
  last two conjuncts hold while the block is smaller than \<open>2 ^ 32\<close> bytes: an offset is a
  \<open>u32\<close>, and the code casts the length without a check.
\<close>

definition table_ok :: "string_table \<Rightarrow> bool" where
  "table_ok t \<longleftrightarrow>
     length (strings t) mod 4 = 0 \<and> finite (dom (offsets t)) \<and>
     (length (strings t) \<le> 2 ^ 32 \<longrightarrow>
        (\<forall>s off. offsets t s = Some off \<longrightarrow>
           unat off mod 4 = 0 \<and> resolves (strings t) (unat off) s))"

lemma table_ok_new: "table_ok table_new"
  by (simp add: table_ok_def table_new_def)

lemma add_string_strings:
  "\<exists>ext. strings (snd (add_string t s)) = strings t @ ext"
  using table_append_prefix [of "strings t" s]
  by (auto simp: add_string_def Let_def split: option.splits)

lemma add_string_grows: "length (strings t) \<le> length (strings (snd (add_string t s)))"
  using add_string_strings [of t s] by auto

lemma table_ok_add: "table_ok t \<Longrightarrow> table_ok (snd (add_string t s))"
proof (cases "offsets t s")
  case (Some off)
  assume "table_ok t"
  with Some show ?thesis by (simp add: add_string_def)
next
  case None
  assume ok: "table_ok t"
  let ?bs = "strings t" and ?new = "table_append (strings t) s"
  have len: "length ?bs < length ?new" "length ?new mod 4 = 0"
    by (simp_all add: length_table_append_gt) (simp add: length_table_append)
  obtain ext where ext: "?new = ?bs @ ext"
    using table_append_prefix by blast
  have old: "unat off mod 4 = 0 \<and> resolves ?new (unat off) s'"
    if "length ?new \<le> 2 ^ 32" "offsets t s' = Some off" for s' off
    using ok that len(1) resolves_append [of ?bs] by (simp add: table_ok_def ext)
  have fresh: "unat (word_of_nat (length ?bs) :: u32) = length ?bs" if "length ?new \<le> 2 ^ 32"
    using that len(1) by (simp add: unat_of_nat)
  show ?thesis
    using ok None len(2) old fresh table_append_resolves [of ?bs s]
    by (auto simp: add_string_def Let_def table_ok_def)
qed

section \<open>The interface the builder relies on\<close>

text \<open>
  An interner: adding a key returns its code, later additions change no code, and adding a
  present key changes nothing. \<open>add_all\<close> is a run of additions.
\<close>

locale interner =
  fixes add :: "'t \<Rightarrow> 'k \<Rightarrow> 'c \<times> 't"
    and get :: "'t \<Rightarrow> 'k \<Rightarrow> 'c option"
  assumes get_add_same: "get (snd (add t k)) k = Some (fst (add t k))"
    and get_add_other: "get t k' = Some c \<Longrightarrow> get (snd (add t k)) k' = Some c"
    and add_present: "get t k = Some c \<Longrightarrow> add t k = (c, t)"
begin

lemma get_run_stable: "get t k = Some c \<Longrightarrow> get (foldl (\<lambda>t k. snd (add t k)) t ks) k = Some c"
  by (induction ks arbitrary: t) (auto intro: get_add_other)

lemma get_run_member:
  "k \<in> set ks \<Longrightarrow> \<exists>c. get (foldl (\<lambda>t k. snd (add t k)) t ks) k = Some c"
proof (induction ks arbitrary: t)
  case Nil
  then show ?case by simp
next
  case (Cons a ks)
  show ?case
  proof (cases "k = a")
    case True
    have "get (snd (add t a)) k = Some (fst (add t a))"
      using True get_add_same by simp
    then show ?thesis using get_run_stable by auto
  next
    case False
    with Cons show ?thesis by simp
  qed
qed

lemma add_twice: "add (snd (add t k)) k = (fst (add t k), snd (add t k))"
  by (rule add_present) (rule get_add_same)

end

interpretation str_tab: interner add_string get_offset
  by unfold_locales (auto simp: add_string_def get_offset_def Let_def split: option.splits)

interpretation str_tab_inv: invariant_machine "\<lambda>t s. snd (add_string t s)" table_ok
  by unfold_locales (rule table_ok_add)

section \<open>Properties\<close>

definition add_strings :: "string_table \<Rightarrow> string list \<Rightarrow> string_table" where
  "add_strings t ss = foldl (\<lambda>t s. snd (add_string t s)) t ss"

lemma table_ok_run: "table_ok (add_strings table_new ss)"
  unfolding add_strings_def by (rule str_tab_inv.run_inv [OF table_ok_new])

lemma get_offset_add_strings:
  "s \<in> set ss \<Longrightarrow> \<exists>off. get_offset (add_strings t ss) s = Some off"
  unfolding add_strings_def by (rule str_tab.get_run_member)

lemma get_offset_resolves:
  "table_ok t \<Longrightarrow> table_size t \<le> 2 ^ 32 \<Longrightarrow> get_offset t s = Some off \<Longrightarrow>
     unat off mod 4 = 0 \<and> resolves (table_data t) (unat off) s"
  by (auto simp: table_ok_def get_offset_def table_size_def table_data_def)

text \<open>
  The strings block. After any sequence of additions to an empty table, every added name
  has an offset; the offset is a multiple of four and the block holds the name there, up to
  its NUL, as long as the block fits the \<open>u32\<close> offsets. Adding a name again changes nothing.
\<close>

theorem string_table_resolves:
  assumes "s \<in> set ss" "nul_free s" "table_size (add_strings table_new ss) \<le> 2 ^ 32"
  shows "\<exists>off. get_offset (add_strings table_new ss) s = Some off \<and> unat off mod 4 = 0 \<and>
    name_at (table_data (add_strings table_new ss)) (unat off) = str_bytes s \<and>
    add_string (add_strings table_new ss) s = (off, add_strings table_new ss)"
proof -
  let ?t = "add_strings table_new ss"
  obtain off where off: "get_offset ?t s = Some off"
    using get_offset_add_strings [OF assms(1)] by blast
  with get_offset_resolves [OF table_ok_run assms(3) off] name_at_resolves [OF _ assms(2)]
    str_tab.add_present [OF off]
  show ?thesis by auto
qed

lemma string_table_resolves_witness:
  "\<exists>off. get_offset (add_strings table_new [''load'', ''data'']) ''data'' = Some off \<and>
     unat off mod 4 = 0 \<and>
     name_at (table_data (add_strings table_new [''load'', ''data''])) (unat off) =
       str_bytes ''data'' \<and>
     add_string (add_strings table_new [''load'', ''data'']) ''data'' =
       (off, add_strings table_new [''load'', ''data''])"
proof (rule string_table_resolves)
  have "table_size (add_strings table_new [''load'', ''data'']) = 16"
    by code_simp
  then show "table_size (add_strings table_new [''load'', ''data'']) \<le> 2 ^ 32"
    by simp
qed (simp_all add: nul_free_def)

end
