(* ===== verification/Fit_Error.thy ===== *)
theory Fit_Error
  imports Ostool_Prelude
begin

text \<open>
  The error type of the \<open>fitimage\<close> crate, \<open>fitimage/src/error.rs\<close>. An \<open>io::Error\<close> is its
  rendered text.
\<close>

datatype mkimage_error =
    InvalidImageData string
  | UnsupportedImageType string
  | UnsupportedArch string
  | UnsupportedCompression string
  | Io string
  | CrcMismatch u32 u32
  | InvalidMagic u32 u32
  | HeaderTooLarge nat nat
  | NameTooLong nat nat
  | DataTooLarge u64 u64
  | InvalidLoadAddress u64
  | InvalidEntryPoint u64
  | ConfigParse string
  | Serialization string
  | Compression string
  | FitSerialization string
  | Other string

end
