(* ===== verification/Fdt_Format.thy ===== *)
theory Fdt_Format
  imports Fit_Error
begin

text \<open>
  The fixed parts of a flattened device tree: the tokens of the structure block and their
  padding (\<open>fitimage/src/fit/fdt_tokens.rs\<close>), the 56-byte header and the memory reserve
  entries (\<open>fitimage/src/fit/fdt_header.rs\<close>). \<open>header_parse\<close> and \<open>token_at\<close> are the reader's
  side, which the code does not have; they state what the written bytes mean.
\<close>

section \<open>Tokens\<close>

datatype fdt_token = BeginNode | EndNode | Prop | Nop | End

fun token_value :: "fdt_token \<Rightarrow> u32" where
  "token_value BeginNode = 0x1"
| "token_value EndNode = 0x2"
| "token_value Prop = 0x3"
| "token_value Nop = 0x4"
| "token_value End = 0x9"

definition write_token :: "fdt_token \<Rightarrow> bytes \<Rightarrow> bytes" where
  "write_token tok buffer = buffer @ to_be 4 (token_value tok)"

definition FDT_STRUCT_ALIGN :: nat where
  "FDT_STRUCT_ALIGN = 4"

definition align_to_4_bytes :: "nat \<Rightarrow> nat" where
  "align_to_4_bytes len =
     nat ((int len + int FDT_STRUCT_ALIGN - 1) AND NOT (int FDT_STRUCT_ALIGN - 1))"

definition pad_to_alignment :: "bytes \<Rightarrow> bytes" where
  "pad_to_alignment buffer =
     (let padding_needed = align_to_4_bytes (length buffer) - length buffer
      in buffer @ replicate padding_needed 0)"

definition write_string :: "bytes \<Rightarrow> string \<Rightarrow> bytes" where
  "write_string buffer s = pad_to_alignment (buffer @ str_bytes s @ [0])"

definition write_prop_data :: "bytes \<Rightarrow> bytes \<Rightarrow> bytes" where
  "write_prop_data buffer d = pad_to_alignment (buffer @ d)"

definition write_prop_header :: "bytes \<Rightarrow> u32 \<Rightarrow> u32 \<Rightarrow> bytes" where
  "write_prop_header buffer len name_offset = buffer @ to_be 4 len @ to_be 4 name_offset"

text \<open>The mask rounds up to the next multiple of four.\<close>

lemma int_and_not_3: "k AND NOT 3 = 4 * (k div 4)" for k :: int
proof -
  have "k AND NOT (mask 2) = push_bit 2 (drop_bit 2 k)"
    by (rule bit_eqI) (auto simp: bit_simps simp del: add_2_eq_Suc add_2_eq_Suc')
  then show ?thesis
    by (simp add: mask_numeral push_bit_eq_mult drop_bit_eq_div)
qed

lemma align_to_4_bytes_eq [align_simps]: "align_to_4_bytes n = 4 * ((n + 3) div 4)"
proof -
  have "align_to_4_bytes n = nat (int (n + 3) AND NOT 3)"
    by (simp add: align_to_4_bytes_def FDT_STRUCT_ALIGN_def add.commute)
  also have "\<dots> = nat (4 * (int (n + 3) div 4))"
    by (simp only: int_and_not_3)
  also have "\<dots> = 4 * ((n + 3) div 4)"
    by (simp add: nat_mult_distrib nat_div_distrib del: of_nat_add)
  finally show ?thesis .
qed

lemma align_ge: "n \<le> align_to_4_bytes n"
  by (simp add: align_to_4_bytes_eq pad4_ge)

lemma align_least: "n \<le> 4 * m \<Longrightarrow> align_to_4_bytes n \<le> 4 * m"
  by (simp add: align_to_4_bytes_eq)

lemma length_write_token [len_simps]: "length (write_token tok b) = length b + 4"
  by (simp add: write_token_def)

lemma length_pad [len_simps]: "length (pad_to_alignment b) = align_to_4_bytes (length b)"
  using align_ge [of "length b"] by (simp add: pad_to_alignment_def Let_def)

lemma length_write_string [len_simps]:
  "length (write_string b s) = align_to_4_bytes (length b + length s + 1)"
  by (simp add: write_string_def length_pad)

lemma length_write_prop_data [len_simps]:
  "length (write_prop_data b d) = align_to_4_bytes (length b + length d)"
  by (simp add: write_prop_data_def length_pad)

lemma length_write_prop_header [len_simps]: "length (write_prop_header b l off) = length b + 8"
  by (simp add: write_prop_header_def)

text \<open>
  When the buffer is aligned, padding depends on the appended bytes only: what is written is
  the buffer followed by \<open>padded\<close> of the payload.
\<close>

definition padded :: "bytes \<Rightarrow> bytes" where
  "padded d = d @ replicate (align_to_4_bytes (length d) - length d) 0"

lemma length_padded [len_simps]: "length (padded d) = align_to_4_bytes (length d)"
  using align_ge [of "length d"] by (simp add: padded_def)

lemma length_padded_mod [simp]: "length (padded d) mod 4 = 0"
  by (simp add: length_padded align_to_4_bytes_eq)

lemma align_add: "a mod 4 = 0 \<Longrightarrow> align_to_4_bytes (a + n) = a + align_to_4_bytes n"
proof -
  assume "a mod 4 = 0"
  then obtain q where q: "a = 4 * q" by (auto simp: dvd_def)
  have "(4 * q + (n + 3)) div 4 = q + (n + 3) div 4"
    using div_mult_self2 [of 4 "n + 3" q] by (simp add: add.commute mult.commute)
  then show ?thesis
    by (simp add: align_to_4_bytes_eq q add.assoc)
qed

lemma pad_append: "length b mod 4 = 0 \<Longrightarrow> pad_to_alignment (b @ d) = b @ padded d"
  by (simp add: pad_to_alignment_def padded_def Let_def align_add)

section \<open>Header\<close>

record fdt_header =
  magic :: u32
  totalsize :: u32
  off_dt_struct :: u32
  off_dt_strings :: u32
  off_mem_rsvmap :: u32
  version :: u32
  last_comp_version :: u32
  boot_cpuid_phys :: u32
  size_dt_strings :: u32
  size_dt_struct :: u32
  reserved0 :: u32
  reserved1 :: u32
  reserved2 :: u32
  reserved3 :: u32

definition FDT_MAGIC :: u32 where
  "FDT_MAGIC = 0xd00dfeed"

definition FDT_VERSION :: u32 where
  "FDT_VERSION = 0x11"

definition FDT_LAST_COMP_VERSION :: u32 where
  "FDT_LAST_COMP_VERSION = 0x10"

text \<open>\<open>mem::size_of::<FdtHeader>()\<close>: fourteen \<open>u32\<close> fields in \<open>repr(C)\<close> order.\<close>

definition header_size :: nat where
  "header_size = 14 * 4"

definition header_new :: fdt_header where
  "header_new = \<lparr>
     magic = FDT_MAGIC, totalsize = word_of_nat header_size,
     off_dt_struct = 0, off_dt_strings = 0, off_mem_rsvmap = 0,
     version = FDT_VERSION, last_comp_version = FDT_LAST_COMP_VERSION,
     boot_cpuid_phys = 0, size_dt_strings = 0, size_dt_struct = 0,
     reserved0 = 0, reserved1 = 0, reserved2 = 0, reserved3 = 0\<rparr>"

definition header_fields :: "fdt_header \<Rightarrow> u32 list" where
  "header_fields h =
     [magic h, totalsize h, off_dt_struct h, off_dt_strings h, off_mem_rsvmap h, version h,
      last_comp_version h, boot_cpuid_phys h, size_dt_strings h, size_dt_struct h,
      reserved0 h, reserved1 h, reserved2 h, reserved3 h]"

definition write_header :: "fdt_header \<Rightarrow> bytes \<Rightarrow> bytes" where
  "write_header h buffer = buffer @ concat (map (to_be 4) (header_fields h))"

definition header_finalize ::
    "fdt_header \<Rightarrow> u32 \<Rightarrow> u32 \<Rightarrow> u32 \<Rightarrow> u32 \<Rightarrow> u32 \<Rightarrow> u32 \<Rightarrow> fdt_header" where
  "header_finalize h tsize o_struct o_strings o_rsv s_strings s_struct =
     h\<lparr>totalsize := tsize, off_dt_struct := o_struct, off_dt_strings := o_strings,
       off_mem_rsvmap := o_rsv, size_dt_strings := s_strings, size_dt_struct := s_struct\<rparr>"

definition header_validate :: "fdt_header \<Rightarrow> mkimage_error + unit" where
  "header_validate h =
     (if magic h \<noteq> FDT_MAGIC then
        Inl (InvalidImageData (''Invalid magic number: expected 0x'' @ hex_fixed 8 FDT_MAGIC @
          '', got 0x'' @ hex_fixed 8 (magic h)))
      else if version h < FDT_LAST_COMP_VERSION then
        Inl (InvalidImageData (''Unsupported version: '' @ dec_str (unat (version h)) @
          '', minimum supported: '' @ dec_str (unat FDT_LAST_COMP_VERSION)))
      else if totalsize h < word_of_nat header_size then
        Inl (InvalidImageData ''Total size smaller than header size'')
      else Inr ())"

section \<open>Memory reserve map\<close>

record mem_reserve_entry =
  address :: u64
  region_size :: u64

definition mem_reserve_new :: "u64 \<Rightarrow> u64 \<Rightarrow> mem_reserve_entry" where
  "mem_reserve_new a n = \<lparr>address = a, region_size = n\<rparr>"

definition mem_reserve_size :: nat where
  "mem_reserve_size = 2 * 8"

definition write_mem_reserve :: "mem_reserve_entry \<Rightarrow> bytes \<Rightarrow> bytes" where
  "write_mem_reserve e buffer = buffer @ to_be 8 (address e) @ to_be 8 (region_size e)"

definition write_terminator :: "bytes \<Rightarrow> bytes" where
  "write_terminator buffer = buffer @ replicate 16 0"

lemma length_write_mem_reserve [len_simps]:
  "length (write_mem_reserve e b) = length b + mem_reserve_size"
  by (simp add: write_mem_reserve_def mem_reserve_size_def)

lemma write_zero_entry: "write_mem_reserve (mem_reserve_new 0 0) b = write_terminator b"
  by (simp add: write_mem_reserve_def mem_reserve_new_def write_terminator_def to_be_def
      numeral_eq_Suc)

section \<open>Reading\<close>

fun chunks4 :: "nat \<Rightarrow> bytes \<Rightarrow> u32 list" where
  "chunks4 0 bs = []"
| "chunks4 (Suc n) bs = of_be (take 4 bs) # chunks4 n (drop 4 bs)"

definition header_parse :: "bytes \<Rightarrow> fdt_header option" where
  "header_parse bs =
     (if length bs < header_size then None
      else case chunks4 14 bs of
        [f0, f1, f2, f3, f4, f5, f6, f7, f8, f9, f10, f11, f12, f13] \<Rightarrow>
          Some \<lparr>magic = f0, totalsize = f1, off_dt_struct = f2, off_dt_strings = f3,
            off_mem_rsvmap = f4, version = f5, last_comp_version = f6, boot_cpuid_phys = f7,
            size_dt_strings = f8, size_dt_struct = f9, reserved0 = f10, reserved1 = f11,
            reserved2 = f12, reserved3 = f13\<rparr>
      | _ \<Rightarrow> None)"

lemma chunks4_concat:
  "chunks4 (length ws) (concat (map (to_be 4) ws) @ rest) = ws"
  by (induction ws) (simp_all add: of_be_to_be)

lemma length_concat_be4: "length (concat (map (to_be 4) ws)) = 4 * length ws"
  by (induction ws) simp_all

lemma length_header_fields [simp]: "length (header_fields h) = 14"
  by (simp add: header_fields_def)

lemma length_write_header [len_simps]: "length (write_header h b) = length b + header_size"
  by (simp add: write_header_def length_concat_be4 header_size_def)

lemma header_parse_write: "header_parse (write_header h [] @ rest) = Some h"
proof -
  have "chunks4 14 (concat (map (to_be 4) (header_fields h)) @ rest) = header_fields h"
    using chunks4_concat [of "header_fields h" rest] by simp
  then show ?thesis
    by (simp add: header_parse_def write_header_def length_concat_be4 header_size_def)
      (simp add: header_fields_def)
qed

end
