(* ===== verification/Fit_Config.thy ===== *)
theory Fit_Config
  imports Fit_Error "HOL-Library.AList"
begin

text \<open>
  The configuration of a FIT image (\<open>fitimage/src/fit/config.rs\<close>) and the gzip wrapper
  (\<open>fitimage/src/compression/gzip.rs\<close>). A \<open>HashMap\<close> of configurations is an association list
  in its iteration order, which Rust leaves open: every result about the builder is for an
  arbitrary order. The deflate codec itself is the crate \<open>flate2\<close>, a parameter of
  \<open>compress\<close> and \<open>decompress\<close>.
\<close>

section \<open>Components and images\<close>

record component_config =
  cname :: string
  cdata :: bytes
  cdescription :: "string option"
  component_type :: "string option"
  arch :: "string option"
  os :: "string option"
  compression :: bool
  load_address :: "u64 option"
  entry_point :: "u64 option"

record fit_configuration =
  fc_name :: string
  fc_description :: string
  fc_kernel :: "string option"
  fc_fdt :: "string option"
  fc_ramdisk :: "string option"

record fit_image_config =
  description :: string
  kernel :: "component_config option"
  fdt :: "component_config option"
  ramdisk :: "component_config option"
  default_config :: "string option"
  configurations :: "(string \<times> fit_configuration) list"

definition component_new :: "string \<Rightarrow> bytes \<Rightarrow> component_config" where
  "component_new n d = \<lparr>cname = n, cdata = d, cdescription = None, component_type = None,
     arch = None, os = None, compression = False, load_address = None, entry_point = None\<rparr>"

definition with_description :: "string \<Rightarrow> component_config \<Rightarrow> component_config" where
  "with_description s c = c\<lparr>cdescription := Some s\<rparr>"

definition with_type :: "string \<Rightarrow> component_config \<Rightarrow> component_config" where
  "with_type s c = c\<lparr>component_type := Some s\<rparr>"

definition with_arch :: "string \<Rightarrow> component_config \<Rightarrow> component_config" where
  "with_arch s c = c\<lparr>arch := Some s\<rparr>"

definition with_os :: "string \<Rightarrow> component_config \<Rightarrow> component_config" where
  "with_os s c = c\<lparr>os := Some s\<rparr>"

definition with_compression :: "bool \<Rightarrow> component_config \<Rightarrow> component_config" where
  "with_compression b c = c\<lparr>compression := b\<rparr>"

definition with_load_address :: "u64 \<Rightarrow> component_config \<Rightarrow> component_config" where
  "with_load_address a c = c\<lparr>load_address := Some a\<rparr>"

definition with_entry_point :: "u64 \<Rightarrow> component_config \<Rightarrow> component_config" where
  "with_entry_point a c = c\<lparr>entry_point := Some a\<rparr>"

definition image_config_new :: "string \<Rightarrow> fit_image_config" where
  "image_config_new d = \<lparr>description = d, kernel = None, fdt = None, ramdisk = None,
     default_config = None, configurations = []\<rparr>"

definition with_kernel :: "component_config \<Rightarrow> fit_image_config \<Rightarrow> fit_image_config" where
  "with_kernel c cfg = cfg\<lparr>kernel := Some c\<rparr>"

definition with_fdt :: "component_config \<Rightarrow> fit_image_config \<Rightarrow> fit_image_config" where
  "with_fdt c cfg = cfg\<lparr>fdt := Some c\<rparr>"

definition with_ramdisk :: "component_config \<Rightarrow> fit_image_config \<Rightarrow> fit_image_config" where
  "with_ramdisk c cfg = cfg\<lparr>ramdisk := Some c\<rparr>"

definition with_default_config :: "string \<Rightarrow> fit_image_config \<Rightarrow> fit_image_config" where
  "with_default_config s cfg = cfg\<lparr>default_config := Some s\<rparr>"

definition with_configuration ::
    "string \<Rightarrow> string \<Rightarrow> string option \<Rightarrow> string option \<Rightarrow> string option \<Rightarrow>
      fit_image_config \<Rightarrow> fit_image_config" where
  "with_configuration n d k f r cfg =
     cfg\<lparr>configurations := AList.update n
       \<lparr>fc_name = n, fc_description = d, fc_kernel = k, fc_fdt = f, fc_ramdisk = r\<rparr>
       (configurations cfg)\<rparr>"

lemma with_configuration_lookup:
  "map_of (configurations (with_configuration n d k f r cfg)) =
     (map_of (configurations cfg))(n \<mapsto>
       \<lparr>fc_name = n, fc_description = d, fc_kernel = k, fc_fdt = f, fc_ramdisk = r\<rparr>)"
  by (simp add: with_configuration_def update_conv')

lemma with_configuration_distinct:
  "distinct (map fst (configurations cfg)) \<Longrightarrow>
     distinct (map fst (configurations (with_configuration n d k f r cfg)))"
  by (simp add: with_configuration_def distinct_update)

lemma with_configuration_nonempty [simp]:
  "configurations (with_configuration n d k f r cfg) \<noteq> []"
  by (simp add: with_configuration_def update_nonempty)

section \<open>Compression\<close>

datatype gzip_level = LevelNone | LevelFast | LevelDefault | LevelBest

record gzip_compressor =
  level :: u8
  enabled :: bool

definition gzip_new :: "u8 \<Rightarrow> gzip_compressor" where
  "gzip_new l = \<lparr>level = (if 9 < l then 9 else l), enabled = (0 < l)\<rparr>"

definition gzip_default :: gzip_compressor where
  "gzip_default = gzip_new 6"

definition gzip_new_disabled :: gzip_compressor where
  "gzip_new_disabled = \<lparr>level = 0, enabled = False\<rparr>"

definition get_compression_level :: "gzip_compressor \<Rightarrow> gzip_level" where
  "get_compression_level g =
     (if \<not> enabled g then LevelNone
      else if level g = 0 then LevelNone
      else if level g = 1 then LevelFast
      else if level g = 9 then LevelBest
      else LevelDefault)"

text \<open>\<open>encode\<close> is the deflate encoder of \<open>flate2\<close> (\<open>write_all\<close> and \<open>finish\<close>), \<open>decode\<close> its decoder.\<close>

definition compress ::
    "(gzip_level \<Rightarrow> bytes \<Rightarrow> string + bytes) \<Rightarrow> gzip_compressor \<Rightarrow> bytes \<Rightarrow> mkimage_error + bytes"
  where
  "compress encode g d =
     (if \<not> enabled g then Inr d
      else case encode (get_compression_level g) d of
        Inl e \<Rightarrow> Inl (Compression e) | Inr c \<Rightarrow> Inr c)"

definition decompress ::
    "(bytes \<Rightarrow> string + bytes) \<Rightarrow> gzip_compressor \<Rightarrow> bytes \<Rightarrow> mkimage_error + bytes" where
  "decompress decode g d =
     (if \<not> enabled g then Inr d
      else case decode d of Inl e \<Rightarrow> Inl (Compression e) | Inr c \<Rightarrow> Inr c)"

definition get_name :: "gzip_compressor \<Rightarrow> string" where
  "get_name g = (if enabled g then ''gzip'' else ''none'')"

lemma compress_roundtrip:
  assumes "\<And>l d c. encode l d = Inr c \<Longrightarrow> decode c = Inr d"
    and "compress encode g d = Inr c"
  shows "decompress decode g c = Inr d"
  using assms(2)
  by (auto simp: compress_def decompress_def assms(1) split: if_splits sum.splits)

end
