(* ===== verification/Fit_Builder.thy ===== *)
theory Fit_Builder
  imports String_Table Fdt_Format Fit_Config
begin

text \<open>
  The device tree writer \<open>fitimage/src/fit/standard_dt_builder.rs\<close> and the image builder
  \<open>fitimage/src/fit/builder.rs\<close>. Every method of the writer returns \<open>Ok\<close>, so a method is a
  function from builder to builder; only the compression of a component can fail. The time
  stamp the code takes from the system clock is an argument.
\<close>

section \<open>The writer\<close>

record fdt_builder =
  fb_header :: fdt_header
  fb_table :: string_table
  fb_struct :: bytes
  fb_reserve :: "mem_reserve_entry list"

definition FDT_DATA_ALIGNMENT :: nat where
  "FDT_DATA_ALIGNMENT = 8"

definition PROPERTY_PREFIX_SIZE :: nat where
  "PROPERTY_PREFIX_SIZE = 3 * 4"

definition builder_new :: fdt_builder where
  "builder_new = \<lparr>fb_header = header_new, fb_table = table_new, fb_struct = [], fb_reserve = []\<rparr>"

definition add_default_memory_reserve :: "fdt_builder \<Rightarrow> fdt_builder" where
  "add_default_memory_reserve b = b\<lparr>fb_reserve := fb_reserve b @ [mem_reserve_new 0 0]\<rparr>"

definition begin_node :: "string \<Rightarrow> fdt_builder \<Rightarrow> fdt_builder" where
  "begin_node name b = b\<lparr>fb_struct := write_string (write_token BeginNode (fb_struct b)) name\<rparr>"

definition end_node :: "fdt_builder \<Rightarrow> fdt_builder" where
  "end_node b = b\<lparr>fb_struct := write_token EndNode (fb_struct b)\<rparr>"

definition add_property_string :: "string \<Rightarrow> string \<Rightarrow> fdt_builder \<Rightarrow> fdt_builder" where
  "add_property_string name value b =
     (let (name_offset, table) = add_string (fb_table b) name;
          buf = write_token Prop (fb_struct b);
          buf = write_prop_header buf (word_of_nat (length value) + 1) name_offset
      in b\<lparr>fb_table := table, fb_struct := write_string buf value\<rparr>)"

definition add_property_u32 :: "string \<Rightarrow> u32 \<Rightarrow> fdt_builder \<Rightarrow> fdt_builder" where
  "add_property_u32 name value b =
     (let (name_offset, table) = add_string (fb_table b) name;
          buf = write_token Prop (fb_struct b);
          buf = write_prop_header buf 4 name_offset
      in b\<lparr>fb_table := table, fb_struct := buf @ to_be 4 value\<rparr>)"

definition add_property_u64 :: "string \<Rightarrow> u64 \<Rightarrow> fdt_builder \<Rightarrow> fdt_builder" where
  "add_property_u64 name value b =
     (let (name_offset, table) = add_string (fb_table b) name;
          buf = write_token Prop (fb_struct b);
          buf = write_prop_header buf 8 name_offset
      in b\<lparr>fb_table := table, fb_struct := buf @ to_be 8 value\<rparr>)"

definition add_property_data :: "string \<Rightarrow> bytes \<Rightarrow> fdt_builder \<Rightarrow> fdt_builder" where
  "add_property_data name d b =
     (let (name_offset, table) = add_string (fb_table b) name;
          buf = write_token Prop (fb_struct b);
          buf = write_prop_header buf (word_of_nat (length d)) name_offset
      in b\<lparr>fb_table := table, fb_struct := write_prop_data buf d\<rparr>)"

definition align_fdt_data :: "fdt_builder \<Rightarrow> fdt_builder" where
  "align_fdt_data b =
     (let data_offset = header_size + length (fb_reserve b) * mem_reserve_size +
            length (fb_struct b) + PROPERTY_PREFIX_SIZE
      in if data_offset mod FDT_DATA_ALIGNMENT \<noteq> 0
         then b\<lparr>fb_struct := write_token Nop (fb_struct b)\<rparr> else b)"

definition add_fdt_property_data :: "string \<Rightarrow> bytes \<Rightarrow> fdt_builder \<Rightarrow> fdt_builder" where
  "add_fdt_property_data name d b = add_property_data name d (align_fdt_data b)"

text \<open>\<open>if let Some(x) = opt \<open>{ f(x) }\<close>\<close>.\<close>

definition if_some :: "'a option \<Rightarrow> ('a \<Rightarrow> 'b \<Rightarrow> 'b) \<Rightarrow> 'b \<Rightarrow> 'b" where
  "if_some x f b = (case x of None \<Rightarrow> b | Some y \<Rightarrow> f y b)"

definition compression_name :: "component_config \<Rightarrow> string" where
  "compression_name c = (if compression c then ''gzip'' else ''none'')"

definition add_kernel_image :: "string \<Rightarrow> component_config \<Rightarrow> fdt_builder \<Rightarrow> fdt_builder" where
  "add_kernel_image name c b =
     (let b = begin_node name b;
          b = add_property_string ''description'' (unwrap_or (cdescription c) ''Linux Kernel'') b;
          b = add_property_string ''type'' (unwrap_or (component_type c) ''kernel'') b;
          b = add_property_string ''arch'' (unwrap_or (arch c) ''arm64'') b;
          b = add_property_string ''os'' (unwrap_or (os c) ''linux'') b;
          b = add_property_string ''compression'' (compression_name c) b;
          b = if_some (load_address c) (add_property_u64 ''load'') b;
          b = if_some (entry_point c) (add_property_u64 ''entry'') b;
          b = add_property_data ''data'' (cdata c) b
      in end_node b)"

definition add_fdt_image :: "string \<Rightarrow> component_config \<Rightarrow> fdt_builder \<Rightarrow> fdt_builder" where
  "add_fdt_image name c b =
     (let b = begin_node name b;
          b = add_property_string ''description'' (unwrap_or (cdescription c) ''Device Tree Blob'') b;
          b = add_property_string ''type'' (unwrap_or (component_type c) ''flat_dt'') b;
          b = add_property_string ''arch'' (unwrap_or (arch c) ''arm64'') b;
          b = add_property_string ''compression'' (compression_name c) b;
          b = if_some (load_address c) (add_property_u64 ''load'') b;
          b = add_fdt_property_data ''data'' (cdata c) b
      in end_node b)"

definition add_ramdisk_image :: "string \<Rightarrow> component_config \<Rightarrow> fdt_builder \<Rightarrow> fdt_builder" where
  "add_ramdisk_image name c b =
     (let b = begin_node name b;
          b = add_property_string ''description'' ''Ramdisk Image'' b;
          b = add_property_string ''type'' ''ramdisk'' b;
          b = add_property_string ''arch'' (unwrap_or (arch c) ''arm64'') b;
          b = add_property_string ''os'' (unwrap_or (os c) ''linux'') b;
          b = add_property_string ''compression'' (compression_name c) b;
          b = if_some (load_address c) (add_property_u64 ''load'') b;
          b = add_property_data ''data'' (cdata c) b
      in end_node b)"

definition add_images :: "fit_image_config \<Rightarrow> fdt_builder \<Rightarrow> fdt_builder" where
  "add_images cfg b =
     (let b = if_some (kernel cfg) (\<lambda>c. add_kernel_image (cname c) c) b;
          b = if_some (fdt cfg) (\<lambda>c. add_fdt_image (cname c) c) b
      in if_some (ramdisk cfg) (\<lambda>c. add_ramdisk_image (cname c) c) b)"

definition add_configuration :: "string \<times> fit_configuration \<Rightarrow> fdt_builder \<Rightarrow> fdt_builder" where
  "add_configuration entry b =
     (let v = snd entry;
          b = begin_node (fst entry) b;
          b = add_property_string ''description'' (fc_description v) b;
          b = if_some (fc_kernel v) (add_property_string ''kernel'') b;
          b = if_some (fc_fdt v) (add_property_string ''fdt'') b;
          b = if_some (fc_ramdisk v) (add_property_string ''ramdisk'') b
      in end_node b)"

definition add_configurations :: "fit_image_config \<Rightarrow> fdt_builder \<Rightarrow> fdt_builder" where
  "add_configurations cfg b =
     (if configurations cfg = [] then
        let b = begin_node ''config-1'' b;
            b = add_property_string ''description'' ''Default configuration'' b;
            b = if_some (kernel cfg) (\<lambda>c. add_property_string ''kernel'' (cname c)) b;
            b = if_some (fdt cfg) (\<lambda>c. add_property_string ''fdt'' (cname c)) b;
            b = if_some (ramdisk cfg) (\<lambda>c. add_property_string ''ramdisk'' (cname c)) b;
            b = end_node b
        in add_property_string ''default'' ''config-1'' b
      else
        fold add_configuration (configurations cfg)
          (if_some (default_config cfg) (add_property_string ''default'') b))"

definition build_structure_block :: "u32 \<Rightarrow> fit_image_config \<Rightarrow> fdt_builder \<Rightarrow> fdt_builder" where
  "build_structure_block now cfg b =
     (let b = begin_node '''' b;
          b = add_property_u32 ''timestamp'' now b;
          b = add_property_string ''description'' (description cfg) b;
          b = add_property_u32 ''#address-cells'' 2 b;
          b = add_property_u32 ''#size-cells'' 1 b;
          b = begin_node ''images'' b;
          b = add_images cfg b;
          b = end_node b;
          b = begin_node ''configurations'' b;
          b = add_configurations cfg b;
          b = end_node b;
          b = end_node b
      in b\<lparr>fb_struct := write_token End (fb_struct b)\<rparr>)"

definition build_fit_tree :: "u32 \<Rightarrow> fit_image_config \<Rightarrow> fdt_builder \<Rightarrow> fdt_builder" where
  "build_fit_tree now cfg b = build_structure_block now cfg (add_default_memory_reserve b)"

text \<open>\<open>finalize\<close>: the four blocks in \<open>mkimage\<close> order; the sizes are cast to \<open>u32\<close> as the code does.\<close>

definition finalize_header :: "fdt_builder \<Rightarrow> fdt_header" where
  "finalize_header b =
     (let hdr_size = (word_of_nat header_size :: u32);
          rsv_size = word_of_nat (length (fb_reserve b) * mem_reserve_size);
          struct_size = word_of_nat (length (fb_struct b));
          strings_size = word_of_nat (table_size (fb_table b));
          o_struct = hdr_size + rsv_size;
          o_strings = o_struct + struct_size
      in header_finalize (fb_header b) (o_strings + strings_size) o_struct o_strings hdr_size
           strings_size struct_size)"

definition finalize :: "fdt_builder \<Rightarrow> bytes" where
  "finalize b =
     (let result = write_header (finalize_header b) [];
          result = fold write_mem_reserve (fb_reserve b) result
      in result @ fb_struct b @ table_data (fb_table b))"

section \<open>The image builder\<close>

definition compress_component ::
    "(gzip_level \<Rightarrow> bytes \<Rightarrow> string + bytes) \<Rightarrow> component_config option \<Rightarrow>
      mkimage_error + component_config option" where
  "compress_component encode oc =
     (case oc of
        None \<Rightarrow> Inr None
      | Some c \<Rightarrow>
          if compression c
          then rbind (compress encode gzip_default (cdata c)) (\<lambda>d. Inr (Some (c\<lparr>cdata := d\<rparr>)))
          else Inr (Some c))"

definition compress_config ::
    "(gzip_level \<Rightarrow> bytes \<Rightarrow> string + bytes) \<Rightarrow> fit_image_config \<Rightarrow>
      mkimage_error + fit_image_config" where
  "compress_config encode cfg =
     rbind (compress_component encode (kernel cfg)) (\<lambda>k.
     rbind (compress_component encode (fdt cfg)) (\<lambda>f.
     rbind (compress_component encode (ramdisk cfg)) (\<lambda>r.
       Inr (cfg\<lparr>kernel := k, fdt := f, ramdisk := r\<rparr>))))"

definition fit_build ::
    "(gzip_level \<Rightarrow> bytes \<Rightarrow> string + bytes) \<Rightarrow> u32 \<Rightarrow> fit_image_config \<Rightarrow> mkimage_error + bytes"
  where
  "fit_build encode now cfg =
     rbind (compress_config encode cfg) (\<lambda>cfg. Inr (finalize (build_fit_tree now cfg builder_new)))"

end
