(* ===== verification/Fit_Reader.thy ===== *)
theory Fit_Reader
  imports Fit_Builder
begin

text \<open>
  What a FIT image means: a reader of flattened device trees, and the tree that a
  configuration stands for. The code only writes images, so reader and tree are the
  specification here, and the theorems say that the writer meets it: reading the finished
  image gives the tree of the configuration, with \<open>NOP\<close> tokens only where they align the
  nested device tree blob to eight bytes.
\<close>

section \<open>Events of a structure block\<close>

datatype fdt_event = EvBegin string | EvProp string bytes | EvEnd | EvNop | EvFin

definition bytes_str :: "bytes \<Rightarrow> string" where
  "bytes_str bs = map (\<lambda>b. char_of (unat b)) bs"

lemma bytes_str_str_bytes [simp]: "bytes_str (str_bytes s) = s"
  by (simp add: bytes_str_def str_bytes_def comp_def map_idI)

definition parse_event :: "bytes \<Rightarrow> bytes \<Rightarrow> (fdt_event \<times> bytes) option" where
  "parse_event strs bs =
     (let r = drop 4 bs in
      if length bs < 4 then None
      else if of_be (take 4 bs) = token_value BeginNode then
        (let name = takeWhile (\<lambda>b. b \<noteq> 0) r; used = align_to_4_bytes (length name + 1)
         in if length r < used then None else Some (EvBegin (bytes_str name), drop used r))
      else if of_be (take 4 bs) = token_value Prop then
        (let len = unat (of_be (take 4 r) :: u32);
             off = unat (of_be (take 4 (drop 4 r)) :: u32);
             v = drop 8 r
         in if length r < 8 \<or> length v < align_to_4_bytes len then None
            else Some (EvProp (bytes_str (name_at strs off)) (take len v),
              drop (align_to_4_bytes len) v))
      else if of_be (take 4 bs) = token_value EndNode then Some (EvEnd, r)
      else if of_be (take 4 bs) = token_value Nop then Some (EvNop, r)
      else if of_be (take 4 bs) = token_value End then Some (EvFin, r)
      else None)"

lemma parse_event_shorter: "parse_event strs bs = Some (e, rest) \<Longrightarrow> length rest < length bs"
  by (auto simp: parse_event_def Let_def split: if_splits)

function parse_events :: "bytes \<Rightarrow> bytes \<Rightarrow> fdt_event list option" where
  "parse_events strs bs =
     (case parse_event strs bs of
        None \<Rightarrow> None
      | Some (e, rest) \<Rightarrow>
          if e = EvFin then Some [EvFin]
          else map_option (Cons e) (parse_events strs rest))"
  by pat_completeness auto
termination
  by (relation "measure (\<lambda>(strs, bs). length bs)") (auto dest: parse_event_shorter)

declare parse_events.simps [simp del]

definition image_events :: "bytes \<Rightarrow> fdt_event list option" where
  "image_events img =
     (case header_parse img of
        None \<Rightarrow> None
      | Some h \<Rightarrow>
          if magic h \<noteq> FDT_MAGIC \<or> unat (totalsize h) \<noteq> length img then None
          else parse_events
            (take (unat (size_dt_strings h)) (drop (unat (off_dt_strings h)) img))
            (take (unat (size_dt_struct h)) (drop (unat (off_dt_struct h)) img)))"

section \<open>Encoding of events\<close>

fun enc :: "(string \<Rightarrow> u32 option) \<Rightarrow> fdt_event \<Rightarrow> bytes" where
  "enc g (EvBegin n) = to_be 4 (token_value BeginNode) @ padded (str_bytes n @ [0])"
| "enc g (EvProp n v) =
     to_be 4 (token_value Prop) @ to_be 4 (word_of_nat (length v) :: u32) @ to_be 4 (the (g n)) @
     padded v"
| "enc g EvEnd = to_be 4 (token_value EndNode)"
| "enc g EvNop = to_be 4 (token_value Nop)"
| "enc g EvFin = to_be 4 (token_value End)"

definition enc_all :: "(string \<Rightarrow> u32 option) \<Rightarrow> fdt_event list \<Rightarrow> bytes" where
  "enc_all g evs = concat (map (enc g) evs)"

lemma enc_all_simps [simp]:
  "enc_all g [] = []"
  "enc_all g (e # evs) = enc g e @ enc_all g evs"
  "enc_all g (evs @ evs') = enc_all g evs @ enc_all g evs'"
  by (simp_all add: enc_all_def)

lemma length_enc_mod: "length (enc g e) mod 4 = 0"
  by (cases e) (auto simp: length_padded align_to_4_bytes_eq)

lemma length_enc_all_mod [simp]: "length (enc_all g evs) mod 4 = 0"
proof (induction evs)
  case Nil
  then show ?case by simp
next
  case (Cons e evs)
  then show ?case
    using length_enc_mod [of g e] by (simp add: mod_0_imp_dvd dvd_imp_mod_0)
qed

lemma token_be [simp]: "(of_be (to_be 4 (w :: u32)) :: u32) = w"
  by (simp add: of_be_to_be)

text \<open>The events a reader can tell apart: names without NUL, values shorter than \<open>2 ^ 32\<close>.\<close>

fun readable :: "fdt_event \<Rightarrow> bool" where
  "readable (EvBegin n) = nul_free n"
| "readable (EvProp n v) = (nul_free n \<and> length v < 2 ^ 32)"
| "readable _ = True"

fun prop_name_in :: "(string \<Rightarrow> u32 option) \<Rightarrow> fdt_event \<Rightarrow> bool" where
  "prop_name_in g (EvProp n v) = (g n \<noteq> None)"
| "prop_name_in g _ = True"

lemma takeWhile_padded_name:
  assumes "nul_free n"
  shows "takeWhile (\<lambda>b. b \<noteq> 0) (padded (str_bytes n @ [0]) @ rest) = str_bytes n"
  using assms by (auto simp: padded_def nul_free_def takeWhile_append)

lemma drop_padded [simp]: "drop (align_to_4_bytes (length d)) (padded d @ rest) = rest"
  by (simp add: length_padded)

lemma take_padded [simp]: "take (length d) (padded d @ rest) = d"
  by (simp add: padded_def)

lemma parse_event_enc:
  assumes "readable e" "prop_name_in g e"
    and "\<And>n off. g n = Some off \<Longrightarrow> resolves strs (unat off) n"
  shows "parse_event strs (enc g e @ rest) = Some (e, rest)"
proof (cases e)
  case (EvBegin n)
  have "drop (align_to_4_bytes (Suc (length n))) (padded (str_bytes n @ [0]) @ rest) = rest"
    using drop_padded [of "str_bytes n @ [0]" rest] by simp
  moreover have "length (padded (str_bytes n @ [0])) = align_to_4_bytes (Suc (length n))"
    by (simp add: length_padded)
  ultimately show ?thesis
    using assms(1) EvBegin by (simp add: parse_event_def takeWhile_padded_name)
next
  case (EvProp n v)
  with assms(2) obtain off where off: "g n = Some off" by auto
  have name: "name_at strs (unat off) = str_bytes n"
    using assms(1) EvProp assms(3) [OF off] by (simp add: name_at_resolves)
  have len: "unat (word_of_nat (length v) :: u32) = length v"
    using assms(1) EvProp by (simp add: unat_of_nat)
  have "take (length v) (padded v) = v" "length v - align_to_4_bytes (length v) = 0"
    using align_ge [of "length v"] by (simp_all add: padded_def)
  then show ?thesis
    using EvProp off len name by (simp add: parse_event_def length_padded)
qed (simp_all add: parse_event_def)

lemma parse_events_enc:
  assumes "\<And>n off. g n = Some off \<Longrightarrow> resolves strs (unat off) n"
    and "\<And>e. e \<in> set evs \<Longrightarrow> readable e \<and> prop_name_in g e \<and> e \<noteq> EvFin"
  shows "parse_events strs (enc_all g (evs @ [EvFin]) @ rest) = Some (evs @ [EvFin])"
  using assms(2)
proof (induction evs)
  case Nil
  have "parse_event strs (enc g EvFin @ rest) = Some (EvFin, rest)"
    by (rule parse_event_enc) (simp_all add: assms(1))
  then show ?case
    by (simp add: parse_events.simps)
next
  case (Cons e evs)
  have "parse_event strs (enc g e @ enc_all g (evs @ [EvFin]) @ rest) =
      Some (e, enc_all g (evs @ [EvFin]) @ rest)"
    by (rule parse_event_enc) (use Cons.prems assms(1) in auto)
  moreover have "e \<noteq> EvFin"
    using Cons.prems by simp
  ultimately show ?case
    using Cons by (simp add: parse_events.simps [of _ "enc g e @ _"])
qed

section \<open>What the writer has emitted\<close>

text \<open>
  \<open>represents b evs\<close>: the structure block holds the encoding of \<open>evs\<close>, with every property name
  in the string table. Each method of the writer appends its events.
\<close>

definition represents :: "fdt_builder \<Rightarrow> fdt_event list \<Rightarrow> bool" where
  "represents b evs \<longleftrightarrow>
     table_ok (fb_table b) \<and>
     fb_struct b = enc_all (get_offset (fb_table b)) evs \<and>
     (\<forall>e \<in> set evs. prop_name_in (get_offset (fb_table b)) e)"

lemma represents_aligned: "represents b evs \<Longrightarrow> length (fb_struct b) mod 4 = 0"
  by (simp add: represents_def)

lemma enc_stable:
  assumes "prop_name_in g e" "\<And>n off. g n = Some off \<Longrightarrow> g' n = Some off"
  shows "enc g' e = enc g e \<and> prop_name_in g' e"
  using assms by (cases e) fastforce+

lemma enc_all_stable:
  assumes "\<forall>e \<in> set evs. prop_name_in g e" "\<And>n off. g n = Some off \<Longrightarrow> g' n = Some off"
  shows "enc_all g' evs = enc_all g evs \<and> (\<forall>e \<in> set evs. prop_name_in g' e)"
  using assms(1) by (induction evs) (use enc_stable [OF _ assms(2)] in auto)

text \<open>The shape all four property methods share.\<close>

definition put_prop :: "string \<Rightarrow> bytes \<Rightarrow> fdt_builder \<Rightarrow> fdt_builder" where
  "put_prop n v b =
     (let (off, table) = add_string (fb_table b) n
      in b\<lparr>fb_table := table,
           fb_struct := fb_struct b @ to_be 4 (token_value Prop) @
             to_be 4 (word_of_nat (length v) :: u32) @ to_be 4 off @ padded v\<rparr>)"

lemma represents_put_prop:
  assumes "represents b evs"
  shows "represents (put_prop n v b) (evs @ [EvProp n v])"
proof -
  obtain off table where add: "add_string (fb_table b) n = (off, table)"
    by (cases "add_string (fb_table b) n")
  have same: "get_offset table n = Some off"
    using str_tab.get_add_same [of "fb_table b" n] add by simp
  have grow: "get_offset (fb_table b) k = Some c \<Longrightarrow> get_offset table k = Some c" for k c
    using str_tab.get_add_other [of "fb_table b" k c n] add by simp
  have ok: "table_ok table"
    using table_ok_add [of "fb_table b" n] assms add by (simp add: represents_def)
  show ?thesis
    using enc_all_stable [OF _ grow] assms add same ok
    by (auto simp: put_prop_def represents_def)
qed

lemma represents_struct_append:
  assumes "represents b evs" "\<And>g. enc g e = tok" "\<And>g. prop_name_in g e"
  shows "represents (b\<lparr>fb_struct := fb_struct b @ tok\<rparr>) (evs @ [e])"
  using assms by (simp add: represents_def)

lemma represents_begin_node:
  assumes "represents b evs" "es = evs @ [EvBegin n]"
  shows "represents (begin_node n b) es"
proof -
  have "begin_node n b = b\<lparr>fb_struct := fb_struct b @ enc g (EvBegin n)\<rparr>" for g
    using represents_aligned [OF assms(1)]
      pad_append [of "fb_struct b @ to_be 4 (token_value BeginNode)" "str_bytes n @ [0]"]
    by (simp add: begin_node_def write_string_def write_token_def mod_add_self2)
  then show ?thesis
    using represents_struct_append [OF assms(1), of "EvBegin n"] assms(2) by simp
qed

lemma represents_end_node:
  "represents b evs \<Longrightarrow> es = evs @ [EvEnd] \<Longrightarrow> represents (end_node b) es"
  by (simp add: end_node_def write_token_def represents_struct_append)

lemma padded_aligned: "length d mod 4 = 0 \<Longrightarrow> padded d = d"
  by (simp add: padded_def align_to_4_bytes_eq pad4_id)

lemma add_property_u32_put: "add_property_u32 n w b = put_prop n (to_be 4 w) b"
  by (simp add: add_property_u32_def put_prop_def write_token_def write_prop_header_def
      padded_aligned split: prod.splits)

lemma add_property_u64_put: "add_property_u64 n w b = put_prop n (to_be 8 w) b"
  by (simp add: add_property_u64_def put_prop_def write_token_def write_prop_header_def
      padded_aligned split: prod.splits)

lemma prop_prefix_aligned:
  assumes "length bs mod 4 = 0"
  shows "length (bs @ to_be 4 (t :: u32) @ to_be 4 (l :: u32) @ to_be 4 (o' :: u32)) mod 4 = 0"
  using assms by (simp add: mod_add_left_eq [symmetric, of "length bs"])

lemma add_property_data_put:
  "length (fb_struct b) mod 4 = 0 \<Longrightarrow> add_property_data n v b = put_prop n v b"
  by (simp add: add_property_data_def put_prop_def write_token_def write_prop_header_def
      write_prop_data_def pad_append [OF prop_prefix_aligned, simplified] split: prod.splits)

lemma add_property_string_put:
  "length (fb_struct b) mod 4 = 0 \<Longrightarrow>
     add_property_string n s b = put_prop n (str_bytes s @ [0]) b"
  by (simp add: add_property_string_def put_prop_def write_token_def write_prop_header_def
      write_string_def add.commute pad_append [OF prop_prefix_aligned, simplified]
      split: prod.splits)

text \<open>One rule per method, in the shape backward chaining needs.\<close>

lemma represents_string:
  "represents b evs \<Longrightarrow> es = evs @ [EvProp n (str_bytes s @ [0])] \<Longrightarrow>
     represents (add_property_string n s b) es"
  by (simp add: add_property_string_put represents_aligned represents_put_prop)

lemma represents_u32:
  "represents b evs \<Longrightarrow> es = evs @ [EvProp n (to_be 4 w)] \<Longrightarrow>
     represents (add_property_u32 n w b) es"
  by (simp add: add_property_u32_put represents_put_prop)

lemma represents_data:
  "represents b evs \<Longrightarrow> es = evs @ [EvProp n v] \<Longrightarrow> represents (add_property_data n v b) es"
  by (simp add: add_property_data_put represents_aligned represents_put_prop)

lemma represents_opt_u64:
  "represents b evs \<Longrightarrow>
     es = evs @ (case x of None \<Rightarrow> [] | Some w \<Rightarrow> [EvProp n (to_be 8 w)]) \<Longrightarrow>
     represents (if_some x (add_property_u64 n) b) es"
  by (cases x) (simp_all add: if_some_def add_property_u64_put represents_put_prop)

lemma represents_opt_string:
  "represents b evs \<Longrightarrow>
     es = evs @ (case x of None \<Rightarrow> [] | Some y \<Rightarrow> [EvProp n (str_bytes (f y) @ [0])]) \<Longrightarrow>
     represents (if_some x (\<lambda>y. add_property_string n (f y)) b) es"
  by (cases x) (simp_all add: if_some_def represents_string)

lemmas represents_opt_string_id = represents_opt_string [where f = "\<lambda>y. y"]

lemmas represents_rules =
  represents_begin_node represents_end_node represents_string represents_u32 represents_data
  represents_opt_u64 represents_opt_string represents_opt_string_id

text \<open>Aligning the nested blob: at most one \<open>NOP\<close>, after which the payload is 8-byte aligned.\<close>

definition payload_offset :: "fdt_builder \<Rightarrow> nat" where
  "payload_offset b =
     header_size + length (fb_reserve b) * mem_reserve_size + length (fb_struct b) +
     PROPERTY_PREFIX_SIZE"

lemma align_fdt_data_reserve: "fb_reserve (align_fdt_data b) = fb_reserve b"
  by (simp add: align_fdt_data_def Let_def)

lemma mod8_step: "n mod 4 = 0 \<Longrightarrow> n mod 8 \<noteq> 0 \<Longrightarrow> (n + 4) mod 8 = 0" for n :: nat
proof -
  assume "n mod 4 = 0" and n8: "n mod 8 \<noteq> 0"
  then obtain q where q: "n = 4 * q" by (auto simp: dvd_def)
  have "4 * m mod 8 = 4 * (m mod 2)" for m :: nat
    using mult_mod_right [of 4 m 2] by simp
  from this [of q] this [of "Suc q"] n8 show ?thesis
    by (auto simp: q odd_iff_mod_2_eq_one mod_Suc add.commute split: if_splits)
qed

lemma align_fdt_data_aligned:
  assumes "length (fb_struct b) mod 4 = 0"
  shows "payload_offset (align_fdt_data b) mod 8 = 0"
proof -
  have "payload_offset b mod 4 = 0"
    using assms
    by (simp add: payload_offset_def header_size_def mem_reserve_size_def PROPERTY_PREFIX_SIZE_def)
      (simp add: mod_0_imp_dvd dvd_imp_mod_0)
  from mod8_step [OF this] show ?thesis
    by (auto simp: align_fdt_data_def Let_def payload_offset_def write_token_def
        FDT_DATA_ALIGNMENT_def add.commute add.left_commute)
qed

lemma represents_align:
  assumes "represents b evs"
  shows "\<exists>nops. set nops \<subseteq> {EvNop} \<and> represents (align_fdt_data b) (evs @ nops)"
proof (cases "payload_offset b mod 8 = 0")
  case True
  then have "align_fdt_data b = b"
    by (simp add: align_fdt_data_def Let_def payload_offset_def FDT_DATA_ALIGNMENT_def)
  with assms show ?thesis by (intro exI [of _ "[]"]) simp
next
  case False
  then have "align_fdt_data b = b\<lparr>fb_struct := fb_struct b @ to_be 4 (token_value Nop)\<rparr>"
    by (simp add: align_fdt_data_def Let_def payload_offset_def FDT_DATA_ALIGNMENT_def
        write_token_def)
  with represents_struct_append [OF assms, of EvNop] show ?thesis
    by (intro exI [of _ "[EvNop]"]) simp
qed

section \<open>The tree of a configuration\<close>

datatype dt_item = DtProp string bytes | DtNode string "dt_item list"

fun events :: "dt_item \<Rightarrow> fdt_event list" where
  "events (DtProp n v) = [EvProp n v]"
| "events (DtNode n items) = EvBegin n # concat (map events items) @ [EvEnd]"

definition str_prop :: "string \<Rightarrow> string \<Rightarrow> dt_item" where
  "str_prop n s = DtProp n (str_bytes s @ [0])"

definition opt_items :: "'a option \<Rightarrow> ('a \<Rightarrow> dt_item) \<Rightarrow> dt_item list" where
  "opt_items x f = (case x of None \<Rightarrow> [] | Some y \<Rightarrow> [f y])"

definition kernel_item :: "component_config \<Rightarrow> dt_item" where
  "kernel_item c = DtNode (cname c)
     ([str_prop ''description'' (unwrap_or (cdescription c) ''Linux Kernel''),
       str_prop ''type'' (unwrap_or (component_type c) ''kernel''),
       str_prop ''arch'' (unwrap_or (arch c) ''arm64''),
       str_prop ''os'' (unwrap_or (os c) ''linux''),
       str_prop ''compression'' (compression_name c)] @
      opt_items (load_address c) (\<lambda>a. DtProp ''load'' (to_be 8 a)) @
      opt_items (entry_point c) (\<lambda>a. DtProp ''entry'' (to_be 8 a)) @
      [DtProp ''data'' (cdata c)])"

definition fdt_items :: "component_config \<Rightarrow> dt_item list" where
  "fdt_items c =
     [str_prop ''description'' (unwrap_or (cdescription c) ''Device Tree Blob''),
      str_prop ''type'' (unwrap_or (component_type c) ''flat_dt''),
      str_prop ''arch'' (unwrap_or (arch c) ''arm64''),
      str_prop ''compression'' (compression_name c)] @
     opt_items (load_address c) (\<lambda>a. DtProp ''load'' (to_be 8 a))"

definition fdt_item :: "component_config \<Rightarrow> dt_item" where
  "fdt_item c = DtNode (cname c) (fdt_items c @ [DtProp ''data'' (cdata c)])"

definition ramdisk_item :: "component_config \<Rightarrow> dt_item" where
  "ramdisk_item c = DtNode (cname c)
     ([str_prop ''description'' ''Ramdisk Image'',
       str_prop ''type'' ''ramdisk'',
       str_prop ''arch'' (unwrap_or (arch c) ''arm64''),
       str_prop ''os'' (unwrap_or (os c) ''linux''),
       str_prop ''compression'' (compression_name c)] @
      opt_items (load_address c) (\<lambda>a. DtProp ''load'' (to_be 8 a)) @
      [DtProp ''data'' (cdata c)])"

definition configuration_item :: "string \<times> fit_configuration \<Rightarrow> dt_item" where
  "configuration_item entry = DtNode (fst entry)
     (str_prop ''description'' (fc_description (snd entry)) #
      opt_items (fc_kernel (snd entry)) (str_prop ''kernel'') @
      opt_items (fc_fdt (snd entry)) (str_prop ''fdt'') @
      opt_items (fc_ramdisk (snd entry)) (str_prop ''ramdisk''))"

definition configuration_items :: "fit_image_config \<Rightarrow> dt_item list" where
  "configuration_items cfg =
     (if configurations cfg = [] then
        [DtNode ''config-1''
           (str_prop ''description'' ''Default configuration'' #
            opt_items (kernel cfg) (\<lambda>c. str_prop ''kernel'' (cname c)) @
            opt_items (fdt cfg) (\<lambda>c. str_prop ''fdt'' (cname c)) @
            opt_items (ramdisk cfg) (\<lambda>c. str_prop ''ramdisk'' (cname c))),
         str_prop ''default'' ''config-1'']
      else
        opt_items (default_config cfg) (str_prop ''default'') @
        map configuration_item (configurations cfg))"

definition fit_tree :: "u32 \<Rightarrow> fit_image_config \<Rightarrow> dt_item" where
  "fit_tree now cfg = DtNode ''''
     [DtProp ''timestamp'' (to_be 4 now),
      str_prop ''description'' (description cfg),
      DtProp ''#address-cells'' (to_be 4 (2 :: u32)),
      DtProp ''#size-cells'' (to_be 4 (1 :: u32)),
      DtNode ''images''
        (opt_items (kernel cfg) kernel_item @ opt_items (fdt cfg) fdt_item @
         opt_items (ramdisk cfg) ramdisk_item),
      DtNode ''configurations'' (configuration_items cfg)]"

lemmas item_defs = str_prop_def opt_items_def kernel_item_def fdt_items_def fdt_item_def
  ramdisk_item_def configuration_item_def configuration_items_def

section \<open>The writer emits the tree\<close>

lemma represents_kernel:
  "represents b evs \<Longrightarrow> represents (add_kernel_image (cname c) c b) (evs @ events (kernel_item c))"
  unfolding add_kernel_image_def Let_def
  by ((rule represents_rules | assumption | rule refl)+)
    (auto simp: item_defs split: option.splits)

lemma represents_ramdisk:
  "represents b evs \<Longrightarrow>
     represents (add_ramdisk_image (cname c) c b) (evs @ events (ramdisk_item c))"
  unfolding add_ramdisk_image_def Let_def
  by ((rule represents_rules | assumption | rule refl)+)
    (auto simp: item_defs split: option.splits)

lemma represents_configuration:
  "represents b evs \<Longrightarrow>
     represents (add_configuration e b) (evs @ events (configuration_item e))"
  unfolding add_configuration_def Let_def
  by ((rule represents_rules | assumption | rule refl)+)
    (auto simp: item_defs split: option.splits)

lemma represents_configuration_list:
  "represents b evs \<Longrightarrow>
     represents (fold add_configuration cs b) (evs @ concat (map (events \<circ> configuration_item) cs))"
proof (induction cs arbitrary: b evs)
  case Nil
  then show ?case by simp
next
  case (Cons a cs)
  from Cons.IH [OF represents_configuration [OF Cons.prems]] show ?case by simp
qed

lemma represents_configurations:
  assumes "represents b evs"
  shows "represents (add_configurations cfg b)
    (evs @ concat (map events (configuration_items cfg)))"
proof (cases "configurations cfg = []")
  case True
  show ?thesis
    unfolding add_configurations_def Let_def if_P [OF True]
    by ((rule represents_rules assms | assumption | rule refl)+)
      (auto simp: item_defs True split: option.splits)
next
  case False
  have "represents (if_some (default_config cfg) (add_property_string ''default'') b)
      (evs @ concat (map events (opt_items (default_config cfg) (str_prop ''default''))))"
    by (rule represents_opt_string_id [OF assms]) (auto simp: item_defs split: option.splits)
  from represents_configuration_list [OF this] False show ?thesis
    by (simp add: add_configurations_def configuration_items_def)
qed

text \<open>Positions: the size of an event does not depend on the string table.\<close>

definition event_size :: "fdt_event \<Rightarrow> nat" where
  "event_size e = length (enc (\<lambda>_. None) e)"

definition stream_size :: "fdt_event list \<Rightarrow> nat" where
  "stream_size evs = sum_list (map event_size evs)"

lemma length_enc: "length (enc g e) = event_size e"
  by (cases e) (simp_all add: event_size_def)

lemma length_enc_all: "length (enc_all g evs) = stream_size evs"
  by (induction evs) (simp_all add: stream_size_def length_enc)

text \<open>
  Where in the image the value of a property starts, given the events before it: header, one
  reserve entry, the events, then token, length and name offset.
\<close>

definition payload_position :: "fdt_event list \<Rightarrow> nat" where
  "payload_position evs = header_size + mem_reserve_size + stream_size evs + PROPERTY_PREFIX_SIZE"

lemma payload_offset_position:
  "represents b evs \<Longrightarrow> length (fb_reserve b) = 1 \<Longrightarrow> payload_offset b = payload_position evs"
  by (simp add: payload_offset_def payload_position_def represents_def length_enc_all)

text \<open>The methods leave the reserve map and the header alone.\<close>

lemma frame_basic [simp]:
  "fb_reserve (begin_node n b) = fb_reserve b" "fb_header (begin_node n b) = fb_header b"
  "fb_reserve (end_node b) = fb_reserve b" "fb_header (end_node b) = fb_header b"
  "fb_reserve (add_property_string n s b) = fb_reserve b"
  "fb_header (add_property_string n s b) = fb_header b"
  "fb_reserve (add_property_u32 n w b) = fb_reserve b"
  "fb_header (add_property_u32 n w b) = fb_header b"
  "fb_reserve (add_property_u64 n a b) = fb_reserve b"
  "fb_header (add_property_u64 n a b) = fb_header b"
  "fb_reserve (add_property_data n d b) = fb_reserve b"
  "fb_header (add_property_data n d b) = fb_header b"
  "fb_reserve (align_fdt_data b) = fb_reserve b" "fb_header (align_fdt_data b) = fb_header b"
  by (simp_all add: begin_node_def end_node_def add_property_string_def add_property_u32_def
      add_property_u64_def add_property_data_def align_fdt_data_def Let_def split: prod.splits)

lemma frame_if_some:
  "(\<And>y b. fb_reserve (f y b) = fb_reserve b) \<Longrightarrow> fb_reserve (if_some x f b) = fb_reserve b"
  "(\<And>y b. fb_header (f y b) = fb_header b) \<Longrightarrow> fb_header (if_some x f b) = fb_header b"
  by (simp_all add: if_some_def split: option.splits)

lemma frame_images [simp]:
  "fb_reserve (add_kernel_image n c b) = fb_reserve b"
  "fb_header (add_kernel_image n c b) = fb_header b"
  "fb_reserve (add_fdt_image n c b) = fb_reserve b"
  "fb_header (add_fdt_image n c b) = fb_header b"
  "fb_reserve (add_ramdisk_image n c b) = fb_reserve b"
  "fb_header (add_ramdisk_image n c b) = fb_header b"
  "fb_reserve (add_configuration e b) = fb_reserve b"
  "fb_header (add_configuration e b) = fb_header b"
  by (simp_all add: add_kernel_image_def add_fdt_image_def add_ramdisk_image_def
      add_configuration_def add_fdt_property_data_def frame_if_some Let_def)

lemma frame_configuration_list [simp]:
  "fb_reserve (fold add_configuration cs b) = fb_reserve b"
  "fb_header (fold add_configuration cs b) = fb_header b"
  by (induction cs arbitrary: b) simp_all

lemma frame_tree [simp]:
  "fb_reserve (add_images cfg b) = fb_reserve b" "fb_header (add_images cfg b) = fb_header b"
  "fb_reserve (add_configurations cfg b) = fb_reserve b"
  "fb_header (add_configurations cfg b) = fb_header b"
  by (simp_all add: add_images_def add_configurations_def frame_if_some Let_def)

lemma build_fit_tree_frame:
  "fb_reserve (build_fit_tree now cfg builder_new) = [mem_reserve_new 0 0]"
  "fb_header (build_fit_tree now cfg builder_new) = header_new"
  by (simp_all add: build_fit_tree_def build_structure_block_def add_default_memory_reserve_def
      builder_new_def Let_def)

text \<open>The device tree blob: its payload starts at a multiple of eight.\<close>

definition fdt_aligned :: "component_config \<Rightarrow> fdt_event list \<Rightarrow> bool" where
  "fdt_aligned c evs \<longleftrightarrow>
     (\<exists>pre nops post.
        evs = pre @ [EvBegin (cname c)] @ concat (map events (fdt_items c)) @ nops @
          [EvProp ''data'' (cdata c), EvEnd] @ post \<and>
        set nops \<subseteq> {EvNop} \<and>
        8 dvd payload_position
          (pre @ [EvBegin (cname c)] @ concat (map events (fdt_items c)) @ nops))"

lemma fdt_aligned_append: "fdt_aligned c evs \<Longrightarrow> fdt_aligned c (evs @ ext)"
  unfolding fdt_aligned_def by (elim exE conjE) (rule exI conjI | simp | assumption)+

lemma represents_fdt:
  assumes "represents b evs" "length (fb_reserve b) = 1"
  shows "\<exists>nops. set nops \<subseteq> {EvNop} \<and>
    represents (add_fdt_image (cname c) c b)
      (evs @ [EvBegin (cname c)] @ concat (map events (fdt_items c)) @ nops @
        [EvProp ''data'' (cdata c), EvEnd]) \<and>
    8 dvd payload_position (evs @ [EvBegin (cname c)] @ concat (map events (fdt_items c)) @ nops)"
proof -
  define b1 where "b1 = if_some (load_address c) (add_property_u64 ''load'')
    (add_property_string ''compression'' (compression_name c)
    (add_property_string ''arch'' (unwrap_or (arch c) ''arm64'')
    (add_property_string ''type'' (unwrap_or (component_type c) ''flat_dt'')
    (add_property_string ''description'' (unwrap_or (cdescription c) ''Device Tree Blob'')
      (begin_node (cname c) b)))))"
  define evs1 where "evs1 = evs @ [EvBegin (cname c)] @ concat (map events (fdt_items c))"
  have b1: "represents b1 evs1"
    unfolding b1_def evs1_def
    by ((rule represents_rules assms | assumption | rule refl)+)
      (auto simp: item_defs split: option.splits)
  from represents_align [OF b1] obtain nops
    where nops: "set nops \<subseteq> {EvNop}" and b2: "represents (align_fdt_data b1) (evs1 @ nops)"
    by blast
  have one: "length (fb_reserve (align_fdt_data b1)) = 1"
    using assms(2) by (simp add: b1_def frame_if_some)
  have dvd: "8 dvd payload_position (evs1 @ nops)"
    using align_fdt_data_aligned [OF represents_aligned [OF b1]]
    by (simp add: payload_offset_position [OF b2 one] mod_0_imp_dvd)
  have "represents (end_node (add_property_data ''data'' (cdata c) (align_fdt_data b1)))
      ((evs1 @ nops) @ [EvProp ''data'' (cdata c), EvEnd])"
    by ((rule represents_rules b2 | assumption | rule refl)+) simp
  moreover have "add_fdt_image (cname c) c b =
      end_node (add_property_data ''data'' (cdata c) (align_fdt_data b1))"
    by (simp add: add_fdt_image_def b1_def add_fdt_property_data_def Let_def)
  ultimately show ?thesis
    using nops dvd by (intro exI [of _ nops]) (simp add: evs1_def)
qed

text \<open>The events of the tree, up to \<open>NOP\<close>s: \<open>realises evs items\<close>.\<close>

definition strip_nops :: "fdt_event list \<Rightarrow> fdt_event list" where
  "strip_nops evs = filter (\<lambda>e. e \<noteq> EvNop) evs"

lemma strip_nops_simps [simp]:
  "strip_nops [] = []"
  "strip_nops (e # evs) = (if e = EvNop then strip_nops evs else e # strip_nops evs)"
  "strip_nops (evs @ evs') = strip_nops evs @ strip_nops evs'"
  by (simp_all add: strip_nops_def)

lemma strip_nops_nops: "set nops \<subseteq> {EvNop} \<Longrightarrow> strip_nops nops = []"
  by (auto simp: strip_nops_def filter_empty_conv)

lemma events_plain: "e \<in> set (events i) \<Longrightarrow> e \<noteq> EvNop \<and> e \<noteq> EvFin"
  by (induction i) auto

lemma strip_nops_events [simp]: "strip_nops (events i) = events i"
  unfolding strip_nops_def using events_plain by (auto simp: filter_id_conv)

lemma strip_nops_event_list [simp]:
  "strip_nops (concat (map events items)) = concat (map events items)"
  by (induction items) simp_all

lemma represents_images:
  assumes "represents b evs" "length (fb_reserve b) = 1"
  shows "\<exists>es. represents (add_images cfg b) (evs @ es) \<and>
    strip_nops es = concat (map events
      (opt_items (kernel cfg) kernel_item @ opt_items (fdt cfg) fdt_item @
       opt_items (ramdisk cfg) ramdisk_item)) \<and>
    (\<forall>c. fdt cfg = Some c \<longrightarrow> fdt_aligned c (evs @ es))"
proof -
  define b1 where "b1 = if_some (kernel cfg) (\<lambda>c. add_kernel_image (cname c) c) b"
  define es1 where "es1 = concat (map events (opt_items (kernel cfg) kernel_item))"
  have b1: "represents b1 (evs @ es1)" "length (fb_reserve b1) = 1"
    using assms by (auto simp: b1_def es1_def if_some_def opt_items_def represents_kernel
        split: option.splits)
  define b2 where "b2 = if_some (fdt cfg) (\<lambda>c. add_fdt_image (cname c) c) b1"
  have "\<exists>es2. represents b2 (evs @ es1 @ es2) \<and>
      strip_nops es2 = concat (map events (opt_items (fdt cfg) fdt_item)) \<and>
      (\<forall>c. fdt cfg = Some c \<longrightarrow> fdt_aligned c (evs @ es1 @ es2))"
  proof (cases "fdt cfg")
    case None
    with b1 show ?thesis
      by (intro exI [of _ "[]"]) (simp add: b2_def if_some_def opt_items_def)
  next
    case (Some c)
    from represents_fdt [OF b1, of c] obtain nops where nops: "set nops \<subseteq> {EvNop}"
      and rep: "represents (add_fdt_image (cname c) c b1)
        ((evs @ es1) @ [EvBegin (cname c)] @ concat (map events (fdt_items c)) @ nops @
          [EvProp ''data'' (cdata c), EvEnd])"
      and dvd: "8 dvd payload_position
        ((evs @ es1) @ [EvBegin (cname c)] @ concat (map events (fdt_items c)) @ nops)"
      by blast
    let ?es2 = "[EvBegin (cname c)] @ concat (map events (fdt_items c)) @ nops @
      [EvProp ''data'' (cdata c), EvEnd]"
    have "fdt_aligned c (evs @ es1 @ ?es2)"
      unfolding fdt_aligned_def using nops dvd
      by (intro exI [of _ "evs @ es1"] exI [of _ nops] exI [of _ "[]"]) simp
    moreover have "strip_nops ?es2 = concat (map events (opt_items (fdt cfg) fdt_item))"
      using nops by (simp add: strip_nops_nops Some opt_items_def fdt_item_def)
    ultimately show ?thesis
      using rep Some by (intro exI [of _ ?es2]) (simp add: b2_def if_some_def)
  qed
  then obtain es2 where es2: "represents b2 (evs @ es1 @ es2)"
    "strip_nops es2 = concat (map events (opt_items (fdt cfg) fdt_item))"
    "\<And>c. fdt cfg = Some c \<Longrightarrow> fdt_aligned c (evs @ es1 @ es2)"
    by blast
  define es3 where "es3 = concat (map events (opt_items (ramdisk cfg) ramdisk_item))"
  have "add_images cfg b = if_some (ramdisk cfg) (\<lambda>c. add_ramdisk_image (cname c) c) b2"
    by (simp add: add_images_def Let_def b1_def b2_def)
  then have "represents (add_images cfg b) ((evs @ es1 @ es2) @ es3)"
    using represents_ramdisk [OF es2(1)] es2(1)
    by (cases "ramdisk cfg") (simp_all add: if_some_def es3_def opt_items_def)
  moreover have "fdt cfg = Some c \<Longrightarrow> fdt_aligned c (evs @ es1 @ es2 @ es3)" for c
    using fdt_aligned_append [OF es2(3)] by simp
  ultimately show ?thesis
    using es2(2) by (intro exI [of _ "es1 @ es2 @ es3"]) (simp add: es1_def es3_def)
qed

lemma represents_tree:
  "\<exists>evs. represents (build_fit_tree now cfg builder_new) (evs @ [EvFin]) \<and>
     strip_nops evs = events (fit_tree now cfg) \<and>
     (\<forall>c. fdt cfg = Some c \<longrightarrow> fdt_aligned c evs)"
proof -
  define b0 where "b0 = begin_node ''images'' (add_property_u32 ''#size-cells'' 1
    (add_property_u32 ''#address-cells'' 2 (add_property_string ''description'' (description cfg)
    (add_property_u32 ''timestamp'' now
    (begin_node '''' (add_default_memory_reserve builder_new))))))"
  define evs0 where "evs0 = EvBegin '''' # concat (map events
    [DtProp ''timestamp'' (to_be 4 now), str_prop ''description'' (description cfg),
     DtProp ''#address-cells'' (to_be 4 (2 :: u32)), DtProp ''#size-cells'' (to_be 4 (1 :: u32))]) @
    [EvBegin ''images'']"
  have start: "represents (add_default_memory_reserve builder_new) []"
    by (simp add: represents_def add_default_memory_reserve_def builder_new_def table_ok_new)
  have b0: "represents b0 evs0"
    unfolding b0_def evs0_def
    by ((rule represents_rules start | assumption | rule refl)+) (simp add: str_prop_def)
  have one: "length (fb_reserve b0) = 1"
    by (simp add: b0_def add_default_memory_reserve_def builder_new_def)
  from represents_images [OF b0 one, of cfg] obtain es where
    es: "represents (add_images cfg b0) (evs0 @ es)"
    and strip: "strip_nops es = concat (map events
      (opt_items (kernel cfg) kernel_item @ opt_items (fdt cfg) fdt_item @
       opt_items (ramdisk cfg) ramdisk_item))"
    and al: "\<And>c. fdt cfg = Some c \<Longrightarrow> fdt_aligned c (evs0 @ es)"
    by blast
  define b2 where "b2 = begin_node ''configurations'' (end_node (add_images cfg b0))"
  have b2: "represents b2 ((evs0 @ es) @ [EvEnd, EvBegin ''configurations''])"
    unfolding b2_def by ((rule represents_rules es | assumption | rule refl)+) simp
  let ?evs = "evs0 @ es @ [EvEnd, EvBegin ''configurations''] @
    concat (map events (configuration_items cfg)) @ [EvEnd, EvEnd]"
  have b3: "represents (end_node (end_node (add_configurations cfg b2))) ?evs"
    by ((rule represents_rules represents_configurations [OF b2] | assumption | rule refl)+) simp
  have "build_fit_tree now cfg builder_new =
      (let b = end_node (end_node (add_configurations cfg b2))
       in b\<lparr>fb_struct := fb_struct b @ to_be 4 (token_value End)\<rparr>)"
    by (simp add: build_fit_tree_def build_structure_block_def Let_def b0_def b2_def
        write_token_def)
  then have "represents (build_fit_tree now cfg builder_new) (?evs @ [EvFin])"
    using represents_struct_append [OF b3, of EvFin] by (simp add: Let_def)
  moreover have "strip_nops ?evs = events (fit_tree now cfg)"
    using strip by (simp add: evs0_def fit_tree_def str_prop_def)
  moreover have "fdt cfg = Some c \<Longrightarrow> fdt_aligned c ?evs" for c
    using fdt_aligned_append [OF al] by simp
  ultimately show ?thesis by blast
qed

end
