(* ===== verification/Fit_Properties.thy ===== *)
theory Fit_Properties
  imports Fit_Reader
begin

text \<open>
  The properties of the image writer: layout of the finished blob, the round trip through the
  reader of \<open>Fit_Reader\<close>, the string table, the header.
\<close>

section \<open>Layout of the finished image\<close>

lemma length_finalize:
  "length (finalize b) = header_size + length (fb_reserve b) * mem_reserve_size +
     length (fb_struct b) + table_size (fb_table b)"
proof -
  have "length (fold write_mem_reserve es bs) = length bs + length es * mem_reserve_size" for es bs
    by (induction es arbitrary: bs) (simp_all add: length_write_mem_reserve)
  then show ?thesis
    by (simp add: finalize_def Let_def length_write_header table_size_def table_data_def)
qed

lemma finalize_layout:
  assumes "fb_reserve b = [mem_reserve_new 0 0]"
  shows "finalize b = write_header (finalize_header b) [] @ replicate 16 0 @
    fb_struct b @ table_data (fb_table b)"
  by (simp add: finalize_def Let_def assms write_zero_entry write_terminator_def)

lemma finalize_header_exact:
  assumes "length (finalize b) < 2 ^ 32" "fb_header b = header_new"
  defines "h \<equiv> finalize_header b"
  defines "s \<equiv> header_size + length (fb_reserve b) * mem_reserve_size"
  shows "magic h = FDT_MAGIC \<and> version h = FDT_VERSION \<and>
    unat (off_mem_rsvmap h) = header_size \<and>
    unat (off_dt_struct h) = s \<and>
    unat (size_dt_struct h) = length (fb_struct b) \<and>
    unat (off_dt_strings h) = s + length (fb_struct b) \<and>
    unat (size_dt_strings h) = table_size (fb_table b) \<and>
    unat (totalsize h) = length (finalize b)"
proof -
  have small: "s + length (fb_struct b) + table_size (fb_table b) < 2 ^ 32"
    using assms(1) by (simp add: s_def length_finalize)
  have exact: "unat (word_of_nat n :: u32) = n" if "n < 2 ^ 32" for n
    using that by (simp add: unat_of_nat)
  show ?thesis
    using small assms(2)
    by (simp add: h_def finalize_header_def Let_def header_finalize_def header_new_def s_def
        length_finalize exact del: of_nat_add of_nat_mult flip: of_nat_add of_nat_mult)
qed

lemma image_events_finalize:
  assumes "fb_reserve b = [mem_reserve_new 0 0]" "fb_header b = header_new"
    and "length (finalize b) < 2 ^ 32"
  shows "image_events (finalize b) = parse_events (table_data (fb_table b)) (fb_struct b)"
proof -
  let ?h = "finalize_header b"
  have "header_parse (finalize b) = Some ?h"
    unfolding finalize_layout [OF assms(1)] by (rule header_parse_write)
  moreover have "drop (header_size + 16) (finalize b) = fb_struct b @ table_data (fb_table b)"
    by (simp add: finalize_layout [OF assms(1)] length_write_header)
  moreover have "drop (header_size + 16 + length (fb_struct b)) (finalize b) =
      table_data (fb_table b)"
    by (simp add: finalize_layout [OF assms(1)] length_write_header)
  ultimately show ?thesis
    using finalize_header_exact [OF assms(3) assms(2)] assms(1)
    by (simp add: image_events_def mem_reserve_size_def table_size_def table_data_def)
qed

text \<open>What a reader must be able to tell apart: node names without NUL.\<close>

fun node_names :: "dt_item \<Rightarrow> string list" where
  "node_names (DtProp n v) = [n]"
| "node_names (DtNode n items) = n # concat (map node_names items)"

lemma events_names:
  "EvBegin n \<in> set (events i) \<or> EvProp n v \<in> set (events i) \<Longrightarrow> n \<in> set (node_names i)"
  by (induction i) auto

definition config_names :: "fit_image_config \<Rightarrow> string list" where
  "config_names cfg =
     map fst (configurations cfg) @
     map cname (concat (map (\<lambda>x. case x of None \<Rightarrow> [] | Some c \<Rightarrow> [c])
       [kernel cfg, fdt cfg, ramdisk cfg]))"

lemma nul_free_code: "nul_free s \<longleftrightarrow> (\<forall>c \<in> set s. c \<noteq> CHR 0x00)"
proof -
  have eq: "(0 :: u8) = of_char c \<longleftrightarrow> c = CHR 0x00" for c
    using of_char_byte_eq_iff [of "CHR 0x00" c] by (simp only: of_char_Char) auto
  show ?thesis
    by (simp add: nul_free_def str_bytes_def image_iff eq del: of_char_byte_eq_iff) blast
qed

lemma item_names:
  "set (node_names (str_prop n s)) = {n}"
  "(\<Union>i \<in> set (opt_items x f). set (node_names i)) =
     (case x of None \<Rightarrow> {} | Some y \<Rightarrow> set (node_names (f y)))"
  by (simp_all add: str_prop_def opt_items_def split: option.splits)

lemma image_names:
  "n \<in> set (node_names (kernel_item c)) \<Longrightarrow> n = cname c \<or> nul_free n"
  "n \<in> set (node_names (fdt_item c)) \<Longrightarrow> n = cname c \<or> nul_free n"
  "n \<in> set (node_names (ramdisk_item c)) \<Longrightarrow> n = cname c \<or> nul_free n"
  by (auto simp: kernel_item_def fdt_item_def fdt_items_def ramdisk_item_def item_names
      nul_free_code split: option.splits)

lemma configuration_names:
  "n \<in> set (node_names (configuration_item e)) \<Longrightarrow> n = fst e \<or> nul_free n"
  by (auto simp: configuration_item_def item_names nul_free_code split: option.splits)

lemma configurations_names:
  assumes "i \<in> set (configuration_items cfg)" "n \<in> set (node_names i)"
  shows "n \<in> fst ` set (configurations cfg) \<or> nul_free n"
proof (cases "configurations cfg = []")
  case True
  have "n \<in> (\<Union>i \<in> set (configuration_items cfg). set (node_names i))"
    using assms by blast
  then show ?thesis
    by (auto simp: configuration_items_def True item_names nul_free_code split: option.splits)
next
  case False
  have "i \<in> set (opt_items (default_config cfg) (str_prop ''default'')) \<or>
      (\<exists>e \<in> set (configurations cfg). i = configuration_item e)"
    using assms(1) False by (auto simp: configuration_items_def)
  then show ?thesis
  proof
    assume "i \<in> set (opt_items (default_config cfg) (str_prop ''default''))"
    with assms(2) have "n = ''default''"
      by (auto simp: opt_items_def str_prop_def split: option.splits)
    then show ?thesis by (simp add: nul_free_code)
  next
    assume "\<exists>e \<in> set (configurations cfg). i = configuration_item e"
    with assms(2) configuration_names show ?thesis by auto
  qed
qed

lemma opt_item_names:
  assumes "i \<in> set (opt_items x f)" "n \<in> set (node_names i)"
    and "\<And>c. n \<in> set (node_names (f c)) \<Longrightarrow> n = cname c \<or> nul_free n"
  shows "(\<exists>c. x = Some c \<and> n = cname c) \<or> nul_free n"
  using assms by (auto simp: opt_items_def split: option.splits)

lemma config_names_iff:
  "n \<in> set (config_names cfg) \<longleftrightarrow> n \<in> fst ` set (configurations cfg) \<or>
     (\<exists>c. (kernel cfg = Some c \<or> fdt cfg = Some c \<or> ramdisk cfg = Some c) \<and> n = cname c)"
  by (auto 4 4 simp: config_names_def split: option.splits dest: sym)

lemma fit_tree_names:
  assumes "n \<in> set (node_names (fit_tree now cfg))"
  shows "n \<in> set (config_names cfg) \<or> nul_free n"
proof -
  have "n \<in> {'''', ''timestamp'', ''description'', ''#address-cells'', ''#size-cells'', ''images'',
      ''configurations''} \<or>
    (\<exists>i \<in> set (opt_items (kernel cfg) kernel_item). n \<in> set (node_names i)) \<or>
    (\<exists>i \<in> set (opt_items (fdt cfg) fdt_item). n \<in> set (node_names i)) \<or>
    (\<exists>i \<in> set (opt_items (ramdisk cfg) ramdisk_item). n \<in> set (node_names i)) \<or>
    (\<exists>i \<in> set (configuration_items cfg). n \<in> set (node_names i))"
    using assms by (auto simp: fit_tree_def str_prop_def)
  then consider "nul_free n"
    | i where "i \<in> set (opt_items (kernel cfg) kernel_item)" "n \<in> set (node_names i)"
    | i where "i \<in> set (opt_items (fdt cfg) fdt_item)" "n \<in> set (node_names i)"
    | i where "i \<in> set (opt_items (ramdisk cfg) ramdisk_item)" "n \<in> set (node_names i)"
    | i where "i \<in> set (configuration_items cfg)" "n \<in> set (node_names i)"
    by (auto simp: nul_free_code)
  then show ?thesis
  proof cases
    case 2
    from opt_item_names [OF this image_names(1)] show ?thesis by (auto simp: config_names_iff)
  next
    case 3
    from opt_item_names [OF this image_names(2)] show ?thesis by (auto simp: config_names_iff)
  next
    case 4
    from opt_item_names [OF this image_names(3)] show ?thesis by (auto simp: config_names_iff)
  next
    case 5
    from configurations_names [OF this] show ?thesis by (auto simp: config_names_iff)
  qed simp
qed

lemma enc_in_all: "e \<in> set evs \<Longrightarrow> event_size e \<le> stream_size evs"
  by (auto simp: stream_size_def dest: split_list)

lemma strip_nops_mem: "e \<in> set evs \<Longrightarrow> e = EvNop \<or> e \<in> set (strip_nops evs)"
  by (auto simp: strip_nops_def)

lemma event_size_prop: "length v \<le> event_size (EvProp n v)"
  using align_ge [of "length v"] by (simp add: event_size_def length_padded)

text \<open>The value of a property stands in the image where \<open>payload_position\<close> says.\<close>

lemma drop_prefix: "drop (length xs) (xs @ ys) = ys"
  by simp

lemma payload_at:
  assumes "represents b (pre @ EvProp n v # post)" "fb_reserve b = [mem_reserve_new 0 0]"
  shows "take (length v) (drop (payload_position pre) (finalize b)) = v"
proof -
  let ?g = "get_offset (fb_table b)"
  let ?front = "write_header (finalize_header b) [] @ replicate 16 0 @ enc_all ?g pre @
    to_be 4 (token_value Prop) @ to_be 4 (word_of_nat (length v) :: u32) @ to_be 4 (the (?g n))"
  have "finalize b = ?front @ padded v @ enc_all ?g post @ table_data (fb_table b)"
    using assms(1) unfolding finalize_layout [OF assms(2)] by (simp add: represents_def)
  moreover have "payload_position pre = length ?front"
    by (simp add: payload_position_def length_write_header length_enc_all mem_reserve_size_def
        PROPERTY_PREFIX_SIZE_def)
  ultimately have "drop (payload_position pre) (finalize b) =
      padded v @ enc_all ?g post @ table_data (fb_table b)"
    by (simp only: drop_prefix)
  then show ?thesis by (simp only: take_padded)
qed

lemma tree_image_events:
  assumes "length (finalize (build_fit_tree now cfg builder_new)) < 2 ^ 32"
    and "\<forall>n \<in> set (config_names cfg). nul_free n"
  shows "\<exists>evs. image_events (finalize (build_fit_tree now cfg builder_new)) = Some (evs @ [EvFin]) \<and>
    strip_nops evs = events (fit_tree now cfg) \<and>
    (\<forall>c. fdt cfg = Some c \<longrightarrow> fdt_aligned c evs) \<and>
    (\<forall>pre n v post. evs = pre @ EvProp n v # post \<longrightarrow>
       take (length v) (drop (payload_position pre)
         (finalize (build_fit_tree now cfg builder_new))) = v)"
proof -
  let ?b = "build_fit_tree now cfg builder_new"
  from represents_tree [of now cfg] obtain evs where rep: "represents ?b (evs @ [EvFin])"
    and strip: "strip_nops evs = events (fit_tree now cfg)"
    and al: "\<forall>c. fdt cfg = Some c \<longrightarrow> fdt_aligned c evs"
    by blast
  let ?g = "get_offset (fb_table ?b)"
  have size: "stream_size evs < 2 ^ 32" "table_size (fb_table ?b) \<le> 2 ^ 32"
    using assms(1) rep
    by (simp_all add: length_finalize represents_def length_enc_all stream_size_def
        del: enc_all_simps)
  have small: "length v < 2 ^ 32" if "EvProp n v \<in> set evs" for n v
    using enc_in_all [OF that] event_size_prop [of v n] size(1) by linarith
  have name: "nul_free n" if "EvBegin n \<in> set evs \<or> EvProp n v \<in> set evs" for n v
  proof -
    from that have "EvBegin n \<in> set (events (fit_tree now cfg)) \<or>
        EvProp n v \<in> set (events (fit_tree now cfg))"
      using strip_nops_mem [of "EvBegin n" evs] strip_nops_mem [of "EvProp n v" evs] strip by auto
    then show ?thesis
      using events_names fit_tree_names assms(2) by blast
  qed
  have fin: "e \<noteq> EvFin" if "e \<in> set evs" for e
    using strip_nops_mem [OF that] events_plain strip by auto
  have read: "readable e \<and> prop_name_in ?g e \<and> e \<noteq> EvFin" if "e \<in> set evs" for e
  proof -
    have "readable e"
    proof (cases e)
      case (EvBegin n)
      with that name show ?thesis by simp
    next
      case (EvProp n v)
      with that name [of n v] small [of n v] show ?thesis by simp
    qed simp_all
    with that fin rep show ?thesis by (simp add: represents_def)
  qed
  have "parse_events (table_data (fb_table ?b)) (enc_all ?g (evs @ [EvFin]) @ []) =
      Some (evs @ [EvFin])"
    by (rule parse_events_enc)
      (use read rep size(2) get_offset_resolves in \<open>auto simp: represents_def\<close>)
  then have "parse_events (table_data (fb_table ?b)) (fb_struct ?b) = Some (evs @ [EvFin])"
    using rep by (simp add: represents_def)
  moreover have "take (length v) (drop (payload_position pre) (finalize ?b)) = v"
    if "evs = pre @ EvProp n v # post" for pre n v post
    using payload_at [OF _ build_fit_tree_frame(1), of now cfg pre n v "post @ [EvFin]"] rep that
    by simp
  ultimately show ?thesis
    using strip al image_events_finalize [OF build_fit_tree_frame assms(1)] by auto
qed

section \<open>Compression of the components\<close>

lemma compress_component_cases:
  "compress_component encode oc = Inr oc' \<longleftrightarrow>
     (oc = None \<and> oc' = None) \<or>
     (\<exists>c d. oc = Some c \<and> oc' = Some (c\<lparr>cdata := d\<rparr>) \<and>
        (if compression c then compress encode gzip_default (cdata c) = Inr d else d = cdata c))"
  by (auto simp: compress_component_def rbind_Inr_iff split: option.splits)

lemma compress_component_name:
  "compress_component encode oc = Inr oc' \<Longrightarrow> map_option cname oc' = map_option cname oc"
  by (auto simp: compress_component_cases split: if_splits)

lemma compress_config_Inr:
  "compress_config encode cfg = Inr cfg' \<longleftrightarrow>
     (\<exists>k f r. compress_component encode (kernel cfg) = Inr k \<and>
        compress_component encode (fdt cfg) = Inr f \<and>
        compress_component encode (ramdisk cfg) = Inr r \<and>
        cfg' = cfg\<lparr>kernel := k, fdt := f, ramdisk := r\<rparr>)"
  by (auto simp: compress_config_def rbind_Inr_iff)

lemma map_cname_opt:
  "map_option cname x = map_option cname y \<Longrightarrow>
     map cname (case x of None \<Rightarrow> [] | Some c \<Rightarrow> [c]) = map cname (case y of None \<Rightarrow> [] | Some c \<Rightarrow> [c])"
  by (cases x; cases y) simp_all

lemma compress_config_names:
  assumes "compress_config encode cfg = Inr cfg'"
  shows "config_names cfg' = config_names cfg"
proof -
  from assms obtain k f r where parts: "compress_component encode (kernel cfg) = Inr k"
    "compress_component encode (fdt cfg) = Inr f" "compress_component encode (ramdisk cfg) = Inr r"
    and cfg': "cfg' = cfg\<lparr>kernel := k, fdt := f, ramdisk := r\<rparr>"
    by (auto simp: compress_config_Inr)
  show ?thesis
    using parts [THEN compress_component_name, THEN map_cname_opt] cfg'
    by (simp add: config_names_def)
qed

lemma fit_build_Inr:
  "fit_build encode now cfg = Inr img \<longleftrightarrow>
     (\<exists>cfg'. compress_config encode cfg = Inr cfg' \<and>
        img = finalize (build_fit_tree now cfg' builder_new))"
  by (auto simp: fit_build_def rbind_Inr_iff)

lemma fit_build_events:
  assumes "fit_build encode now cfg = Inr img" "length img < 2 ^ 32"
    and "\<forall>n \<in> set (config_names cfg). nul_free n"
  obtains cfg' evs where "compress_config encode cfg = Inr cfg'"
    "img = finalize (build_fit_tree now cfg' builder_new)"
    "image_events img = Some (evs @ [EvFin])"
    "strip_nops evs = events (fit_tree now cfg')"
    "\<forall>c. fdt cfg' = Some c \<longrightarrow> fdt_aligned c evs"
    "\<forall>pre n v post. evs = pre @ EvProp n v # post \<longrightarrow>
       take (length v) (drop (payload_position pre) img) = v"
proof -
  from assms(1) obtain cfg' where cfg': "compress_config encode cfg = Inr cfg'"
    and img: "img = finalize (build_fit_tree now cfg' builder_new)"
    by (auto simp: fit_build_Inr)
  with assms(2,3) compress_config_names [OF cfg'] tree_image_events [of now cfg'] that
  show ?thesis by auto
qed

section \<open>Witness data\<close>

definition demo_component :: component_config where
  "demo_component = with_load_address 0x40200000 (component_new ''k'' [1, 2, 3, 4, 5])"

definition demo_dtb :: component_config where
  "demo_dtb = component_new ''d'' [0xd0, 0x0d, 0xfe, 0xed, 7]"

definition demo_config :: fit_image_config where
  "demo_config = with_fdt demo_dtb (with_kernel demo_component (image_config_new ''demo''))"

definition demo_image :: bytes where
  "demo_image = finalize (build_fit_tree 7 demo_config builder_new)"

lemma demo_length: "length demo_image = 712"
  by code_simp

lemma demo_build:
  "fit_build (\<lambda>l d. Inr d) 7 demo_config = Inr demo_image"
  by (simp add: fit_build_def compress_config_def compress_component_def demo_image_def
      demo_config_def demo_component_def demo_dtb_def component_new_def with_load_address_def
      with_kernel_def with_fdt_def image_config_new_def)

lemma demo_names: "\<forall>n \<in> set (config_names demo_config). nul_free n"
  by (simp add: config_names_def demo_config_def demo_component_def demo_dtb_def
      component_new_def with_load_address_def with_kernel_def with_fdt_def image_config_new_def
      nul_free_code)

section \<open>Properties\<close>

text \<open>
  C1: round trip of the image builder. Whenever \<open>FitImageBuilder::build\<close> succeeds and the image
  is smaller than \<open>2 ^ 32\<close> bytes, a device tree reader accepts the image (header, sizes,
  offsets, tokens, padding, name offsets) and reads, up to alignment \<open>NOP\<close>s, exactly the tree
  of the compressed configuration, in the order of the code.
\<close>

theorem fit_build_roundtrip:
  assumes "fit_build encode now cfg = Inr img" "length img < 2 ^ 32"
    and "\<forall>n \<in> set (config_names cfg). nul_free n"
  shows "\<exists>cfg' evs. compress_config encode cfg = Inr cfg' \<and>
    image_events img = Some (evs @ [EvFin]) \<and>
    strip_nops evs = events (fit_tree now cfg')"
  by (rule fit_build_events [OF assms]) blast

lemma fit_build_roundtrip_witness:
  "\<exists>cfg' evs. compress_config (\<lambda>l d. Inr d) demo_config = Inr cfg' \<and>
     image_events demo_image = Some (evs @ [EvFin]) \<and>
     strip_nops evs = events (fit_tree 7 cfg')"
  by (rule fit_build_roundtrip [OF demo_build _ demo_names]) (simp add: demo_length)

text \<open>
  The nested device tree blob is aligned. In the image of a configuration with a device
  tree, the reader finds the node of the blob with its properties, then only \<open>NOP\<close>s, then
  \<open>data\<close>. The bytes of the (compressed) blob stand in the image at the offset the events before
  them determine, and this offset is a multiple of eight.
\<close>

theorem fit_build_fdt_aligned:
  assumes "fit_build encode now cfg = Inr img" "length img < 2 ^ 32"
    and "\<forall>n \<in> set (config_names cfg). nul_free n"
    and "fdt cfg = Some c"
  shows "\<exists>d pre nops post. compress_component encode (Some c) = Inr (Some (c\<lparr>cdata := d\<rparr>)) \<and>
    image_events img = Some ((pre @ [EvBegin (cname c)] @ concat (map events (fdt_items c)) @ nops) @
      [EvProp ''data'' d, EvEnd] @ post) \<and>
    set nops \<subseteq> {EvNop} \<and>
    (let off = payload_position
       (pre @ [EvBegin (cname c)] @ concat (map events (fdt_items c)) @ nops)
     in 8 dvd off \<and> take (length d) (drop off img) = d)"
proof (rule fit_build_events [OF assms(1-3)])
  fix cfg' evs
  assume cfg': "compress_config encode cfg = Inr cfg'"
    and evs: "image_events img = Some (evs @ [EvFin])"
    and al: "\<forall>c. fdt cfg' = Some c \<longrightarrow> fdt_aligned c evs"
    and at: "\<forall>pre n v post. evs = pre @ EvProp n v # post \<longrightarrow>
      take (length v) (drop (payload_position pre) img) = v"
  from cfg' assms(4) obtain f where f: "compress_component encode (Some c) = Inr f" "fdt cfg' = f"
    by (auto simp: compress_config_Inr)
  then obtain d where d: "f = Some (c\<lparr>cdata := d\<rparr>)"
    by (auto simp: compress_component_cases)
  have "fdt_items (c\<lparr>cdata := d\<rparr>) = fdt_items c"
    by (simp add: fdt_items_def compression_name_def)
  moreover have "fdt_aligned (c\<lparr>cdata := d\<rparr>) evs"
    using al f d by simp
  ultimately obtain pre nops post where
    split: "evs = (pre @ [EvBegin (cname c)] @ concat (map events (fdt_items c)) @ nops) @
      [EvProp ''data'' d, EvEnd] @ post"
    "set nops \<subseteq> {EvNop}"
    "8 dvd payload_position (pre @ [EvBegin (cname c)] @ concat (map events (fdt_items c)) @ nops)"
    unfolding fdt_aligned_def by auto
  moreover have "take (length d) (drop (payload_position
      (pre @ [EvBegin (cname c)] @ concat (map events (fdt_items c)) @ nops)) img) = d"
    by (rule at [rule_format, of _ "''data''" d "EvEnd # post"]) (simp add: split)
  ultimately show ?thesis using f d evs
    by (intro exI [of _ d] exI [of _ pre] exI [of _ nops] exI [of _ "post @ [EvFin]"])
      (simp add: Let_def)
qed

lemma fit_build_fdt_aligned_witness:
  "\<exists>d pre nops post. compress_component (\<lambda>l d. Inr d) (Some demo_dtb) =
       Inr (Some (demo_dtb\<lparr>cdata := d\<rparr>)) \<and>
     image_events demo_image = Some ((pre @ [EvBegin (cname demo_dtb)] @
       concat (map events (fdt_items demo_dtb)) @ nops) @ [EvProp ''data'' d, EvEnd] @ post) \<and>
     set nops \<subseteq> {EvNop} \<and>
     (let off = payload_position (pre @ [EvBegin (cname demo_dtb)] @
        concat (map events (fdt_items demo_dtb)) @ nops)
      in 8 dvd off \<and> take (length d) (drop off demo_image) = d)"
  by (rule fit_build_fdt_aligned [OF demo_build _ demo_names])
    (simp_all add: demo_length demo_config_def with_fdt_def)

text \<open>
  A node's properties come before its subnodes: the order the device tree format prescribes
  and \<open>libfdt\<close> relies on when it looks a property up.
\<close>

fun is_node :: "dt_item \<Rightarrow> bool" where
  "is_node (DtNode n items) = True"
| "is_node (DtProp n v) = False"

fun props_first :: "dt_item \<Rightarrow> bool" where
  "props_first (DtProp n v) = True"
| "props_first (DtNode n items) =
     (list_all is_node (dropWhile (\<lambda>i. \<not> is_node i) items) \<and> list_all props_first items)"

lemma str_prop_simps [simp]: "\<not> is_node (str_prop n s)" "props_first (str_prop n s)"
  by (simp_all add: str_prop_def)

lemma props_first_leaf: "list_all (\<lambda>i. \<not> is_node i) items \<Longrightarrow> props_first (DtNode n items)"
proof -
  assume leaf: "list_all (\<lambda>i. \<not> is_node i) items"
  then have "dropWhile (\<lambda>i. \<not> is_node i) items = []"
    by (simp add: list_all_iff dropWhile_eq_Nil_conv)
  moreover have "props_first i" if "\<not> is_node i" for i
    using that by (cases i) simp_all
  ultimately show ?thesis
    using leaf by (simp only: props_first.simps) (simp add: list_all_iff)
qed

lemma leaf_items:
  "props_first (kernel_item c)" "props_first (fdt_item c)" "props_first (ramdisk_item c)"
  "props_first (configuration_item e)"
  unfolding kernel_item_def fdt_item_def ramdisk_item_def configuration_item_def
  by (rule props_first_leaf, simp add: fdt_items_def opt_items_def split: option.splits)+

lemma item_is_node:
  "is_node (kernel_item c)" "is_node (fdt_item c)" "is_node (ramdisk_item c)"
  "is_node (configuration_item e)"
  by (simp_all add: kernel_item_def fdt_item_def ramdisk_item_def configuration_item_def)

lemma props_first_images:
  "props_first (DtNode ''images''
     (opt_items (kernel cfg) kernel_item @ opt_items (fdt cfg) fdt_item @
      opt_items (ramdisk cfg) ramdisk_item))"
  by (simp add: opt_items_def leaf_items item_is_node list_all_iff split: option.splits)

lemma props_first_configurations:
  "props_first (DtNode ''configurations'' (configuration_items cfg)) \<longleftrightarrow> configurations cfg \<noteq> []"
proof (cases "configurations cfg")
  case Nil
  then show ?thesis by (simp add: configuration_items_def)
next
  case (Cons e es)
  have "dropWhile (\<lambda>i. \<not> is_node i) (configuration_items cfg) =
      map configuration_item (configurations cfg)"
    by (simp add: configuration_items_def Cons opt_items_def item_is_node split: option.splits)
  moreover have "list_all props_first (configuration_items cfg)"
    by (cases "default_config cfg")
      (simp_all add: configuration_items_def Cons opt_items_def leaf_items list_all_iff)
  ultimately show ?thesis
    by (simp add: Cons item_is_node list_all_iff)
qed

text \<open>
  The order of properties and subnodes. The image of a configuration encodes a tree in
  which every node's properties precede its subnodes exactly when the caller gave explicit
  configurations: the automatic configuration writes \<open>default\<close> after the subnode \<open>config-1\<close>.
\<close>

theorem fit_build_property_order:
  assumes "fit_build encode now cfg = Inr img" "length img < 2 ^ 32"
    and "\<forall>n \<in> set (config_names cfg). nul_free n"
  shows "\<exists>evs t. image_events img = Some (evs @ [EvFin]) \<and> strip_nops evs = events t \<and>
    (props_first t \<longleftrightarrow> configurations cfg \<noteq> [])"
proof (rule fit_build_events [OF assms])
  fix cfg' evs
  assume cfg': "compress_config encode cfg = Inr cfg'"
    and evs: "image_events img = Some (evs @ [EvFin])" "strip_nops evs = events (fit_tree now cfg')"
  have "configurations cfg' = configurations cfg"
    using cfg' by (auto simp: compress_config_Inr)
  then have "props_first (fit_tree now cfg') \<longleftrightarrow> configurations cfg \<noteq> []"
    using props_first_images [of cfg'] props_first_configurations [of cfg']
    by (simp add: fit_tree_def del: props_first.simps(2)) (simp add: str_prop_def)
  with evs show ?thesis by blast
qed

lemma fit_build_property_order_witness:
  "\<exists>evs t. image_events demo_image = Some (evs @ [EvFin]) \<and> strip_nops evs = events t \<and>
     (props_first t \<longleftrightarrow> configurations demo_config \<noteq> [])"
  by (rule fit_build_property_order [OF demo_build _ demo_names]) (simp add: demo_length)

definition config_components :: "fit_image_config \<Rightarrow> component_config list" where
  "config_components cfg =
     concat (map (\<lambda>x. case x of None \<Rightarrow> [] | Some c \<Rightarrow> [c]) [kernel cfg, fdt cfg, ramdisk cfg])"

definition compression_error ::
    "(gzip_level \<Rightarrow> bytes \<Rightarrow> string + bytes) \<Rightarrow> component_config \<Rightarrow> string option" where
  "compression_error encode c =
     (if compression c
      then case encode LevelDefault (cdata c) of Inl e \<Rightarrow> Some e | Inr d \<Rightarrow> None
      else None)"

text \<open>
  When the build fails. It fails exactly when the encoder fails on a component that asks
  for compression, with the error of the first such component in the order kernel, device
  tree, ramdisk; nothing else in the builder can fail.
\<close>

theorem fit_build_error:
  "fit_build encode now cfg = Inl e \<longleftrightarrow>
     (\<exists>m. map Compression (List.map_filter (compression_error encode) (config_components cfg)) =
        e # m)"
proof -
  have step: "compress_component encode oc =
      (case List.map_filter (compression_error encode) (case oc of None \<Rightarrow> [] | Some c \<Rightarrow> [c]) of
         m # _ \<Rightarrow> Inl (Compression m)
       | [] \<Rightarrow> Inr (map_option (\<lambda>c. c\<lparr>cdata := (if compression c
           then (case encode LevelDefault (cdata c) of Inr d \<Rightarrow> d) else cdata c)\<rparr>) oc))" for oc
    by (auto simp: compress_component_def compression_error_def rbind_def compress_def
        gzip_default_def gzip_new_def get_compression_level_def List.map_filter_simps
        split: option.splits sum.splits)
  have split: "List.map_filter f (xs @ ys) = List.map_filter f xs @ List.map_filter f ys"
    for f :: "component_config \<Rightarrow> string option" and xs ys
    by (simp add: List.map_filter_def)
  show ?thesis
    unfolding fit_build_def compress_config_def step config_components_def
    by (simp add: split split: list.split)
qed

text \<open>
  The header. The header of a finished image smaller than \<open>2 ^ 32\<close> bytes is what a parser of
  the first 56 bytes reads back; \<open>validate\<close> accepts it, and every offset and size in it is the
  true, unwrapped one: the reserve map after the header, then the structure block, then the
  strings, adding up to the total.
\<close>

theorem image_header_exact:
  assumes "length (finalize (build_fit_tree now cfg builder_new)) < 2 ^ 32"
  shows "let b = build_fit_tree now cfg builder_new; img = finalize b; h = finalize_header b in
    header_parse img = Some h \<and> header_validate h = Inr () \<and>
    unat (totalsize h) = length img \<and>
    unat (off_mem_rsvmap h) = 56 \<and> unat (off_dt_struct h) = 72 \<and>
    unat (off_dt_strings h) = 72 + unat (size_dt_struct h) \<and>
    unat (totalsize h) = unat (off_dt_strings h) + unat (size_dt_strings h) \<and>
    take (unat (size_dt_struct h)) (drop (unat (off_dt_struct h)) img) = fb_struct b \<and>
    drop (unat (off_dt_strings h)) img = table_data (fb_table b)"
proof -
  let ?b = "build_fit_tree now cfg builder_new"
  note frame = build_fit_tree_frame [of now cfg]
  have parse: "header_parse (finalize ?b) = Some (finalize_header ?b)"
    unfolding finalize_layout [OF frame(1)] by (rule header_parse_write)
  have drops: "drop 72 (finalize ?b) = fb_struct ?b @ table_data (fb_table ?b)"
    "drop (72 + length (fb_struct ?b)) (finalize ?b) = table_data (fb_table ?b)"
    unfolding finalize_layout [OF frame(1)]
    by (simp_all add: length_write_header header_size_def)
  note exact = finalize_header_exact [OF assms frame(2)]
  have big: "\<not> totalsize (finalize_header ?b) < word_of_nat header_size"
    using exact
    by (simp add: word_less_nat_alt header_size_def length_finalize)
  have "header_validate (finalize_header ?b) = Inr ()"
    using exact big
    by (simp add: header_validate_def FDT_VERSION_def FDT_LAST_COMP_VERSION_def)
  with parse drops exact frame(1) show ?thesis
    by (simp add: Let_def length_finalize header_size_def mem_reserve_size_def)
qed

lemma image_header_exact_witness:
  "header_parse demo_image = Some (finalize_header (build_fit_tree 7 demo_config builder_new))"
  using image_header_exact [of 7 demo_config] demo_length
  by (simp add: demo_image_def Let_def)

end
