(* ===== verification/Crc16.thy ===== *)
theory Crc16
  imports Ostool_Prelude
begin

text \<open>
  The checksum of the YMODEM frames, \<open>uboot-shell/src/crc.rs\<close>: the table-driven CRC-16/CCITT,
  and the bitwise division by \<open>x^16 + x^12 + x^5 + 1\<close> the comment says it implements.
\<close>

section \<open>The table and the loop\<close>

definition CRC16_TAB :: "u16 list" where
  "CRC16_TAB = [
    0x0000, 0x1021, 0x2042, 0x3063, 0x4084, 0x50a5, 0x60c6, 0x70e7, 0x8108, 0x9129, 0xa14a, 0xb16b,
    0xc18c, 0xd1ad, 0xe1ce, 0xf1ef, 0x1231, 0x0210, 0x3273, 0x2252, 0x52b5, 0x4294, 0x72f7, 0x62d6,
    0x9339, 0x8318, 0xb37b, 0xa35a, 0xd3bd, 0xc39c, 0xf3ff, 0xe3de, 0x2462, 0x3443, 0x0420, 0x1401,
    0x64e6, 0x74c7, 0x44a4, 0x5485, 0xa56a, 0xb54b, 0x8528, 0x9509, 0xe5ee, 0xf5cf, 0xc5ac, 0xd58d,
    0x3653, 0x2672, 0x1611, 0x0630, 0x76d7, 0x66f6, 0x5695, 0x46b4, 0xb75b, 0xa77a, 0x9719, 0x8738,
    0xf7df, 0xe7fe, 0xd79d, 0xc7bc, 0x48c4, 0x58e5, 0x6886, 0x78a7, 0x0840, 0x1861, 0x2802, 0x3823,
    0xc9cc, 0xd9ed, 0xe98e, 0xf9af, 0x8948, 0x9969, 0xa90a, 0xb92b, 0x5af5, 0x4ad4, 0x7ab7, 0x6a96,
    0x1a71, 0x0a50, 0x3a33, 0x2a12, 0xdbfd, 0xcbdc, 0xfbbf, 0xeb9e, 0x9b79, 0x8b58, 0xbb3b, 0xab1a,
    0x6ca6, 0x7c87, 0x4ce4, 0x5cc5, 0x2c22, 0x3c03, 0x0c60, 0x1c41, 0xedae, 0xfd8f, 0xcdec, 0xddcd,
    0xad2a, 0xbd0b, 0x8d68, 0x9d49, 0x7e97, 0x6eb6, 0x5ed5, 0x4ef4, 0x3e13, 0x2e32, 0x1e51, 0x0e70,
    0xff9f, 0xefbe, 0xdfdd, 0xcffc, 0xbf1b, 0xaf3a, 0x9f59, 0x8f78, 0x9188, 0x81a9, 0xb1ca, 0xa1eb,
    0xd10c, 0xc12d, 0xf14e, 0xe16f, 0x1080, 0x00a1, 0x30c2, 0x20e3, 0x5004, 0x4025, 0x7046, 0x6067,
    0x83b9, 0x9398, 0xa3fb, 0xb3da, 0xc33d, 0xd31c, 0xe37f, 0xf35e, 0x02b1, 0x1290, 0x22f3, 0x32d2,
    0x4235, 0x5214, 0x6277, 0x7256, 0xb5ea, 0xa5cb, 0x95a8, 0x8589, 0xf56e, 0xe54f, 0xd52c, 0xc50d,
    0x34e2, 0x24c3, 0x14a0, 0x0481, 0x7466, 0x6447, 0x5424, 0x4405, 0xa7db, 0xb7fa, 0x8799, 0x97b8,
    0xe75f, 0xf77e, 0xc71d, 0xd73c, 0x26d3, 0x36f2, 0x0691, 0x16b0, 0x6657, 0x7676, 0x4615, 0x5634,
    0xd94c, 0xc96d, 0xf90e, 0xe92f, 0x99c8, 0x89e9, 0xb98a, 0xa9ab, 0x5844, 0x4865, 0x7806, 0x6827,
    0x18c0, 0x08e1, 0x3882, 0x28a3, 0xcb7d, 0xdb5c, 0xeb3f, 0xfb1e, 0x8bf9, 0x9bd8, 0xabbb, 0xbb9a,
    0x4a75, 0x5a54, 0x6a37, 0x7a16, 0x0af1, 0x1ad0, 0x2ab3, 0x3a92, 0xfd2e, 0xed0f, 0xdd6c, 0xcd4d,
    0xbdaa, 0xad8b, 0x9de8, 0x8dc9, 0x7c26, 0x6c07, 0x5c64, 0x4c45, 0x3ca2, 0x2c83, 0x1ce0, 0x0cc1,
    0xef1f, 0xff3e, 0xcf5d, 0xdf7c, 0xaf9b, 0xbfba, 0x8fd9, 0x9ff8, 0x6e17, 0x7e36, 0x4e55, 0x5e74,
    0x2e93, 0x3eb2, 0x0ed1, 0x1ef0]"

definition crc16_step :: "u16 \<Rightarrow> u8 \<Rightarrow> u16" where
  "crc16_step cksum byte =
     (CRC16_TAB ! unat (drop_bit 8 cksum XOR (ucast byte :: u16))) XOR push_bit 8 cksum"

definition crc16_ccitt :: "u16 \<Rightarrow> bytes \<Rightarrow> u16" where
  "crc16_ccitt cksum buf = foldl crc16_step cksum buf"

section \<open>The polynomial division\<close>

definition crc16_bit :: "u16 \<Rightarrow> u16" where
  "crc16_bit c = (if bit c 15 then push_bit 1 c XOR 0x1021 else push_bit 1 c)"

definition crc16_byte :: "u16 \<Rightarrow> u16" where
  "crc16_byte c = (crc16_bit ^^ 8) c"

definition crc16_division :: "u16 \<Rightarrow> bytes \<Rightarrow> u16" where
  "crc16_division cksum buf = foldl (\<lambda>c b. crc16_byte (c XOR push_bit 8 (ucast b))) cksum buf"

lemma crc16_bit_xor: "crc16_bit (x XOR y) = crc16_bit x XOR crc16_bit y"
  unfolding crc16_bit_def by (rule bit_word_eqI) (auto simp: bit_simps)

lemma crc16_byte_xor: "crc16_byte (x XOR y) = crc16_byte x XOR crc16_byte y"
proof -
  have "(crc16_bit ^^ n) (x XOR y) = (crc16_bit ^^ n) x XOR (crc16_bit ^^ n) y" for n
    by (induction n) (simp_all add: crc16_bit_xor)
  then show ?thesis by (simp add: crc16_byte_def)
qed

text \<open>
  The table is the division of every byte: each entry gives the two at twice its index, so
  one pass over the first half checks it, and the rest is induction on the index.
\<close>

lemma nth_concat_pairs:
  "k < length xs \<Longrightarrow> concat (map (\<lambda>t. [f t, g t]) xs) ! (2 * k) = f (xs ! k) \<and>
     concat (map (\<lambda>t. [f t, g t]) xs) ! (2 * k + 1) = g (xs ! k)"
proof (induction xs arbitrary: k)
  case Nil
  then show ?case by simp
next
  case (Cons a xs)
  then show ?case by (cases k) simp_all
qed

lemma crc16_table_halves:
  "concat (map (\<lambda>t. [crc16_bit t, crc16_bit t XOR 0x1021]) (take 128 CRC16_TAB)) = CRC16_TAB"
  by code_simp

lemma length_crc16_table: "length CRC16_TAB = 256"
  by code_simp

lemma crc16_table_step:
  assumes "k < 128"
  shows "CRC16_TAB ! (2 * k) = crc16_bit (CRC16_TAB ! k)"
    and "CRC16_TAB ! (2 * k + 1) = crc16_bit (CRC16_TAB ! k) XOR 0x1021"
  using nth_concat_pairs [of k "take 128 CRC16_TAB" crc16_bit "\<lambda>t. crc16_bit t XOR 0x1021"] assms
  unfolding crc16_table_halves by (simp_all add: length_crc16_table)

lemma crc16_byte_double:
  assumes "k < 128"
  shows "crc16_byte (push_bit 8 (word_of_nat (2 * k))) =
    crc16_bit (crc16_byte (push_bit 8 (word_of_nat k)))"
proof -
  have "\<not> bit (k :: nat) 7"
    using assms by (simp add: bit_nat_def)
  then have "\<not> bit (push_bit 8 (word_of_nat k :: u16)) 15"
    by (simp add: bit_simps)
  then have "push_bit 8 (word_of_nat (2 * k) :: u16) = crc16_bit (push_bit 8 (word_of_nat k))"
    by (simp add: crc16_bit_def push_bit_eq_mult)
  then show ?thesis
    by (simp add: crc16_byte_def funpow_swap1)
qed

lemma crc16_byte_odd:
  "crc16_byte (push_bit 8 (word_of_nat (2 * k + 1))) =
     crc16_byte (push_bit 8 (word_of_nat (2 * k))) XOR 0x1021"
proof -
  have "push_bit 8 (word_of_nat (2 * k + 1) :: u16) = push_bit 8 (word_of_nat (2 * k)) XOR 0x100"
  proof -
    have "(word_of_nat (2 * k + 1) :: u16) = word_of_nat (2 * k) XOR 1"
      by (simp add: xor_one_eq)
    then show ?thesis
      by (simp only: push_bit_xor) simp
  qed
  moreover have "crc16_byte 0x100 = 0x1021"
    by code_simp
  ultimately show ?thesis
    by (simp only: crc16_byte_xor)
qed

lemma crc16_table:
  "i < 256 \<Longrightarrow> CRC16_TAB ! i = crc16_byte (push_bit 8 (word_of_nat i))"
proof (induction i rule: less_induct)
  case (less i)
  show ?case
  proof (cases "i = 0")
    case True
    have "CRC16_TAB ! 0 = 0" "crc16_byte 0 = 0"
      by code_simp+
    with True show ?thesis by simp
  next
    case False
    define k where "k = i div 2"
    have k: "k < i" "k < 128" "i = 2 * k \<or> i = 2 * k + 1"
      using False less.prems by (auto simp: k_def)
    then have IH: "CRC16_TAB ! k = crc16_byte (push_bit 8 (word_of_nat k))"
      using less.IH by simp
    show ?thesis
      using k(3)
    proof
      assume "i = 2 * k"
      then show ?thesis
        by (simp only: crc16_table_step(1) [OF k(2)] crc16_byte_double [OF k(2)] IH)
    next
      assume "i = 2 * k + 1"
      then show ?thesis
        by (simp only: crc16_table_step(2) [OF k(2)] crc16_byte_odd crc16_byte_double [OF k(2)] IH)
    qed
  qed
qed

text \<open>The low byte meets no set top bit in eight steps: it is only shifted.\<close>

lemma crc16_low:
  assumes "\<And>i. 8 \<le> i \<Longrightarrow> \<not> bit c i"
  shows "crc16_byte c = push_bit 8 c"
proof -
  have "n \<le> 8 \<Longrightarrow> (crc16_bit ^^ n) c = push_bit n c" for n
  proof (induction n)
    case 0
    then show ?case by simp
  next
    case (Suc n)
    then have "\<not> bit (push_bit n c) 15"
      using assms by (simp add: bit_simps)
    with Suc show ?case
      by (simp add: crc16_bit_def push_bit_push_bit)
  qed
  then show ?thesis by (simp add: crc16_byte_def)
qed

lemma crc16_index: "unat (drop_bit 8 c XOR (ucast (b :: u8)) :: u16) < 256"
proof -
  have "drop_bit 8 c XOR (ucast b) = (take_bit 8 (drop_bit 8 c XOR (ucast b)) :: u16)"
    by (rule bit_word_eqI) (auto simp: bit_simps dest: bit_imp_le_length)
  then have "unat (drop_bit 8 c XOR (ucast b) :: u16) =
      take_bit 8 (unat (drop_bit 8 c XOR (ucast b) :: u16))"
    by (metis unsigned_take_bit_eq)
  moreover have "take_bit 8 (unat (drop_bit 8 c XOR (ucast b) :: u16)) < 2 ^ 8"
    by (rule take_bit_nat_less_exp)
  ultimately show ?thesis by simp
qed

lemma crc16_step_division: "crc16_step c b = crc16_byte (c XOR push_bit 8 (ucast b))"
proof -
  let ?i = "drop_bit 8 c XOR (ucast b) :: u16"
  have "c XOR push_bit 8 (ucast b) = push_bit 8 ?i XOR take_bit 8 c"
    by (rule bit_word_eqI) (auto simp: bit_simps)
  moreover have "crc16_byte (take_bit 8 c) = push_bit 8 c"
    by (subst crc16_low) (auto simp: bit_simps push_bit_take_bit intro!: bit_word_eqI)
  ultimately have "crc16_byte (c XOR push_bit 8 (ucast b)) = crc16_byte (push_bit 8 ?i) XOR push_bit 8 c"
    by (simp only: crc16_byte_xor)
  then show ?thesis
    using crc16_table [OF crc16_index, of c b] by (simp add: crc16_step_def)
qed

lemma crc16_division_eq: "crc16_ccitt c buf = crc16_division c buf"
  by (simp add: crc16_ccitt_def crc16_division_def crc16_step_division cong: foldl_cong)

section \<open>Error detection\<close>

text \<open>One step of the division can be undone, because the polynomial has a constant term.\<close>

definition crc16_unbit :: "u16 \<Rightarrow> u16" where
  "crc16_unbit c = (if bit c 0 then drop_bit 1 (c XOR 0x1021) OR 0x8000 else drop_bit 1 c)"

lemma poly_bits: "bit (0x1021 :: u16) i \<longleftrightarrow> i = 0 \<or> i = 5 \<or> i = 12"
proof (cases "i < 16")
  case True
  have "\<forall>i \<in> set [0..<16]. bit (0x1021 :: u16) i \<longleftrightarrow> i = 0 \<or> i = 5 \<or> i = 12"
    by code_simp
  with True show ?thesis by simp
next
  case False
  then show ?thesis
    using bit_imp_le_length [of "0x1021 :: u16" i] by auto
qed

lemma top_bit: "i < 16 \<Longrightarrow> bit (0x8000 :: u16) i \<longleftrightarrow> i = 15"
proof -
  have "\<forall>i \<in> set [0..<16]. bit (0x8000 :: u16) i \<longleftrightarrow> i = 15"
    by code_simp
  then show "i < 16 \<Longrightarrow> ?thesis" by simp
qed

lemma low_bits: "i < 16 \<Longrightarrow> bit (2064 :: u16) i \<longleftrightarrow> i = 4 \<or> i = 11"
proof -
  have "\<forall>i \<in> set [0..<16]. bit (2064 :: u16) i \<longleftrightarrow> i = 4 \<or> i = 11"
    by code_simp
  then show "i < 16 \<Longrightarrow> ?thesis" by simp
qed

lemma crc16_unbit_bit: "crc16_unbit (crc16_bit c) = c"
proof (rule bit_word_eqI)
  fix n assume n: "n < LENGTH(16)"
  then have top: "bit (0x8000 :: u16) n \<longleftrightarrow> n = 15"
    using top_bit [of n] by (simp del: bit_numeral_word_iff)
  have double: "bit (c * 2) m \<longleftrightarrow> 0 < m \<and> m < 16 \<and> bit c (m - 1)" for m
  proof -
    have "c * 2 = push_bit 1 c" by (simp add: push_bit_eq_mult)
    then show ?thesis by (simp only: bit_push_bit_iff) (auto simp: Suc_le_eq)
  qed
  show "bit (crc16_unbit (crc16_bit c)) n = bit c n"
  proof (cases "n = 15")
    case True
    then show ?thesis
      by (simp add: crc16_unbit_def crc16_bit_def bit_simps poly_bits double top_bit
          del: bit_numeral_word_iff)
  next
    case False
    with n top show ?thesis
      by (simp add: crc16_unbit_def crc16_bit_def bit_simps poly_bits double low_bits
          del: bit_numeral_word_iff) auto
  qed
qed

lemma crc16_byte_inj: "crc16_byte x = crc16_byte y \<Longrightarrow> x = y"
proof -
  have "(crc16_bit ^^ n) x = (crc16_bit ^^ n) y \<Longrightarrow> x = y" for n
    by (induction n) (simp_all, metis crc16_unbit_bit)
  then show "crc16_byte x = crc16_byte y \<Longrightarrow> x = y"
    unfolding crc16_byte_def .
qed

lemma xor_cancel: "x XOR a = y XOR a \<Longrightarrow> x = y" "a XOR x = a XOR y \<Longrightarrow> x = y" for a :: u16
  by (rule bit_word_eqI, metis bit_xor_iff)+

lemma crc16_step_inj_state: "crc16_step c b = crc16_step d b \<Longrightarrow> c = d"
  unfolding crc16_step_division by (blast dest: crc16_byte_inj xor_cancel)

lemma crc16_step_inj_byte: "crc16_step c b = crc16_step c b' \<Longrightarrow> b = b'"
proof -
  assume "crc16_step c b = crc16_step c b'"
  then have "push_bit 8 (ucast b :: u16) = push_bit 8 (ucast b')"
    unfolding crc16_step_division by (blast dest: crc16_byte_inj xor_cancel)
  then have "bit b n = bit b' n" if "n < 8" for n
    using that by (auto simp: bit_eq_iff bit_simps dest!: spec [of _ "n + 8"])
  then show "b = b'"
    by (intro bit_word_eqI) simp
qed

lemma crc16_run_inj: "crc16_ccitt c buf = crc16_ccitt d buf \<Longrightarrow> c = d"
  unfolding crc16_ccitt_def
  by (induction buf arbitrary: c d) (auto dest: crc16_step_inj_state)

section \<open>Properties\<close>

text \<open>
  C33: the table-driven checksum is the bitwise division by \<open>x^16 + x^12 + x^5 + 1\<close>, for every
  buffer and initial value, and no table access is out of bounds.
\<close>

theorem crc16_is_division:
  "crc16_ccitt cksum buf = crc16_division cksum buf \<and>
     unat (drop_bit 8 cksum XOR (ucast (byte :: u8)) :: u16) < length CRC16_TAB"
  using crc16_division_eq crc16_index by (simp add: length_crc16_table)

lemma crc16_residue: "crc16_ccitt c (buf @ to_be 2 (crc16_ccitt c buf)) = 0"
proof -
  have zero: "crc16_byte 0 = 0" by code_simp
  define k where "k = crc16_ccitt c buf"
  have "crc16_ccitt c (buf @ to_be 2 k) =
      crc16_step (crc16_step k (ucast (drop_bit 8 k))) (ucast k)"
    by (simp add: crc16_ccitt_def k_def numeral_2_eq_2 to_be_Suc)
  moreover have "crc16_step k (ucast (drop_bit 8 k)) = push_bit 8 k"
  proof -
    have "k XOR push_bit 8 (ucast (ucast (drop_bit 8 k) :: u8)) = take_bit 8 k"
      by (rule bit_word_eqI) (auto simp: bit_simps)
    then show ?thesis
      unfolding crc16_step_division
      by (subst crc16_low) (auto simp: bit_simps intro!: bit_word_eqI)
  qed
  moreover have "push_bit 8 k XOR push_bit 8 (ucast (ucast k :: u8)) = 0"
    by (rule bit_word_eqI) (auto simp: bit_simps)
  ultimately show ?thesis
    unfolding k_def [symmetric] by (simp add: crc16_step_division zero)
qed

text \<open>
  What the receiver of a frame checks. The checksum of a buffer followed by its own
  checksum in big-endian order is zero, and changing any single byte of a buffer changes the
  checksum.
\<close>

theorem crc16_detects:
  assumes "b \<noteq> b'"
  shows "crc16_ccitt c (buf @ to_be 2 (crc16_ccitt c buf)) = 0 \<and>
    crc16_ccitt c (pre @ b # post) \<noteq> crc16_ccitt c (pre @ b' # post)"
proof
  show "crc16_ccitt c (pre @ b # post) \<noteq> crc16_ccitt c (pre @ b' # post)"
  proof
    assume "crc16_ccitt c (pre @ b # post) = crc16_ccitt c (pre @ b' # post)"
    then have "crc16_ccitt (crc16_step (crc16_ccitt c pre) b) post =
        crc16_ccitt (crc16_step (crc16_ccitt c pre) b') post"
      by (simp add: crc16_ccitt_def)
    from crc16_step_inj_byte [OF crc16_run_inj [OF this]] assms show False by simp
  qed
qed (rule crc16_residue)

lemma crc16_detects_witness:
  "crc16_ccitt 0 ([1, 2] @ to_be 2 (crc16_ccitt 0 [1, 2])) = 0 \<and>
     crc16_ccitt 0 ([1] @ 2 # [3]) \<noteq> crc16_ccitt 0 ([1] @ 6 # [3])"
  by (rule crc16_detects) simp

end
