(* ===== verification/Crc32.thy ===== *)
theory Crc32
  imports Fit_Error
begin

text \<open>
  \<open>fitimage/src/crc.rs\<close> and \<open>fitimage/src/hash.rs\<close>. The checksum itself is the crate \<open>crc\<close>, a
  parameter: \<open>crc_engine\<close> holds the calls the code makes of it, \<open>engine_ok\<close> the documented
  law that a digest fed in pieces is the checksum of their concatenation. MD5 and SHA-1 are
  parameters too. The writer below \<open>Crc32Writer\<close> is a parameter: any function from a buffer to
  the number of bytes taken or an error, and the writer afterwards.
\<close>

section \<open>The engine\<close>

record 'd crc_engine =
  checksum :: "bytes \<Rightarrow> u32"
  digest_start :: 'd
  digest_start_with :: "u32 \<Rightarrow> 'd"
  digest_feed :: "'d \<Rightarrow> bytes \<Rightarrow> 'd"
  digest_finish :: "'d \<Rightarrow> u32"

definition engine_ok :: "'d crc_engine \<Rightarrow> bool" where
  "engine_ok e \<longleftrightarrow>
     (\<forall>d. digest_feed e d [] = d) \<and>
     (\<forall>d a b. digest_feed e (digest_feed e d a) b = digest_feed e d (a @ b)) \<and>
     (\<forall>a. digest_finish e (digest_feed e (digest_start e) a) = checksum e a)"

definition calculate_crc32 :: "'d crc_engine \<Rightarrow> bytes \<Rightarrow> u32" where
  "calculate_crc32 e d = checksum e d"

definition calculate_crc32_with_initial :: "'d crc_engine \<Rightarrow> bytes \<Rightarrow> u32 \<Rightarrow> u32" where
  "calculate_crc32_with_initial e d initial =
     (let calc = digest_feed e (digest_start e) d in calculate_crc32 e d)"

section \<open>Streaming\<close>

definition calculator_new :: "'d crc_engine \<Rightarrow> 'd" where
  "calculator_new e = digest_start e"

definition calculator_with_initial :: "'d crc_engine \<Rightarrow> u32 \<Rightarrow> 'd" where
  "calculator_with_initial e initial = digest_start_with e initial"

definition calculator_feed :: "'d crc_engine \<Rightarrow> 'd \<Rightarrow> bytes \<Rightarrow> 'd" where
  "calculator_feed e c d = digest_feed e c d"

definition calculator_crc32 :: "'d crc_engine \<Rightarrow> 'd \<Rightarrow> u32" where
  "calculator_crc32 e c = digest_finish e c"

definition calculator_reset :: "'d crc_engine \<Rightarrow> 'd \<Rightarrow> 'd" where
  "calculator_reset e c = digest_start e"

definition calculator_reset_with_initial :: "'d crc_engine \<Rightarrow> 'd \<Rightarrow> u32 \<Rightarrow> 'd" where
  "calculator_reset_with_initial e c initial = digest_start_with e initial"

record ('w, 'd) crc32_writer =
  inner :: 'w
  calculator :: 'd

definition writer_new :: "'d crc_engine \<Rightarrow> 'w \<Rightarrow> ('w, 'd) crc32_writer" where
  "writer_new e w = \<lparr>inner = w, calculator = calculator_new e\<rparr>"

definition writer_with_initial :: "'d crc_engine \<Rightarrow> 'w \<Rightarrow> u32 \<Rightarrow> ('w, 'd) crc32_writer" where
  "writer_with_initial e w initial =
     \<lparr>inner = w, calculator = calculator_with_initial e initial\<rparr>"

definition writer_crc32 :: "'d crc_engine \<Rightarrow> ('w, 'd) crc32_writer \<Rightarrow> u32" where
  "writer_crc32 e w = calculator_crc32 e (calculator w)"

definition writer_into_inner :: "'d crc_engine \<Rightarrow> ('w, 'd) crc32_writer \<Rightarrow> 'w \<times> u32" where
  "writer_into_inner e w = (inner w, calculator_crc32 e (calculator w))"

text \<open>
  \<open>Write::write\<close> of the writer. The outcome \<open>None\<close> is the panic of \<open>buf[..written]\<close>, when the
  writer below claims to have taken more than it was given.
\<close>

type_synonym ('w, 'e) write_fn = "'w \<Rightarrow> bytes \<Rightarrow> ('e + nat) \<times> 'w"

definition writer_write ::
    "'d crc_engine \<Rightarrow> ('w, 'e) write_fn \<Rightarrow> ('w, 'd) crc32_writer \<Rightarrow> bytes \<Rightarrow>
      (('e + nat) \<times> ('w, 'd) crc32_writer) option" where
  "writer_write e wr w buf =
     (case wr (inner w) buf of
        (Inl err, i) \<Rightarrow> Some (Inl err, w\<lparr>inner := i\<rparr>)
      | (Inr written, i) \<Rightarrow>
          if written > 0 then
            if written \<le> length buf
            then Some (Inr written, w\<lparr>inner := i,
              calculator := calculator_feed e (calculator w) (take written buf)\<rparr>)
            else None
          else Some (Inr written, w\<lparr>inner := i\<rparr>))"

section \<open>Appended checksums\<close>

definition append_crc32 :: "'d crc_engine \<Rightarrow> bytes \<Rightarrow> bytes" where
  "append_crc32 e d = d @ to_le 4 (calculate_crc32 e d)"

definition verify_crc32 :: "'d crc_engine \<Rightarrow> bytes \<Rightarrow> mkimage_error + unit" where
  "verify_crc32 e d =
     (if length d < 4 then Inl (InvalidImageData ''Data too short to contain CRC32 checksum'')
      else
        let content = take (length d - 4) d;
            expected_crc = of_le [d ! (length d - 4), d ! (length d - 3),
              d ! (length d - 2), d ! (length d - 1)];
            calculated_crc = calculate_crc32 e content
        in if calculated_crc = expected_crc then Inr ()
           else Inl (CrcMismatch expected_crc calculated_crc))"

section \<open>Hashes\<close>

datatype hash_algorithm = Md5 | Sha1 | Crc32

text \<open>The digests of the crates \<open>md5\<close> and \<open>sha1\<close>.\<close>

record digests =
  md5_compute :: "bytes \<Rightarrow> bytes"
  sha1_compute :: "bytes \<Rightarrow> bytes"

definition hex_bytes :: "bytes \<Rightarrow> string" where
  "hex_bytes bs = concat (map (hex_fixed 2) bs)"

definition calculate_md5 :: "digests \<Rightarrow> bytes \<Rightarrow> string" where
  "calculate_md5 h d = hex_bytes (md5_compute h d)"

definition calculate_sha1 :: "digests \<Rightarrow> bytes \<Rightarrow> string" where
  "calculate_sha1 h d = hex_bytes (sha1_compute h d)"

definition calculate_crc32_hash :: "'d crc_engine \<Rightarrow> bytes \<Rightarrow> string" where
  "calculate_crc32_hash e d = hex_fixed 8 (calculate_crc32 e d)"

fun algorithm_as_str :: "hash_algorithm \<Rightarrow> string" where
  "algorithm_as_str Md5 = ''md5''"
| "algorithm_as_str Sha1 = ''sha1''"
| "algorithm_as_str Crc32 = ''crc32''"

fun algorithm_calculate :: "'d crc_engine \<Rightarrow> digests \<Rightarrow> hash_algorithm \<Rightarrow> bytes \<Rightarrow> string" where
  "algorithm_calculate e h Md5 d = calculate_md5 h d"
| "algorithm_calculate e h Sha1 d = calculate_sha1 h d"
| "algorithm_calculate e h Crc32 d = calculate_crc32_hash e d"

record hash_result =
  algorithm :: hash_algorithm
  hash_value :: string

definition hash_result_new :: "'d crc_engine \<Rightarrow> digests \<Rightarrow> hash_algorithm \<Rightarrow> bytes \<Rightarrow> hash_result" where
  "hash_result_new e h a d = \<lparr>algorithm = a, hash_value = algorithm_calculate e h a d\<rparr>"

definition algorithm_name :: "hash_result \<Rightarrow> string" where
  "algorithm_name r = algorithm_as_str (algorithm r)"

definition calculate_hashes ::
    "'d crc_engine \<Rightarrow> digests \<Rightarrow> bytes \<Rightarrow> hash_algorithm list \<Rightarrow> hash_result list" where
  "calculate_hashes e h d algorithms = map (\<lambda>a. hash_result_new e h a d) algorithms"

definition default_hash_algorithms :: "hash_algorithm list" where
  "default_hash_algorithms = [Md5, Sha1, Crc32]"

section \<open>A concrete engine\<close>

text \<open>
  CRC-32/ISO-HDLC, the algorithm the code selects, written out bit by bit: reflected polynomial
  \<open>0xEDB88320\<close>, initial value and final complement of all ones. It shows that \<open>engine_ok\<close> can
  hold, and the findings are evaluated on it.
\<close>

definition crc32_bit :: "u32 \<Rightarrow> u32" where
  "crc32_bit c = (if bit c 0 then drop_bit 1 c XOR 0xEDB88320 else drop_bit 1 c)"

definition crc32_byte :: "u32 \<Rightarrow> u8 \<Rightarrow> u32" where
  "crc32_byte c b = (crc32_bit ^^ 8) (c XOR ucast b)"

lemma crc32_byte_steps:
  "crc32_byte c b = crc32_bit (crc32_bit (crc32_bit (crc32_bit (crc32_bit (crc32_bit (crc32_bit
     (crc32_bit (c XOR ucast b))))))))"
  by (simp add: crc32_byte_def numeral_eq_Suc)

definition iso_hdlc :: "u32 crc_engine" where
  "iso_hdlc = \<lparr>
     checksum = (\<lambda>bs. NOT (foldl crc32_byte 0xFFFFFFFF bs)),
     digest_start = 0xFFFFFFFF,
     digest_start_with = (\<lambda>i. i),
     digest_feed = foldl crc32_byte,
     digest_finish = (\<lambda>c. NOT c)\<rparr>"

lemma iso_hdlc_ok: "engine_ok iso_hdlc"
  by (simp add: engine_ok_def iso_hdlc_def)

lemma iso_hdlc_check: "calculate_crc32 iso_hdlc
    [0x61, 0x62] = 0x9E83486D"
  by (simp add: calculate_crc32_def iso_hdlc_def crc32_byte_steps crc32_bit_def)

section \<open>Lemmas\<close>

lemma last_four:
  assumes "4 \<le> length d"
  shows "[d ! (length d - 4), d ! (length d - 3), d ! (length d - 2), d ! (length d - 1)] =
    drop (length d - 4) d"
  using assms by (intro nth_equalityI) (auto simp: less_Suc_eq numeral_eq_Suc)

lemma verify_crc32_eq:
  "verify_crc32 e d = Inr () \<longleftrightarrow>
     4 \<le> length d \<and> drop (length d - 4) d = to_le 4 (calculate_crc32 e (take (length d - 4) d))"
proof (cases "length d < 4")
  case True
  then show ?thesis by (simp add: verify_crc32_def)
next
  case False
  let ?tail = "drop (length d - 4) d" and ?crc = "calculate_crc32 e (take (length d - 4) d)"
  have "?crc = of_le ?tail \<longleftrightarrow> ?tail = to_le 4 ?crc"
    using False of_le_to_le [of 4 ?crc] to_le_of_le [of ?tail 4, where 'a = 32] by auto
  then show ?thesis
    using False last_four [of d] by (simp add: verify_crc32_def Let_def)
qed

section \<open>Properties\<close>

text \<open>
  \<open>verify_crc32\<close> decides exactly the buffers that \<open>append_crc32\<close> produces, whatever the
  checksum function is; what it accepts determines the content.
\<close>

theorem verify_append_crc32:
  "verify_crc32 e d = Inr () \<longleftrightarrow> (\<exists>content. d = append_crc32 e content \<and> content = take (length d - 4) d)"
proof
  assume "verify_crc32 e d = Inr ()"
  then have "d = append_crc32 e (take (length d - 4) d)"
    using append_take_drop_id [of "length d - 4" d]
    by (simp add: verify_crc32_eq append_crc32_def)
  then show "\<exists>content. d = append_crc32 e content \<and> content = take (length d - 4) d"
    by blast
next
  assume "\<exists>content. d = append_crc32 e content \<and> content = take (length d - 4) d"
  then obtain content where "d = append_crc32 e content" by blast
  then show "verify_crc32 e d = Inr ()"
    by (simp add: verify_crc32_eq append_crc32_def)
qed

fun write_run ::
    "'d crc_engine \<Rightarrow> ('w, 'e) write_fn \<Rightarrow> ('w, 'd) crc32_writer \<Rightarrow> bytes list \<Rightarrow>
      (bytes \<times> ('w, 'd) crc32_writer) option" where
  "write_run e wr w [] = Some ([], w)"
| "write_run e wr w (buf # bufs) =
     (case writer_write e wr w buf of
        None \<Rightarrow> None
      | Some (r, w') \<Rightarrow>
          map_option (\<lambda>(acc, w''). ((case r of Inl _ \<Rightarrow> [] | Inr n \<Rightarrow> take n buf) @ acc, w''))
            (write_run e wr w' bufs))"

lemma write_run_digest:
  assumes "engine_ok e" "write_run e wr w bufs = Some (acc, w')"
  shows "calculator w' = digest_feed e (calculator w) acc"
  using assms(2)
proof (induction bufs arbitrary: w acc)
  case Nil
  with assms(1) show ?case by (simp add: engine_ok_def)
next
  case (Cons buf bufs)
  then obtain r w1 acc1 where step: "writer_write e wr w buf = Some (r, w1)"
    and rest: "write_run e wr w1 bufs = Some (acc1, w')"
    and acc: "acc = (case r of Inl _ \<Rightarrow> [] | Inr n \<Rightarrow> take n buf) @ acc1"
    by (auto split: option.splits)
  have "calculator w1 =
      digest_feed e (calculator w) (case r of Inl _ \<Rightarrow> [] | Inr n \<Rightarrow> take n buf)"
    using step assms(1)
    by (auto simp: writer_write_def engine_ok_def calculator_feed_def
        split: prod.splits sum.splits if_splits)
  with Cons.IH [OF rest] acc assms(1) show ?case
    by (simp add: engine_ok_def)
qed

text \<open>
  The checksum of the streaming writer. However the writer below splits, refuses or fails
  individual writes, after any sequence of writes that does not panic the running value is the
  checksum of exactly the bytes the writer below accepted.
\<close>

theorem writer_checksum:
  assumes "engine_ok e" "write_run e wr (writer_new e w) bufs = Some (acc, w')"
  shows "writer_crc32 e w' = calculate_crc32 e acc \<and>
    writer_into_inner e w' = (inner w', calculate_crc32 e acc)"
  using write_run_digest [OF assms] assms(1)
  by (simp add: writer_crc32_def writer_into_inner_def writer_new_def calculator_new_def
      calculator_crc32_def calculate_crc32_def engine_ok_def)

definition half_writer :: "(bytes, string) write_fn" where
  "half_writer w buf =
     (if buf = [] then (Inl ''empty'', w)
      else (Inr ((length buf + 1) div 2), w @ take ((length buf + 1) div 2) buf))"

lemma writer_checksum_witness:
  "\<exists>w'. write_run iso_hdlc half_writer (writer_new iso_hdlc []) [[1, 2, 3], [], [4]] =
       Some ([1, 2, 4], w') \<and>
     writer_crc32 iso_hdlc w' = calculate_crc32 iso_hdlc [1, 2, 4] \<and> inner w' = [1, 2, 4]"
proof -
  obtain w' where run: "write_run iso_hdlc half_writer (writer_new iso_hdlc []) [[1, 2, 3], [], [4]] =
      Some ([1, 2, 4], w')" and inner: "inner w' = [1, 2, 4]"
    by (simp add: writer_write_def half_writer_def writer_new_def)
  from writer_checksum [OF iso_hdlc_ok run] inner run show ?thesis by blast
qed

text \<open>\<open>calculate_crc32_with_initial\<close> drops its initial value, so it cannot chain checksums.\<close>

lemma crc32_initial_ignored: "calculate_crc32_with_initial e d i = calculate_crc32 e d"
  by (simp add: calculate_crc32_with_initial_def)

lemma crc32_chaining_broken:
  "calculate_crc32_with_initial iso_hdlc [2] (calculate_crc32 iso_hdlc [1]) \<noteq>
     calculate_crc32 iso_hdlc [1, 2]"
  by code_simp

end
