(* ===== verification/Ymodem.thy ===== *)
theory Ymodem
  imports Crc16
begin

text \<open>
  The YMODEM sender, \<open>uboot-shell/src/ymodem.rs\<close>. The device is what one run sees of it: the
  results of its one-byte reads in order (a read past the last one is the end of the stream; a
  read with a time limit may also meet \<open>Silence\<close>),
  the faults of its writes in order (none once the list is used up), and what has been written.
  The file is the results of its \<open>read\<close> calls in order. Both are arbitrary, so a theorem about
  a run is about every device and file.
\<close>

section \<open>Devices\<close>

datatype io_error = UnexpectedEof | NakReply | RetryTooMuch | IoFault string | SliceOutOfRange | Silence

record ydevice =
  incoming :: "(io_error + u8) list"
  faults :: "io_error option list"
  outgoing :: bytes
  stdout_faults :: "io_error option list"
  echoed :: bytes

type_synonym 'a ymodem_io = "(io_error + 'a) \<times> ydevice"

definition SOH :: u8 where "SOH = 0x01"
definition STX :: u8 where "STX = 0x02"
definition EOT :: u8 where "EOT = 0x04"
definition ACK :: u8 where "ACK = 0x06"
definition NAK :: u8 where "NAK = 0x15"
definition EOF_PAD :: u8 where "EOF_PAD = 0x1A"
definition CRC_START :: u8 where "CRC_START = 0x43"
definition DEFAULT_BLOCK_RETRIES :: nat where "DEFAULT_BLOCK_RETRIES = 10"

lemmas ymodem_consts = SOH_def STX_def EOT_def ACK_def NAK_def EOF_PAD_def CRC_START_def

fun io_bind :: "'a ymodem_io \<Rightarrow> ('a \<Rightarrow> ydevice \<Rightarrow> 'b ymodem_io) \<Rightarrow> 'b ymodem_io" where
  "io_bind (Inl e, d) f = (Inl e, d)"
| "io_bind (Inr x, d) f = f x d"

lemma io_bind_Inr: "io_bind r f = (Inr y, d') \<longleftrightarrow> (\<exists>x d. r = (Inr x, d) \<and> f x d = (Inr y, d'))"
  by (cases r; cases "fst r") auto

definition fault :: "ydevice \<Rightarrow> unit ymodem_io" where
  "fault d =
     (case faults d of
        [] \<Rightarrow> (Inr (), d)
      | None # fs \<Rightarrow> (Inr (), d\<lparr>faults := fs\<rparr>)
      | Some e # fs \<Rightarrow> (Inl e, d\<lparr>faults := fs\<rparr>))"

definition write_all :: "bytes \<Rightarrow> ydevice \<Rightarrow> unit ymodem_io" where
  "write_all bs d = io_bind (fault d) (\<lambda>_ d. (Inr (), d\<lparr>outgoing := outgoing d @ bs\<rparr>))"

definition flush :: "ydevice \<Rightarrow> unit ymodem_io" where
  "flush d = fault d"

text \<open>Writing a byte to the standard output of the program.\<close>

definition echo :: "u8 \<Rightarrow> ydevice \<Rightarrow> unit ymodem_io" where
  "echo c d =
     (case stdout_faults d of
        [] \<Rightarrow> (Inr (), d\<lparr>echoed := echoed d @ [c]\<rparr>)
      | None # fs \<Rightarrow> (Inr (), d\<lparr>stdout_faults := fs, echoed := echoed d @ [c]\<rparr>)
      | Some e # fs \<Rightarrow> (Inl e, d\<lparr>stdout_faults := fs\<rparr>))"

lemma echo_incoming: "echo c d = (r, d') \<Longrightarrow> incoming d' = incoming d \<and> outgoing d' = outgoing d"
  by (auto simp: echo_def split: list.splits option.splits)

definition getc :: "ydevice \<Rightarrow> u8 ymodem_io" where
  "getc d =
     (case incoming d of
        [] \<Rightarrow> (Inl UnexpectedEof, d)
      | r # rs \<Rightarrow> (r, d\<lparr>incoming := rs\<rparr>))"

lemma getc_shrinks: "getc d = (Inr c, d') \<Longrightarrow> length (incoming d') < length (incoming d)"
  by (auto simp: getc_def split: list.splits)

section \<open>The sender\<close>

record ymodem =
  crc_mode :: bool
  blk :: u8
  max_block_retries :: nat

definition ymodem_new :: "bool \<Rightarrow> ymodem" where
  "ymodem_new c = \<lparr>crc_mode = c, blk = 0, max_block_retries = DEFAULT_BLOCK_RETRIES\<rparr>"

definition nak :: "ymodem \<Rightarrow> u8" where
  "nak y = (if crc_mode y then CRC_START else NAK)"

text \<open>The two loops over replies end when the device does; they recurse on its replies.\<close>

function wait_for_start :: "ymodem \<Rightarrow> ydevice \<Rightarrow> ymodem ymodem_io" where
  "wait_for_start y d =
     (case getc d of
        (Inl e, d) \<Rightarrow> (Inl e, d)
      | (Inr c, d) \<Rightarrow>
          if c = NAK then (Inr (y\<lparr>crc_mode := False\<rparr>), d)
          else if c = CRC_START then (Inr (y\<lparr>crc_mode := True\<rparr>), d)
          else wait_for_start y d)"
  by pat_completeness auto
termination
  by (relation "measure (\<lambda>(y, d). length (incoming d))") (auto dest!: getc_shrinks [OF sym])

function wait_ack :: "ymodem \<Rightarrow> ydevice \<Rightarrow> unit ymodem_io" where
  "wait_ack y d =
     (case getc d of
        (Inl e, d) \<Rightarrow> (Inl e, d)
      | (Inr c, d) \<Rightarrow>
          if c = ACK then (Inr (), d)
          else if c = nak y then (Inl NakReply, d)
          else case echo c d of
            (Inl e, d) \<Rightarrow> (Inl e, d)
          | (Inr _, d) \<Rightarrow> wait_ack y d)"
  by pat_completeness auto
termination
  by (relation "measure (\<lambda>(y, d). length (incoming d))") (auto dest!: echo_incoming [OF sym] getc_shrinks [OF sym])

declare wait_for_start.simps [simp del] wait_ack.simps [simp del]

text \<open>One transmission of a block: prefix, padded data, checksum in CRC mode, flush.\<close>

definition frame_shape :: "bytes \<Rightarrow> nat \<times> u8" where
  "frame_shape d = (if 128 < length d then (1024, STX) else (128, SOH))"

definition frame_payload :: "bytes \<Rightarrow> u8 \<Rightarrow> bytes" where
  "frame_payload d pad = d @ replicate (fst (frame_shape d) - length d) pad"

definition send_frame :: "bool \<Rightarrow> u8 \<Rightarrow> bytes \<Rightarrow> u8 \<Rightarrow> ydevice \<Rightarrow> unit ymodem_io" where
  "send_frame crc number d pad dev =
     (let (len, p) = frame_shape d in
      io_bind (write_all [p, number, NOT number] dev) (\<lambda>_ dev.
      if len < length d then (Inl SliceOutOfRange, dev) else
      let buf = frame_payload d pad in
      io_bind (write_all buf dev) (\<lambda>_ dev.
      io_bind
        (if crc then
           let chsum = crc16_ccitt 0 buf;
               crc1 = ucast (drop_bit 8 chsum);
               crc2 = ucast (chsum AND 0xff)
           in write_all [crc1, crc2] dev
         else (Inr (), dev)) (\<lambda>_ dev.
      flush dev))))"

primrec send_retries ::
    "nat \<Rightarrow> ymodem \<Rightarrow> u8 \<Rightarrow> bytes \<Rightarrow> u8 \<Rightarrow> io_error option \<Rightarrow> ydevice \<Rightarrow> unit ymodem_io" where
  "send_retries 0 y number d pad err dev = (Inl (unwrap_or err RetryTooMuch), dev)"
| "send_retries (Suc retries) y number d pad err dev =
     io_bind (send_frame (crc_mode y) number d pad dev) (\<lambda>_ dev.
       case wait_ack y dev of
         (Inr _, dev) \<Rightarrow> (Inr (), dev)
       | (Inl e, dev) \<Rightarrow> send_retries retries y number d pad (Some e) dev)"

definition send_blk :: "bytes \<Rightarrow> u8 \<Rightarrow> bool \<Rightarrow> ymodem \<Rightarrow> ydevice \<Rightarrow> ymodem ymodem_io" where
  "send_blk d pad lst y dev =
     (let number = (if lst then 0 else blk y) in
      io_bind (send_retries (max_block_retries y) y number d pad None dev) (\<lambda>_ dev.
        (Inr (y\<lparr>blk := (if blk y = 0xff then 0 else blk y + 1)\<rparr>), dev)))"

definition header_data :: "string \<Rightarrow> nat \<Rightarrow> bytes" where
  "header_data name fsize = str_bytes name @ [0] @ str_bytes (dec_str fsize) @ [0]"

definition send_header :: "string \<Rightarrow> nat \<Rightarrow> ymodem \<Rightarrow> ydevice \<Rightarrow> ymodem ymodem_io" where
  "send_header name fsize y dev = send_blk (header_data name fsize) 0 False y dev"

text \<open>
  The loop over the file. The last component is the sequence of sizes given to \<open>on_progress\<close>.
\<close>

fun send_file ::
    "(io_error + bytes) list \<Rightarrow> nat \<Rightarrow> ymodem \<Rightarrow> ydevice \<Rightarrow> ymodem ymodem_io \<times> nat list" where
  "send_file [] sent y dev = ((Inr y, dev), [])"
| "send_file (Inl e # reads) sent y dev = ((Inl e, dev), [])"
| "send_file (Inr buf # reads) sent y dev =
     (if length buf = 0 then ((Inr y, dev), [])
      else case send_blk buf EOF_PAD False y dev of
        (Inl e, dev) \<Rightarrow> ((Inl e, dev), [])
      | (Inr y, dev) \<Rightarrow>
          let sent = sent + length buf;
              (r, progress) = send_file reads sent y dev
          in (r, sent # progress))"

definition send ::
    "string \<Rightarrow> nat \<Rightarrow> (io_error + bytes) list \<Rightarrow> ymodem \<Rightarrow> ydevice \<Rightarrow> ymodem ymodem_io" where
  "send name fsize reads y dev =
     io_bind (send_header name fsize y dev) (\<lambda>y dev.
     io_bind (fst (send_file reads 0 y dev)) (\<lambda>y dev.
     io_bind (write_all [EOT] dev) (\<lambda>_ dev.
     io_bind (flush dev) (\<lambda>_ dev.
     io_bind (wait_ack y dev) (\<lambda>_ dev.
     io_bind (send_blk [0] 0 True y dev) (\<lambda>y dev.
     wait_for_start y dev))))))"

section \<open>What a run writes\<close>

definition frame_bytes :: "bool \<Rightarrow> u8 \<Rightarrow> bytes \<Rightarrow> u8 \<Rightarrow> bytes" where
  "frame_bytes crc number d pad =
     [snd (frame_shape d), number, NOT number] @ frame_payload d pad @
     (if crc then to_be 2 (crc16_ccitt 0 (frame_payload d pad)) else [])"

definition fits :: "bytes \<Rightarrow> bool" where
  "fits d \<longleftrightarrow> length d \<le> fst (frame_shape d)"

lemma fault_frame: "fault d = (r, d') \<Longrightarrow> outgoing d' = outgoing d"
  by (auto simp: fault_def split: list.splits option.splits)

lemma write_all_Inr:
  "write_all bs d = (Inr u, d') \<Longrightarrow> outgoing d' = outgoing d @ bs"
  by (auto simp: write_all_def io_bind_Inr dest: fault_frame)

lemma getc_frame: "getc d = (r, d') \<Longrightarrow> outgoing d' = outgoing d"
  by (auto simp: getc_def split: list.splits)

lemma wait_ack_frame: "wait_ack y d = (r, d') \<Longrightarrow> outgoing d' = outgoing d"
proof (induction y d rule: wait_ack.induct)
  case (1 y d)
  obtain x d1 where get: "getc d = (x, d1)" by (cases "getc d")
  note out1 = getc_frame [OF get]
  show ?case
  proof (cases "\<exists>c. x = Inr c \<and> c \<noteq> ACK \<and> c \<noteq> nak y")
    case True
    then obtain c where c: "x = Inr c" "c \<noteq> ACK" "c \<noteq> nak y" by blast
    obtain z d2 where ech: "echo c d1 = (z, d2)" by (cases "echo c d1")
    show ?thesis
      using "1.prems" get c ech out1 echo_incoming [OF ech]
        "1.IH" [OF get [symmetric] c(1) c(2) c(3) ech [symmetric]]
      by (cases z) (simp_all add: wait_ack.simps [of y d])
  next
    case False
    with "1.prems" get out1 show ?thesis
      by (cases x) (auto simp: wait_ack.simps [of y d] split: if_splits)
  qed
qed

lemma wait_for_start_frame: "wait_for_start y d = (r, d') \<Longrightarrow> outgoing d' = outgoing d"
proof (induction y d rule: wait_for_start.induct)
  case (1 y d)
  show ?case
    using "1.prems" [unfolded wait_for_start.simps [of y d]]
    by (auto split: prod.splits sum.splits if_splits dest: getc_frame)
      (use "1.IH" getc_frame in metis)
qed

lemma crc_bytes: "[ucast (drop_bit 8 k), ucast (k AND 0xff)] = to_be 2 (k :: u16)"
proof -
  have "(0xff :: u16) = mask 8"
    by (simp add: mask_numeral)
  then have "ucast (k AND 0xff) = (ucast k :: u8)"
    by (simp only: flip: take_bit_eq_mask) (rule bit_word_eqI, simp add: bit_simps)
  then show ?thesis
    by (simp add: numeral_2_eq_2 to_be_Suc)
qed

lemma send_frame_Inr:
  assumes "send_frame crc number d pad dev = (Inr u, dev')"
  shows "outgoing dev' = outgoing dev @ frame_bytes crc number d pad \<and> fits d"
  using assms
  by (auto simp: send_frame_def Let_def io_bind_Inr frame_bytes_def fits_def flush_def crc_bytes
      split: prod.splits if_splits dest!: write_all_Inr fault_frame)

lemma send_retries_Inr:
  assumes "send_retries k y number d pad err dev = (Inr u, dev')"
  shows "\<exists>n. 0 < n \<and> n \<le> k \<and> fits d \<and>
    outgoing dev' = outgoing dev @ concat (replicate n (frame_bytes (crc_mode y) number d pad))"
  using assms
proof (induction k arbitrary: err dev)
  case 0
  then show ?case by simp
next
  case (Suc k)
  let ?f = "frame_bytes (crc_mode y) number d pad"
  from Suc.prems obtain dev1 where sent: "send_frame (crc_mode y) number d pad dev = (Inr (), dev1)"
    and ack: "(case wait_ack y dev1 of (Inr _, dev) \<Rightarrow> (Inr (), dev)
       | (Inl e, dev) \<Rightarrow> send_retries k y number d pad (Some e) dev) = (Inr u, dev')"
    by (auto simp: io_bind_Inr)
  note out = send_frame_Inr [OF sent]
  show ?case
  proof (cases "wait_ack y dev1")
    case (Pair r dev2)
    note same = wait_ack_frame [OF Pair]
    show ?thesis
    proof (cases r)
      case (Inl e)
      with ack Pair have "send_retries k y number d pad (Some e) dev2 = (Inr u, dev')"
        by simp
      from Suc.IH [OF this] obtain n where "0 < n" "n \<le> k"
        "outgoing dev' = outgoing dev2 @ concat (replicate n ?f)"
        by blast
      with out same show ?thesis
        by (intro exI [of _ "Suc n"]) simp
    next
      case (Inr v)
      with ack Pair out same show ?thesis
        by (intro exI [of _ 1]) simp
    qed
  qed
qed

lemma send_blk_Inr:
  assumes "send_blk d pad lst y dev = (Inr y', dev')"
  shows "y' = y\<lparr>blk := blk y + 1\<rparr> \<and>
    (\<exists>n. 0 < n \<and> n \<le> max_block_retries y \<and> fits d \<and>
      outgoing dev' = outgoing dev @
        concat (replicate n (frame_bytes (crc_mode y) (if lst then 0 else blk y) d pad)))"
proof -
  have "(0xff :: u8) + 1 = 0" by simp
  with assms show ?thesis
    by (auto simp: send_blk_def Let_def io_bind_Inr split: if_splits dest!: send_retries_Inr)
qed

text \<open>The blocks of a file: the results of its reads up to the end.\<close>

fun file_blocks :: "(io_error + bytes) list \<Rightarrow> bytes list" where
  "file_blocks (Inr b # reads) = (if b = [] then [] else b # file_blocks reads)"
| "file_blocks _ = []"

fun data_stream :: "bool \<Rightarrow> u8 \<Rightarrow> bytes list \<Rightarrow> nat list \<Rightarrow> bytes" where
  "data_stream crc b (d # ds) (n # ns) =
     concat (replicate n (frame_bytes crc b d EOF_PAD)) @ data_stream crc (b + 1) ds ns"
| "data_stream crc b _ _ = []"

lemma send_file_Inr:
  assumes "fst (send_file reads sent y dev) = (Inr y', dev')"
  shows "crc_mode y' = crc_mode y \<and> max_block_retries y' = max_block_retries y \<and>
    list_all fits (file_blocks reads) \<and>
    (\<exists>ns. length ns = length (file_blocks reads) \<and>
      list_all (\<lambda>n. 0 < n \<and> n \<le> max_block_retries y) ns \<and>
      outgoing dev' = outgoing dev @ data_stream (crc_mode y) (blk y) (file_blocks reads) ns)"
  using assms
proof (induction reads sent y dev rule: send_file.induct)
  case (3 buf reads sent y dev)
  show ?case
  proof (cases "buf = []")
    case True
    with "3.prems" show ?thesis by simp
  next
    case False
    with "3.prems" obtain y1 dev1 where step: "send_blk buf EOF_PAD False y dev = (Inr y1, dev1)"
      and rest: "fst (send_file reads (sent + length buf) y1 dev1) = (Inr y', dev')"
      by (auto split: prod.splits sum.splits simp: Let_def)
    from send_blk_Inr [OF step] obtain n where y1: "y1 = y\<lparr>blk := blk y + 1\<rparr>"
      and n: "0 < n" "n \<le> max_block_retries y" "fits buf"
      "outgoing dev1 = outgoing dev @
        concat (replicate n (frame_bytes (crc_mode y) (blk y) buf EOF_PAD))"
      by auto
    from "3.IH" [OF _ step [symmetric] refl refl rest] False
    obtain ns where "crc_mode y' = crc_mode y1" "max_block_retries y' = max_block_retries y1"
      "list_all fits (file_blocks reads)" "length ns = length (file_blocks reads)"
      "list_all (\<lambda>n. 0 < n \<and> n \<le> max_block_retries y1) ns"
      "outgoing dev' = outgoing dev1 @ data_stream (crc_mode y1) (blk y1) (file_blocks reads) ns"
      by auto
    with n y1 False show ?thesis
      by (intro conjI exI [of _ "n # ns"]) simp_all
  qed
qed simp_all

definition session_bytes ::
    "bool \<Rightarrow> string \<Rightarrow> nat \<Rightarrow> bytes list \<Rightarrow> nat \<Rightarrow> nat list \<Rightarrow> nat \<Rightarrow> bytes" where
  "session_bytes crc name fsize blocks h ns f =
     concat (replicate h (frame_bytes crc 0 (header_data name fsize) 0)) @
     data_stream crc 1 blocks ns @ [EOT] @ concat (replicate f (frame_bytes crc 0 [0] 0))"

lemma send_Inr:
  assumes "send name fsize reads y dev = (Inr y', dev')" "blk y = 0"
  shows "\<exists>h ns f. 0 < h \<and> 0 < f \<and> length ns = length (file_blocks reads) \<and>
    list_all (\<lambda>n. 0 < n) ns \<and> list_all (\<lambda>n. n \<le> max_block_retries y) (h # f # ns) \<and>
    list_all fits (header_data name fsize # file_blocks reads) \<and>
    outgoing dev' = outgoing dev @ session_bytes (crc_mode y) name fsize (file_blocks reads) h ns f"
proof -
  from assms(1) obtain y1 d1 y2 d2 d3 d4 d5 y6 d6 where
    s1: "send_blk (header_data name fsize) 0 False y dev = (Inr y1, d1)" and
    s2: "fst (send_file reads 0 y1 d1) = (Inr y2, d2)" and
    s3: "write_all [EOT] d2 = (Inr (), d3)" and s4: "fault d3 = (Inr (), d4)" and
    s5: "wait_ack y2 d4 = (Inr (), d5)" and s6: "send_blk [0] 0 True y2 d5 = (Inr y6, d6)" and
    s7: "wait_for_start y6 d6 = (Inr y', dev')"
    by (auto simp: send_def send_header_def io_bind_Inr flush_def)
  from send_blk_Inr [OF s1] assms(2) obtain h where y1: "y1 = y\<lparr>blk := 1\<rparr>"
    and h: "0 < h" "h \<le> max_block_retries y" "fits (header_data name fsize)"
    "outgoing d1 = outgoing dev @
      concat (replicate h (frame_bytes (crc_mode y) 0 (header_data name fsize) 0))"
    by auto
  from send_file_Inr [OF s2] y1 obtain ns where y2: "crc_mode y2 = crc_mode y"
    "max_block_retries y2 = max_block_retries y" and
    ns: "list_all fits (file_blocks reads)" "length ns = length (file_blocks reads)"
    "list_all (\<lambda>n. 0 < n \<and> n \<le> max_block_retries y) ns"
    "outgoing d2 = outgoing d1 @ data_stream (crc_mode y) 1 (file_blocks reads) ns"
    by auto
  from send_blk_Inr [OF s6] y2 obtain f where
    f: "0 < f" "f \<le> max_block_retries y"
    "outgoing d6 = outgoing d5 @ concat (replicate f (frame_bytes (crc_mode y) 0 [0] 0))"
    by auto
  have "outgoing dev' = outgoing dev @
      session_bytes (crc_mode y) name fsize (file_blocks reads) h ns f"
    using h ns f write_all_Inr [OF s3] fault_frame [OF s4] wait_ack_frame [OF s5]
      wait_for_start_frame [OF s7]
    by (simp add: session_bytes_def)
  with h ns f show ?thesis
    by (intro exI [of _ h] exI [of _ ns] exI [of _ f]) (simp add: list_all_iff)
qed

section \<open>A receiver\<close>

text \<open>
  The other end of the protocol, as the format prescribes it: a frame is checked (marker, block
  number and its complement, checksum), the expected block is taken, a repetition of the block
  before it is dropped, anything else is an error. The code has no receiver; this one states
  what the sent bytes mean.
\<close>

definition parse_frame :: "bool \<Rightarrow> bytes \<Rightarrow> ((u8 \<times> bytes) \<times> bytes) option" where
  "parse_frame crc bs =
     (case bs of
        p # number # check # rest \<Rightarrow>
          let len = (if p = STX then 1024 else 128); trailer = (if crc then 2 else 0) in
          if (p = SOH \<or> p = STX) \<and> check = NOT number \<and> len + trailer \<le> length rest \<and>
            (crc \<longrightarrow> crc16_ccitt 0 (take (len + trailer) rest) = 0)
          then Some ((number, take len rest), drop (len + trailer) rest)
          else None
      | _ \<Rightarrow> None)"

lemma parse_frame_shorter: "parse_frame crc bs = Some (f, rest) \<Longrightarrow> length rest < length bs"
  by (auto simp: parse_frame_def Let_def split: list.splits if_splits)

function receive_blocks :: "bool \<Rightarrow> u8 \<Rightarrow> bytes \<Rightarrow> (bytes list \<times> bytes) option" where
  "receive_blocks crc expected bs =
     (case bs of
        [] \<Rightarrow> None
      | b # rest \<Rightarrow>
          if b = EOT then Some ([], rest)
          else case parse_frame crc bs of
            None \<Rightarrow> None
          | Some ((number, payload), rest) \<Rightarrow>
              if number = expected then
                map_option (\<lambda>(ps, r). (payload # ps, r)) (receive_blocks crc (expected + 1) rest)
              else if number = expected - 1 then receive_blocks crc expected rest
              else None)"
  by pat_completeness auto
termination
  by (relation "measure (\<lambda>(crc, e, bs). length bs)") (auto dest!: parse_frame_shorter)

declare receive_blocks.simps [simp del]

text \<open>The block zero that closes the session, possibly repeated, up to the end of the stream.\<close>

function receive_close :: "bool \<Rightarrow> bytes \<Rightarrow> bytes list option" where
  "receive_close crc bs =
     (if bs = [] then Some []
      else case parse_frame crc bs of
        None \<Rightarrow> None
      | Some ((number, payload), rest) \<Rightarrow>
          if number = 0 then map_option (Cons payload) (receive_close crc rest) else None)"
  by pat_completeness auto
termination
  by (relation "measure (\<lambda>(crc, bs). length bs)") (auto dest!: parse_frame_shorter)

declare receive_close.simps [simp del]

definition receive_session :: "bool \<Rightarrow> bytes \<Rightarrow> (bytes \<times> nat \<times> bytes) option" where
  "receive_session crc bs =
     (case receive_blocks crc 0 bs of
        Some (header # blocks, rest) \<Rightarrow>
          let name = takeWhile (\<lambda>b. b \<noteq> 0) header;
              digits = takeWhile (\<lambda>b. b \<noteq> 0) (drop (length name + 1) header);
              n = dec_value (map (\<lambda>b. char_of (unat b)) digits)
          in (case receive_close crc rest of
                Some (close # _) \<Rightarrow>
                  if list_all (\<lambda>b. b = 0) close then Some (name, n, take n (concat blocks)) else None
              | _ \<Rightarrow> None)
      | _ \<Rightarrow> None)"

lemma frame_payload_length: "fits d \<Longrightarrow> length (frame_payload d pad) = fst (frame_shape d)"
  by (simp add: fits_def frame_payload_def)

lemma parse_frame_bytes:
  assumes "fits d"
  shows "parse_frame crc (frame_bytes crc number d pad @ rest) =
    Some ((number, frame_payload d pad), rest)"
proof -
  have shape: "frame_shape d = (1024, STX) \<or> frame_shape d = (128, SOH)"
    by (simp add: frame_shape_def)
  have "STX \<noteq> SOH"
    by (simp add: ymodem_consts)
  with shape frame_payload_length [OF assms, of pad] show ?thesis
    by (auto simp: parse_frame_def frame_bytes_def crc16_residue Let_def)
qed

lemma frame_bytes_head: "\<exists>p t. frame_bytes crc number d pad = p # t \<and> p \<noteq> EOT"
  by (simp add: frame_bytes_def frame_shape_def ymodem_consts)

lemma receive_frame:
  assumes "fits d"
  shows "receive_blocks crc expected (frame_bytes crc number d pad @ rest) =
    (if number = expected then map_option (\<lambda>(ps, r). (frame_payload d pad # ps, r))
       (receive_blocks crc (expected + 1) rest)
     else if number = expected - 1 then receive_blocks crc expected rest else None)"
proof -
  obtain p t where head: "frame_bytes crc number d pad = p # t" "p \<noteq> EOT"
    using frame_bytes_head by blast
  have parse: "parse_frame crc (p # t @ rest) = Some ((number, frame_payload d pad), rest)"
    using parse_frame_bytes [OF assms, of crc number pad rest] head(1) by simp
  show ?thesis
    by (simp add: head receive_blocks.simps [of crc expected "p # t @ rest"] parse)
qed

lemma receive_repeats:
  assumes "fits d"
  shows "receive_blocks crc (number + 1) (concat (replicate n (frame_bytes crc number d pad)) @ rest) =
    receive_blocks crc (number + 1) rest"
  by (induction n) (simp_all add: receive_frame [OF assms])

lemma receive_block:
  assumes "fits d" "0 < n"
  shows "receive_blocks crc number (concat (replicate n (frame_bytes crc number d pad)) @ rest) =
    map_option (\<lambda>(ps, r). (frame_payload d pad # ps, r)) (receive_blocks crc (number + 1) rest)"
proof -
  from assms(2) obtain m where "n = Suc m" by (cases n) auto
  then show ?thesis
    using receive_repeats [OF assms(1), of crc number m pad rest]
    by (simp add: receive_frame [OF assms(1)])
qed

lemma receive_data:
  assumes "list_all fits blocks" "list_all (\<lambda>n. 0 < n) ns" "length ns = length blocks"
  shows "receive_blocks crc b (data_stream crc b blocks ns @ [EOT] @ rest) =
    Some (map (\<lambda>d. frame_payload d EOF_PAD) blocks, rest)"
  using assms
proof (induction blocks arbitrary: b ns)
  case Nil
  then show ?case by (simp add: receive_blocks.simps)
next
  case (Cons d blocks)
  then obtain n ms where ns: "ns = n # ms" by (cases ns) auto
  with Cons show ?case
    using receive_block [of d n crc b EOF_PAD "data_stream crc (b + 1) blocks ms @ EOT # rest"]
    by simp
qed

lemma receive_close_frames:
  assumes "fits d"
  shows "receive_close crc (concat (replicate n (frame_bytes crc 0 d pad))) =
    Some (replicate n (frame_payload d pad))"
proof (induction n)
  case 0
  then show ?case by (simp add: receive_close.simps)
next
  case (Suc n)
  obtain p t where head: "frame_bytes crc 0 d pad = p # t"
    using frame_bytes_head by blast
  with Suc parse_frame_bytes [OF assms, of crc 0 pad] show ?case
    by (simp add: receive_close.simps [of crc "p # _"])
qed

text \<open>Full reads: every block but the last fills its frame.\<close>

fun full_blocks :: "bytes list \<Rightarrow> bool" where
  "full_blocks (b # c # bs) \<longleftrightarrow> (length b = 128 \<or> length b = 1024) \<and> full_blocks (c # bs)"
| "full_blocks _ \<longleftrightarrow> True"

lemma full_payload: "length b = 128 \<or> length b = 1024 \<Longrightarrow> frame_payload b pad = b"
  by (auto simp: frame_payload_def frame_shape_def)

lemma full_blocks_concat:
  "full_blocks bs \<Longrightarrow>
     \<exists>padding. concat (map (\<lambda>d. frame_payload d EOF_PAD) bs) = concat bs @ padding"
proof (induction bs rule: full_blocks.induct)
  case (1 b c bs)
  then show ?case by (auto simp: full_payload)
qed (simp_all add: frame_payload_def)

lemma digits_nul_free: "0 \<notin> set (str_bytes (dec_str n))"
proof
  assume "0 \<in> set (str_bytes (dec_str n))"
  then obtain c where c: "c \<in> set (dec_str n)" "(of_char c :: u8) = 0"
    by (force simp: str_bytes_def)
  from c(2) have "unat (of_char c :: u8) = 0" by simp
  with dec_str_digits [OF c(1)] show False by simp
qed

lemma header_fields:
  assumes "nul_free name"
  shows "takeWhile (\<lambda>b. b \<noteq> 0) (header_data name n @ rest) = str_bytes name"
    and "takeWhile (\<lambda>b. b \<noteq> 0) (drop (length name + 1) (header_data name n @ rest)) =
      str_bytes (dec_str n)"
  using assms digits_nul_free [of n]
  by (auto simp: header_data_def nul_free_def takeWhile_append)

lemma char_str_bytes: "map (\<lambda>b. char_of (unat b)) (str_bytes s) = s"
  by (simp add: str_bytes_def comp_def map_idI)

lemma receive_session_bytes:
  assumes "nul_free name" "list_all fits (header_data name fsize # blocks)"
    "0 < h" "0 < f" "list_all (\<lambda>n. 0 < n) ns" "length ns = length blocks"
  shows "receive_session crc (session_bytes crc name fsize blocks h ns f) =
    Some (str_bytes name, fsize, take fsize (concat (map (\<lambda>d. frame_payload d EOF_PAD) blocks)))"
proof -
  let ?hd = "header_data name fsize"
  let ?close = "concat (replicate f (frame_bytes crc 0 [0] 0))"
  have "receive_blocks crc 0 (session_bytes crc name fsize blocks h ns f) =
      Some (frame_payload ?hd 0 # map (\<lambda>d. frame_payload d EOF_PAD) blocks, ?close)"
    unfolding session_bytes_def
    using assms receive_data [of blocks ns crc 1 ?close] by (simp add: receive_block)
  moreover have "receive_close crc ?close = Some (replicate f (frame_payload [0] 0))"
    by (rule receive_close_frames) (simp add: fits_def frame_shape_def)
  moreover have "list_all (\<lambda>b. b = 0) (frame_payload [0] 0)"
    by (simp add: frame_payload_def list_all_iff)
  moreover obtain m where "f = Suc m"
    using assms(4) by (cases f) auto
  ultimately show ?thesis
    using header_fields [OF assms(1), of fsize "replicate (fst (frame_shape ?hd) - length ?hd) 0"]
    by (simp add: receive_session_def frame_payload_def char_str_bytes dec_value_dec_str Let_def)
qed

section \<open>Runs on a device that acknowledges\<close>



lemma write_all_clean:
  "faults d = [] \<Longrightarrow> write_all bs d = (Inr (), d\<lparr>outgoing := outgoing d @ bs\<rparr>)"
  by (simp add: write_all_def fault_def)

lemma send_frame_clean:
  "faults d = [] \<Longrightarrow> fits b \<Longrightarrow>
     \<exists>out. send_frame crc number b pad d = (Inr (), d\<lparr>outgoing := out\<rparr>)"
  by (cases crc)
    (auto simp: send_frame_def fits_def write_all_clean flush_def fault_def Let_def
      split: prod.splits)



section \<open>Properties\<close>

lemma send_received_padded:
  assumes "send name fsize reads y dev = (Inr y', dev')" "blk y = 0" "nul_free name"
  shows "\<exists>sent. outgoing dev' = outgoing dev @ sent \<and>
    receive_session (crc_mode y) sent = Some (str_bytes name, fsize,
      take fsize (concat (map (\<lambda>d. frame_payload d EOF_PAD) (file_blocks reads))))"
proof -
  from send_Inr [OF assms(1,2)] obtain h ns f where
    run: "0 < h" "0 < f" "length ns = length (file_blocks reads)" "list_all (\<lambda>n. 0 < n) ns"
      "list_all fits (header_data name fsize # file_blocks reads)"
    and out: "outgoing dev' = outgoing dev @
      session_bytes (crc_mode y) name fsize (file_blocks reads) h ns f"
    by blast
  with receive_session_bytes [OF assms(3) run(5,1,2,4,3), of "crc_mode y"] show ?thesis by simp
qed

lemma full_blocks_content:
  assumes "full_blocks bs" "n = length (concat bs)"
  shows "take n (concat (map (\<lambda>d. frame_payload d EOF_PAD) bs)) = concat bs"
  using full_blocks_concat [OF assms(1)] assms(2) by auto

lemma send_received:
  assumes "send name fsize reads y dev = (Inr y', dev')" "blk y = 0" "nul_free name"
    and "full_blocks (file_blocks reads)" "fsize = length (concat (file_blocks reads))"
  shows "\<exists>sent. outgoing dev' = outgoing dev @ sent \<and>
    receive_session (crc_mode y) sent = Some (str_bytes name, fsize, concat (file_blocks reads))"
  using send_received_padded [OF assms(1-3)] full_blocks_content [OF assms(4,5)] by simp


definition ack_device :: "nat \<Rightarrow> ydevice" where
  "ack_device n = \<lparr>incoming = replicate n (Inr ACK) @ [Inr CRC_START], faults = [], outgoing = [],
     stdout_faults = [], echoed = []\<rparr>"






lemma send_frame_clean_bytes:
  assumes "faults d = []" "fits b"
  shows "send_frame crc number b pad d =
    (Inr (), d\<lparr>outgoing := outgoing d @ frame_bytes crc number b pad\<rparr>)"
proof -
  from send_frame_clean [OF assms] obtain out where
    "send_frame crc number b pad d = (Inr (), d\<lparr>outgoing := out\<rparr>)" by metis
  with send_frame_Inr [OF this] show ?thesis by simp
qed

lemma wait_ack_faults: "wait_ack y d = (r, d') \<Longrightarrow> faults d = [] \<Longrightarrow> faults d' = []"
proof (induction y d rule: wait_ack.induct)
  case (1 y d)
  obtain x d1 where get: "getc d = (x, d1)" by (cases "getc d")
  then have f1: "faults d1 = []"
    using "1.prems" by (auto simp: getc_def split: list.splits)
  show ?case
  proof (cases "\<exists>c. x = Inr c \<and> c \<noteq> ACK \<and> c \<noteq> nak y")
    case True
    then obtain c where c: "x = Inr c" "c \<noteq> ACK" "c \<noteq> nak y" by blast
    obtain z d2 where ech: "echo c d1 = (z, d2)" by (cases "echo c d1")
    then have "faults d2 = []"
      using f1 by (auto simp: echo_def split: list.splits option.splits)
    with "1.prems" get c ech "1.IH" [OF get [symmetric] c(1) c(2) c(3) ech [symmetric]]
    show ?thesis by (cases z) (simp_all add: wait_ack.simps [of y d])
  next
    case False
    with "1.prems" get f1 show ?thesis
      by (cases x) (auto simp: wait_ack.simps [of y d] split: if_splits)
  qed
qed

lemma send_retries_clean:
  assumes "faults dev = []" "fits b"
  shows "\<exists>n r dev'. send_retries k y number b pad err dev = (r, dev') \<and> n \<le> k \<and>
    outgoing dev' = outgoing dev @ concat (replicate n (frame_bytes (crc_mode y) number b pad)) \<and>
    (if is_ok r then 0 < n else n = k)"
  using assms(1)
proof (induction k arbitrary: err dev)
  case 0
  then show ?case by simp
next
  case (Suc k)
  let ?f = "frame_bytes (crc_mode y) number b pad"
  let ?d1 = "dev\<lparr>outgoing := outgoing dev @ ?f\<rparr>"
  note sent = send_frame_clean_bytes [OF Suc.prems assms(2)]
  obtain r2 d2 where ack: "wait_ack y ?d1 = (r2, d2)" by (cases "wait_ack y ?d1")
  have d2: "outgoing d2 = outgoing dev @ ?f" "faults d2 = []"
    using wait_ack_frame [OF ack] wait_ack_faults [OF ack] Suc.prems by simp_all
  show ?case
  proof (cases r2)
    case (Inl e)
    from Suc.IH [OF d2(2), of "Some e"] obtain n r dev' where
      "send_retries k y number b pad (Some e) d2 = (r, dev')" "n \<le> k"
      "outgoing dev' = outgoing d2 @ concat (replicate n ?f)"
      "if is_ok r then 0 < n else n = k"
      by blast
    with sent ack Inl d2 show ?thesis
      by (intro exI [of _ "Suc n"] exI [of _ r] exI [of _ dev']) (simp split: if_splits)
  next
    case (Inr u)
    with sent ack d2 show ?thesis
      by (intro exI [of _ 1] exI [of _ "Inr ()"] exI [of _ d2]) simp
  qed
qed

text \<open>
  Retries are bounded, and a block is given up only after all of them. On a device without
  write faults, sending a block writes its frame \<open>n\<close> times with \<open>n\<close> at most the configured
  number of retries; success means \<open>n\<close> is at least one, failure that it is exactly the bound.
\<close>

theorem ymodem_retry_bound:
  assumes "faults dev = []" "fits b"
  shows "\<exists>n r dev'. send_blk b pad lst y dev = (r, dev') \<and> n \<le> max_block_retries y \<and>
    outgoing dev' = outgoing dev @ concat (replicate n
      (frame_bytes (crc_mode y) (if lst then 0 else blk y) b pad)) \<and>
    (if is_ok r then 0 < n else n = max_block_retries y)"
proof -
  from send_retries_clean [OF assms, of "max_block_retries y" y "if lst then 0 else blk y" pad None]
  obtain n r dev' where run: "send_retries (max_block_retries y) y (if lst then 0 else blk y) b pad
      None dev = (r, dev')" "n \<le> max_block_retries y"
    "outgoing dev' = outgoing dev @ concat (replicate n
      (frame_bytes (crc_mode y) (if lst then 0 else blk y) b pad))"
    "if is_ok r then 0 < n else n = max_block_retries y"
    by blast
  then show ?thesis
    by (cases r) (auto simp: send_blk_def Let_def)
qed

lemma ymodem_retry_bound_witness:
  "\<exists>n r dev'. send_blk [7] 0 False (ymodem_new True) (ack_device 0) = (r, dev') \<and>
     n \<le> max_block_retries (ymodem_new True) \<and>
     outgoing dev' = outgoing (ack_device 0) @ concat (replicate n
       (frame_bytes (crc_mode (ymodem_new True)) (if False then 0 else blk (ymodem_new True)) [7] 0)) \<and>
     (if is_ok r then 0 < n else n = max_block_retries (ymodem_new True))"
  by (rule ymodem_retry_bound) (simp_all add: ack_device_def fits_def frame_shape_def)

section \<open>Divergences\<close>

text \<open>
  In CRC mode the sender takes \<open>C\<close> for a refusal and prints a \<open>NAK\<close>, so a receiver that
  answers a damaged block with \<open>NAK\<close> does not get it again; in checksum mode a frame carries no
  checksum at all; a short read in the middle of the file is padded in the middle of the file.
\<close>

lemma nak_ignored_in_crc_mode:
  assumes "crc_mode y" "incoming d = Inr NAK # rs" "stdout_faults d = []"
  shows "wait_ack y d = wait_ack y (d\<lparr>incoming := rs, echoed := echoed d @ [NAK]\<rparr>)"
  using assms
  by (subst wait_ack.simps) (simp add: getc_def nak_def echo_def ymodem_consts)

lemma no_checksum_in_checksum_mode:
  "frame_bytes False number d pad =
     [snd (frame_shape d), number, NOT number] @ frame_payload d pad"
  by (simp add: frame_bytes_def)

lemma short_read_corrupts:
  "receive_session True (session_bytes True ''a'' 2 [[1], [2]] 1 [1, 1] 1) =
     Some (str_bytes ''a'', 2, [1, EOF_PAD])"
proof -
  have "frame_payload [1] EOF_PAD = 1 # EOF_PAD # replicate 126 EOF_PAD"
    by (simp add: frame_payload_def frame_shape_def numeral_eq_Suc)
  then show ?thesis
    using receive_session_bytes [of "''a''" 2 "[[1], [2]]" 1 1 "[1, 1]" True]
    by (simp add: nul_free_def fits_def frame_shape_def header_data_def dec_str.simps)
qed

end
