(* ===== verification/Utf8.thy ===== *)
theory Utf8
  imports Ostool_Prelude
begin

text \<open>
  The UTF-8 validation of the Rust standard library, as the parsers use it: \<open>from_utf8\<close> with the
  \<open>valid_up_to\<close> and \<open>error_len\<close> of its error, \<open>is_char_boundary\<close>, and the facts that make
  cutting a text safe: a valid text followed by a valid text is valid, and a text can be cut
  before any byte that does not continue a character.
\<close>

section \<open>Well-formed sequences\<close>

text \<open>\<open>core::str::from_utf8\<close> succeeds on the well-formed sequences of the Unicode standard.\<close>

definition utf8_cont :: "u8 \<Rightarrow> bool" where
  "utf8_cont b \<longleftrightarrow> 0x80 \<le> b \<and> b \<le> 0xBF"

fun utf8_tail :: "u8 \<Rightarrow> bytes \<Rightarrow> nat option" where
  "utf8_tail b0 (b1 # b2 # b3 # rest) =
     (if 0xC2 \<le> b0 \<and> b0 \<le> 0xDF \<and> utf8_cont b1 then Some 1
      else if (b0 = 0xE0 \<and> 0xA0 \<le> b1 \<and> b1 \<le> 0xBF \<or> b0 = 0xED \<and> 0x80 \<le> b1 \<and> b1 \<le> 0x9F \<or>
          (0xE1 \<le> b0 \<and> b0 \<le> 0xEC \<or> b0 = 0xEE \<or> b0 = 0xEF) \<and> utf8_cont b1) \<and> utf8_cont b2 then Some 2
      else if (b0 = 0xF0 \<and> 0x90 \<le> b1 \<and> b1 \<le> 0xBF \<or> b0 = 0xF4 \<and> 0x80 \<le> b1 \<and> b1 \<le> 0x8F \<or>
          0xF1 \<le> b0 \<and> b0 \<le> 0xF3 \<and> utf8_cont b1) \<and> utf8_cont b2 \<and> utf8_cont b3 then Some 3
      else None)"
| "utf8_tail b0 [b1, b2] =
     (if 0xC2 \<le> b0 \<and> b0 \<le> 0xDF \<and> utf8_cont b1 then Some 1
      else if (b0 = 0xE0 \<and> 0xA0 \<le> b1 \<and> b1 \<le> 0xBF \<or> b0 = 0xED \<and> 0x80 \<le> b1 \<and> b1 \<le> 0x9F \<or>
          (0xE1 \<le> b0 \<and> b0 \<le> 0xEC \<or> b0 = 0xEE \<or> b0 = 0xEF) \<and> utf8_cont b1) \<and> utf8_cont b2 then Some 2
      else None)"
| "utf8_tail b0 [b1] = (if 0xC2 \<le> b0 \<and> b0 \<le> 0xDF \<and> utf8_cont b1 then Some 1 else None)"
| "utf8_tail b0 [] = None"

function utf8_valid :: "bytes \<Rightarrow> bool" where
  "utf8_valid [] = True"
| "utf8_valid (b # bs) =
     (if b < 0x80 then utf8_valid bs
      else case utf8_tail b bs of None \<Rightarrow> False | Some n \<Rightarrow> utf8_valid (drop n bs))"
  by pat_completeness auto
termination by (relation "measure length") auto

definition from_utf8 :: "bytes \<Rightarrow> string option" where
  "from_utf8 bs = (if utf8_valid bs then Some (map (\<lambda>b. char_of (unat b)) bs) else None)"

lemma utf8_valid_ascii: "list_all (\<lambda>b. b < 0x80) bs \<Longrightarrow> utf8_valid bs"
  by (induction bs) simp_all

section \<open>Scanning one character\<close>

text \<open>
  One step of the validation: a character of \<open>n\<close> bytes, a malformed sequence of \<open>n\<close> bytes, or the
  input ends inside a character.
\<close>

datatype scan_result = ValidChar nat | BadBytes nat | Truncated

definition utf8_second3 :: "u8 \<Rightarrow> u8 \<Rightarrow> bool" where
  "utf8_second3 b0 b1 \<longleftrightarrow>
     (if b0 = 0xE0 then 0xA0 \<le> b1 \<and> b1 \<le> 0xBF
      else if b0 = 0xED then 0x80 \<le> b1 \<and> b1 \<le> 0x9F
      else utf8_cont b1)"

definition utf8_second4 :: "u8 \<Rightarrow> u8 \<Rightarrow> bool" where
  "utf8_second4 b0 b1 \<longleftrightarrow>
     (if b0 = 0xF0 then 0x90 \<le> b1 \<and> b1 \<le> 0xBF
      else if b0 = 0xF4 then 0x80 \<le> b1 \<and> b1 \<le> 0x8F
      else utf8_cont b1)"

fun utf8_rest :: "nat \<Rightarrow> nat \<Rightarrow> bytes \<Rightarrow> scan_result" where
  "utf8_rest seen 0 bs = ValidChar seen"
| "utf8_rest seen (Suc n) [] = Truncated"
| "utf8_rest seen (Suc n) (b # bs) =
     (if utf8_cont b then utf8_rest (seen + 1) n bs else BadBytes seen)"

fun utf8_scan :: "bytes \<Rightarrow> scan_result" where
  "utf8_scan [] = Truncated"
| "utf8_scan (b0 # bs) =
     (if b0 < 0x80 then ValidChar 1
      else if 0xC2 \<le> b0 \<and> b0 \<le> 0xDF then utf8_rest 1 1 bs
      else if 0xE0 \<le> b0 \<and> b0 \<le> 0xEF then
        (case bs of [] \<Rightarrow> Truncated
         | b1 # r \<Rightarrow> if utf8_second3 b0 b1 then utf8_rest 2 1 r else BadBytes 1)
      else if 0xF0 \<le> b0 \<and> b0 \<le> 0xF4 then
        (case bs of [] \<Rightarrow> Truncated
         | b1 # r \<Rightarrow> if utf8_second4 b0 b1 then utf8_rest 2 2 r else BadBytes 1)
      else BadBytes 1)"

declare utf8_scan.simps(2) [simp del]

lemma utf8_rest_char:
  "utf8_rest k n bs = ValidChar m \<Longrightarrow> m = k + n \<and> n \<le> length bs \<and> list_all utf8_cont (take n bs)"
  by (induction k n bs rule: utf8_rest.induct) (auto split: if_splits)

lemma utf8_rest_bad: "utf8_rest k n bs = BadBytes m \<Longrightarrow> k \<le> m \<and> m < k + n \<and> m \<le> k + length bs"
  by (induction k n bs rule: utf8_rest.induct) (force split: if_splits)+

lemma utf8_rest_append:
  "utf8_rest k n bs = ValidChar m \<Longrightarrow> utf8_rest k n (bs @ cs) = ValidChar m"
  "utf8_rest k n bs = BadBytes m \<Longrightarrow> utf8_rest k n (bs @ cs) = BadBytes m"
  by (induction k n bs rule: utf8_rest.induct) (auto split: if_splits)

lemma utf8_rest_truncated: "utf8_rest k n bs = Truncated \<Longrightarrow> length bs < n"
  by (induction k n bs rule: utf8_rest.induct) (auto split: if_splits)

lemma utf8_second_cont: "utf8_second3 b0 b1 \<Longrightarrow> utf8_cont b1" "utf8_second4 b0 b1 \<Longrightarrow> utf8_cont b1"
  by (auto simp: utf8_second3_def utf8_second4_def utf8_cont_def word_le_nat_alt split: if_splits)

text \<open>A scanned character has one to four bytes, and all but the first continue it.\<close>

lemma utf8_scan_char:
  assumes "utf8_scan bs = ValidChar n"
  shows "0 < n \<and> n \<le> length bs \<and> list_all utf8_cont (take (n - 1) (tl bs))"
proof (cases bs)
  case Nil
  with assms show ?thesis by simp
next
  case (Cons b0 r)
  with assms show ?thesis
    by (auto simp: utf8_scan.simps(2) dest!: utf8_rest_char utf8_second_cont split: if_splits list.splits)
qed

lemma utf8_scan_bad: "utf8_scan bs = BadBytes n \<Longrightarrow> 0 < n \<and> n \<le> length bs"
  by (cases bs)
    (auto simp: utf8_scan.simps(2) dest!: utf8_rest_bad split: if_splits list.splits)

lemma utf8_scan_append:
  "utf8_scan bs = ValidChar n \<Longrightarrow> utf8_scan (bs @ cs) = ValidChar n"
  "utf8_scan bs = BadBytes n \<Longrightarrow> utf8_scan (bs @ cs) = BadBytes n"
  by (cases bs; auto simp: utf8_scan.simps(2) utf8_rest_append split: if_splits list.splits)+

lemma utf8_rest_prefix:
  assumes "utf8_rest k n (bs @ cs) = ValidChar m" "m \<le> k + length bs"
  shows "utf8_rest k n bs = ValidChar m"
proof -
  have "n \<le> length bs" using utf8_rest_char [OF assms(1)] assms(2) by simp
  with assms(1) show ?thesis
    by (induction k n bs rule: utf8_rest.induct) (auto split: if_splits)
qed

lemma if_mono:
  "(if P then a else b) = v \<Longrightarrow> (a = v \<Longrightarrow> a' = v) \<Longrightarrow> (b = v \<Longrightarrow> b' = v) \<Longrightarrow> (if P then a' else b') = v"
  by (cases P) auto

lemma utf8_scan_prefix:
  assumes "utf8_scan (bs @ cs) = ValidChar n" "n \<le> length bs"
  shows "utf8_scan bs = ValidChar n"
proof (cases bs)
  case Nil
  with utf8_scan_char [OF assms(1)] assms(2) show ?thesis by simp
next
  case (Cons b0 r)
  have len: "n \<le> 1 + length r" using assms(2) Cons by simp
  have more: "(case r @ cs of [] \<Rightarrow> Truncated | b1 # t \<Rightarrow> if P b1 then utf8_rest 2 j t else BadBytes 1) =
        ValidChar n \<Longrightarrow>
      (case r of [] \<Rightarrow> Truncated | b1 # t \<Rightarrow> if P b1 then utf8_rest 2 j t else BadBytes 1) = ValidChar n"
    for P j
  proof (cases r)
    case Nil
    assume "(case r @ cs of [] \<Rightarrow> Truncated | b1 # t \<Rightarrow> if P b1 then utf8_rest 2 j t else BadBytes 1) =
        ValidChar n"
    with Nil len utf8_rest_char [of 2 j _ n] show ?thesis
      by (cases cs) (auto split: if_splits)
  next
    case (Cons b1 t)
    assume "(case r @ cs of [] \<Rightarrow> Truncated | b1 # t \<Rightarrow> if P b1 then utf8_rest 2 j t else BadBytes 1) =
        ValidChar n"
    with Cons len utf8_rest_prefix [of 2 j t cs n] show ?thesis
      by (simp split: if_splits)
  qed
  have "utf8_scan (b0 # r @ cs) = ValidChar n" using assms(1) Cons by simp
  then have "utf8_scan (b0 # r) = ValidChar n"
    unfolding utf8_scan.simps(2)
    by (elim if_mono) (assumption | erule more | erule utf8_rest_prefix, rule len)+
  with Cons show ?thesis by simp
qed

lemma utf8_scan_truncated: "utf8_scan bs = Truncated \<Longrightarrow> length bs \<le> 3"
  by (cases bs)
    (auto simp: utf8_scan.simps(2) dest!: utf8_rest_truncated split: if_splits list.splits)

section \<open>Validating a text\<close>

datatype utf8_result = Utf8Ok | Utf8Error nat "nat option"

function utf8_check_from :: "nat \<Rightarrow> bytes \<Rightarrow> utf8_result" where
  "utf8_check_from k bs =
     (if bs = [] then Utf8Ok
      else case utf8_scan bs of
        ValidChar n \<Rightarrow> utf8_check_from (k + n) (drop n bs)
      | BadBytes n \<Rightarrow> Utf8Error k (Some n)
      | Truncated \<Rightarrow> Utf8Error k None)"
  by pat_completeness auto
termination
  by (relation "measure (length \<circ> snd)") (auto dest: utf8_scan_char)

declare utf8_check_from.simps [simp del]

definition utf8_check :: "bytes \<Rightarrow> utf8_result" where
  "utf8_check bs = utf8_check_from 0 bs"

definition utf8_ok :: "bytes \<Rightarrow> bool" where
  "utf8_ok bs \<longleftrightarrow> utf8_check bs = Utf8Ok"

definition is_char_boundary :: "bytes \<Rightarrow> nat \<Rightarrow> bool" where
  "is_char_boundary bs i \<longleftrightarrow> i = 0 \<or> i = length bs \<or> i < length bs \<and> \<not> utf8_cont (bs ! i)"

lemma utf8_check_from_ok: "utf8_check_from k bs = Utf8Ok \<longleftrightarrow> utf8_ok bs"
proof -
  have "utf8_check_from k bs = Utf8Ok \<longleftrightarrow> utf8_check_from j bs = Utf8Ok" for j
  proof (induction k bs arbitrary: j rule: utf8_check_from.induct)
    case (1 k bs)
    show ?case
      by (subst (1 2) utf8_check_from.simps) (auto simp: "1.IH" split: scan_result.splits)
  qed
  then show ?thesis by (simp add: utf8_ok_def utf8_check_def)
qed

lemma utf8_ok_Nil [simp]: "utf8_ok []"
  by (simp add: utf8_ok_def utf8_check_def utf8_check_from.simps)

lemma utf8_ok_scan:
  "bs \<noteq> [] \<Longrightarrow> utf8_ok bs \<longleftrightarrow> (\<exists>n. utf8_scan bs = ValidChar n \<and> utf8_ok (drop n bs))"
  unfolding utf8_ok_def utf8_check_def
  by (subst utf8_check_from.simps) (auto simp: utf8_check_from_ok split: scan_result.splits)

lemma utf8_ok_append: "utf8_ok a \<Longrightarrow> utf8_ok (a @ b) \<longleftrightarrow> utf8_ok b"
proof (induction a rule: length_induct)
  case (1 a)
  show ?case
  proof (cases "a = []")
    case False
    with "1.prems" obtain n where n: "utf8_scan a = ValidChar n" "utf8_ok (drop n a)"
      by (auto simp: utf8_ok_scan)
    with utf8_scan_char [OF n(1)] "1.IH" have "utf8_ok (drop n a @ b) \<longleftrightarrow> utf8_ok b" by auto
    with False n utf8_scan_append(1) [OF n(1), of b] utf8_scan_char [OF n(1)] show ?thesis
      by (simp add: utf8_ok_scan)
  qed simp
qed

text \<open>Cutting before a byte that starts a character.\<close>

lemma utf8_ok_cut: "utf8_ok (a @ c # b) \<Longrightarrow> \<not> utf8_cont c \<Longrightarrow> utf8_ok a"
proof (induction a rule: length_induct)
  case (1 a)
  show ?case
  proof (cases "a = []")
    case False
    with "1.prems" obtain n where n: "utf8_scan (a @ c # b) = ValidChar n" "utf8_ok (drop n (a @ c # b))"
      by (auto simp: utf8_ok_scan)
    note ch = utf8_scan_char [OF n(1)]
    have le: "n \<le> length a"
    proof (rule ccontr)
      assume "\<not> n \<le> length a"
      then have "length a - 1 < n - 1" "length a - 1 < length (tl a @ c # b)"
        using False by (cases a; simp)+
      moreover have "(tl a @ c # b) ! (length a - 1) = c" by (simp add: nth_append)
      moreover have "tl (a @ c # b) = tl a @ c # b" using False by simp
      ultimately have "c \<in> set (take (n - 1) (tl (a @ c # b)))"
        by (metis (no_types) in_set_conv_nth length_take min_less_iff_conj nth_take)
      with ch "1.prems"(2) show False by (auto simp: list_all_iff)
    qed
    from utf8_scan_prefix [OF n(1) le] have m: "utf8_scan a = ValidChar n" .
    have "utf8_ok (drop n a)"
      using "1.IH" n(2) le ch "1.prems"(2) False by simp
    then show ?thesis using m False by (auto simp: utf8_ok_scan)
  qed simp
qed

lemma utf8_ok_drop_char: "utf8_scan bs = ValidChar n \<Longrightarrow> utf8_ok (take n bs)"
proof -
  assume n: "utf8_scan bs = ValidChar n"
  with utf8_scan_char [OF n] have "utf8_scan (take n bs) = ValidChar n"
    by (intro utf8_scan_prefix [of "take n bs" "drop n bs"]) simp_all
  with utf8_scan_char [OF n] show ?thesis by (subst utf8_ok_scan) auto
qed

lemma utf8_check_from_error:
  "utf8_check_from k bs = Utf8Error v e \<Longrightarrow>
     \<exists>w. v = k + w \<and> w < length bs \<and> utf8_ok (take w bs) \<and>
       (case e of Some n \<Rightarrow> 0 < n \<and> w + n \<le> length bs | None \<Rightarrow> utf8_scan (drop w bs) = Truncated)"
proof (induction k bs rule: utf8_check_from.induct)
  case (1 k bs)
  show ?case
  proof (cases "bs = []")
    case True
    with "1.prems" show ?thesis by (simp add: utf8_check_from.simps)
  next
    case False
    show ?thesis
    proof (cases "utf8_scan bs")
      case (ValidChar n)
      note ch = utf8_scan_char [OF ValidChar]
      have "utf8_check_from (k + n) (drop n bs) = Utf8Error v e"
        using "1.prems" False ValidChar by (subst (asm) utf8_check_from.simps) simp
      from "1.IH" [OF False ValidChar this] obtain w where w: "v = k + n + w" "w < length bs - n"
          "utf8_ok (take w (drop n bs))"
          "case e of Some m \<Rightarrow> 0 < m \<and> w + m \<le> length bs - n
           | None \<Rightarrow> utf8_scan (drop w (drop n bs)) = Truncated"
        unfolding length_drop by blast
      have "utf8_ok (take (n + w) bs)"
        unfolding take_add using w(3) utf8_ok_append [OF utf8_ok_drop_char [OF ValidChar]] by simp
      with w ch show ?thesis
        by (intro exI [of _ "n + w"]) (auto simp: add.commute split: option.splits)
    next
      case (BadBytes n)
      with False "1.prems" have "v = k" "e = Some n"
        by (simp_all add: utf8_check_from.simps [of k])
      with False utf8_scan_bad [OF BadBytes] show ?thesis by simp
    next
      case Truncated
      with False "1.prems" have "v = k" "e = None"
        by (simp_all add: utf8_check_from.simps [of k])
      with False Truncated show ?thesis by simp
    qed
  qed
qed

lemma utf8_check_error:
  assumes "utf8_check bs = Utf8Error v e"
  shows "v < length bs" "utf8_ok (take v bs)" "e = Some n \<Longrightarrow> 0 < n \<and> v + n \<le> length bs"
    "e = None \<Longrightarrow> utf8_scan (drop v bs) = Truncated"
  using utf8_check_from_error [of 0 bs v e] assms by (auto simp: utf8_check_def)

section \<open>Replacing what is malformed\<close>

text \<open>
  The loop that copies valid text, puts U+FFFD for each malformed sequence and keeps back a
  character the input ends in; \<open>from_utf8_lossy\<close> of the standard library replaces that one too.
\<close>

definition REPLACEMENT :: bytes where
  "REPLACEMENT = [0xEF, 0xBF, 0xBD]"

function utf8_normalize :: "bytes \<Rightarrow> bytes \<times> bytes" where
  "utf8_normalize bs =
     (if bs = [] then ([], [])
      else case utf8_check bs of
        Utf8Ok \<Rightarrow> (bs, [])
      | Utf8Error valid (Some bad) \<Rightarrow>
          let (out, incomplete) = utf8_normalize (drop (valid + bad) bs)
          in (take valid bs @ REPLACEMENT @ out, incomplete)
      | Utf8Error valid None \<Rightarrow> (take valid bs, drop valid bs))"
  by pat_completeness auto
termination
  by (relation "measure length") (auto dest: utf8_check_error)

declare utf8_normalize.simps [simp del]

definition from_utf8_lossy :: "bytes \<Rightarrow> bytes" where
  "from_utf8_lossy bs =
     (let (out, incomplete) = utf8_normalize bs
      in out @ (if incomplete = [] then [] else REPLACEMENT))"

lemma utf8_ok_replacement: "utf8_ok REPLACEMENT"
  by code_simp

lemma utf8_normalize_ok: "utf8_ok bs \<Longrightarrow> utf8_normalize bs = (bs, [])"
  by (subst utf8_normalize.simps) (simp add: utf8_ok_def)

lemma utf8_normalize_cases:
  obtains (empty) "bs = []" "utf8_normalize bs = ([], [])"
  | (ok) "utf8_ok bs" "utf8_normalize bs = (bs, [])"
  | (bad) v n out inc where "utf8_check bs = Utf8Error v (Some n)" "bs \<noteq> []"
      "utf8_normalize (drop (v + n) bs) = (out, inc)"
      "utf8_normalize bs = (take v bs @ REPLACEMENT @ out, inc)"
  | (cut) v where "utf8_check bs = Utf8Error v None" "utf8_normalize bs = (take v bs, drop v bs)"
proof (cases "bs = [] \<or> utf8_ok bs")
  case True
  then show thesis
    using empty ok utf8_normalize_ok by (auto simp: utf8_normalize.simps [of "[]"])
next
  case False
  then obtain v e where e: "utf8_check bs = Utf8Error v e"
    by (cases "utf8_check bs") (auto simp: utf8_ok_def)
  show thesis
  proof (cases e)
    case None
    with e False show thesis by (intro cut) (simp_all add: utf8_normalize.simps [of bs])
  next
    case (Some n)
    with e False show thesis
      by (intro bad [of v n "fst (utf8_normalize (drop (v + n) bs))" "snd (utf8_normalize (drop (v + n) bs))"])
        (simp_all add: utf8_normalize.simps [of bs] case_prod_beta)
  qed
qed

lemma utf8_normalize_result:
  "utf8_normalize bs = (out, inc) \<Longrightarrow> utf8_ok out \<and> (inc = [] \<or> utf8_scan inc = Truncated)"
proof (induction bs arbitrary: out inc rule: length_induct)
  case (1 bs)
  show ?case
  proof (rule utf8_normalize_cases [of bs])
    fix v n out' inc'
    assume c: "utf8_check bs = Utf8Error v (Some n)" "bs \<noteq> []"
        "utf8_normalize (drop (v + n) bs) = (out', inc')"
        "utf8_normalize bs = (take v bs @ REPLACEMENT @ out', inc')"
    note err = utf8_check_error [OF c(1)]
    have "length (drop (v + n) bs) < length bs" using err(3) c(2) by auto
    with "1.IH" c(3) have "utf8_ok out' \<and> (inc' = [] \<or> utf8_scan inc' = Truncated)" by blast
    with c(4) "1.prems" err(2) show ?thesis
      by (auto simp: utf8_ok_append utf8_ok_replacement)
  next
    fix v
    assume "utf8_check bs = Utf8Error v None" "utf8_normalize bs = (take v bs, drop v bs)"
    with utf8_check_error [OF this(1)] "1.prems" show ?thesis by auto
  qed (use "1.prems" in auto)
qed

lemma utf8_incomplete_short: "utf8_normalize bs = (out, inc) \<Longrightarrow> length inc \<le> 3"
  using utf8_normalize_result [of bs out inc] utf8_scan_truncated [of inc] by auto

lemma from_utf8_lossy_ok: "utf8_ok (from_utf8_lossy bs)"
proof -
  obtain out inc where "utf8_normalize bs = (out, inc)" by (cases "utf8_normalize bs")
  with utf8_normalize_result [OF this] show ?thesis
    by (simp add: from_utf8_lossy_def utf8_ok_append utf8_ok_replacement)
qed

text \<open>Cutting a valid text at a character boundary.\<close>

lemma utf8_ok_boundary:
  assumes "utf8_ok bs" "is_char_boundary bs i"
  shows "utf8_ok (take i bs)" "utf8_ok (drop i bs)"
proof -
  show t: "utf8_ok (take i bs)"
  proof (cases "i < length bs \<and> i \<noteq> 0")
    case True
    with assms(2) have "\<not> utf8_cont (bs ! i)" by (simp add: is_char_boundary_def)
    moreover have "bs = take i bs @ bs ! i # drop (Suc i) bs"
      using True by (simp add: id_take_nth_drop)
    ultimately show ?thesis using assms(1) utf8_ok_cut by metis
  next
    case False
    with assms show ?thesis by (cases "i = 0") (auto simp: is_char_boundary_def)
  qed
  from assms(1) have "utf8_ok (take i bs @ drop i bs)" by simp
  then show "utf8_ok (drop i bs)" unfolding utf8_ok_append [OF t] .
qed

section \<open>Normalizing a stream\<close>

text \<open>
  The replacement loop character by character, and the law that makes it independent of how a
  stream is cut into blocks: what the first block leaves back is put before the second.
\<close>

fun shift_error :: "nat \<Rightarrow> utf8_result \<Rightarrow> utf8_result" where
  "shift_error j Utf8Ok = Utf8Ok"
| "shift_error j (Utf8Error v e) = Utf8Error (j + v) e"

lemma utf8_check_from_shift: "utf8_check_from (j + k) bs = shift_error j (utf8_check_from k bs)"
proof (induction k bs rule: utf8_check_from.induct)
  case (1 k bs)
  show ?case
  proof (cases "bs = []")
    case False
    show ?thesis
      using "1.IH" [OF False]
      by (subst (1 2) utf8_check_from.simps) (simp add: False add.assoc split: scan_result.split)
  qed (simp add: utf8_check_from.simps)
qed

lemma utf8_check_scan:
  assumes "bs \<noteq> []"
  shows "utf8_check bs =
     (case utf8_scan bs of
        ValidChar n \<Rightarrow> shift_error n (utf8_check (drop n bs))
      | BadBytes n \<Rightarrow> Utf8Error 0 (Some n)
      | Truncated \<Rightarrow> Utf8Error 0 None)"
proof -
  have "utf8_check_from (0 + n) (drop n bs) = shift_error n (utf8_check_from 0 (drop n bs))" for n
    using utf8_check_from_shift [of n 0 "drop n bs"] by simp
  then show ?thesis
    unfolding utf8_check_def utf8_check_from.simps [of 0 bs] using assms
    by (simp split: scan_result.split)
qed

lemma utf8_normalize_unfold:
  "bs \<noteq> [] \<Longrightarrow> utf8_normalize bs =
     (case utf8_check bs of
        Utf8Ok \<Rightarrow> (bs, [])
      | Utf8Error v (Some n) \<Rightarrow>
          map_prod ((@) (take v bs @ REPLACEMENT)) id (utf8_normalize (drop (v + n) bs))
      | Utf8Error v None \<Rightarrow> (take v bs, drop v bs))"
  by (subst utf8_normalize.simps)
    (auto simp: case_prod_beta map_prod_def split: utf8_result.splits option.splits)

lemma utf8_normalize_Nil [simp]: "utf8_normalize [] = ([], [])"
  by (simp add: utf8_normalize.simps)

lemma utf8_normalize_scan:
  assumes "bs \<noteq> []"
  shows "utf8_normalize bs =
     (case utf8_scan bs of
        ValidChar n \<Rightarrow> map_prod ((@) (take n bs)) id (utf8_normalize (drop n bs))
      | BadBytes n \<Rightarrow> map_prod ((@) REPLACEMENT) id (utf8_normalize (drop n bs))
      | Truncated \<Rightarrow> ([], bs))"
proof (cases "utf8_scan bs")
  case (ValidChar n)
  note ch = utf8_scan_char [OF ValidChar]
  note here = utf8_normalize_unfold [OF assms] utf8_check_scan [OF assms]
  show ?thesis
  proof (cases "utf8_check (drop n bs)")
    case Utf8Ok
    then have "utf8_normalize (drop n bs) = (drop n bs, [])"
      by (intro utf8_normalize_ok) (simp add: utf8_ok_def)
    with Utf8Ok ValidChar show ?thesis by (simp add: here)
  next
    case (Utf8Error v e)
    then have "drop n bs \<noteq> []" by (auto simp: utf8_check_def utf8_check_from.simps)
    note rest = utf8_normalize_unfold [OF this]
    show ?thesis
    proof (cases e)
      case None
      with ValidChar Utf8Error show ?thesis
        by (simp add: here rest take_add add.commute)
    next
      case (Some m)
      with ValidChar Utf8Error show ?thesis
        by (simp add: here rest take_add prod.map_comp add.commute add.left_commute)
          (simp add: map_prod_def case_prod_beta)
    qed
  qed
qed (simp_all add: utf8_normalize_unfold [OF assms] utf8_check_scan [OF assms])

lemma utf8_normalize_append:
  "utf8_normalize (a @ b) =
     (let (out, inc) = utf8_normalize a; (out', inc') = utf8_normalize (inc @ b)
      in (out @ out', inc'))"
proof (induction a rule: length_induct)
  case (1 a)
  show ?case
  proof (cases "a = []")
    case False
    have rest: "utf8_normalize (drop n a @ b) =
        (let (out, inc) = utf8_normalize (drop n a); (out', inc') = utf8_normalize (inc @ b)
         in (out @ out', inc'))" if "0 < n" for n
      using "1.IH" False that by simp
    show ?thesis
    proof (cases "utf8_scan a")
      case (ValidChar n)
      with utf8_scan_char [OF ValidChar] False rest [of n] utf8_scan_append(1) [OF ValidChar, of b]
      show ?thesis by (simp add: utf8_normalize_scan [of a] utf8_normalize_scan [of "a @ b"] case_prod_beta Let_def)
    next
      case (BadBytes n)
      with utf8_scan_bad [OF BadBytes] False rest [of n] utf8_scan_append(2) [OF BadBytes, of b]
      show ?thesis by (simp add: utf8_normalize_scan [of a] utf8_normalize_scan [of "a @ b"] case_prod_beta Let_def)
    next
      case Truncated
      with False show ?thesis by (simp add: utf8_normalize_scan [of a] case_prod_beta)
    qed
  qed simp
qed

text \<open>An occurrence of a valid text in a valid text starts and ends at character boundaries.\<close>

lemma utf8_ok_first: "utf8_ok (c # bs) \<Longrightarrow> \<not> utf8_cont c"
proof
  assume "utf8_ok (c # bs)" "utf8_cont c"
  then obtain n where "utf8_scan (c # bs) = ValidChar n" by (auto simp: utf8_ok_scan)
  with \<open>utf8_cont c\<close> show False
    by (auto simp: utf8_scan.simps(2) utf8_cont_def word_le_nat_alt word_less_nat_alt split: if_splits)
qed

lemma utf8_ok_occurrence:
  assumes "utf8_ok t" "utf8_ok p" "p \<noteq> []" "take (length p) (drop i t) = p"
  shows "utf8_ok (take i t)" "utf8_ok (drop (i + length p) t)"
proof -
  obtain c r where p: "p = c # r" using assms(3) by (cases p) auto
  have d: "drop i t = p @ drop (i + length p) t"
    by (metis assms(4) append_take_drop_id drop_drop add.commute)
  have t: "t = take i t @ c # (r @ drop (i + length p) t)"
    using d p by (metis append_Cons append_take_drop_id)
  have "\<not> utf8_cont c" using assms(2) p utf8_ok_first by blast
  with assms(1) t show a: "utf8_ok (take i t)" using utf8_ok_cut by metis
  have "utf8_ok (drop i t)" using assms(1) utf8_ok_append [OF a, of "drop i t"] by simp
  then show "utf8_ok (drop (i + length p) t)"
    using d utf8_ok_append [OF assms(2)] by metis
qed

text \<open>Characters have at most four bytes, so a boundary is at most three bytes away.\<close>

lemma utf8_scan_len: "utf8_scan bs = ValidChar n \<Longrightarrow> n \<le> 4"
  by (cases bs) (auto simp: utf8_scan.simps(2) dest!: utf8_rest_char split: if_splits list.splits)

lemma utf8_boundary_near:
  "utf8_ok t \<Longrightarrow> i \<le> length t \<Longrightarrow> \<exists>j \<le> i + 3. i \<le> j \<and> is_char_boundary t j"
proof (induction t arbitrary: i rule: length_induct)
  case (1 t)
  show ?case
  proof (cases "i = 0 \<or> i = length t")
    case True
    then show ?thesis by (intro exI [of _ i]) (auto simp: is_char_boundary_def)
  next
    case False
    with "1.prems" have "t \<noteq> []" by auto
    with "1.prems"(1) obtain n where n: "utf8_scan t = ValidChar n" "utf8_ok (drop n t)"
      by (auto simp: utf8_ok_scan)
    note len = utf8_scan_char [OF n(1)] utf8_scan_len [OF n(1)]
    have start: "is_char_boundary t n"
    proof (cases "drop n t")
      case (Cons c r)
      with n(2) utf8_ok_first [of c r] have "\<not> utf8_cont c" by simp
      moreover have "n < length t" "t ! n = c" using Cons
        by (metis length_greater_0_conv list.simps(3) drop_eq_Nil2 not_le) (metis Cons nth_via_drop)
      ultimately show ?thesis by (simp add: is_char_boundary_def)
    qed (use len in \<open>simp add: is_char_boundary_def\<close>)
    show ?thesis
    proof (cases "i \<le> n")
      case True
      with False len start show ?thesis by (intro exI [of _ n]) auto
    next
      case False
      have "length (drop n t) < length t" using len \<open>\<not> (i = 0 \<or> i = length t)\<close> by auto
      with "1.IH" n(2) obtain j where j: "j \<le> i - n + 3" "i - n \<le> j" "is_char_boundary (drop n t) j"
        using "1.prems"(2) by (metis length_drop diff_le_mono)
      have "is_char_boundary t (n + j)"
        using j(3) start len
        by (cases "j = 0") (auto simp: is_char_boundary_def)
      with j False show ?thesis by (intro exI [of _ "n + j"]) auto
    qed
  qed
qed

end
