(* ===== verification/Serial_Protocol.thy ===== *)
theory Serial_Protocol
  imports Utf8
begin

text \<open>
  The serial side of network boot, \<open>httpboot-protocol/src/serial.rs\<close>: parameters, the binding of
  a serial line to a boot, and the bounded decoder that finds identification beacons in the
  bytes of a line.
\<close>

section \<open>Parameters and bindings\<close>

definition SERIAL_BEACON_PREFIX :: bytes where
  "SERIAL_BEACON_PREFIX = str_bytes ''AXLOADER-SERIAL/1 ''"

definition SERIAL_ID_BYTES :: nat where
  "SERIAL_ID_BYTES = 32"

datatype serial_parity = ParityNone | Odd | Even | Mark | Space

datatype serial_stop_bits = One | OnePointFive | Two

datatype serial_flow_control = FlowNone | RtsCts

record serial_parameters =
  baud_rate :: u64
  data_bits :: u8
  parity :: serial_parity
  stop_bits :: serial_stop_bits
  flow_control :: serial_flow_control

definition serial_parameters_default :: serial_parameters where
  "serial_parameters_default = \<lparr>baud_rate = 115200, data_bits = 8, parity = ParityNone,
     stop_bits = One, flow_control = FlowNone\<rparr>"

datatype serial_protocol_error = InvalidId | InvalidParameters | Conflict | NotReady

definition serial_parameters_validate :: "serial_parameters \<Rightarrow> serial_protocol_error + unit" where
  "serial_parameters_validate p =
     (if baud_rate p = 0 \<or> \<not> (data_bits p = 7 \<or> data_bits p = 8) then Inl InvalidParameters
      else Inr ())"

datatype serial_binding_mode = Bound | Direct

record serial_binding =
  sb_serial_id :: string
  binding_id :: string
  mode :: serial_binding_mode

record loader_serial_status =
  serial_id :: string
  ready :: bool
  parameters :: "serial_parameters option"
  binding :: "serial_binding option"
  error :: "string option"

definition lower_hex :: "u8 \<Rightarrow> bool" where
  "lower_hex b \<longleftrightarrow> (0x30 \<le> b \<and> b \<le> 0x39) \<or> (0x61 \<le> b \<and> b \<le> 0x66)"

definition valid_serial_id :: "string \<Rightarrow> bool" where
  "valid_serial_id i \<longleftrightarrow> length i = SERIAL_ID_BYTES \<and> list_all lower_hex (str_bytes i)"

definition grant ::
    "loader_serial_status \<Rightarrow> serial_binding \<Rightarrow> (serial_protocol_error + unit) \<times> loader_serial_status"
  where
  "grant s b =
     (if sb_serial_id b \<noteq> serial_id s \<or> \<not> valid_serial_id (binding_id b) then (Inl Conflict, s)
      else if mode b = Bound \<and> \<not> ready s then (Inl NotReady, s)
      else case binding s of
        Some current \<Rightarrow>
          if current \<noteq> b then (Inl Conflict, s) else (Inr (), s\<lparr>binding := Some b\<rparr>)
      | None \<Rightarrow> (Inr (), s\<lparr>binding := Some b\<rparr>))"

definition revoke ::
    "loader_serial_status \<Rightarrow> string \<Rightarrow> (serial_protocol_error + unit) \<times> loader_serial_status" where
  "revoke s i =
     (if is_none_or (binding s) (\<lambda>b. binding_id b \<noteq> i) then (Inl Conflict, s)
      else (Inr (), s\<lparr>binding := None\<rparr>))"

definition permits_start :: "loader_serial_status \<Rightarrow> string \<Rightarrow> bool" where
  "permits_start s i = is_some_and (binding s) (\<lambda>b. binding_id b = i \<and> sb_serial_id b = serial_id s)"

text \<open>The requests the owners of a line make, in any order.\<close>

datatype serial_request = Grant serial_binding | Revoke string

fun serial_step :: "loader_serial_status \<Rightarrow> serial_request \<Rightarrow> loader_serial_status" where
  "serial_step s (Grant b) = snd (grant s b)"
| "serial_step s (Revoke i) = snd (revoke s i)"

definition binding_ok :: "loader_serial_status \<Rightarrow> bool" where
  "binding_ok s \<longleftrightarrow>
     is_none_or (binding s) (\<lambda>b. sb_serial_id b = serial_id s \<and> valid_serial_id (binding_id b) \<and>
       (mode b = Bound \<longrightarrow> ready s))"

interpretation serial_line: invariant_machine serial_step binding_ok
proof
  fix s e
  assume "binding_ok s"
  then show "binding_ok (serial_step s e)"
    by (cases e) (auto simp: binding_ok_def grant_def revoke_def split: option.splits)
qed

lemma serial_step_id: "serial_id (serial_step s e) = serial_id s"
  by (cases e) (auto simp: grant_def revoke_def split: option.splits)

lemma serial_step_owner:
  "binding s = Some b \<Longrightarrow> e \<noteq> Revoke (binding_id b) \<Longrightarrow> binding (serial_step s e) = Some b"
  by (cases e) (auto simp: grant_def revoke_def)

lemma serial_run_owner:
  assumes "binding s = Some b" "Revoke (binding_id b) \<notin> set es"
  shows "binding (foldl serial_step s es) = Some b \<and> serial_id (foldl serial_step s es) = serial_id s"
  using assms by (induction es arbitrary: s) (auto simp: serial_step_owner serial_step_id)

section \<open>The decoder\<close>

text \<open>\<open>line: [u8; 64]\<close> is a list of 64 bytes, of which \<open>line_len\<close> are in use.\<close>

record frame_decoder =
  line :: bytes
  line_len :: nat
  overflow :: bool

definition decoder_default :: frame_decoder where
  "decoder_default = \<lparr>line = replicate 64 0, line_len = 0, overflow = False\<rparr>"

definition strip_prefix :: "bytes \<Rightarrow> bytes \<Rightarrow> bytes option" where
  "strip_prefix p bs = (if take (length p) bs = p then Some (drop (length p) bs) else None)"

definition beacon_id :: "bytes \<Rightarrow> bytes option" where
  "beacon_id l =
     Option.bind (strip_prefix SERIAL_BEACON_PREFIX l) (\<lambda>i.
     Option.bind (from_utf8 i) (\<lambda>text. if valid_serial_id text then Some i else None))"

definition decoder_push :: "frame_decoder \<Rightarrow> u8 \<Rightarrow> bytes option \<times> frame_decoder" where
  "decoder_push d byte =
     (if byte \<noteq> 0x0A then
        (None,
         if line_len d = length (line d) then d\<lparr>overflow := True\<rparr>
         else d\<lparr>line := (line d)[line_len d := byte], line_len := line_len d + 1\<rparr>)
      else
        let stop = line_len d - (if 0 < line_len d \<and> line d ! (line_len d - 1) = 0x0D then 1 else 0);
            result = (if \<not> overflow d then beacon_id (take stop (line d)) else None)
        in (result, d\<lparr>line_len := 0, overflow := False\<rparr>))"

fun decoder_run :: "frame_decoder \<Rightarrow> bytes \<Rightarrow> bytes list \<times> frame_decoder" where
  "decoder_run d [] = ([], d)"
| "decoder_run d (b # bs) =
     (let (r, d') = decoder_push d b; (rs, d'') = decoder_run d' bs
      in (case r of None \<Rightarrow> rs | Some i \<Rightarrow> i # rs, d''))"

text \<open>What a line means, and the complete lines of a stream.\<close>

definition chomp :: "bytes \<Rightarrow> bytes" where
  "chomp l = (if l \<noteq> [] \<and> last l = 0x0D then butlast l else l)"

definition line_id :: "bytes \<Rightarrow> bytes option" where
  "line_id l = (if length l \<le> 64 then beacon_id (chomp l) else None)"

fun complete_lines :: "bytes \<Rightarrow> bytes \<Rightarrow> bytes list" where
  "complete_lines acc [] = []"
| "complete_lines acc (b # bs) =
     (if b = 0x0A then acc # complete_lines [] bs else complete_lines (acc @ [b]) bs)"

text \<open>
  The refinement: the decoder holds the part of the current line that fits its buffer, and
  knows whether something did not fit.
\<close>

definition holds_line :: "frame_decoder \<Rightarrow> bytes \<Rightarrow> bool" where
  "holds_line d l \<longleftrightarrow>
     length (line d) = 64 \<and> line_len d = min 64 (length l) \<and>
     take (line_len d) (line d) = take 64 l \<and> (overflow d \<longleftrightarrow> 64 < length l)"

lemma holds_default: "holds_line decoder_default []"
  by (simp add: holds_line_def decoder_default_def)

lemma holds_push:
  assumes "holds_line d l" "b \<noteq> 0x0A"
  shows "fst (decoder_push d b) = None \<and> holds_line (snd (decoder_push d b)) (l @ [b])"
proof (cases "length l < 64")
  case True
  then have "line_len d = length l" "take (length l) (line d) = l" "length (line d) = 64"
    using assms(1) by (auto simp: holds_line_def min_def split: if_splits)
  moreover have "take (Suc (length l)) ((line d)[length l := b]) = l @ [b]"
    using calculation True
    by (simp add: take_Suc_conv_app_nth take_update_swap list_update_beyond)
  ultimately show ?thesis
    using assms True by (auto simp: decoder_push_def holds_line_def min_def)
next
  case False
  with assms show ?thesis
    by (auto simp: decoder_push_def holds_line_def min_def split: if_splits)
qed

lemma holds_newline:
  assumes "holds_line d l"
  shows "fst (decoder_push d 0x0A) = line_id l \<and> holds_line (snd (decoder_push d 0x0A)) []"
proof -
  have "length (line d) = 64" "overflow d \<longleftrightarrow> 64 < length l"
    using assms by (simp_all add: holds_line_def)
  moreover have "beacon_id (take (line_len d - (if 0 < line_len d \<and> line d ! (line_len d - 1) = 0x0D
      then 1 else 0)) (line d)) = beacon_id (chomp l)" if len: "length l \<le> 64"
  proof -
    have eq: "line_len d = length l" "take (length l) (line d) = l"
      using assms len by (auto simp: holds_line_def min_def split: if_splits)
    have "line d ! (length l - 1) = last l" if "l \<noteq> []"
      using eq(2) that by (metis diff_less last_conv_nth length_greater_0_conv nth_take zero_less_one)
    moreover have "take (length l - 1) (line d) = butlast l"
      using eq(2) by (metis butlast_conv_take diff_le_self min.absorb1 take_take)
    ultimately show ?thesis
      using eq by (auto simp: chomp_def)
  qed
  ultimately show ?thesis
    by (simp add: decoder_push_def line_id_def Let_def holds_line_def)
qed

lemma decoder_run_lines:
  "holds_line d l \<Longrightarrow>
     fst (decoder_run d bs) = List.map_filter line_id (complete_lines l bs) \<and>
     (\<exists>l'. holds_line (snd (decoder_run d bs)) l')"
proof (induction bs arbitrary: d l)
  case Nil
  then show ?case by (auto simp: List.map_filter_simps)
next
  case (Cons b bs)
  show ?case
  proof (cases "b = 0x0A")
    case True
    with holds_newline [OF Cons.prems] Cons.IH [of "snd (decoder_push d b)" "[]"] show ?thesis
      by (auto simp: List.map_filter_simps split: prod.splits option.splits)
  next
    case False
    with holds_push [OF Cons.prems False] Cons.IH [of "snd (decoder_push d b)" "l @ [b]"] show ?thesis
      by (auto split: prod.splits option.splits)
  qed
qed

section \<open>Properties\<close>

text \<open>
  C31: the bounded decoder is a line parser. Fed any bytes one at a time, it yields exactly the
  identifiers of the complete lines of at most 64 bytes that are beacons (a trailing carriage
  return dropped), in order; its buffer stays 64 bytes with its index in bounds.
\<close>

theorem decoder_refines_lines:
  "fst (decoder_run decoder_default bs) = List.map_filter line_id (complete_lines [] bs) \<and>
   length (line (snd (decoder_run decoder_default bs))) = 64 \<and>
   line_len (snd (decoder_run decoder_default bs)) \<le> 64"
  using decoder_run_lines [OF holds_default, of bs] by (auto simp: holds_line_def)

lemma complete_lines_append:
  "0x0A \<notin> set l \<Longrightarrow> complete_lines acc (l @ 0x0A # bs) = (acc @ l) # complete_lines [] bs"
  by (induction l arbitrary: acc) auto

lemma lower_hex_ascii: "lower_hex b \<Longrightarrow> b < 0x80 \<and> b \<noteq> 0x0A \<and> b \<noteq> 0x0D"
  by (auto simp: lower_hex_def word_less_nat_alt word_le_nat_alt)

lemma beacon_id_valid:
  assumes "valid_serial_id i"
  shows "beacon_id (SERIAL_BEACON_PREFIX @ str_bytes i) = Some (str_bytes i)"
proof -
  have "utf8_valid (str_bytes i)"
    using assms lower_hex_ascii
    by (intro utf8_valid_ascii) (auto simp: valid_serial_id_def list_all_iff)
  moreover have "map (\<lambda>b. char_of (unat b)) (str_bytes i) = i"
    by (simp add: str_bytes_def comp_def map_idI)
  ultimately show ?thesis
    using assms by (simp add: beacon_id_def strip_prefix_def from_utf8_def)
qed

text \<open>
  A beacon is found after any noise. For every valid identifier and every noise without a
  line feed in front of its line, the beacon with a line feed or with carriage return and line
  feed yields the identifier and nothing else.
\<close>

theorem beacon_found:
  assumes "valid_serial_id i" "0x0A \<notin> set noise" "ending = [0x0A] \<or> ending = [0x0D, 0x0A]"
    and "line_id noise = None"
  shows "fst (decoder_run decoder_default
    (noise @ [0x0A] @ SERIAL_BEACON_PREFIX @ str_bytes i @ ending)) = [str_bytes i]"
proof -
  let ?l = "SERIAL_BEACON_PREFIX @ str_bytes i"
  have prefix: "0x0A \<notin> set SERIAL_BEACON_PREFIX" "length SERIAL_BEACON_PREFIX = 18"
    by (simp_all add: SERIAL_BEACON_PREFIX_def)
  have id: "length i = 32" "0x0A \<notin> set (str_bytes i)" "0x0D \<notin> set (str_bytes i)" "i \<noteq> []"
    using assms(1) lower_hex_ascii
    by (auto simp: valid_serial_id_def SERIAL_ID_BYTES_def list_all_iff)
  have last: "last ?l \<noteq> 0x0D"
    using id by (metis last_appendR last_in_set length_0_conv length_str_bytes)
  have "chomp ?l = ?l" using last by (simp add: chomp_def)
  moreover have "chomp (?l @ [0x0D]) = ?l"
    by (simp only: chomp_def last_snoc butlast_snoc) simp
  moreover have "length ?l \<le> 64" "length (?l @ [0x0D]) \<le> 64"
    using id prefix by simp_all
  ultimately have "line_id ?l = Some (str_bytes i)" "line_id (?l @ [0x0D]) = Some (str_bytes i)"
    using beacon_id_valid [OF assms(1)] by (simp_all only: line_id_def if_True)
  moreover have "complete_lines [] (noise @ [0x0A] @ ?l @ ending) =
      [noise, if ending = [0x0A] then ?l else ?l @ [0x0D]]"
    using assms(2,3) id prefix complete_lines_append [of noise "[]" "?l @ ending"]
      complete_lines_append [of ?l "[]" "[]"] complete_lines_append [of "?l @ [0x0D]" "[]" "[]"]
    by auto
  ultimately show ?thesis
    using decoder_run_lines [OF holds_default, of "noise @ [0x0A] @ ?l @ ending"] assms(4)
    by (simp add: List.map_filter_simps)
qed

lemma beacon_found_witness:
  "fst (decoder_run decoder_default ([0x21, 0x00] @ [0x0A] @ SERIAL_BEACON_PREFIX @
     str_bytes ''0123456789abcdef0123456789abcdef'' @ [0x0D, 0x0A])) =
     [str_bytes ''0123456789abcdef0123456789abcdef'']"
  by (rule beacon_found)
    (simp_all add: valid_serial_id_def SERIAL_ID_BYTES_def lower_hex_def line_id_def chomp_def
      beacon_id_def strip_prefix_def SERIAL_BEACON_PREFIX_def)

text \<open>
  Ownership of a serial line. Once a binding is granted, whatever grants and revocations
  follow, the line stays with it and permits its start, until a revocation names exactly this
  binding; meanwhile every different grant is refused.
\<close>

theorem serial_ownership:
  assumes "grant s b = (Inr (), s')" "Revoke (binding_id b) \<notin> set es"
  shows "binding (foldl serial_step s' es) = Some b \<and>
    permits_start (foldl serial_step s' es) (binding_id b) \<and>
    (b' \<noteq> b \<longrightarrow> \<not> is_ok (fst (grant (foldl serial_step s' es) b')))"
proof -
  have s': "binding s' = Some b" "sb_serial_id b = serial_id s'"
    using assms(1) by (auto simp: grant_def split: if_splits option.splits)
  from serial_run_owner [OF s'(1) assms(2)] s'(2) show ?thesis
    by (auto simp: permits_start_def grant_def)
qed

definition demo_serial :: loader_serial_status where
  "demo_serial = \<lparr>serial_id = ''s'', ready = True, parameters = None, binding = None, error = None\<rparr>"

definition demo_binding :: "char \<Rightarrow> serial_binding" where
  "demo_binding c = \<lparr>sb_serial_id = ''s'', binding_id = replicate 32 c, mode = Bound\<rparr>"

lemma serial_ownership_witness:
  "binding (foldl serial_step (demo_serial\<lparr>binding := Some (demo_binding CHR ''a'')\<rparr>)
     [Grant (demo_binding CHR ''b''), Revoke ''x'']) = Some (demo_binding CHR ''a'')"
proof -
  let ?a = "demo_binding CHR ''a''"
  have "valid_serial_id (replicate 32 CHR ''a'')"
    by (simp add: valid_serial_id_def SERIAL_ID_BYTES_def str_bytes_def lower_hex_def list_all_iff)
  then have "grant demo_serial ?a = (Inr (), demo_serial\<lparr>binding := Some ?a\<rparr>)"
    by (simp add: grant_def demo_serial_def demo_binding_def)
  moreover have "Revoke (binding_id ?a) \<notin> set [Grant (demo_binding CHR ''b''), Revoke ''x'']"
    by (simp add: demo_binding_def numeral_eq_Suc)
  ultimately show ?thesis
    by (rule serial_ownership [THEN conjunct1])
qed

text \<open>
  A granted line is well formed: after any requests from a free line, a binding names this
  line and has a valid identifier, and a bound (not direct) one was granted on a ready line.
\<close>

theorem serial_binding_ok:
  "binding s = None \<Longrightarrow> binding_ok (foldl serial_step s es)"
  by (rule serial_line.run_inv) (simp add: binding_ok_def)

lemma serial_binding_ok_witness:
  "binding_ok (foldl serial_step demo_serial [Grant (demo_binding CHR ''a'')])"
  by (rule serial_binding_ok) (simp add: demo_serial_def)

end
