(* ===== verification/Assoc_Map.thy ===== *)
theory Assoc_Map
  imports Ostool_Prelude "HOL-Library.AList" "HOL-Library.List_Lexorder" "HOL-Library.Char_ord"
begin

text \<open>
  The \<open>BTreeMap\<close>s and \<open>HashMap\<close>s of the server, as association lists: \<open>map_of\<close> looks up,
  \<open>AList.update\<close> inserts, \<open>AList.delete\<close> removes, \<open>bt_values\<close> lists the values in key order as
  a \<open>BTreeMap\<close> iterates. Strings are ordered by their bytes. The locale \<open>keyed_map\<close> is what the
  components rely on.
\<close>

type_synonym ('k, 'v) amap = "('k \<times> 'v) list"

definition bt_values :: "('k :: linorder, 'v) amap \<Rightarrow> 'v list" where
  "bt_values m = map snd (sort_key fst m)"

definition keys_distinct :: "('k, 'v) amap \<Rightarrow> bool" where
  "keys_distinct m \<longleftrightarrow> distinct (map fst m)"

text \<open>\<open>values().any(p)\<close> and \<open>retain(p)\<close>.\<close>

definition any_value :: "('k, 'v) amap \<Rightarrow> ('v \<Rightarrow> bool) \<Rightarrow> bool" where
  "any_value m p \<longleftrightarrow> list_ex (\<lambda>(k, v). p v) m"

definition retain :: "('k \<Rightarrow> 'v \<Rightarrow> bool) \<Rightarrow> ('k, 'v) amap \<Rightarrow> ('k, 'v) amap" where
  "retain p m = filter (\<lambda>(k, v). p k v) m"

lemma map_of_update: "map_of (AList.update k v m) k' = (if k' = k then Some v else map_of m k')"
  by (simp add: update_conv')

lemma map_of_delete: "map_of (AList.delete k m) k' = (if k' = k then None else map_of m k')"
  by (simp add: delete_conv')

lemma keys_distinct_update [simp]: "keys_distinct m \<Longrightarrow> keys_distinct (AList.update k v m)"
  by (simp add: keys_distinct_def distinct_update)

lemma keys_distinct_delete [simp]: "keys_distinct m \<Longrightarrow> keys_distinct (AList.delete k m)"
  by (simp add: keys_distinct_def distinct_delete)

lemma keys_distinct_retain [simp]: "keys_distinct m \<Longrightarrow> keys_distinct (retain p m)"
  by (simp add: keys_distinct_def retain_def distinct_map_filter)

lemma keys_distinct_Nil [simp]: "keys_distinct []"
  by (simp add: keys_distinct_def)

lemma any_value_iff:
  "keys_distinct m \<Longrightarrow> any_value m p \<longleftrightarrow> (\<exists>k v. map_of m k = Some v \<and> p v)"
  by (force simp: any_value_def keys_distinct_def list_ex_iff)

lemma map_of_retain:
  "keys_distinct m \<Longrightarrow>
     map_of (retain p m) k = (case map_of m k of None \<Rightarrow> None | Some v \<Rightarrow> if p k v then Some v else None)"
proof (induction m)
  case Nil
  then show ?case by (simp add: retain_def)
next
  case (Cons a m)
  obtain k' v' where a: "a = (k', v')" by (cases a)
  from Cons.prems a have "keys_distinct m" "k' \<notin> fst ` set m"
    by (auto simp: keys_distinct_def)
  then have "map_of (retain p m) k' = None"
    by (auto simp: map_of_eq_None_iff retain_def)
  with Cons.IH [OF \<open>keys_distinct m\<close>] a \<open>k' \<notin> fst ` set m\<close> show ?case
    by (auto simp: retain_def map_of_eq_None_iff split: option.splits)
qed

lemma bt_values_set: "set (bt_values m) = snd ` set m"
  by (simp add: bt_values_def)

text \<open>The laws of a finite map that the component proofs use.\<close>

locale keyed_map =
  fixes get :: "'m \<Rightarrow> 'k \<Rightarrow> 'v option"
    and put :: "'k \<Rightarrow> 'v \<Rightarrow> 'm \<Rightarrow> 'm"
    and del :: "'k \<Rightarrow> 'm \<Rightarrow> 'm"
  assumes get_put: "get (put k v m) k' = (if k' = k then Some v else get m k')"
    and get_del: "get (del k m) k' = (if k' = k then None else get m k')"
begin

text \<open>A property of all entries is kept by inserting a good entry and by removing one.\<close>

lemma all_put:
  "(\<And>k v. get m k = Some v \<Longrightarrow> P k v) \<Longrightarrow> P k v \<Longrightarrow> get (put k v m) k' = Some v' \<Longrightarrow> P k' v'"
  by (auto simp: get_put split: if_splits)

lemma all_del:
  "(\<And>k v. get m k = Some v \<Longrightarrow> P k v) \<Longrightarrow> get (del k m) k' = Some v' \<Longrightarrow> P k' v'"
  by (auto simp: get_del split: if_splits)

lemma put_get_other: "k' \<noteq> k \<Longrightarrow> get (put k v m) k' = get m k'"
  by (simp add: get_put)

end

interpretation amap: keyed_map map_of AList.update AList.delete
  by unfold_locales (simp_all add: map_of_update map_of_delete)

end
