(* ===== verification/Rust_Text.thy ===== *)
theory Rust_Text
  imports Ostool_Prelude
begin

text \<open>
  The string functions of the Rust standard library the components share: \<open>str::trim\<close> and
  \<open>str::find\<close> for a substring, on the UTF-8 bytes of a text.
\<close>

text \<open>What a successful \<open>Iterator::find\<close> found.\<close>

lemma find_SomeD: "find P xs = Some x \<Longrightarrow> x \<in> set xs \<and> P x"
  by (induction xs) (auto split: if_splits)

section \<open>Trimming\<close>

text \<open>
  \<open>str::trim\<close>: the UTF-8 encodings of the characters with the Unicode property White_Space,
  stripped from both ends.
\<close>

definition white_space :: "string list" where
  "white_space =
     map (\<lambda>n. [char_of n]) [9, 10, 11, 12, 13, 32 :: nat] @
     map (map char_of)
       ([[0xC2, 0x85], [0xC2, 0xA0], [0xE1, 0x9A, 0x80], [0xE2, 0x80, 0xA8], [0xE2, 0x80, 0xA9],
         [0xE2, 0x80, 0xAF], [0xE2, 0x81, 0x9F], [0xE3, 0x80, 0x80]] @
        map (\<lambda>n. [0xE2, 0x80, n]) [0x80..<0x8B :: nat])"

definition leading :: "string list \<Rightarrow> string \<Rightarrow> nat option" where
  "leading ws s = map_option length (find (\<lambda>w. take (length w) s = w) ws)"

function trim_with :: "string list \<Rightarrow> string \<Rightarrow> string" where
  "trim_with ws s =
     (case leading ws s of
        None \<Rightarrow> s
      | Some n \<Rightarrow> if n = 0 \<or> length s < n then s else trim_with ws (drop n s))"
  by pat_completeness auto
termination by (relation "measure (length \<circ> snd)") auto

declare trim_with.simps [simp del]

definition trim_start :: "string \<Rightarrow> string" where
  "trim_start s = trim_with white_space s"

definition trim_end :: "string \<Rightarrow> string" where
  "trim_end s = rev (trim_with (map rev white_space) (rev s))"

definition trim :: "string \<Rightarrow> string" where
  "trim s = trim_end (trim_start s)"

lemma trim_with_no_space: "leading ws s = None \<Longrightarrow> trim_with ws s = s"
  by (simp add: trim_with.simps)

section \<open>Texts that need no trimming\<close>

text \<open>A text that starts and ends with a printable ASCII character is its own trimming.\<close>

definition printable :: "char \<Rightarrow> bool" where
  "printable c \<longleftrightarrow> 33 \<le> (of_char c :: nat) \<and> (of_char c :: nat) < 127"

lemma white_space_not_printable:
  "list_all (\<lambda>w. w \<noteq> [] \<and> \<not> printable (hd w) \<and> \<not> printable (last w)) white_space"
  by (simp add: white_space_def printable_def upt_rec)

lemma leading_printable:
  assumes "list_all (\<lambda>w. w \<noteq> [] \<and> \<not> printable (hd w)) ws" "s \<noteq> []" "printable (hd s)"
  shows "leading ws s = None"
proof -
  have "take (length w) s \<noteq> w" if "w \<in> set ws" for w
  proof
    assume "take (length w) s = w"
    moreover have "w \<noteq> []" "\<not> printable (hd w)" using that assms(1) by (auto simp: list_all_iff)
    ultimately show False using assms(2,3) by (metis hd_take length_greater_0_conv)
  qed
  then show ?thesis by (auto simp: leading_def find_None_iff)
qed

lemma trim_start_printable: "s \<noteq> [] \<Longrightarrow> printable (hd s) \<Longrightarrow> trim_start s = s"
  using white_space_not_printable leading_printable [of white_space s]
  by (simp add: trim_start_def trim_with_no_space list_all_iff)

lemma trim_end_printable: "s \<noteq> [] \<Longrightarrow> printable (last s) \<Longrightarrow> trim_end s = s"
  using white_space_not_printable leading_printable [of "map rev white_space" "rev s"]
  by (simp add: trim_end_def trim_with_no_space list_all_iff hd_rev)

lemma trim_printable: "s \<noteq> [] \<Longrightarrow> printable (hd s) \<Longrightarrow> printable (last s) \<Longrightarrow> trim s = s"
  by (simp add: trim_def trim_start_printable trim_end_printable)

section \<open>Substring search\<close>

text \<open>\<open>str::find\<close> with a string pattern: the offset of the first occurrence.\<close>

fun str_find :: "'a list \<Rightarrow> 'a list \<Rightarrow> nat option" where
  "str_find p t =
     (if take (length p) t = p then Some 0
      else case t of [] \<Rightarrow> None | _ # r \<Rightarrow> map_option Suc (str_find p r))"

declare str_find.simps [simp del]

definition occurs_at :: "'a list \<Rightarrow> 'a list \<Rightarrow> nat \<Rightarrow> bool" where
  "occurs_at p t i \<longleftrightarrow> i + length p \<le> length t \<and> take (length p) (drop i t) = p"

lemma occurs_at_Cons:
  "occurs_at p (c # t) 0 \<longleftrightarrow> take (length p) (c # t) = p"
  "occurs_at p (c # t) (Suc j) \<longleftrightarrow> occurs_at p t j"
proof -
  have "length p \<le> length (c # t)" if "take (length p) (c # t) = p"
    using that by (metis length_take min.cobounded1)
  then show "occurs_at p (c # t) 0 \<longleftrightarrow> take (length p) (c # t) = p"
    by (auto simp: occurs_at_def)
qed (simp add: occurs_at_def)

lemma str_find_Some:
  "str_find p t = Some i \<Longrightarrow> occurs_at p t i \<and> (\<forall>j < i. \<not> occurs_at p t j)"
proof (induction t arbitrary: i)
  case Nil
  then show ?case by (auto simp: str_find.simps occurs_at_def split: if_splits)
next
  case (Cons c t)
  show ?case
  proof (cases "take (length p) (c # t) = p")
    case True
    then have "length p \<le> length (c # t)" by (metis length_take min.cobounded1)
    with True Cons.prems show ?thesis by (simp add: str_find.simps occurs_at_def)
  next
    case False
    with Cons.prems obtain k where k: "i = Suc k" "str_find p t = Some k"
      by (auto simp: str_find.simps [of p "c # t"])
    from Cons.IH [OF k(2)] have h: "occurs_at p t k" "\<forall>j<k. \<not> occurs_at p t j" by auto
    have "\<not> occurs_at p (c # t) j" if "j < i" for j
      using that k(1) h(2) False by (cases j) (simp_all add: occurs_at_Cons)
    with h(1) k(1) show ?thesis by (simp add: occurs_at_Cons)
  qed
qed

lemma str_find_None: "str_find p t = None \<longleftrightarrow> (\<forall>i. \<not> occurs_at p t i)"
proof (induction t)
  case Nil
  then show ?case by (auto simp: str_find.simps occurs_at_def)
next
  case (Cons c t)
  have "(\<forall>i. \<not> occurs_at p (c # t) i) \<longleftrightarrow> \<not> occurs_at p (c # t) 0 \<and> (\<forall>i. \<not> occurs_at p t i)"
    by (metis occurs_at_Cons(2) not0_implies_Suc)
  with Cons.IH show ?case
    by (simp add: str_find.simps [of p "c # t"] occurs_at_Cons)
qed

lemma str_find_exact:
  "str_find p t = Some i \<longleftrightarrow> occurs_at p t i \<and> (\<forall>j < i. \<not> occurs_at p t j)"
proof
  assume h: "occurs_at p t i \<and> (\<forall>j < i. \<not> occurs_at p t j)"
  then obtain k where k: "str_find p t = Some k" using str_find_None [of p t] by fastforce
  from str_find_Some [OF k] h have "k = i" by (metis linorder_neqE_nat)
  with k show "str_find p t = Some i" by simp
qed (rule str_find_Some)

lemma occurs_at_append: "occurs_at p t i \<Longrightarrow> occurs_at p (t @ u) i"
  by (auto simp: occurs_at_def)

lemma occurs_at_drop: "k \<le> length t \<Longrightarrow> occurs_at p (drop k t) i \<longleftrightarrow> occurs_at p t (k + i)"
  by (auto simp: occurs_at_def add.commute)

section \<open>Splitting\<close>

text \<open>\<open>str::split\<close> at a character: \<open>n\<close> separators give \<open>n + 1\<close> parts.\<close>

fun split_at :: "char \<Rightarrow> string \<Rightarrow> string list" where
  "split_at c [] = [[]]"
| "split_at c (x # xs) =
     (if x = c then [] # split_at c xs
      else case split_at c xs of [] \<Rightarrow> [[x]] | p # ps \<Rightarrow> (x # p) # ps)"

section \<open>Trimming a text\<close>

text \<open>\<open>trim_end_matches\<close> and \<open>trim_start_matches\<close> of a text; an empty one matches nothing.\<close>

function trim_start_matches :: "string \<Rightarrow> string \<Rightarrow> string" where
  "trim_start_matches p s =
     (if p \<noteq> [] \<and> take (length p) s = p then trim_start_matches p (drop (length p) s) else s)"
  by pat_completeness auto
termination
proof (relation "measure (length \<circ> snd)")
  fix p s :: string
  assume "p \<noteq> [] \<and> take (length p) s = p"
  then show "((p, drop (length p) s), p, s) \<in> measure (length \<circ> snd)" by (cases s) auto
qed simp

declare trim_start_matches.simps [simp del]

definition trim_end_matches :: "string \<Rightarrow> string \<Rightarrow> string" where
  "trim_end_matches p s = rev (trim_start_matches (rev p) (rev s))"

section \<open>Joining\<close>

text \<open>\<open>[_]::join\<close> of the standard library.\<close>

fun str_join :: "string \<Rightarrow> string list \<Rightarrow> string" where
  "str_join sep [] = []"
| "str_join sep [x] = x"
| "str_join sep (x # y # xs) = x @ sep @ str_join sep (y # xs)"

end
