(* ===== verification/Httpboot_Protocol.thy ===== *)
theory Httpboot_Protocol
  imports Rust_Text
begin

text \<open>
  The wire vocabulary of network boot, \<open>httpboot-protocol/src/lib.rs\<close>: protocol versions and
  limits, MAC addresses with their textual form, the messages a loader and the server exchange.
  JSON encoding is \<open>serde\<close>'s and is not modelled; messages are records and datatypes.
\<close>

section \<open>Constants\<close>

definition PROTOCOL_VERSION :: u16 where "PROTOCOL_VERSION = 4"
definition DEVICE_PROTOCOL_VERSION :: u16 where "DEVICE_PROTOCOL_VERSION = 6"
definition PREVIOUS_DEVICE_PROTOCOL_VERSION :: u16 where "PREVIOUS_DEVICE_PROTOCOL_VERSION = 5"
definition PREVIOUS_PROTOCOL_VERSION :: u16 where "PREVIOUS_PROTOCOL_VERSION = 3"
definition LEGACY_PROTOCOL_VERSION :: u16 where "LEGACY_PROTOCOL_VERSION = 2"
definition MAX_HOST_CMDLINE_BYTES :: nat where "MAX_HOST_CMDLINE_BYTES = 4095"
definition MAX_HTTP_BOOT_INITRAMFS_BYTES :: nat where
  "MAX_HTTP_BOOT_INITRAMFS_BYTES = 256 * 1024 * 1024"
definition MAX_DISCOVERY_DATAGRAM_BYTES :: nat where "MAX_DISCOVERY_DATAGRAM_BYTES = 1400"

lemmas protocol_versions = PROTOCOL_VERSION_def DEVICE_PROTOCOL_VERSION_def
  PREVIOUS_DEVICE_PROTOCOL_VERSION_def PREVIOUS_PROTOCOL_VERSION_def LEGACY_PROTOCOL_VERSION_def

text \<open>\<open>u8::is_ascii_graphic\<close> is the range from \<open>!\<close> to \<open>~\<close>.\<close>

definition is_ascii_graphic :: "u8 \<Rightarrow> bool" where
  "is_ascii_graphic b \<longleftrightarrow> 0x21 \<le> b \<and> b \<le> 0x7e"

definition valid_host_cmdline :: "string \<Rightarrow> bool" where
  "valid_host_cmdline v \<longleftrightarrow>
     length v \<le> MAX_HOST_CMDLINE_BYTES \<and>
     list_all (\<lambda>b. b = 0x20 \<or> is_ascii_graphic b) (str_bytes v)"

section \<open>MAC addresses\<close>

text \<open>\<open>MacAddress([u8; 6])\<close>: the type has exactly six octets.\<close>

datatype mac_address = MacAddress u8 u8 u8 u8 u8 u8

definition mac_zero :: mac_address where
  "mac_zero = MacAddress 0 0 0 0 0 0"

fun octets :: "mac_address \<Rightarrow> u8 list" where
  "octets (MacAddress a b c d e f) = [a, b, c, d, e, f]"

definition is_zero :: "mac_address \<Rightarrow> bool" where
  "is_zero m \<longleftrightarrow> octets m = [0, 0, 0, 0, 0, 0]"

datatype parse_mac_error = InvalidLength | InvalidOctet

fun mac_display :: "mac_address \<Rightarrow> string" where
  "mac_display (MacAddress a b c d e f) =
     hex_fixed 2 a @ '':'' @ hex_fixed 2 b @ '':'' @ hex_fixed 2 c @ '':'' @
     hex_fixed 2 d @ '':'' @ hex_fixed 2 e @ '':'' @ hex_fixed 2 f"

text \<open>\<open>char::to_digit(16)\<close> and \<open>u8::from_str_radix(_, 16)\<close>, with its optional \<open>+\<close> sign.\<close>

definition hex_value :: "char \<Rightarrow> nat option" where
  "hex_value c =
     (let n = (of_char c :: nat) in
      if 48 \<le> n \<and> n < 58 then Some (n - 48)
      else if 65 \<le> n \<and> n < 71 then Some (n - 55)
      else if 97 \<le> n \<and> n < 103 then Some (n - 87)
      else None)"

fun hex_number :: "nat \<Rightarrow> string \<Rightarrow> nat option" where
  "hex_number acc [] = Some acc"
| "hex_number acc (c # s) =
     (case hex_value c of None \<Rightarrow> None
      | Some d \<Rightarrow> if 16 * acc + d < 256 then hex_number (16 * acc + d) s else None)"

definition from_str_radix_16 :: "string \<Rightarrow> u8 option" where
  "from_str_radix_16 s =
     (case s of
        [] \<Rightarrow> None
      | c # rest \<Rightarrow>
          if rest = [] \<and> (c = CHR ''+'' \<or> c = CHR ''-'') then None
          else map_option word_of_nat (hex_number 0 (if c = CHR ''+'' then rest else s)))"

fun parse_octets :: "nat \<Rightarrow> string list \<Rightarrow> parse_mac_error + (u8 list \<times> string list)" where
  "parse_octets 0 parts = Inr ([], parts)"
| "parse_octets (Suc n) [] = Inl InvalidLength"
| "parse_octets (Suc n) (part # parts) =
     (if length part \<noteq> 2 then Inl InvalidOctet
      else case from_str_radix_16 part of
        None \<Rightarrow> Inl InvalidOctet
      | Some o' \<Rightarrow> rbind (parse_octets n parts) (\<lambda>(os, rest). Inr (o' # os, rest)))"

definition mac_from_str :: "string \<Rightarrow> parse_mac_error + mac_address" where
  "mac_from_str v =
     rbind (parse_octets 6 (split_at (CHR '':'') v)) (\<lambda>(os, rest).
       if rest \<noteq> [] then Inl InvalidLength
       else case os of
         [a, b, c, d, e, f] \<Rightarrow> Inr (MacAddress a b c d e f)
       | _ \<Rightarrow> Inl InvalidLength)"

section \<open>Messages\<close>

datatype boot_arch = X86_64 | Aarch64 | Loongarch64 | Riscv64 | OtherArch

datatype image_format = Elf64

record hardware_info =
  manufacturer :: "string option"
  product :: "string option"
  hw_version :: "string option"
  hw_serial :: "string option"

record discovery_probe =
  pr_protocol_version :: u16
  pr_mac_address :: mac_address
  pr_current_mac_address :: mac_address
  pr_arch :: boot_arch
  pr_loader_version :: string

record announcement =
  an_protocol_version :: u16
  an_mac_address :: mac_address
  an_current_mac_address :: mac_address
  an_arch :: boot_arch
  an_loader_version :: string
  an_boot_epoch :: string
  an_http_port :: u16
  an_serial_id :: "string option"
  an_serial_ready :: bool

datatype ota_source = Direct | Server

datatype ota_outcome = OutcomeConfirmed | OutcomeRolledBack | OutcomeFailed

record loader_ota_state =
  active_sha256 :: string
  running_sha256 :: string
  pending_update_id :: "string option"
  trial :: bool
  source :: "ota_source option"
  last_update_id :: "string option"
  last_outcome :: "ota_outcome option"

record discovery_offer =
  of_protocol_version :: u16
  of_server_id :: string
  of_control_base_url :: string
  of_registration_id :: string
  of_expires_in_ms :: u64

record poll_request =
  pl_protocol_version :: u16
  pl_registration_id :: string
  pl_mac_address :: mac_address
  pl_current_mac_address :: mac_address
  pl_ip_address :: string
  pl_arch :: boot_arch
  pl_loader_version :: string
  pl_hardware :: hardware_info
  pl_ota :: "loader_ota_state option"

datatype status_phase =
    StAccepted
  | StDownloading u64 u64
  | StVerified
  | StReadyToHandoff
  | StFailed string string

record status_report =
  sr_protocol_version :: u16
  sr_registration_id :: string
  sr_mac_address :: mac_address
  sr_session_id :: string
  sr_boot_id :: string
  sr_status :: status_phase

section \<open>MAC lemmas\<close>

lemma hex_value_digit: "n < 16 \<Longrightarrow> hex_value (hex_digit n) = Some n"
  by (auto simp: hex_value_def hex_digit_def of_char_of Let_def)

lemma hex_digit_plain:
  assumes "n < 16"
  shows "hex_digit n \<noteq> CHR '':'' \<and> hex_digit n \<noteq> CHR ''+'' \<and> hex_digit n \<noteq> CHR ''-''"
proof -
  have "\<forall>n \<in> set [0..<16]. hex_digit n \<noteq> CHR '':'' \<and> hex_digit n \<noteq> CHR ''+'' \<and>
      hex_digit n \<noteq> CHR ''-''"
    by code_simp
  with assms show ?thesis by simp
qed

lemma hex_fixed_2:
  "\<exists>h l. hex_fixed 2 (w :: u8) = [hex_digit h, hex_digit l] \<and> h < 16 \<and> l < 16 \<and>
     unat w = 16 * h + l"
proof -
  let ?h = "unat (drop_bit 4 w AND 0xF)" and ?l = "unat (w AND 0xF)"
  have mask: "x AND 0xF = take_bit 4 x" for x :: u8
    by (simp add: take_bit_eq_mask mask_numeral)
  have bound: "unat (take_bit 4 x) < 16" for x :: u8
    using take_bit_nat_less_exp [of 4 "unat x"] by (simp add: unsigned_take_bit_eq)
  have "unat w < 256" using unsigned_less [of w, where 'a = nat] by simp
  then have "take_bit 8 (unat w) = unat w"
    "unat w = 16 * (take_bit 4 (drop_bit 4 (unat w))) + take_bit 4 (unat w)"
    by (simp_all add: take_bit_eq_mod drop_bit_eq_div)
  then have "unat w = 16 * ?h + ?l"
    unfolding mask by (simp add: unsigned_take_bit_eq unsigned_drop_bit_eq)
  moreover have "hex_fixed 2 w = [hex_digit ?h, hex_digit ?l]"
    by (simp add: hex_fixed_def numeral_2_eq_2)
  ultimately show ?thesis
    using bound mask by metis
qed

lemma from_str_radix_hex: "from_str_radix_16 (hex_fixed 2 (w :: u8)) = Some w"
proof -
  from hex_fixed_2 [of w] obtain h l where w: "hex_fixed 2 w = [hex_digit h, hex_digit l]"
    "h < 16" "l < 16" "unat w = 16 * h + l"
    by blast
  moreover have "word_of_nat (16 * h + l) = w"
    by (simp flip: w(4))
  ultimately show ?thesis
    using hex_digit_plain [of h]
    by (simp add: from_str_radix_16_def hex_value_digit)
qed

lemma split_at_part:
  "c \<notin> set p \<Longrightarrow> split_at c (p @ c # s) = p # split_at c s"
  "c \<notin> set p \<Longrightarrow> split_at c p = [p]"
  by (induction p) auto

lemma colon_free: "CHR '':'' \<notin> set (hex_fixed 2 (w :: u8))"
  using hex_fixed_2 [of w] hex_digit_plain by (metis empty_iff list.set(1) set_ConsD)

lemma parse_octets_hex:
  "parse_octets (length ws) (map (hex_fixed 2) ws @ rest) = Inr (ws, rest)"
  by (induction ws) (simp_all add: from_str_radix_hex)

section \<open>Properties\<close>

text \<open>
  The textual form of a MAC address reads back: \<open>from_str\<close> of what \<open>Display\<close> writes is the
  address, for every address, and \<open>Display\<close> writes 17 characters.
\<close>

theorem mac_roundtrip: "mac_from_str (mac_display m) = Inr m \<and> length (mac_display m) = 17"
proof (cases m)
  case (MacAddress a b c d e f)
  have "split_at (CHR '':'') (mac_display m) =
      [hex_fixed 2 a, hex_fixed 2 b, hex_fixed 2 c, hex_fixed 2 d, hex_fixed 2 e, hex_fixed 2 f]"
    by (simp add: MacAddress split_at_part colon_free)
  moreover have "length [a, b, c, d, e, f] = 6" by simp
  then have "parse_octets 6 [hex_fixed 2 a, hex_fixed 2 b, hex_fixed 2 c, hex_fixed 2 d,
      hex_fixed 2 e, hex_fixed 2 f] = Inr ([a, b, c, d, e, f], [])"
    using parse_octets_hex [of "[a, b, c, d, e, f]" "[]"] by (simp only: list.map append.simps)
  ultimately show ?thesis
    by (simp add: MacAddress mac_from_str_def)
qed

text \<open>
  A sign is taken for an octet: the parser asks for two characters and \<open>from_str_radix\<close> accepts
  a leading plus, so a text that is not six hexadecimal octets is an address.
\<close>

lemma mac_plus_accepted:
  "mac_from_str ''+1:+2:+3:+4:+5:+6'' = Inr (MacAddress 1 2 3 4 5 6)"
  by code_simp

end
