(* ===== verification/Ota_Store.thy ===== *)
theory Ota_Store
  imports Assoc_Map Httpboot_Protocol
begin

text \<open>
  The persistent upgrade assignments of the server, \<open>ostool-server/src/ota.rs\<close>: the image
  catalog with its files, one job per board, the last observation of each device. A method
  holds the locks of what it changes from its first read to its last write, so a method is one
  step of the store.

  The disk is part of the state: the contents of \<open>jobs.json\<close> and \<open>devices.json\<close>, the metadata
  and image files. A file operation can fail, before or after its effect (the directory is
  synced after the rename); \<open>io_faults\<close> is the outcome of the next file operations, success once it
  is used up. The clock and the fresh identifier of a job are arguments, the SHA-256 digest a
  parameter, as is what \<open>serde_json\<close> reads back: a metadata file holds the record written to it,
  or nothing that parses. Times are integers in nanoseconds.
\<close>

section \<open>State\<close>

datatype phase =
  Queued | Downloading | Staged | Confirming | Succeeded | RolledBack | Failed | Cancelled

definition is_terminal :: "phase \<Rightarrow> bool" where
  "is_terminal p \<longleftrightarrow> p = Succeeded \<or> p = RolledBack \<or> p = Failed \<or> p = Cancelled"

record ota_image =
  im_sha256 :: string
  im_size :: u64
  im_version :: "string option"

record job =
  jb_board_id :: string
  jb_mac_address :: mac_address
  update_id :: string
  job_image :: ota_image
  phase :: phase
  job_error :: "string option"
  delivery_attempts :: u8
  next_delivery_at :: "int option"
  waiting_for_device_change :: bool

datatype decision = Idle | Update job | Confirm string | Wait

datatype delivery_failure =
  Rejected string | FailConflict string | Unavailable string | Retryable string

record observation =
  ob_mac_address :: mac_address
  ob_state :: "loader_ota_state option"
  ob_epoch :: string

datatype io_outcome = Done | NotDone | DoneWithError

datatype 'a dir_entry = RegularFile 'a | OtherEntry

record ota_store =
  catalog :: "(string, ota_image) amap"
  jobs :: "(string, job) amap"
  observations :: "(string, observation) amap"
  jobs_file :: "(string, job) amap"
  devices_file :: "(string, observation) amap"
  meta_files :: "(string, ota_image option dir_entry) amap"
  efi_files :: "(string, bytes dir_entry) amap"
  io_faults :: "io_outcome list"

datatype ota_error = OtaError string | StorageError

datatype delete_image_error =
  InvalidDigest | ImageNotFound | InUse | Inconsistent | DeleteIo

type_synonym 'a ota_io = "(ota_error + 'a) \<times> ota_store"

fun ota_bind :: "'a ota_io \<Rightarrow> ('a \<Rightarrow> ota_store \<Rightarrow> 'b ota_io) \<Rightarrow> 'b ota_io" where
  "ota_bind (Inl e, st) f = (Inl e, st)"
| "ota_bind (Inr x, st) f = f x st"

definition MAX_IMAGE_BYTES :: nat where "MAX_IMAGE_BYTES = 32 * 1024 * 1024"
definition MAX_DELIVERY_ATTEMPTS :: u8 where "MAX_DELIVERY_ATTEMPTS = 3"
definition DELIVERY_RETRY_SECONDS :: int where "DELIVERY_RETRY_SECONDS = 5"

definition seconds :: "int \<Rightarrow> int" where
  "seconds n = n * 10 ^ 9"

section \<open>Files\<close>

definition next_io :: "ota_store \<Rightarrow> io_outcome \<times> ota_store" where
  "next_io st =
     (case io_faults st of [] \<Rightarrow> (Done, st) | f # fs \<Rightarrow> (f, st\<lparr>io_faults := fs\<rparr>))"

definition file_op :: "(ota_store \<Rightarrow> ota_store) \<Rightarrow> ota_store \<Rightarrow> unit ota_io" where
  "file_op effect st =
     (case next_io st of
        (Done, st) \<Rightarrow> (Inr (), effect st)
      | (NotDone, st) \<Rightarrow> (Inl StorageError, st)
      | (DoneWithError, st) \<Rightarrow> (Inl StorageError, effect st))"

definition save :: "(string, job) amap \<Rightarrow> ota_store \<Rightarrow> unit ota_io" where
  "save js st = file_op (\<lambda>st. st\<lparr>jobs_file := js\<rparr>) st"

definition save_observations :: "(string, observation) amap \<Rightarrow> ota_store \<Rightarrow> unit ota_io" where
  "save_observations obs st = file_op (\<lambda>st. st\<lparr>devices_file := obs\<rparr>) st"

definition is_hex_digit :: "u8 \<Rightarrow> bool" where
  "is_hex_digit b \<longleftrightarrow>
     (0x30 \<le> b \<and> b \<le> 0x39) \<or> (0x61 \<le> b \<and> b \<le> 0x66) \<or> (0x41 \<le> b \<and> b \<le> 0x46)"

definition valid_digest :: "string \<Rightarrow> bool" where
  "valid_digest v \<longleftrightarrow> length v = 64 \<and> list_all is_hex_digit (str_bytes v)"

definition read_image :: "string \<Rightarrow> ota_store \<Rightarrow> ota_image ota_io" where
  "read_image digest st =
     (if \<not> valid_digest digest then (Inl (OtaError ''invalid image digest''), st)
      else ota_bind (file_op (\<lambda>st. st) st) (\<lambda>_ st.
        case map_of (meta_files st) digest of
          Some (RegularFile (Some img)) \<Rightarrow>
            if im_sha256 img = digest \<and> (\<exists>b \<in> set_option (map_of (efi_files st) digest). b \<noteq> OtherEntry)
            then (Inr img, st) else (Inl (OtaError ''missing OTA image''), st)
        | _ \<Rightarrow> (Inl StorageError, st)))"

text \<open>
  \<open>read_images\<close> over a directory listing, given as the stems of the \<open>.json\<close> files in its order;
  unreadable or inconsistent metadata is skipped.
\<close>

fun read_entries :: "string list \<Rightarrow> ota_store \<Rightarrow> ota_image list \<times> ota_store" where
  "read_entries [] st = ([], st)"
| "read_entries (name # names) st =
     (let (r, st) = read_image name st; (imgs, st) = read_entries names st
      in (case r of Inl _ \<Rightarrow> imgs | Inr img \<Rightarrow> img # imgs, st))"

definition read_images :: "string list \<Rightarrow> ota_store \<Rightarrow> ota_image list \<times> ota_store" where
  "read_images names st =
     (let (imgs, st) = read_entries names st in (sort_key im_sha256 imgs, st))"

text \<open>The two files of \<open>write_image\<close>: an image file already there is kept if its digest is right.\<close>

definition write_efi :: "(bytes \<Rightarrow> string) \<Rightarrow> string \<Rightarrow> bytes \<Rightarrow> ota_store \<Rightarrow> unit ota_io" where
  "write_efi sha digest bs st =
     (case map_of (efi_files st) digest of
        None \<Rightarrow> file_op (\<lambda>st. st\<lparr>efi_files := AList.update digest (RegularFile bs) (efi_files st)\<rparr>) st
      | Some entry \<Rightarrow>
          ota_bind (file_op (\<lambda>st. st) st) (\<lambda>_ st.
            case entry of
              OtherEntry \<Rightarrow> (Inl StorageError, st)
            | RegularFile old \<Rightarrow>
                if sha old = digest then (Inr (), st)
                else (Inl (OtaError ''existing image digest mismatch''), st)))"

definition write_meta :: "ota_image \<Rightarrow> ota_store \<Rightarrow> unit ota_io" where
  "write_meta img st =
     file_op (\<lambda>st. st\<lparr>meta_files :=
       AList.update (im_sha256 img) (RegularFile (Some img)) (meta_files st)\<rparr>) st"

definition write_image ::
    "(bytes \<Rightarrow> string) \<Rightarrow> bytes \<Rightarrow> string option \<Rightarrow> ota_store \<Rightarrow> ota_image ota_io" where
  "write_image sha bs version st =
     (if is_some_and version (\<lambda>label.
           \<not> (length label \<le> 96 \<and> list_all is_ascii_graphic (str_bytes label)))
      then (Inl (OtaError ''invalid image version''), st)
      else
        let digest = sha bs;
            img = \<lparr>im_sha256 = digest, im_size = word_of_nat (length bs), im_version = version\<rparr>
        in ota_bind (write_efi sha digest bs st) (\<lambda>_ st.
           ota_bind (write_meta img st) (\<lambda>_ st. (Inr img, st))))"

text \<open>
  Removing the two files of an image: a regular file is removed and the directory synced, any
  other entry is an inconsistency.
\<close>

definition remove_meta :: "string \<Rightarrow> ota_store \<Rightarrow> (delete_image_error + unit) \<times> ota_store" where
  "remove_meta digest st =
     (case map_of (meta_files st) digest of
        Some (RegularFile _) \<Rightarrow>
          (case file_op (\<lambda>st. st\<lparr>meta_files := AList.delete digest (meta_files st)\<rparr>) st of
             (Inl _, st) \<Rightarrow> (Inl DeleteIo, st) | (Inr _, st) \<Rightarrow> (Inr (), st))
      | Some OtherEntry \<Rightarrow> (Inl Inconsistent, st)
      | None \<Rightarrow> (Inr (), st))"

definition remove_efi :: "string \<Rightarrow> ota_store \<Rightarrow> (delete_image_error + unit) \<times> ota_store" where
  "remove_efi digest st =
     (case map_of (efi_files st) digest of
        Some (RegularFile _) \<Rightarrow>
          (case file_op (\<lambda>st. st\<lparr>efi_files := AList.delete digest (efi_files st)\<rparr>) st of
             (Inl _, st) \<Rightarrow> (Inl DeleteIo, st) | (Inr _, st) \<Rightarrow> (Inr (), st))
      | Some OtherEntry \<Rightarrow> (Inl Inconsistent, st)
      | None \<Rightarrow> (Inr (), st))"

definition remove_image_files ::
    "string \<Rightarrow> ota_store \<Rightarrow> (delete_image_error + unit) \<times> ota_store" where
  "remove_image_files digest st =
     (if map_of (meta_files st) digest = None \<and> map_of (efi_files st) digest = None
      then (Inl ImageNotFound, st)
      else
        case remove_meta digest st of
          (Inl e, st) \<Rightarrow> (Inl e, st)
        | (Inr _, st) \<Rightarrow> remove_efi digest st)"

definition remove_image ::
    "string \<Rightarrow> ota_store \<Rightarrow> ((delete_image_error + unit) \<times> bool) \<times> ota_store" where
  "remove_image digest st =
     (let (result, st) = remove_image_files digest st;
          (read, st) = read_image digest st
      in ((result, is_ok read), st))"

section \<open>The catalog\<close>

definition put_image ::
    "(bytes \<Rightarrow> string) \<Rightarrow> bytes \<Rightarrow> string option \<Rightarrow> ota_store \<Rightarrow> ota_image ota_io" where
  "put_image sha bs version st =
     (if bs = [] \<or> MAX_IMAGE_BYTES < length bs then (Inl (OtaError ''invalid EFI image size''), st)
      else ota_bind (write_image sha bs version st) (\<lambda>img st.
        (Inr img, st\<lparr>catalog := AList.update (im_sha256 img) img (catalog st)\<rparr>)))"

definition delete_image ::
    "string \<Rightarrow> ota_store \<Rightarrow> (delete_image_error + unit) \<times> ota_store" where
  "delete_image digest st =
     (if \<not> valid_digest digest then (Inl InvalidDigest, st)
      else if any_value (jobs st)
          (\<lambda>j. im_sha256 (job_image j) = digest \<and> \<not> is_terminal (phase j))
        then (Inl InUse, st)
      else
        let ((result, still_valid), st) = remove_image digest st
        in (result,
            if \<not> still_valid then st\<lparr>catalog := AList.delete digest (catalog st)\<rparr> else st))"

definition image_list :: "ota_store \<Rightarrow> ota_image list" where
  "image_list st = bt_values (catalog st)"

definition job_list :: "ota_store \<Rightarrow> job list" where
  "job_list st = bt_values (jobs st)"

definition board_job :: "string \<Rightarrow> ota_store \<Rightarrow> job option" where
  "board_job b st = map_of (jobs st) b"

section \<open>Assignments\<close>

definition queue ::
    "string \<Rightarrow> mac_address \<Rightarrow> string \<Rightarrow> string \<Rightarrow> ota_store \<Rightarrow> job ota_io" where
  "queue board mac digest uid st =
     (case map_of (catalog st) digest of
        None \<Rightarrow> (Inl (OtaError ''missing OTA image''), st)
      | Some img \<Rightarrow>
          let device = (case map_of (observations st) board of
                None \<Rightarrow> None
              | Some d \<Rightarrow> if ob_mac_address d = mac then Some d else None) in
          if \<not> is_none_or (map_of (jobs st) board) (\<lambda>j. is_terminal (phase j))
          then (Inl (OtaError ''board already has an OTA job''), st)
          else if is_some_and device (\<lambda>d. \<not> is_none_or (ob_state d)
              (\<lambda>s. \<not> trial s \<and> pending_update_id s = None))
          then (Inl (OtaError ''device has an unconfirmed OTA trial''), st)
          else if is_some_and device (\<lambda>d. \<not> is_none_or (ob_state d)
              (\<lambda>s. active_sha256 s \<noteq> im_sha256 img))
          then (Inl (OtaError ''this image is already the active loader''), st)
          else
            let job = \<lparr>jb_board_id = board, jb_mac_address = mac, update_id = uid, job_image = img,
                  phase = Queued, job_error = None, delivery_attempts = 0,
                  next_delivery_at = None, waiting_for_device_change = False\<rparr>;
                updated = AList.update board job (jobs st)
            in ota_bind (save updated st) (\<lambda>_ st. (Inr job, st\<lparr>jobs := updated\<rparr>)))"

definition cancel :: "string \<Rightarrow> string \<Rightarrow> ota_store \<Rightarrow> job ota_io" where
  "cancel board uid st =
     (case map_of (jobs st) board of
        None \<Rightarrow> (Inl (OtaError ''no OTA job for board''), st)
      | Some j \<Rightarrow>
          if \<not> (update_id j = uid \<and> \<not> is_terminal (phase j))
          then (Inl (OtaError ''OTA job already finished or superseded''), st)
          else
            let job = j\<lparr>phase := Cancelled, job_error := None, next_delivery_at := None,
                  waiting_for_device_change := False\<rparr>;
                updated_jobs = AList.update board job (jobs st);
                updated_observations = AList.delete board (observations st)
            in ota_bind (save_observations updated_observations st) (\<lambda>_ st.
               ota_bind (save updated_jobs st) (\<lambda>_ st.
                 (Inr job, st\<lparr>observations := updated_observations, jobs := updated_jobs\<rparr>))))"

definition can_download :: "string \<Rightarrow> mac_address \<Rightarrow> string \<Rightarrow> string \<Rightarrow> ota_store \<Rightarrow> bool" where
  "can_download board mac uid epoch st \<longleftrightarrow>
     is_some_and (map_of (observations st) board) (\<lambda>ob.
       ob_mac_address ob = mac \<and> ob_epoch ob = epoch \<and>
       is_some_and (ob_state ob) (\<lambda>ota. \<not> trial ota \<and> pending_update_id ota = None)) \<and>
     is_some_and (map_of (jobs st) board) (\<lambda>job.
       jb_mac_address job = mac \<and> update_id job = uid \<and> phase job = Downloading)"

section \<open>Deciding what a device does next\<close>

text \<open>
  \<open>clear_delivery\<close> is the pair of resets the code writes after every change of phase;
  \<open>decide_job\<close> is the decision for a device that reports OTA state, \<open>decide_missing\<close> for one
  that does not.
\<close>

definition clear_delivery :: "job \<Rightarrow> job" where
  "clear_delivery j = j\<lparr>next_delivery_at := None, waiting_for_device_change := False\<rparr>"

definition in_trial :: "loader_ota_state \<Rightarrow> bool" where
  "in_trial ota \<longleftrightarrow> trial ota \<or> pending_update_id ota \<noteq> None"

definition apply_outcome :: "loader_ota_state \<Rightarrow> job \<Rightarrow> job" where
  "apply_outcome ota j =
     (if last_update_id ota = Some (update_id j) then
        (case last_outcome ota of
           Some OutcomeConfirmed \<Rightarrow>
             if phase j = Confirming \<and> active_sha256 ota = im_sha256 (job_image j)
             then j\<lparr>phase := Succeeded\<rparr> else j
         | Some OutcomeRolledBack \<Rightarrow> j\<lparr>phase := RolledBack\<rparr>
         | Some OutcomeFailed \<Rightarrow> j\<lparr>phase := Failed\<rparr>
         | None \<Rightarrow> j)
      else j)"

definition decide_job ::
    "loader_ota_state \<Rightarrow> bool \<Rightarrow> bool \<Rightarrow> int \<Rightarrow> job \<Rightarrow> job \<times> decision" where
  "decide_job ota changed idle now j =
     (let j = (if changed then j\<lparr>waiting_for_device_change := False\<rparr> else j);
          j = apply_outcome ota j
      in if is_terminal (phase j) then
           (clear_delivery j, if in_trial ota then Wait else Idle)
         else if trial ota then
           if source ota = Some Server \<and> pending_update_id ota = Some (update_id j) \<and>
              running_sha256 ota = im_sha256 (job_image j)
           then (clear_delivery (j\<lparr>phase := Confirming, job_error := None\<rparr>), Confirm (update_id j))
           else (j, Wait)
         else if pending_update_id ota \<noteq> None then
           (if pending_update_id ota = Some (update_id j)
            then clear_delivery (j\<lparr>phase := Staged, job_error := None\<rparr>) else j, Wait)
         else if \<not> idle then (j, Idle)
         else if active_sha256 ota = im_sha256 (job_image j) then
           (clear_delivery (j\<lparr>phase := Failed, job_error :=
              Some ''image already active without this assignment's confirmation''\<rparr>), Idle)
         else if waiting_for_device_change j \<and> \<not> changed \<or>
             is_some_and (next_delivery_at j) (\<lambda>deadline. now < deadline)
         then (j, Wait)
         else if phase j = Queued \<or> phase j = Downloading then
           let j = clear_delivery (j\<lparr>phase := Downloading, job_error := None\<rparr>) in (j, Update j)
         else (j, Wait))"

definition decide_missing :: "job \<Rightarrow> job" where
  "decide_missing j =
     (let j = (if job_error j = None
               then j\<lparr>job_error := Some ''loader did not report OTA state; waiting for OTA availability''\<rparr>
               else j)
      in j\<lparr>waiting_for_device_change := True, next_delivery_at := None\<rparr>)"

text \<open>
  \<open>decide_at\<close>: the observation is recorded first, then the assignment of the board decides.
\<close>

definition observation_changed ::
    "string \<Rightarrow> mac_address \<Rightarrow> loader_ota_state option \<Rightarrow> string \<Rightarrow> ota_store \<Rightarrow> bool" where
  "observation_changed board mac ota epoch st \<longleftrightarrow>
     is_none_or (map_of (observations st) board) (\<lambda>old.
       ob_mac_address old \<noteq> mac \<or> ob_epoch old \<noteq> epoch \<or> ob_state old \<noteq> ota)"

definition observe ::
    "string \<Rightarrow> mac_address \<Rightarrow> loader_ota_state option \<Rightarrow> string \<Rightarrow> ota_store \<Rightarrow> unit ota_io" where
  "observe board mac ota epoch st =
     (if observation_changed board mac ota epoch st then
        let updated = AList.update board
              \<lparr>ob_mac_address = mac, ob_state = ota, ob_epoch = epoch\<rparr> (observations st)
        in ota_bind (save_observations updated st) (\<lambda>_ st. (Inr (), st\<lparr>observations := updated\<rparr>))
      else (Inr (), st))"

definition decide_assigned ::
    "string \<Rightarrow> mac_address \<Rightarrow> loader_ota_state option \<Rightarrow> bool \<Rightarrow> bool \<Rightarrow> int \<Rightarrow> ota_store \<Rightarrow>
      decision ota_io" where
  "decide_assigned board mac ota changed idle now st =
     (let blocked = (if is_some_and ota in_trial then Wait else Idle) in
      case map_of (jobs st) board of
        None \<Rightarrow> (Inr blocked, st)
      | Some previous \<Rightarrow>
          if jb_mac_address previous \<noteq> mac then (Inr Wait, st)
          else if is_terminal (phase previous) then (Inr blocked, st)
          else
            let (job, decision) = (case ota of
                  Some ota \<Rightarrow> decide_job ota changed idle now previous
                | None \<Rightarrow> (decide_missing previous, Idle));
                updated = AList.update board job (jobs st)
            in if phase job \<noteq> phase previous \<or> job_error job \<noteq> job_error previous \<or>
                 next_delivery_at job \<noteq> next_delivery_at previous \<or>
                 waiting_for_device_change job \<noteq> waiting_for_device_change previous
               then ota_bind (save updated st) (\<lambda>_ st. (Inr decision, st\<lparr>jobs := updated\<rparr>))
               else (Inr decision, st))"

definition decide_at ::
    "string \<Rightarrow> mac_address \<Rightarrow> loader_ota_state option \<Rightarrow> bool \<Rightarrow> string \<Rightarrow> int \<Rightarrow> ota_store \<Rightarrow>
      decision ota_io" where
  "decide_at board mac ota idle epoch now st =
     (let changed = observation_changed board mac ota epoch st in
      ota_bind (observe board mac ota epoch st) (\<lambda>_ st.
        decide_assigned board mac ota changed idle now st))"

section \<open>Reports of the device\<close>

definition report_transition :: "phase \<Rightarrow> phase \<Rightarrow> bool" where
  "report_transition old new \<longleftrightarrow>
     (old = Queued \<or> old = Downloading) \<and> (new = Downloading \<or> new = Failed) \<or>
     old = Downloading \<and> new = Staged \<or>
     (old = Staged \<or> old = Confirming) \<and> new = Failed \<or>
     old = Confirming \<and> new = Succeeded"

definition report ::
    "string \<Rightarrow> string \<Rightarrow> string \<Rightarrow> phase \<Rightarrow> string option \<Rightarrow> string option \<Rightarrow> ota_store \<Rightarrow>
      unit ota_io" where
  "report board epoch uid p err active st =
     (case map_of (jobs st) board of
        None \<Rightarrow> (Inl (OtaError ''unknown OTA job''), st)
      | Some job \<Rightarrow>
          if update_id job \<noteq> uid then (Inl (OtaError ''stale OTA report''), st)
          else case map_of (observations st) board of
            None \<Rightarrow> (Inl (OtaError ''OTA status not observed''), st)
          | Some observed \<Rightarrow>
              if \<not> (ob_mac_address observed = jb_mac_address job \<and> ob_epoch observed = epoch \<and>
                    ob_state observed \<noteq> None)
              then (Inl (OtaError ''stale OTA report epoch or capability''), st)
              else if \<not> (p = Downloading \<or> p = Staged \<or> p = Failed \<or> p = Succeeded)
              then (Inl (OtaError ''invalid loader OTA phase''), st)
              else if is_terminal (phase job) then
                if phase job = p then (Inr (), st)
                else (Inl (OtaError ''OTA job already finished''), st)
              else if phase job = p then
                if job_error job \<noteq> err then
                  let updated = AList.update board (job\<lparr>job_error := err\<rparr>) (jobs st)
                  in ota_bind (save updated st) (\<lambda>_ st. (Inr (), st\<lparr>jobs := updated\<rparr>))
                else (Inr (), st)
              else if \<not> report_transition (phase job) p
              then (Inl (OtaError ''invalid OTA phase transition''), st)
              else if p = Succeeded \<and> \<not> (is_some_and (ob_state observed) (\<lambda>s.
                    source s = Some Server \<and> trial s \<and> pending_update_id s = Some uid \<and>
                    running_sha256 s = im_sha256 (job_image job)) \<and>
                  active = Some (im_sha256 (job_image job)))
              then (Inl (OtaError ''confirmed OTA result does not match registered trial''), st)
              else if phase job \<noteq> p \<or> job_error job \<noteq> err then
                let job = job\<lparr>phase := p, job_error := err\<rparr>;
                    job = (if p \<noteq> Downloading then clear_delivery job else job);
                    updated = AList.update board job (jobs st)
                in ota_bind (save updated st) (\<lambda>_ st. (Inr (), st\<lparr>jobs := updated\<rparr>))
              else (Inr (), st))"

definition saturating_add_u8 :: "u8 \<Rightarrow> u8 \<Rightarrow> u8" where
  "saturating_add_u8 a b = (if unat a + unat b \<le> 255 then a + b else 255)"

definition apply_failure :: "delivery_failure \<Rightarrow> int \<Rightarrow> job \<Rightarrow> job" where
  "apply_failure failure now j =
     (let j = clear_delivery j in
      case failure of
        Rejected e \<Rightarrow> j\<lparr>phase := Failed, job_error := Some e\<rparr>
      | FailConflict e \<Rightarrow> j\<lparr>phase := Downloading, job_error := Some e,
          next_delivery_at := Some (now + seconds DELIVERY_RETRY_SECONDS)\<rparr>
      | Unavailable e \<Rightarrow> j\<lparr>phase := Downloading, job_error := Some e,
          waiting_for_device_change := True\<rparr>
      | Retryable e \<Rightarrow>
          let attempts = saturating_add_u8 (delivery_attempts j) 1;
              j = j\<lparr>delivery_attempts := attempts, job_error := Some e\<rparr>
          in if MAX_DELIVERY_ATTEMPTS \<le> attempts then j\<lparr>phase := Failed\<rparr>
             else j\<lparr>phase := Downloading, next_delivery_at :=
               Some (now + seconds (DELIVERY_RETRY_SECONDS * uint attempts))\<rparr>)"

definition record_delivery_failure ::
    "string \<Rightarrow> mac_address \<Rightarrow> string \<Rightarrow> string \<Rightarrow> delivery_failure \<Rightarrow> int \<Rightarrow> ota_store \<Rightarrow> job ota_io"
  where
  "record_delivery_failure board mac uid epoch failure now st =
     (if \<not> is_some_and (map_of (observations st) board) (\<lambda>ob.
          ob_mac_address ob = mac \<and> ob_epoch ob = epoch)
      then (Inl (OtaError ''stale OTA delivery epoch''), st)
      else case map_of (jobs st) board of
        None \<Rightarrow> (Inl (OtaError ''unknown OTA job''), st)
      | Some job \<Rightarrow>
          if \<not> (jb_mac_address job = mac \<and> update_id job = uid)
          then (Inl (OtaError ''stale OTA delivery failure''), st)
          else if is_terminal (phase job) then (Inr job, st)
          else if \<not> (phase job = Queued \<or> phase job = Downloading)
          then (Inl (OtaError ''OTA job is not accepting an image''), st)
          else
            let job = apply_failure failure now job;
                updated = AList.update board job (jobs st)
            in ota_bind (save updated st) (\<lambda>_ st. (Inr job, st\<lparr>jobs := updated\<rparr>)))"

text \<open>
  \<open>open\<close>: what the server starts from. A file that is not there is \<open>None\<close>; a file that cannot be
  read or parsed is \<open>Some (Inl e)\<close> and fails the start, as does an unreadable image directory.
\<close>

definition ota_open ::
    "(ota_error + (string, job) amap) option \<Rightarrow> (ota_error + (string, observation) amap) option \<Rightarrow>
      ota_error + string list \<Rightarrow> ota_store \<Rightarrow> ota_error + ota_store" where
  "ota_open jobs_json devices_json listing disk =
     rbind (unwrap_or jobs_json (Inr [])) (\<lambda>js.
     rbind (unwrap_or devices_json (Inr [])) (\<lambda>obs.
     rbind listing (\<lambda>names.
       let (imgs, st) = read_images names disk
       in Inr (st\<lparr>catalog := foldl (\<lambda>m img. AList.update (im_sha256 img) img m) [] imgs,
            jobs := js, observations := obs, jobs_file := js, devices_file := obs\<rparr>))))"

end
