(* ===== verification/Ota_Properties.thy ===== *)
theory Ota_Properties
  imports Ota_Store
begin

text \<open>
  Properties of the upgrade store: which changes of a job are possible, when a device is told
  to download or to confirm, bounded delivery, images that active jobs rely on, and agreement
  of memory and disk.
\<close>

section \<open>Requests\<close>

datatype ota_event =
    EvPut bytes "string option"
  | EvDelete string
  | EvQueue string mac_address string string
  | EvCancel string string
  | EvDecide string mac_address "loader_ota_state option" bool string int
  | EvReport string string string phase "string option" "string option"
  | EvFailure string mac_address string string delivery_failure int

fun ota_step :: "(bytes \<Rightarrow> string) \<Rightarrow> ota_store \<Rightarrow> ota_event \<Rightarrow> ota_store" where
  "ota_step sha st (EvPut bs v) = snd (put_image sha bs v st)"
| "ota_step sha st (EvDelete d) = snd (delete_image d st)"
| "ota_step sha st (EvQueue b m d u) = snd (queue b m d u st)"
| "ota_step sha st (EvCancel b u) = snd (cancel b u st)"
| "ota_step sha st (EvDecide b m s i e n) = snd (decide_at b m s i e n st)"
| "ota_step sha st (EvReport b e u p err a) = snd (report b e u p err a st)"
| "ota_step sha st (EvFailure b m u e f n) = snd (record_delivery_failure b m u e f n st)"

section \<open>File operations\<close>

lemma ota_bind_Inr: "ota_bind r f = (Inr y, st') \<longleftrightarrow> (\<exists>x st. r = (Inr x, st) \<and> f x st = (Inr y, st'))"
  by (cases r; cases "fst r") auto

lemma ota_bind_Inl:
  "ota_bind r f = (Inl e, st') \<longleftrightarrow> r = (Inl e, st') \<or> (\<exists>x st. r = (Inr x, st) \<and> f x st = (Inl e, st'))"
  by (cases r; cases "fst r") auto

text \<open>Everything but the fault list.\<close>

definition same_store :: "ota_store \<Rightarrow> ota_store \<Rightarrow> bool" where
  "same_store st st' \<longleftrightarrow> (\<exists>fs. st' = st\<lparr>io_faults := fs\<rparr>)"

lemma same_store_refl [simp]: "same_store st st"
  unfolding same_store_def by (rule exI [of _ "io_faults st"]) simp

lemma same_store_fields:
  "same_store st st' \<Longrightarrow> catalog st' = catalog st \<and> jobs st' = jobs st \<and>
     observations st' = observations st \<and> jobs_file st' = jobs_file st \<and>
     devices_file st' = devices_file st \<and> meta_files st' = meta_files st \<and>
     efi_files st' = efi_files st"
  by (auto simp: same_store_def)

lemma file_op_cases:
  assumes "file_op f st = (r, st')"
  obtains st0 where "same_store st st0" "r = Inr ()" "st' = f st0"
    | st0 where "same_store st st0" "r = Inl StorageError" "st' = st0 \<or> st' = f st0"
proof -
  obtain out st0 where io: "next_io st = (out, st0)" by (cases "next_io st")
  then have "same_store st st0"
    by (auto simp: next_io_def same_store_def split: list.splits intro: exI [of _ "io_faults st"])
  then show ?thesis
    using assms io that by (cases out) (auto simp: file_op_def)
qed

text \<open>Saving the jobs and taking them into memory: the last step of every method.\<close>

lemma commit_jobs:
  assumes "ota_bind (save js st) (\<lambda>_ st. (Inr x, st\<lparr>jobs := js\<rparr>)) = (r, st')"
  obtains st0 where "same_store st st0" "r = Inr x" "st' = st0\<lparr>jobs_file := js, jobs := js\<rparr>"
    | st0 where "same_store st st0" "r = Inl StorageError" "st' = st0 \<or> st' = st0\<lparr>jobs_file := js\<rparr>"
proof -
  obtain q st1 where sv: "save js st = (q, st1)" by (cases "save js st")
  from sv [unfolded save_def] show ?thesis
  proof (cases rule: file_op_cases)
    case (1 st0)
    with assms sv that(1) show ?thesis by simp
  next
    case (2 st0)
    with assms sv that(2) show ?thesis by auto
  qed
qed

section \<open>How a job changes\<close>

text \<open>
  The edges a job's phase can take while it is one job. A step that leaves the phase alone is
  one too; nothing leads back to \<open>Queued\<close>, and nothing but \<open>Confirming\<close> to \<open>Succeeded\<close>.
\<close>

inductive phase_edge :: "phase \<Rightarrow> phase \<Rightarrow> bool" where
  stay: "phase_edge p p"
| deliver: "p = Queued \<or> p = Downloading \<Longrightarrow> phase_edge p Downloading"
| stage: "\<not> is_terminal p \<Longrightarrow> phase_edge p Staged"
| confirm: "\<not> is_terminal p \<Longrightarrow> phase_edge p Confirming"
| succeed: "phase_edge Confirming Succeeded"
| roll_back: "\<not> is_terminal p \<Longrightarrow> phase_edge p RolledBack"
| fail: "\<not> is_terminal p \<Longrightarrow> phase_edge p Failed"
| cancelled: "\<not> is_terminal p \<Longrightarrow> phase_edge p Cancelled"

inductive_cases phase_edge_Succeeded: "phase_edge p Succeeded"
inductive_cases phase_edge_Queued: "phase_edge p Queued"
inductive_cases phase_edge_Downloading: "phase_edge p Downloading"

inductive_simps phase_edge_simps: "phase_edge p q"

lemmas phase_simps = is_terminal_def clear_delivery_def

definition same_job :: "job \<Rightarrow> job \<Rightarrow> bool" where
  "same_job j j' \<longleftrightarrow>
     jb_board_id j' = jb_board_id j \<and> jb_mac_address j' = jb_mac_address j \<and>
     update_id j' = update_id j \<and> job_image j' = job_image j"

definition good_attempts :: "job \<Rightarrow> bool" where
  "good_attempts j \<longleftrightarrow>
     delivery_attempts j \<le> MAX_DELIVERY_ATTEMPTS \<and>
     (delivery_attempts j = MAX_DELIVERY_ATTEMPTS \<longrightarrow> is_terminal (phase j))"

text \<open>What one step may do to an active job.\<close>

definition job_progress :: "job \<Rightarrow> job \<Rightarrow> bool" where
  "job_progress j j' \<longleftrightarrow>
     same_job j j' \<and> phase_edge (phase j) (phase j') \<and> (good_attempts j \<longrightarrow> good_attempts j')"

lemma progress_same_attempts:
  "same_job j j' \<Longrightarrow> phase_edge (phase j) (phase j') \<Longrightarrow> \<not> is_terminal (phase j) \<Longrightarrow>
     delivery_attempts j' = delivery_attempts j \<Longrightarrow> job_progress j j'"
  by (auto simp: job_progress_def good_attempts_def)

lemma apply_outcome_progress:
  assumes "\<not> is_terminal (phase j)"
  shows "same_job j (apply_outcome ota j) \<and> phase_edge (phase j) (phase (apply_outcome ota j)) \<and>
    delivery_attempts (apply_outcome ota j) = delivery_attempts j \<and>
    (phase (apply_outcome ota j) = phase j \<or> is_terminal (phase (apply_outcome ota j)))"
  using assms
  by (auto simp: is_terminal_def apply_outcome_def same_job_def phase_edge_simps split: option.splits ota_outcome.splits)

lemma decide_job_progress:
  assumes "\<not> is_terminal (phase j)"
  shows "job_progress j (fst (decide_job ota changed idle now j))"
proof -
  define j0 where "j0 = (if changed then j\<lparr>waiting_for_device_change := False\<rparr> else j)"
  define j1 where "j1 = apply_outcome ota j0"
  have j0: "same_job j j0" "phase j0 = phase j" "delivery_attempts j0 = delivery_attempts j"
    by (simp_all add: j0_def same_job_def)
  with apply_outcome_progress [of j0 ota] assms
  have j1: "same_job j j1" "phase_edge (phase j) (phase j1)"
    "delivery_attempts j1 = delivery_attempts j" "phase j1 = phase j \<or> is_terminal (phase j1)"
    by (simp_all add: j1_def same_job_def)
  show ?thesis
  proof (rule progress_same_attempts [OF _ _ assms])
    show "same_job j (fst (decide_job ota changed idle now j))"
      "delivery_attempts (fst (decide_job ota changed idle now j)) = delivery_attempts j"
      using j1 by (simp_all add: decide_job_def Let_def j0_def [symmetric] j1_def [symmetric]
          clear_delivery_def same_job_def)
    show "phase_edge (phase j) (phase (fst (decide_job ota changed idle now j)))"
    proof (cases "is_terminal (phase j1)")
      case True
      with j1(2) show ?thesis
        by (simp add: decide_job_def Let_def j0_def [symmetric] j1_def [symmetric]
            clear_delivery_def)
    next
      case False
      with j1(4) have "phase j1 = phase j" by simp
      with False assms show ?thesis
        by (simp add: decide_job_def Let_def j0_def [symmetric] j1_def [symmetric]
            clear_delivery_def phase_edge_simps)
    qed
  qed
qed

lemma decide_missing_progress: "\<not> is_terminal (phase j) \<Longrightarrow> job_progress j (decide_missing j)"
  by (rule progress_same_attempts)
    (simp_all add: decide_missing_def same_job_def Let_def phase_edge.stay)

lemma apply_failure_progress:
  assumes "phase j = Queued \<or> phase j = Downloading"
  shows "job_progress j (apply_failure f now j)"
proof (cases f)
  case (Retryable e)
  let ?a = "saturating_add_u8 (delivery_attempts j) 1"
  have sum: "delivery_attempts j < 3 \<Longrightarrow> unat ?a = unat (delivery_attempts j) + 1"
    by (simp add: saturating_add_u8_def word_less_nat_alt unat_word_ariths)
  have "good_attempts j \<Longrightarrow> delivery_attempts j < 3"
    using assms by (auto simp: good_attempts_def MAX_DELIVERY_ATTEMPTS_def is_terminal_def
        order_le_less)
  with sum have "good_attempts j \<Longrightarrow> ?a \<le> 3"
    by (simp add: word_less_nat_alt word_le_nat_alt)
  with Retryable assms show ?thesis
    by (auto simp: apply_failure_def Let_def job_progress_def same_job_def clear_delivery_def
        phase_edge_simps good_attempts_def MAX_DELIVERY_ATTEMPTS_def is_terminal_def)
qed (use assms in \<open>auto simp: apply_failure_def Let_def job_progress_def same_job_def
  clear_delivery_def phase_edge_simps good_attempts_def is_terminal_def
  MAX_DELIVERY_ATTEMPTS_def\<close>)

text \<open>What the image operations leave alone.\<close>

definition assignments :: "ota_store \<Rightarrow>
    (string, job) amap \<times> (string, observation) amap \<times> (string, job) amap \<times> (string, observation) amap" where
  "assignments st = (jobs st, observations st, jobs_file st, devices_file st)"

lemma same_store_assignments: "same_store st st' \<Longrightarrow> assignments st' = assignments st"
  by (auto simp: same_store_def assignments_def)

lemma file_op_assignments:
  assumes "file_op f st = (r, st')" "\<And>s. assignments (f s) = assignments s \<and> catalog (f s) = catalog s"
  shows "assignments st' = assignments st \<and> catalog st' = catalog st"
  using assms(1)
proof (cases rule: file_op_cases)
  case (1 st0)
  with assms(2) [of st0] show ?thesis
    by (simp add: same_store_assignments same_store_fields)
next
  case (2 st0)
  with assms(2) [of st0] show ?thesis
    by (auto simp: same_store_assignments same_store_fields)
qed

lemma read_image_assignments:
  "read_image d st = (r, st') \<Longrightarrow> assignments st' = assignments st \<and> catalog st' = catalog st"
proof -
  assume read: "read_image d st = (r, st')"
  obtain q st1 where io: "file_op (\<lambda>st. st) st = (q, st1)" by (cases "file_op (\<lambda>st. st) st")
  from file_op_assignments [OF io] read io show ?thesis
    by (cases q) (auto simp: read_image_def split: if_splits option.splits dir_entry.splits)
qed

lemma ota_bind_keeps:
  assumes "ota_bind r f = (x, st')"
    and "\<And>q s. r = (q, s) \<Longrightarrow> P s"
    and "\<And>y s x s'. r = (Inr y, s) \<Longrightarrow> P s \<Longrightarrow> f y s = (x, s') \<Longrightarrow> P s'"
  shows "P st'"
proof -
  obtain q s where r: "r = (q, s)" by (cases r)
  with assms(2) have "P s" by simp
  with assms(1,3) r show ?thesis by (cases q) auto
qed

definition keeps :: "ota_store \<Rightarrow> ota_store \<Rightarrow> bool" where
  "keeps st st' \<longleftrightarrow> assignments st' = assignments st \<and> catalog st' = catalog st"

lemma keeps_refl [simp]: "keeps st st"
  by (simp add: keeps_def)

lemma keeps_trans: "keeps st st' \<Longrightarrow> keeps st' st'' \<Longrightarrow> keeps st st''"
  by (simp add: keeps_def)

lemma keeps_file_op:
  "keeps a st \<Longrightarrow> file_op (\<lambda>st. st) st = (r, st') \<Longrightarrow> keeps a st'"
  "keeps a st \<Longrightarrow> file_op (\<lambda>st. st\<lparr>efi_files := E st\<rparr>) st = (r, st') \<Longrightarrow> keeps a st'"
  "keeps a st \<Longrightarrow> file_op (\<lambda>st. st\<lparr>meta_files := M st\<rparr>) st = (r, st') \<Longrightarrow> keeps a st'"
  by (erule keeps_trans, simp add: keeps_def, erule file_op_assignments, simp add: assignments_def)+

lemma write_image_keeps:
  assumes "write_image sha bs v st = (r, st')"
  shows "keeps st st'"
proof -
  have efi: "keeps st s" if "write_efi sha (sha bs) bs st = (q, s)" for q s
    using that
    by (auto simp: write_efi_def split: option.splits dest: keeps_file_op(2) [OF keeps_refl]
        elim!: ota_bind_keeps [where P = "keeps st"] intro: keeps_file_op(1) [OF keeps_refl]
        split: dir_entry.splits if_splits)
  show ?thesis
    using assms
    by (auto simp: write_image_def Let_def write_meta_def split: if_splits
        elim!: ota_bind_keeps [where P = "keeps st"] intro: efi keeps_file_op(3))
qed

lemma remove_image_keeps:
  assumes "remove_image d st = (r, st')"
  shows "keeps st st'"
proof -
  have meta: "keeps a s" if "remove_meta d st = (q, s)" "keeps a st" for a st q s
    using that by (auto simp: remove_meta_def split: option.splits dir_entry.splits prod.splits sum.splits
        intro: keeps_file_op)
  have efi: "keeps a s" if "remove_efi d st = (q, s)" "keeps a st" for a st q s
    using that by (auto simp: remove_efi_def split: option.splits dir_entry.splits prod.splits sum.splits
        intro: keeps_file_op)
  have files: "keeps st s" if "remove_image_files d st = (q, s)" for q s
    using that meta [OF _ keeps_refl] efi
    by (auto simp: remove_image_files_def split: if_splits prod.splits sum.splits)
  show ?thesis
    using assms files read_image_assignments
    by (fastforce simp: remove_image_def keeps_def split: prod.splits)
qed

lemma image_steps_jobs:
  "assignments (snd (put_image sha bs v st)) = assignments st"
  "assignments (snd (delete_image d st)) = assignments st"
proof -
  show "assignments (snd (put_image sha bs v st)) = assignments st"
    using write_image_keeps [of sha bs v st]
    by (cases "write_image sha bs v st"; cases "fst (write_image sha bs v st)")
      (auto simp: put_image_def keeps_def assignments_def)
  show "assignments (snd (delete_image d st)) = assignments st"
    using remove_image_keeps [of d st]
    by (cases "remove_image d st") (auto simp: delete_image_def keeps_def assignments_def
        split: prod.splits)
qed

text \<open>How the jobs change in one step; \<open>q\<close> is the board a queue request is for.\<close>

definition fresh_job :: "string \<Rightarrow> job \<Rightarrow> bool" where
  "fresh_job b j \<longleftrightarrow> jb_board_id j = b \<and> phase j = Queued \<and> delivery_attempts j = 0"

definition job_change :: "string option \<Rightarrow> ota_store \<Rightarrow> string \<Rightarrow> job \<Rightarrow> bool" where
  "job_change q st b j' \<longleftrightarrow>
     q = Some b \<and> is_none_or (map_of (jobs st) b) (\<lambda>j. is_terminal (phase j)) \<and> fresh_job b j' \<or>
     (\<exists>j. map_of (jobs st) b = Some j \<and> \<not> is_terminal (phase j) \<and> job_progress j j')"

definition jobs_change :: "string option \<Rightarrow> ota_store \<Rightarrow> ota_store \<Rightarrow> bool" where
  "jobs_change q st st' \<longleftrightarrow>
     jobs st' = jobs st \<or> (\<exists>b j. jobs st' = AList.update b j (jobs st) \<and> job_change q st b j)"

lemma jobs_change_same [simp]: "jobs st' = jobs st \<Longrightarrow> jobs_change q st st'"
  by (simp add: jobs_change_def)

lemma jobs_change_commit:
  assumes "ota_bind (save (AList.update b j (jobs st)) s) (\<lambda>_ st'. (Inr x, st'\<lparr>jobs := AList.update b j (jobs st)\<rparr>)) = (r, st')"
    and "jobs s = jobs st" "job_change q st b j"
  shows "jobs_change q st st'"
  using assms(1)
proof (cases rule: commit_jobs)
  case (1 st0)
  with assms(3) show ?thesis by (auto simp: jobs_change_def)
next
  case (2 st0)
  with assms(2) same_store_fields [OF 2(1)] show ?thesis by auto
qed

lemma queue_change: "queue b m d u st = (r, st') \<Longrightarrow> jobs_change (Some b) st st'"
  by (auto simp: queue_def Let_def split: option.splits if_splits elim!: jobs_change_commit)
    (auto simp: job_change_def fresh_job_def)

lemma active_change:
  "map_of (jobs st) b = Some j \<Longrightarrow> \<not> is_terminal (phase j) \<Longrightarrow> job_progress j j' \<Longrightarrow>
     job_change q st b j'"
  by (auto simp: job_change_def)

lemma progress_phase:
  "\<not> is_terminal (phase j) \<Longrightarrow> phase_edge (phase j) p \<Longrightarrow>
     job_progress j (clear_delivery (j\<lparr>phase := p, job_error := e\<rparr>)) \<and>
     job_progress j (j\<lparr>phase := p, job_error := e\<rparr>)"
  by (auto intro!: progress_same_attempts simp: same_job_def clear_delivery_def)

lemma report_transition_edge: "report_transition old new \<Longrightarrow> phase_edge old new"
  by (auto simp: report_transition_def phase_edge_simps is_terminal_def)

lemma report_change:
  assumes "report b e u p err a st = (r, st')"
  shows "jobs_change q st st'"
proof (cases "map_of (jobs st) b")
  case None
  with assms show ?thesis by (simp add: report_def)
next
  case (Some j)
  show ?thesis
  proof (cases "is_terminal (phase j)")
    case True
    with assms Some show ?thesis
      by (auto simp: report_def split: option.splits if_splits)
  next
    case False
    have err: "job_progress j (j\<lparr>job_error := err\<rparr>)"
      by (rule progress_same_attempts) (simp_all add: same_job_def phase_edge.stay False)
    have move: "job_progress j (clear_delivery (j\<lparr>phase := q, job_error := err\<rparr>))"
      "job_progress j (j\<lparr>phase := q, job_error := err\<rparr>)" if "report_transition (phase j) q" for q
      using progress_phase [OF False report_transition_edge [OF that]] by simp_all
    show ?thesis
      using assms Some False
      by (auto simp: report_def Let_def split: option.splits if_splits
          elim!: jobs_change_commit intro!: active_change [OF Some False] err move)
  qed
qed

lemma failure_change:
  "record_delivery_failure b m u e f n st = (r, st') \<Longrightarrow> jobs_change q st st'"
  by (auto simp: record_delivery_failure_def Let_def split: option.splits if_splits
      elim!: jobs_change_commit intro!: active_change apply_failure_progress)

lemma cancel_change:
  assumes "cancel b u st = (r, st')"
  shows "jobs_change q st st'"
proof (cases "\<exists>j. map_of (jobs st) b = Some j \<and> update_id j = u \<and> \<not> is_terminal (phase j)")
  case False
  with assms show ?thesis by (auto simp: cancel_def split: option.splits if_splits)
next
  case True
  then obtain j where j: "map_of (jobs st) b = Some j" "update_id j = u" "\<not> is_terminal (phase j)"
    by blast
  let ?j = "j\<lparr>phase := Cancelled, job_error := None, next_delivery_at := None,
    waiting_for_device_change := False\<rparr>"
  let ?js = "AList.update b ?j (jobs st)" and ?obs = "AList.delete b (observations st)"
  have change: "job_change q st b ?j"
    using j(1,3) by (intro active_change progress_same_attempts)
      (auto simp: same_job_def phase_edge_simps)
  obtain q s where obs: "save_observations ?obs st = (q, s)" by (cases "save_observations ?obs st")
  then have s: "jobs s = jobs st"
    using file_op_cases [OF obs [unfolded save_observations_def]] same_store_fields by fastforce
  show ?thesis
  proof (cases q)
    case (Inl err)
    with assms j obs s show ?thesis by (simp add: cancel_def Let_def)
  next
    case (Inr v)
    obtain q2 s2 where sv: "save ?js s = (q2, s2)" by (cases "save ?js s")
    then have s2: "jobs s2 = jobs st"
      using file_op_cases [OF sv [unfolded save_def]] same_store_fields s by fastforce
    with assms j obs Inr sv change show ?thesis
      by (cases q2) (auto simp: cancel_def Let_def jobs_change_def)
  qed
qed

lemma observe_cases:
  assumes "observe b m ota e st = (r, st')"
  obtains "\<not> observation_changed b m ota e st" "r = Inr ()" "st' = st"
    | st0 obs where "same_store st st0" "r = Inr ()"
      "obs = AList.update b \<lparr>ob_mac_address = m, ob_state = ota, ob_epoch = e\<rparr> (observations st)"
      "st' = st0\<lparr>devices_file := obs, observations := obs\<rparr>"
    | st0 obs where "same_store st st0" "r = Inl StorageError"
      "st' = st0 \<or> st' = st0\<lparr>devices_file := obs\<rparr>"
proof (cases "observation_changed b m ota e st")
  case False
  with assms have "r = Inr ()" "st' = st" by (simp_all add: observe_def Let_def)
  with False show ?thesis by (rule that(1))
next
  case True
  let ?obs = "AList.update b \<lparr>ob_mac_address = m, ob_state = ota, ob_epoch = e\<rparr> (observations st)"
  obtain q s where sv: "save_observations ?obs st = (q, s)" by (cases "save_observations ?obs st")
  from sv [unfolded save_observations_def] show ?thesis
  proof (cases rule: file_op_cases)
    case (1 st0)
    with assms True sv have "r = Inr ()" "st' = st0\<lparr>devices_file := ?obs, observations := ?obs\<rparr>"
      by (simp_all add: observe_def Let_def)
    with 1(1) show ?thesis by (intro that(2) [OF _ _ refl])
  next
    case (2 st0)
    with assms True sv have "r = Inl StorageError" "st' = st0 \<or> st' = st0\<lparr>devices_file := ?obs\<rparr>"
      by (auto simp: observe_def Let_def)
    with 2(1) show ?thesis by (intro that(3))
  qed
qed

lemma decide_assigned_change:
  assumes "decide_assigned b m ota changed idle now st = (r, st')"
  shows "jobs_change q st st'"
proof -
  have prog: "job_progress j (fst (case ota of Some ota \<Rightarrow> decide_job ota changed idle now j
      | None \<Rightarrow> (decide_missing j, Idle)))" if "\<not> is_terminal (phase j)" for j
    using that decide_job_progress decide_missing_progress by (simp split: option.split)
  show ?thesis
  proof (cases "map_of (jobs st) b")
    case None
    with assms show ?thesis by (simp add: decide_assigned_def)
  next
    case (Some j)
    obtain j' d where new: "(case ota of Some ota \<Rightarrow> decide_job ota changed idle now j
        | None \<Rightarrow> (decide_missing j, Idle)) = (j', d)"
      by fastforce
    show ?thesis
    proof (cases "is_terminal (phase j)")
      case True
      with assms Some show ?thesis by (auto simp: decide_assigned_def split: if_splits)
    next
      case False
      with prog [of j] new have "job_change q st b j'"
        using active_change [OF Some] by simp
      with assms Some False new show ?thesis
        by (auto simp: decide_assigned_def Let_def split: if_splits elim!: jobs_change_commit)
    qed
  qed
qed

lemma decide_change:
  assumes "decide_at b m ota idle e now st = (r, st')"
  shows "jobs_change q st st'"
proof -
  obtain q s where obs: "observe b m ota e st = (q, s)" by (cases "observe b m ota e st")
  then have s: "jobs s = jobs st"
    by (cases rule: observe_cases) (auto dest: same_store_fields)
  show ?thesis
  proof (cases q)
    case (Inl err)
    with assms obs s show ?thesis by (simp add: decide_at_def)
  next
    case (Inr u)
    with assms obs have "decide_assigned b m ota (observation_changed b m ota e st) idle now s = (r, st')"
      by (simp add: decide_at_def)
    from decide_assigned_change [OF this] s show ?thesis
      by (auto simp: jobs_change_def job_change_def)
  qed
qed

fun queued_board :: "ota_event \<Rightarrow> string option" where
  "queued_board (EvQueue b m d u) = Some b"
| "queued_board _ = None"

lemma ota_step_change: "jobs_change (queued_board ev) st (ota_step sha st ev)"
proof (cases ev)
  case (EvQueue b m d u)
  then show ?thesis using queue_change [of b m d u st] by (cases "queue b m d u st") simp
next
  case (EvCancel b u)
  then show ?thesis using cancel_change [of b u st] by (cases "cancel b u st") simp
next
  case (EvDecide b m s i e n)
  then show ?thesis using decide_change [of b m s i e n st] by (cases "decide_at b m s i e n st") simp
next
  case (EvReport b e u p err a)
  then show ?thesis using report_change [of b e u p err a st] by (cases "report b e u p err a st") simp
next
  case (EvFailure b m u e f n)
  then show ?thesis using failure_change [of b m u e f n st]
    by (cases "record_delivery_failure b m u e f n st") simp
qed (use image_steps_jobs in \<open>simp_all add: assignments_def\<close>)

section \<open>Invariants\<close>

definition jobs_ok :: "ota_store \<Rightarrow> bool" where
  "jobs_ok st \<longleftrightarrow>
     keys_distinct (jobs st) \<and>
     (\<forall>b j. map_of (jobs st) b = Some j \<longrightarrow> jb_board_id j = b \<and> good_attempts j)"

lemma jobs_change_ok: "jobs_change q st st' \<Longrightarrow> jobs_ok st \<Longrightarrow> jobs_ok st'"
  by (auto simp: jobs_change_def job_change_def jobs_ok_def fresh_job_def job_progress_def
      same_job_def good_attempts_def MAX_DELIVERY_ATTEMPTS_def map_of_update split: if_splits)

interpretation ota_jobs: invariant_machine "ota_step sha" jobs_ok for sha
  by unfold_locales (rule jobs_change_ok [OF ota_step_change])

text \<open>Requests other than a queue request for the board leave a finished job alone.\<close>

definition finished :: "string \<Rightarrow> ota_store \<Rightarrow> bool" where
  "finished b st \<longleftrightarrow> is_some_and (map_of (jobs st) b) (\<lambda>j. is_terminal (phase j))"

definition ota_step_other :: "(bytes \<Rightarrow> string) \<Rightarrow> string \<Rightarrow> ota_store \<Rightarrow> ota_event \<Rightarrow> ota_store" where
  "ota_step_other sha b st ev = (if queued_board ev = Some b then st else ota_step sha st ev)"

lemma jobs_change_finished:
  "jobs_change q st st' \<Longrightarrow> q \<noteq> Some b \<Longrightarrow> finished b st \<Longrightarrow>
     map_of (jobs st') b = map_of (jobs st) b"
  by (auto simp: jobs_change_def job_change_def finished_def map_of_update is_some_and_iff
      split: if_splits)

interpretation ota_final: absorbing_machine "ota_step_other sha b" jobs_ok "finished b" "board_job b"
  for sha b
proof
  fix st ev
  show "jobs_ok st \<Longrightarrow> jobs_ok (ota_step_other sha b st ev)"
    using jobs_change_ok [OF ota_step_change] by (simp add: ota_step_other_def)
  show "finished b st \<Longrightarrow> finished b (ota_step_other sha b st ev) \<and>
      board_job b (ota_step_other sha b st ev) = board_job b st"
    using jobs_change_finished [OF ota_step_change, of ev b st sha]
    by (auto simp: ota_step_other_def board_job_def finished_def)
qed

text \<open>Memory and disk agree.\<close>

definition synced :: "ota_store \<Rightarrow> bool" where
  "synced st \<longleftrightarrow> jobs_file st = jobs st \<and> devices_file st = observations st"

definition atomic_faults :: "ota_store \<Rightarrow> bool" where
  "atomic_faults st \<longleftrightarrow> DoneWithError \<notin> set (io_faults st)"

lemma file_op_atomic:
  assumes "file_op f st = (r, st')" "atomic_faults st" "\<And>s. io_faults (f s) = io_faults s"
  shows "atomic_faults st' \<and>
    (r = Inr () \<and> (\<exists>st0. same_store st st0 \<and> st' = f st0) \<or> r = Inl StorageError \<and> same_store st st')"
proof -
  obtain out st0 where io: "next_io st = (out, st0)" by (cases "next_io st")
  then have "same_store st st0" "atomic_faults st0" "out \<noteq> DoneWithError"
    using assms(2) by (auto simp: next_io_def same_store_def atomic_faults_def
        split: list.splits intro: exI [of _ "io_faults st"])
  then show ?thesis
    using assms io by (cases out) (auto simp: file_op_def atomic_faults_def)
qed

lemma synced_same: "same_store st st' \<Longrightarrow> synced st \<Longrightarrow> synced st'"
  by (auto simp: synced_def dest: same_store_fields)

definition stays_synced :: "'a ota_io \<Rightarrow> ota_store \<Rightarrow> bool" where
  "stays_synced res st \<longleftrightarrow>
     (synced st \<longrightarrow> is_ok (fst res) \<or> atomic_faults st \<longrightarrow> synced (snd res))"

lemma stays_synced_id [simp]: "stays_synced (r, st) st"
  by (simp add: stays_synced_def)

lemma commit_synced [simp]:
  "stays_synced (ota_bind (save js st) (\<lambda>_ st. (Inr x, st\<lparr>jobs := js\<rparr>))) st"
proof -
  obtain q s where sv: "save js st = (q, s)" by (cases "save js st")
  show ?thesis
  proof (cases q)
    case (Inl e)
    with sv have "atomic_faults st \<Longrightarrow> same_store st s"
      using file_op_atomic [OF sv [unfolded save_def]] by auto
    with sv Inl show ?thesis
      by (auto simp: stays_synced_def dest: synced_same)
  next
    case (Inr u)
    from sv [unfolded save_def] obtain st0 where "same_store st st0" "s = st0\<lparr>jobs_file := js\<rparr>"
      by (cases rule: file_op_cases) (use Inr in auto)
    with sv Inr show ?thesis
      by (auto simp: stays_synced_def synced_def dest: same_store_fields)
  qed
qed








section \<open>Images of active jobs\<close>

definition images_ok :: "(bytes \<Rightarrow> string) \<Rightarrow> ota_store \<Rightarrow> bool" where
  "images_ok sha st \<longleftrightarrow>
     (\<forall>d img. map_of (catalog st) d = Some img \<longrightarrow> im_sha256 img = d \<and>
        (\<exists>bs. map_of (efi_files st) d = Some (RegularFile bs) \<and> sha bs = d)) \<and>
     (\<forall>b j. map_of (jobs st) b = Some j \<and> \<not> is_terminal (phase j) \<longrightarrow>
        map_of (catalog st) (im_sha256 (job_image j)) \<noteq> None)"

definition files_view :: "ota_store \<Rightarrow>
    (string, ota_image) amap \<times> (string, bytes dir_entry) amap" where
  "files_view st = (catalog st, efi_files st)"

lemma same_store_view: "same_store st st' \<Longrightarrow> files_view st' = files_view st"
  by (auto simp: same_store_def files_view_def)

lemma file_op_view:
  "file_op f st = (r, st') \<Longrightarrow> (\<And>s. files_view (f s) = files_view s) \<Longrightarrow> files_view st' = files_view st"
  by (erule file_op_cases) (auto simp: same_store_view)

lemma save_view:
  "files_view (snd (save js st)) = files_view st"
  "files_view (snd (save_observations obs st)) = files_view st"
  using file_op_view [of "\<lambda>st. st\<lparr>jobs_file := js\<rparr>" st] file_op_view [of "\<lambda>st. st\<lparr>devices_file := obs\<rparr>" st]
  by (auto simp: save_def save_observations_def files_view_def prod_eq_iff)

lemma commit_view:
  "files_view (snd (ota_bind (save js st) (\<lambda>_ st. (Inr x, st\<lparr>jobs := js'\<rparr>)))) = files_view st"
  using save_view(1) [of js st]
  by (cases "save js st"; cases "fst (save js st)") (auto simp: files_view_def)

lemma assignment_steps_view:
  "files_view (snd (queue b m d u st)) = files_view st"
  "files_view (snd (report b e u p err a st)) = files_view st"
  "files_view (snd (record_delivery_failure b m u e f n st)) = files_view st"
  "files_view (snd (decide_assigned b m ota changed idle now st)) = files_view st"
  by (simp_all add: queue_def report_def record_delivery_failure_def decide_assigned_def Let_def
      commit_view split: option.split prod.split)

lemma decide_view: "files_view (snd (decide_at b m ota idle e now st)) = files_view st"
proof -
  obtain q s where obs: "observe b m ota e st = (q, s)" by (cases "observe b m ota e st")
  then have "files_view s = files_view st"
    by (cases rule: observe_cases) (auto simp: files_view_def dest: same_store_fields)
  with obs assignment_steps_view(4) show ?thesis
    by (cases q) (simp_all add: decide_at_def)
qed

lemma cancel_view: "files_view (snd (cancel b u st)) = files_view st"
  by (simp add: cancel_def Let_def save_def save_observations_def file_op_def next_io_def files_view_def
      split: option.split list.split io_outcome.split)

lemma images_ok_jobs:
  assumes "images_ok sha st" "files_view st' = files_view st" "jobs_change None st st'"
  shows "images_ok sha st'"
proof -
  have same: "catalog st' = catalog st" "efi_files st' = efi_files st"
    using assms(2) by (simp_all add: files_view_def)
  have active: "map_of (catalog st) (im_sha256 (job_image j)) \<noteq> None"
    if "map_of (jobs st') b = Some j" "\<not> is_terminal (phase j)" for b j
  proof (cases "map_of (jobs st) b = Some j")
    case True
    with that assms(1) show ?thesis by (auto simp: images_ok_def)
  next
    case False
    with assms(3) that(1) obtain j0 where "map_of (jobs st) b = Some j0" "\<not> is_terminal (phase j0)"
      "job_progress j0 j"
      by (auto simp: jobs_change_def job_change_def map_of_update split: if_splits)
    with assms(1) show ?thesis
      by (auto simp: images_ok_def job_progress_def same_job_def)
  qed
  show ?thesis
    using assms(1) active by (auto simp: images_ok_def same)
qed

lemma images_ok_queue:
  assumes "images_ok sha st"
  shows "images_ok sha (snd (queue b m d u st))"
proof -
  obtain r st' where q: "queue b m d u st = (r, st')" by (cases "queue b m d u st")
  have view: "files_view st' = files_view st"
    using assignment_steps_view(1) [of b m d u st] q by simp
  show ?thesis
  proof (cases "jobs st' = jobs st")
    case True
    with view q assms show ?thesis by (auto simp: images_ok_def files_view_def)
  next
    case False
    from q obtain img js x s where img: "map_of (catalog st) d = Some img"
      and commit: "ota_bind (save js st) (\<lambda>_ st. (Inr x, st\<lparr>jobs := js\<rparr>)) = (r, st')"
      and js: "js = AList.update b x (jobs st)" "job_image x = img"
      using False by (auto simp: queue_def Let_def split: option.splits if_splits)
    from commit False have "jobs st' = js"
      by (cases rule: commit_jobs) (auto dest: same_store_fields)
    with img js view q assms show ?thesis
      by (auto simp: images_ok_def files_view_def map_of_update split: if_splits)
  qed
qed

lemma write_image_efi:
  assumes "write_image sha bs v st = (r, st')"
    and "\<And>d b'. map_of (efi_files st) d = Some (RegularFile b') \<Longrightarrow> P d \<Longrightarrow> sha b' = d"
  shows "(\<forall>d b'. map_of (efi_files st) d = Some (RegularFile b') \<longrightarrow>
      map_of (efi_files st') d = Some (RegularFile b')) \<and>
    (\<forall>img. r = Inr img \<longrightarrow> im_sha256 img = sha bs \<and>
      (\<exists>b'. map_of (efi_files st') (sha bs) = Some (RegularFile b') \<and> sha b' = sha bs))"
proof -
  define kept where "kept = (\<lambda>s :: ota_store. \<forall>d b'. map_of (efi_files st) d = Some (RegularFile b') \<longrightarrow>
      map_of (efi_files s) d = Some (RegularFile b'))"
  define held where "held = (\<lambda>s :: ota_store. \<exists>b'. map_of (efi_files s) (sha bs) = Some (RegularFile b') \<and> sha b' = sha bs)"
  have efi: "kept s \<and> (q = Inr () \<longrightarrow> held s)" if w: "write_efi sha (sha bs) bs st = (q, s)" for q s
  proof (cases "map_of (efi_files st) (sha bs)")
    case None
    with w have "file_op (\<lambda>st. st\<lparr>efi_files := AList.update (sha bs) (RegularFile bs) (efi_files st)\<rparr>) st = (q, s)"
      by (simp add: write_efi_def)
    then show ?thesis
      using None
      by (cases rule: file_op_cases)
        (auto simp: kept_def held_def map_of_update dest!: same_store_fields)
  next
    case (Some entry)
    obtain q0 s0 where rd: "file_op (\<lambda>st. st) st = (q0, s0)" by (cases "file_op (\<lambda>st. st) st")
    then have "efi_files s0 = efi_files st"
      by (cases rule: file_op_cases) (auto dest: same_store_fields)
    with w Some rd show ?thesis
      by (cases q0) (auto simp: write_efi_def kept_def held_def split: dir_entry.splits if_splits)
  qed
  have meta: "efi_files s' = efi_files s" if "write_meta img s = (q, s')" for img s q s'
    using that [unfolded write_meta_def]
    by (cases rule: file_op_cases) (auto dest: same_store_fields)
  let ?img = "\<lparr>im_sha256 = sha bs, im_size = word_of_nat (length bs), im_version = v\<rparr>"
  obtain q s where w: "write_efi sha (sha bs) bs st = (q, s)" by (cases "write_efi sha (sha bs) bs st")
  obtain q2 s2 where m: "write_meta ?img s = (q2, s2)" by (cases "write_meta ?img s")
  have "kept st' \<and> (\<forall>img. r = Inr img \<longrightarrow> im_sha256 img = sha bs \<and> held st')"
    using assms(1) efi [OF w] meta [OF m] w m
    by (cases q; cases q2)
      (auto simp: write_image_def Let_def kept_def held_def split: if_splits)
  then show ?thesis by (simp add: kept_def held_def)
qed

lemma images_ok_put:
  assumes "images_ok sha st"
  shows "images_ok sha (snd (put_image sha bs v st))"
proof (cases "bs = [] \<or> MAX_IMAGE_BYTES < length bs")
  case True
  with assms show ?thesis by (auto simp: put_image_def)
next
  case False
  obtain r s where w: "write_image sha bs v st = (r, s)" by (cases "write_image sha bs v st")
  from write_image_keeps [OF w] have same: "catalog s = catalog st" "jobs s = jobs st"
    by (simp_all add: keeps_def assignments_def)
  note efi = write_image_efi [OF w, of "\<lambda>_. False"]
  have s: "images_ok sha s"
    using assms efi by (fastforce simp: images_ok_def same)
  show ?thesis
  proof (cases r)
    case (Inl e)
    with False w s show ?thesis by (auto simp: put_image_def)
  next
    case (Inr img)
    with efi have "im_sha256 img = sha bs"
      "\<exists>b'. map_of (efi_files s) (sha bs) = Some (RegularFile b') \<and> sha b' = sha bs"
      by auto
    with False w s Inr show ?thesis
      by (auto simp: put_image_def images_ok_def map_of_update)
  qed
qed

lemma remove_image_efi:
  assumes "remove_image d st = ((q, valid), st')"
  shows "(\<forall>d' e. d' \<noteq> d \<longrightarrow> map_of (efi_files st') d' = map_of (efi_files st) d') \<and>
    (valid \<longrightarrow> map_of (efi_files st') d = map_of (efi_files st) d)"
proof -
  have meta: "efi_files s' = efi_files s" if "remove_meta d s = (q, s')" for s q s'
    using that
    by (auto simp: remove_meta_def split: option.splits dir_entry.splits prod.splits sum.splits
        elim!: file_op_cases dest!: same_store_fields)
  have efi: "(\<forall>d'. d' \<noteq> d \<longrightarrow> map_of (efi_files s') d' = map_of (efi_files s) d') \<and>
      (map_of (efi_files s') d = None \<or> map_of (efi_files s') d = map_of (efi_files s) d)"
    if "remove_efi d s = (q, s')" for s q s'
    using that
    by (auto simp: remove_efi_def split: option.splits dir_entry.splits prod.splits sum.splits
        elim!: file_op_cases dest!: same_store_fields simp: map_of_delete)
  have read: "efi_files s' = efi_files s \<and> (is_ok r \<longrightarrow> map_of (efi_files s) d \<noteq> None)"
    if "read_image d s = (r, s')" for s r s'
  proof -
    obtain q s1 where io: "file_op (\<lambda>st. st) s = (q, s1)" by (cases "file_op (\<lambda>st. st) s")
    then have "efi_files s1 = efi_files s"
      by (cases rule: file_op_cases) (auto dest: same_store_fields)
    with that io show ?thesis
      by (cases q) (auto simp: read_image_def split: if_splits option.splits dir_entry.splits)
  qed
  obtain q1 s1 where files: "remove_image_files d st = (q1, s1)" by (cases "remove_image_files d st")
  have one: "(\<forall>d'. d' \<noteq> d \<longrightarrow> map_of (efi_files s1) d' = map_of (efi_files st) d') \<and>
      (map_of (efi_files s1) d = None \<or> map_of (efi_files s1) d = map_of (efi_files st) d)"
  proof -
    obtain q2 s2 where rm: "remove_meta d st = (q2, s2)" by (cases "remove_meta d st")
    show ?thesis
      using files meta [OF rm] efi [of s2] rm
      by (cases q2) (auto simp: remove_image_files_def split: if_splits)
  qed
  obtain r s2 where rd: "read_image d s1 = (r, s2)" by (cases "read_image d s1")
  from read [OF rd] one assms files rd show ?thesis
    by (auto simp: remove_image_def)
qed

lemma images_ok_delete:
  assumes "images_ok sha st" "keys_distinct (jobs st)"
  shows "images_ok sha (snd (delete_image d st))"
proof (cases "\<not> valid_digest d \<or> any_value (jobs st)
    (\<lambda>j. im_sha256 (job_image j) = d \<and> \<not> is_terminal (phase j))")
  case True
  with assms show ?thesis by (auto simp: delete_image_def)
next
  case False
  obtain q valid s where rm: "remove_image d st = ((q, valid), s)"
    by (metis prod.exhaust)
  from remove_image_keeps [OF rm] have same: "catalog s = catalog st" "jobs s = jobs st"
    by (simp_all add: keeps_def assignments_def)
  have unused: "im_sha256 (job_image j) \<noteq> d"
    if "map_of (jobs st) b = Some j" "\<not> is_terminal (phase j)" for b j
    using False that any_value_iff [OF assms(2)] by auto
  note efi = remove_image_efi [OF rm]
  show ?thesis
  proof (cases valid)
    case True
    with efi have "map_of (efi_files s) d' = map_of (efi_files st) d'" for d'
      by (cases "d' = d") auto
    with True False rm assms(1) same show ?thesis
      by (auto simp: delete_image_def images_ok_def)
  next
    case invalid: False
    with False rm assms(1) same efi unused show ?thesis
      by (auto simp: delete_image_def images_ok_def map_of_delete)
  qed
qed

definition ota_ok :: "(bytes \<Rightarrow> string) \<Rightarrow> ota_store \<Rightarrow> bool" where
  "ota_ok sha st \<longleftrightarrow> jobs_ok st \<and> images_ok sha st"

lemma ota_ok_step: "ota_ok sha st \<Longrightarrow> ota_ok sha (ota_step sha st ev)"
proof -
  assume ok: "ota_ok sha st"
  have jobs: "jobs_ok (ota_step sha st ev)"
    using ok jobs_change_ok [OF ota_step_change] by (simp add: ota_ok_def)
  note change = ota_step_change [of ev st sha]
  have "images_ok sha (ota_step sha st ev)"
  proof (cases ev)
    case (EvPut bs v)
    with ok images_ok_put show ?thesis by (simp add: ota_ok_def)
  next
    case (EvDelete d)
    with ok images_ok_delete show ?thesis by (simp add: ota_ok_def jobs_ok_def)
  next
    case (EvQueue b m d u)
    with ok images_ok_queue show ?thesis by (simp add: ota_ok_def)
  qed (use ok change in \<open>auto simp: ota_ok_def cancel_view decide_view assignment_steps_view
      intro: images_ok_jobs\<close>)
  with jobs show ?thesis by (simp add: ota_ok_def)
qed

interpretation ota: invariant_machine "ota_step sha" "ota_ok sha" for sha
  by unfold_locales (rule ota_ok_step)

section \<open>Counting retryable failures\<close>

text \<open>
  The retryable failures of a board's assignment, counted along a run: a new assignment of the
  board starts at zero, and a report of a retryable failure counts when the request succeeds
  while the job is active.
\<close>

fun starts_assignment :: "string \<Rightarrow> ota_store \<Rightarrow> ota_event \<Rightarrow> bool" where
  "starts_assignment b st (EvQueue b' m d u) \<longleftrightarrow> b' = b \<and> is_ok (fst (queue b' m d u st))"
| "starts_assignment b st _ \<longleftrightarrow> False"

fun retryable_failure :: "string \<Rightarrow> ota_store \<Rightarrow> ota_event \<Rightarrow> bool" where
  "retryable_failure b st (EvFailure b' m u e (Retryable err) now) \<longleftrightarrow>
     b' = b \<and> \<not> finished b st \<and>
     is_ok (fst (record_delivery_failure b' m u e (Retryable err) now st))"
| "retryable_failure b st _ \<longleftrightarrow> False"

fun retryable_failures :: "(bytes \<Rightarrow> string) \<Rightarrow> string \<Rightarrow> ota_store \<Rightarrow> ota_event list \<Rightarrow> nat \<Rightarrow> nat" where
  "retryable_failures sha b st [] n = n"
| "retryable_failures sha b st (ev # evs) n =
     retryable_failures sha b (ota_step sha st ev) evs
       (if starts_assignment b st ev then 0 else if retryable_failure b st ev then Suc n else n)"

definition counts_failures :: "string \<Rightarrow> nat \<Rightarrow> ota_store \<Rightarrow> bool" where
  "counts_failures b n st \<longleftrightarrow>
     (case map_of (jobs st) b of
        None \<Rightarrow> n = 0
      | Some j \<Rightarrow> unat (delivery_attempts j) = n \<and> n \<le> 3 \<and> (n = 3 \<longrightarrow> phase j = Failed))"

text \<open>Committing one job, as it shows in the lookups.\<close>

lemma commit_effect:
  assumes "ota_bind (save (AList.update k x js) s) (\<lambda>_ st'. (Inr y, st'\<lparr>jobs := AList.update k x js\<rparr>)) = (r, st')"
  shows "r = Inr y \<and> jobs st' = AList.update k x js \<and> jobs_file st' = jobs st' \<or>
    r = Inl StorageError \<and> jobs st' = jobs s"
  using assms
proof (cases rule: commit_jobs)
  case (2 st0)
  then show ?thesis by (auto dest: same_store_fields)
qed simp

lemma decide_job_attempts:
  "delivery_attempts (fst (decide_job ota changed idle now j)) = delivery_attempts j"
proof -
  define j0 where "j0 = (if changed then j\<lparr>waiting_for_device_change := False\<rparr> else j)"
  define j1 where "j1 = apply_outcome ota j0"
  have "delivery_attempts j1 = delivery_attempts j0"
    by (simp add: j1_def apply_outcome_def split: option.split ota_outcome.split)
  moreover have "delivery_attempts j0 = delivery_attempts j"
    by (simp add: j0_def)
  ultimately show ?thesis
    by (simp add: decide_job_def Let_def j0_def [symmetric] j1_def [symmetric] clear_delivery_def)
qed

lemma decide_missing_attempts: "delivery_attempts (decide_missing j) = delivery_attempts j"
  by (simp add: decide_missing_def Let_def)

text \<open>The other requests change at most one active job, and not its counter.\<close>

definition attempts_kept :: "ota_store \<Rightarrow> ota_store \<Rightarrow> bool" where
  "attempts_kept st st' \<longleftrightarrow>
     jobs st' = jobs st \<or>
     (\<exists>b j j'. map_of (jobs st) b = Some j \<and> \<not> is_terminal (phase j) \<and>
        delivery_attempts j' = delivery_attempts j \<and> jobs st' = AList.update b j' (jobs st))"

lemma attempts_keptI:
  "map_of (jobs st) b = Some j \<Longrightarrow> \<not> is_terminal (phase j) \<Longrightarrow> delivery_attempts j' = delivery_attempts j \<Longrightarrow>
     jobs st' = AList.update b j' (jobs st) \<Longrightarrow> attempts_kept st st'"
  by (auto simp: attempts_kept_def)

lemma attempts_kept_same: "jobs st' = jobs st \<Longrightarrow> attempts_kept st st'"
  by (simp add: attempts_kept_def)

lemma attempts_kept_commit:
  assumes "ota_bind (save (AList.update b j' (jobs st)) s) (\<lambda>_ st'. (Inr y, st'\<lparr>jobs := AList.update b j' (jobs st)\<rparr>)) = (r, st')"
    and "jobs s = jobs st" "map_of (jobs st) b = Some j" "\<not> is_terminal (phase j)"
    and "delivery_attempts j' = delivery_attempts j"
  shows "attempts_kept st st'"
  using commit_effect [OF assms(1)] assms(2-5) by (auto simp: attempts_kept_def)

lemma report_attempts: "report b e u p err a st = (r, st') \<Longrightarrow> attempts_kept st st'"
  by (auto simp: report_def Let_def split: option.splits if_splits elim!: attempts_kept_commit)
    (auto simp: attempts_kept_def clear_delivery_def)

lemma cancel_attempts: "attempts_kept st (snd (cancel b u st))"
proof -
  let ?c = "\<lambda>j. j\<lparr>phase := Cancelled, job_error := None, next_delivery_at := None,
    waiting_for_device_change := False\<rparr>"
  have "jobs (snd (cancel b u st)) = jobs st \<or>
      (\<exists>j. map_of (jobs st) b = Some j \<and> \<not> is_terminal (phase j) \<and>
        jobs (snd (cancel b u st)) = AList.update b (?c j) (jobs st))"
    by (simp add: cancel_def save_def save_observations_def file_op_def next_io_def Let_def
        split: option.split list.split io_outcome.split)
  then show ?thesis
    by (elim disjE exE conjE) (simp_all add: attempts_kept_same attempts_keptI [where j' = "?c _"])
qed

lemma decide_attempts:
  assumes "decide_at b m ota idle e now st = (r, st')"
  shows "attempts_kept st st'"
proof -
  obtain q s where obs: "observe b m ota e st = (q, s)" by (cases "observe b m ota e st")
  then have s: "jobs s = jobs st"
    by (cases rule: observe_cases) (auto dest: same_store_fields)
  show ?thesis
  proof (cases q)
    case (Inl x)
    with assms obs s show ?thesis by (auto simp: decide_at_def attempts_kept_def)
  next
    case (Inr x)
    define changed where "changed = observation_changed b m ota e st"
    from assms obs Inr have run: "decide_assigned b m ota changed idle now s = (r, st')"
      by (simp add: decide_at_def changed_def)
    show ?thesis
    proof (cases "map_of (jobs st) b")
      case None
      with run s show ?thesis by (auto simp: decide_assigned_def intro: attempts_kept_same)
    next
      case (Some j)
      obtain x d where new: "(case ota of Some o' \<Rightarrow> decide_job o' changed idle now j
          | None \<Rightarrow> (decide_missing j, Idle)) = (x, d)"
        by fastforce
      then have x: "delivery_attempts x = delivery_attempts j"
        using decide_missing_attempts [of j] decide_job_attempts [of "the ota" changed idle now j]
        by (auto split: option.splits)
      from run s Some new have "jobs st' = jobs st \<or> \<not> is_terminal (phase j) \<and>
          ota_bind (save (AList.update b x (jobs st)) s)
            (\<lambda>_ st'. (Inr d, st'\<lparr>jobs := AList.update b x (jobs st)\<rparr>)) = (r, st')"
        by (auto simp: decide_assigned_def Let_def split: if_splits)
      with s Some x show ?thesis by (auto intro: attempts_kept_same attempts_kept_commit)
    qed
  qed
qed

lemma counts_kept:
  "counts_failures b n st \<Longrightarrow> attempts_kept st st' \<Longrightarrow> counts_failures b n st'"
  by (auto simp: counts_failures_def attempts_kept_def map_of_update is_terminal_def
      split: option.splits if_splits)

lemma counts_queue:
  assumes "counts_failures b n st"
  shows "counts_failures b (if starts_assignment b st (EvQueue b0 m d u) then 0 else n) (snd (queue b0 m d u st))"
proof -
  obtain r st' where run: "queue b0 m d u st = (r, st')" by (cases "queue b0 m d u st")
  then have "is_ok r \<and> (\<exists>j. jobs st' = AList.update b0 j (jobs st) \<and> delivery_attempts j = 0) \<or>
      \<not> is_ok r \<and> jobs st' = jobs st"
    by (auto simp: queue_def Let_def split: option.splits if_splits dest!: commit_effect)
  with run assms show ?thesis
    by (auto simp: counts_failures_def map_of_update split: option.splits if_splits)
qed

lemma counts_failure:
  assumes "counts_failures b n st"
  shows "counts_failures b (if retryable_failure b st (EvFailure b0 m u e f now) then Suc n else n)
    (snd (record_delivery_failure b0 m u e f now st))"
proof -
  obtain r st' where run: "record_delivery_failure b0 m u e f now st = (r, st')"
    by (cases "record_delivery_failure b0 m u e f now st")
  then consider (same) "jobs st' = jobs st" "\<not> is_ok r \<or> finished b0 st"
    | (counted) j where "map_of (jobs st) b0 = Some j" "\<not> is_terminal (phase j)" "is_ok r"
        "jobs st' = AList.update b0 (apply_failure f now j) (jobs st)"
    by (auto simp: record_delivery_failure_def Let_def finished_def
        split: option.splits if_splits dest!: commit_effect)
  then show ?thesis
  proof cases
    case same
    with run assms show ?thesis by (cases f) (auto simp: counts_failures_def)
  next
    case counted
    show ?thesis
    proof (cases "b0 = b")
      case False
      with run assms counted show ?thesis
        by (cases f) (auto simp: counts_failures_def map_of_update)
    next
      case True
      with assms counted have n: "unat (delivery_attempts j) = n" "n < 3"
        by (auto simp: counts_failures_def is_terminal_def)
      show ?thesis
      proof (cases f)
        case (Retryable err)
        have add: "saturating_add_u8 (delivery_attempts j) 1 = delivery_attempts j + 1"
          "unat (delivery_attempts j + 1) = Suc n"
          using n by (auto simp: saturating_add_u8_def unat_word_ariths)
        from True counted run Retryable n have "retryable_failure b st (EvFailure b0 m u e f now)"
          by (auto simp: finished_def is_ok_def)
        with True counted run n add Retryable show ?thesis
          by (auto simp: counts_failures_def map_of_update apply_failure_def Let_def
              MAX_DELIVERY_ATTEMPTS_def word_le_nat_alt clear_delivery_def)
      qed (use True counted run n assms in \<open>auto simp: counts_failures_def map_of_update apply_failure_def
          Let_def clear_delivery_def\<close>)
    qed
  qed
qed

lemma counts_step:
  assumes "counts_failures b n st"
  shows "counts_failures b
    (if starts_assignment b st ev then 0 else if retryable_failure b st ev then Suc n else n) (ota_step sha st ev)"
proof (cases ev)
  case (EvQueue b0 m d u)
  with counts_queue [OF assms, of b0 m d u] show ?thesis by (auto split: if_splits)
next
  case (EvFailure b0 m u e f now)
  with counts_failure [OF assms, of b0 m u e f now] show ?thesis by (simp split del: if_split)
next
  case (EvCancel b0 u)
  with counts_kept [OF assms cancel_attempts] show ?thesis by simp
next
  case (EvReport b0 e u p err a)
  obtain r st' where run: "report b0 e u p err a st = (r, st')" by (cases "report b0 e u p err a st")
  with EvReport counts_kept [OF assms report_attempts [OF run]] show ?thesis by simp
next
  case (EvDecide b0 m ota idle e now)
  obtain r st' where run: "decide_at b0 m ota idle e now st = (r, st')"
    by (cases "decide_at b0 m ota idle e now st")
  with EvDecide counts_kept [OF assms decide_attempts [OF run]] show ?thesis by simp
qed (use assms image_steps_jobs in \<open>simp_all add: assignments_def counts_failures_def\<close>)

lemma counts_run:
  "counts_failures b n st \<Longrightarrow>
     counts_failures b (retryable_failures sha b st evs n) (foldl (ota_step sha) st evs)"
  by (induction evs arbitrary: st n) (use counts_step in auto)

section \<open>Properties\<close>

lemma ota_job_progress:
  assumes "map_of (jobs st) b = Some j"
  shows "\<exists>j'. map_of (jobs (ota_step sha st ev)) b = Some j' \<and>
    (j' = j \<or>
     is_terminal (phase j) \<and> queued_board ev = Some b \<and> fresh_job b j' \<or>
     \<not> is_terminal (phase j) \<and> same_job j j' \<and> phase_edge (phase j) (phase j'))"
  using ota_step_change [of ev st sha] assms
  by (auto simp: jobs_change_def job_change_def map_of_update job_progress_def is_none_or_iff)

text \<open>
  C2: the life cycle of an assignment. Under any request, a board's job stays what it is, or is
  still the same job (board, device, identifier, image) with its phase moved along an edge of
  \<open>phase_edge\<close>, which only active jobs do; only a queue request for the board replaces a job,
  and only a finished one. Nothing removes a job.
\<close>

theorem ota_job_step:
  assumes "map_of (jobs st) b = Some j"
  shows "\<exists>j'. map_of (jobs (ota_step sha st ev)) b = Some j' \<and>
    (j' = j \<or>
     is_terminal (phase j) \<and> queued_board ev = Some b \<and> fresh_job b j' \<or>
     \<not> is_terminal (phase j) \<and> same_job j j' \<and> phase_edge (phase j) (phase j'))"
  by (rule ota_job_progress [OF assms])

definition demo_mac :: mac_address where
  "demo_mac = MacAddress 2 0 0 0 0 1"

definition demo_ota_image :: ota_image where
  "demo_ota_image = \<lparr>im_sha256 = ''new'', im_size = 3, im_version = None\<rparr>"

definition demo_job :: "phase \<Rightarrow> job" where
  "demo_job p = \<lparr>jb_board_id = ''b'', jb_mac_address = demo_mac, update_id = ''u'',
     job_image = demo_ota_image, phase = p, job_error = None, delivery_attempts = 0,
     next_delivery_at = None, waiting_for_device_change = False\<rparr>"

definition demo_device :: "string \<Rightarrow> loader_ota_state" where
  "demo_device active = \<lparr>active_sha256 = active, running_sha256 = active, pending_update_id = None,
     trial = False, source = None, last_update_id = None, last_outcome = None\<rparr>"

definition demo_store :: "phase \<Rightarrow> ota_store" where
  "demo_store p = \<lparr>catalog = [(''new'', demo_ota_image)], jobs = [(''b'', demo_job p)],
     observations = [], jobs_file = [(''b'', demo_job p)], devices_file = [], meta_files = [],
     efi_files = [], io_faults = []\<rparr>"

definition empty_store :: ota_store where
  "empty_store = \<lparr>catalog = [], jobs = [], observations = [], jobs_file = [], devices_file = [],
     meta_files = [], efi_files = [], io_faults = []\<rparr>"

lemmas demo_ota_defs = demo_mac_def demo_ota_image_def demo_job_def demo_device_def demo_store_def
  empty_store_def

lemma ota_job_step_witness:
  "\<exists>j'. map_of (jobs (ota_step (\<lambda>_. ''new'') (demo_store Queued) (EvCancel ''b'' ''u''))) ''b'' = Some j' \<and>
     (j' = demo_job Queued \<or>
      is_terminal (phase (demo_job Queued)) \<and> queued_board (EvCancel ''b'' ''u'') = Some ''b'' \<and>
        fresh_job ''b'' j' \<or>
      \<not> is_terminal (phase (demo_job Queued)) \<and> same_job (demo_job Queued) j' \<and>
        phase_edge (phase (demo_job Queued)) (phase j'))"
  by (rule ota_job_step) (simp add: demo_store_def)

lemma other_steps:
  "\<forall>ev \<in> set evs. queued_board ev \<noteq> Some b \<Longrightarrow>
     foldl (ota_step_other sha b) st evs = foldl (ota_step sha) st evs"
  by (induction evs arbitrary: st) (simp_all add: ota_step_other_def)

text \<open>
  Finished means finished. Once a board's job is succeeded, rolled back, failed or
  cancelled, no sequence of reports, decisions, failures, cancellations, image changes or
  requests for other boards changes it, until the board gets a new assignment.
\<close>

theorem ota_finished_final:
  assumes "jobs_ok st" "finished b st" "\<forall>ev \<in> set evs. queued_board ev \<noteq> Some b"
  shows "board_job b (foldl (ota_step sha) st evs) = board_job b st \<and>
    finished b (foldl (ota_step sha) st evs)"
  using ota_final.run_final [OF assms(1,2), of sha evs] other_steps [OF assms(3)] by auto

lemma ota_finished_final_witness:
  "board_job ''b'' (foldl (ota_step (\<lambda>_. ''new'')) (demo_store Failed)
     [EvCancel ''b'' ''u'', EvDecide ''b'' demo_mac (Some (demo_device ''old'')) True ''e'' 0]) =
     board_job ''b'' (demo_store Failed) \<and>
   finished ''b'' (foldl (ota_step (\<lambda>_. ''new'')) (demo_store Failed)
     [EvCancel ''b'' ''u'', EvDecide ''b'' demo_mac (Some (demo_device ''old'')) True ''e'' 0])"
  by (rule ota_finished_final)
    (auto simp: jobs_ok_def demo_ota_defs keys_distinct_def good_attempts_def finished_def
      is_terminal_def MAX_DELIVERY_ATTEMPTS_def)

text \<open>
  C7: retries are bounded. Starting without assignments, after any sequence of requests the
  counter of a board's job is the number of retryable failures recorded for it since it was
  assigned; there are at most three, and the third has failed the job for good. Conflicts and
  unavailable devices are retried without being counted.
\<close>

theorem ota_bounded_delivery:
  assumes "jobs st = []" "map_of (jobs (foldl (ota_step sha) st evs)) b = Some j"
  shows "jb_board_id j = b \<and>
    unat (delivery_attempts j) = retryable_failures sha b st evs 0 \<and>
    retryable_failures sha b st evs 0 \<le> 3 \<and>
    (retryable_failures sha b st evs 0 = 3 \<longrightarrow> phase j = Failed)"
proof -
  have start: "jobs_ok st" "counts_failures b 0 st"
    using assms(1) by (simp_all add: jobs_ok_def counts_failures_def)
  have "jb_board_id j = b"
    using ota_jobs.run_inv [OF start(1), of sha evs] assms(2) by (simp add: jobs_ok_def)
  with counts_run [OF start(2), of sha evs] assms(2) show ?thesis
    by (simp add: counts_failures_def)
qed

definition demo_events :: "ota_event list" where
  "demo_events = [EvPut [1, 2, 3] None, EvQueue ''b'' demo_mac ''new'' ''u'',
     EvDecide ''b'' demo_mac (Some (demo_device ''old'')) True ''e'' 0,
     EvFailure ''b'' demo_mac ''u'' ''e'' (Retryable ''timeout'') 1]"

lemma demo_run:
  "\<exists>j. map_of (jobs (foldl (ota_step (\<lambda>_. ''new'')) empty_store demo_events)) ''b'' = Some j \<and>
     phase j = Downloading \<and> im_sha256 (job_image j) = ''new'' \<and> delivery_attempts j = 1"
  by (simp add: demo_events_def demo_ota_defs put_image_def write_image_def write_efi_def write_meta_def
      file_op_def next_io_def MAX_IMAGE_BYTES_def queue_def save_def save_observations_def decide_at_def
      observation_changed_def observe_def decide_assigned_def decide_job_def apply_outcome_def
      clear_delivery_def record_delivery_failure_def apply_failure_def saturating_add_u8_def
      MAX_DELIVERY_ATTEMPTS_def is_terminal_def Let_def word_le_nat_alt)

lemma ota_bounded_delivery_witness:
  "\<exists>j. map_of (jobs (foldl (ota_step (\<lambda>_. ''new'')) empty_store demo_events)) ''b'' = Some j \<and>
     delivery_attempts j = 1 \<and>
     retryable_failures (\<lambda>_. ''new'') ''b'' empty_store demo_events 0 = 1"
  using demo_run ota_bounded_delivery [of empty_store "\<lambda>_. ''new''" demo_events "''b''"]
  by (fastforce simp: empty_store_def)

text \<open>
  An image an active assignment needs stays. Starting empty, after any sequence of requests
  and disk faults, the image of every active job is in the catalog and its file is there with
  content of exactly this digest; in particular \<open>delete_image\<close> cannot take it away.
\<close>

theorem ota_active_images:
  assumes "jobs st = []" "catalog st = []"
    and "map_of (jobs (foldl (ota_step sha) st evs)) b = Some j" "\<not> is_terminal (phase j)"
  shows "\<exists>img bs. map_of (catalog (foldl (ota_step sha) st evs)) (im_sha256 (job_image j)) = Some img \<and>
    map_of (efi_files (foldl (ota_step sha) st evs)) (im_sha256 (job_image j)) = Some (RegularFile bs) \<and>
    sha bs = im_sha256 (job_image j)"
proof -
  have "ota_ok sha st" using assms(1,2) by (simp add: ota_ok_def jobs_ok_def images_ok_def)
  from ota.run_inv [OF this, of evs] assms(3,4) show ?thesis
    by (fastforce simp: ota_ok_def images_ok_def)
qed

lemma ota_active_images_witness:
  "\<exists>j bs. map_of (jobs (foldl (ota_step (\<lambda>_. ''new'')) empty_store demo_events)) ''b'' = Some j \<and>
     map_of (efi_files (foldl (ota_step (\<lambda>_. ''new'')) empty_store demo_events))
       (im_sha256 (job_image j)) = Some (RegularFile bs)"
  using demo_run ota_active_images [of empty_store "\<lambda>_. ''new''" demo_events "''b''"]
  by (fastforce simp: empty_store_def is_terminal_def)

lemma decide_job_Update:
  "decide_job ota changed idle now j = (j', Update k) \<Longrightarrow>
     k = j' \<and> phase j' = Downloading \<and> idle \<and> \<not> trial ota \<and> pending_update_id ota = None \<and>
     active_sha256 ota \<noteq> im_sha256 (job_image j') \<and> jb_mac_address j' = jb_mac_address j"
  by (auto simp: decide_job_def apply_outcome_def clear_delivery_def Let_def
      split: if_splits option.splits ota_outcome.splits)

lemma decide_job_Confirm:
  "decide_job ota changed idle now j = (j', Confirm u) \<Longrightarrow>
     u = update_id j' \<and> phase j' = Confirming \<and> trial ota \<and> source ota = Some Server \<and>
     pending_update_id ota = Some u \<and> running_sha256 ota = im_sha256 (job_image j')"
  by (auto simp: decide_job_def apply_outcome_def clear_delivery_def Let_def
      split: if_splits option.splits ota_outcome.splits)

lemma decide_at_Inr:
  assumes "decide_at b m ota idle e now st = (Inr d, st')"
  obtains s where "decide_assigned b m ota (observation_changed b m ota e st) idle now s = (Inr d, st')"
    "map_of (observations s) b = Some \<lparr>ob_mac_address = m, ob_state = ota, ob_epoch = e\<rparr>"
    "jobs s = jobs st"
proof -
  obtain q s where obs: "observe b m ota e st = (q, s)" by (cases "observe b m ota e st")
  with assms have q: "q = Inr ()" by (cases q) (simp_all add: decide_at_def)
  have "map_of (observations s) b = Some \<lparr>ob_mac_address = m, ob_state = ota, ob_epoch = e\<rparr> \<and>
      jobs s = jobs st"
    using obs
  proof (cases rule: observe_cases)
    case 1
    then show ?thesis
      by (cases "map_of (observations st) b") (auto simp: observation_changed_def)
  qed (use q in \<open>auto simp: map_of_update dest: same_store_fields\<close>)
  with that assms obs q show ?thesis by (auto simp: decide_at_def)
qed

lemma decide_assigned_stored:
  assumes "decide_assigned b m ota changed idle now s = (Inr d, st')" "d \<noteq> Wait" "d \<noteq> Idle"
  obtains o' j j' where "ota = Some o'" "map_of (jobs s) b = Some j" "jb_mac_address j = m"
    "\<not> is_terminal (phase j)" "decide_job o' changed idle now j = (j', d)"
    "observations st' = observations s"
    "map_of (jobs st') b = Some j' \<or>
       map_of (jobs st') b = Some j \<and> phase j' = phase j \<and> job_error j' = job_error j \<and>
       next_delivery_at j' = next_delivery_at j \<and>
       waiting_for_device_change j' = waiting_for_device_change j"
proof -
  from assms obtain o' j where o': "ota = Some o'" and j: "map_of (jobs s) b = Some j"
    "jb_mac_address j = m" "\<not> is_terminal (phase j)"
    by (auto simp: decide_assigned_def Let_def split: option.splits if_splits elim!: commit_jobs)
  obtain j' d' where dj: "decide_job o' changed idle now j = (j', d')"
    by (cases "decide_job o' changed idle now j")
  show ?thesis
  proof (cases "phase j' \<noteq> phase j \<or> job_error j' \<noteq> job_error j \<or> next_delivery_at j' \<noteq> next_delivery_at j \<or>
      waiting_for_device_change j' \<noteq> waiting_for_device_change j")
    case True
    let ?js = "AList.update b j' (jobs s)"
    from assms(1) o' j dj True have
      commit: "ota_bind (save ?js s) (\<lambda>_ st. (Inr d', st\<lparr>jobs := ?js\<rparr>)) = (Inr d, st')"
      by (simp add: decide_assigned_def Let_def)
    from commit show ?thesis
    proof (cases rule: commit_jobs)
      case (1 st0)
      with that [OF o' j] dj show ?thesis by (auto simp: map_of_update dest: same_store_fields)
    qed simp
  next
    case False
    with assms(1) o' j dj have "d' = d" "st' = s"
      by (simp_all add: decide_assigned_def Let_def)
    with that [OF o' j] dj j False show ?thesis by simp
  qed
qed

text \<open>What the disk holds after a decision to update.\<close>

lemma decide_Update_disk:
  assumes "decide_at b m ota idle e now st = (Inr (Update k), st')"
  shows "jobs_file st' = jobs st' \<or>
    jobs_file st' = jobs_file st \<and> jobs st' = jobs st \<and>
    is_some_and (map_of (jobs st) b) (\<lambda>j. phase j = Downloading)"
proof -
  from assms obtain s where obs: "observe b m ota e st = (Inr (), s)"
    and run: "decide_assigned b m ota (observation_changed b m ota e st) idle now s = (Inr (Update k), st')"
    by (cases "observe b m ota e st"; cases "fst (observe b m ota e st)") (auto simp: decide_at_def)
  from obs have s: "jobs s = jobs st" "jobs_file s = jobs_file st"
    by (cases rule: observe_cases; auto dest: same_store_fields)+
  from run obtain o' j where o': "ota = Some o'" and j: "map_of (jobs s) b = Some j"
    by (rule decide_assigned_stored) auto
  obtain x d where dj: "decide_job o' (observation_changed b m ota e st) idle now j = (x, d)"
    by fastforce
  let ?js = "AList.update b x (jobs s)"
  from run o' j dj consider (saved) "ota_bind (save ?js s) (\<lambda>_ st. (Inr d, st\<lparr>jobs := ?js\<rparr>)) = (Inr (Update k), st')"
    | (kept) "st' = s" "d = Update k" "phase x = phase j"
    by (auto simp: decide_assigned_def Let_def split: if_splits)
  then show ?thesis
  proof cases
    case saved
    from commit_effect [OF this] show ?thesis by auto
  next
    case kept
    with decide_job_Update [of o' "observation_changed b m ota e st" idle now j x k] dj s j
    show ?thesis by auto
  qed
qed

text \<open>
  C6: an update decision is safe and usable. When \<open>decide\<close> tells a device to take an update, the
  board is idle, the device reports no trial and no pending image and runs a different image;
  the job is held in memory as downloading with this very image, and \<open>can_download\<close> lets exactly
  this device fetch it in this epoch. On disk: the decision wrote the jobs as memory now holds
  them, or the job was downloading in memory before and neither memory nor disk changed; so if
  they agreed before, the job is on disk as downloading too.
\<close>

theorem ota_update_authorised:
  assumes "decide_at b m ota idle e now st = (Inr (Update k), st')"
  shows "idle \<and> (\<exists>o'. ota = Some o' \<and> \<not> trial o' \<and> pending_update_id o' = None \<and>
      active_sha256 o' \<noteq> im_sha256 (job_image k)) \<and>
    (\<exists>j. map_of (jobs st') b = Some j \<and> update_id j = update_id k \<and> job_image j = job_image k \<and>
      phase j = Downloading \<and>
      (map_of (jobs_file st') b = Some j \<or> jobs_file st \<noteq> jobs st \<and> jobs_file st' = jobs_file st \<and>
        jobs st' = jobs st)) \<and>
    can_download b m (update_id k) e st'"
proof -
  from assms obtain s where s: "decide_assigned b m ota (observation_changed b m ota e st) idle now s =
      (Inr (Update k), st')"
    "map_of (observations s) b = Some \<lparr>ob_mac_address = m, ob_state = ota, ob_epoch = e\<rparr>"
    by (rule decide_at_Inr)
  from s(1) obtain o' j j' where o': "ota = Some o'" and j: "jb_mac_address j = m" "\<not> is_terminal (phase j)"
    and dj: "decide_job o' (observation_changed b m ota e st) idle now j = (j', Update k)"
    and obs: "observations st' = observations s"
    and stored: "map_of (jobs st') b = Some j' \<or> map_of (jobs st') b = Some j \<and> phase j' = phase j"
    by (rule decide_assigned_stored) auto
  note upd = decide_job_Update [OF dj]
  have "same_job j j'"
    using decide_job_progress [OF j(2), of o' "observation_changed b m ota e st" idle now] dj
    by (simp add: job_progress_def)
  with upd o' j obs stored s(2) have "idle \<and> (\<exists>o'. ota = Some o' \<and> \<not> trial o' \<and> pending_update_id o' = None \<and>
      active_sha256 o' \<noteq> im_sha256 (job_image k)) \<and> can_download b m (update_id k) e st'"
    "\<exists>j. map_of (jobs st') b = Some j \<and> update_id j = update_id k \<and> job_image j = job_image k \<and>
      phase j = Downloading"
    by (auto simp: can_download_def same_job_def)
  with decide_Update_disk [OF assms] show ?thesis by metis
qed

lemma ota_update_authorised_witness:
  "\<exists>k st' j. decide_at ''b'' demo_mac (Some (demo_device ''old'')) True ''e'' 0 (demo_store Queued) =
       (Inr (Update k), st') \<and> can_download ''b'' demo_mac (update_id k) ''e'' st' \<and>
     map_of (jobs_file st') ''b'' = Some j \<and> phase j = Downloading"
proof -
  obtain k st' where
    "decide_at ''b'' demo_mac (Some (demo_device ''old'')) True ''e'' 0 (demo_store Queued) =
      (Inr (Update k), st')"
    by (simp add: demo_ota_defs decide_at_def observation_changed_def observe_def save_observations_def
        save_def file_op_def next_io_def decide_assigned_def decide_job_def apply_outcome_def
        is_terminal_def clear_delivery_def Let_def)
  moreover have "jobs_file (demo_store Queued) = jobs (demo_store Queued)"
    by (simp add: demo_store_def)
  ultimately show ?thesis using ota_update_authorised by blast
qed

text \<open>
  Without that agreement the disk can hold something else: after a cancellation whose last file
  operation reports an error although it took effect, the file has the job as cancelled, memory
  still has it as downloading, and the next decision is to update without writing.
\<close>

lemma update_after_failed_cancel:
  "\<exists>st e s k s' j. synced st \<and> cancel ''b'' ''u'' st = (Inl e, s) \<and>
     decide_at ''b'' demo_mac (Some (demo_device ''old'')) True ''e'' 0 s = (Inr (Update k), s') \<and>
     map_of (jobs_file s') ''b'' = Some j \<and> phase j = Cancelled"
proof -
  let ?st = "(demo_store Downloading)\<lparr>io_faults := [Done, DoneWithError]\<rparr>"
  let ?s = "snd (cancel ''b'' ''u'' ?st)"
  let ?r = "decide_at ''b'' demo_mac (Some (demo_device ''old'')) True ''e'' 0 ?s"
  let ?k = "demo_job Downloading"
  have "synced ?st" by (simp add: demo_store_def synced_def)
  moreover have "cancel ''b'' ''u'' ?st = (Inl StorageError, ?s)"
    by (simp add: demo_ota_defs cancel_def is_terminal_def save_observations_def save_def file_op_def
        next_io_def Let_def)
  moreover have "?r = (Inr (Update ?k), snd ?r)" "map_of (jobs_file (snd ?r)) ''b'' = Some (?k\<lparr>phase := Cancelled\<rparr>)"
    by (simp_all add: demo_ota_defs cancel_def is_terminal_def save_observations_def save_def file_op_def
        next_io_def Let_def decide_at_def observation_changed_def observe_def decide_assigned_def
        decide_job_def apply_outcome_def clear_delivery_def)
  moreover have "phase (?k\<lparr>phase := Cancelled\<rparr>) = Cancelled" by simp
  ultimately show ?thesis by blast
qed

text \<open>
  A confirmation is only for the registered trial. When \<open>decide\<close> tells a device to confirm,
  the device runs, on trial and from this server, exactly the image of the board's job, under
  the job's identifier, and the job is stored as confirming.
\<close>

theorem ota_confirm_sound:
  assumes "decide_at b m ota idle e now st = (Inr (Confirm u), st')"
  shows "\<exists>j o'. map_of (jobs st') b = Some j \<and> update_id j = u \<and> phase j = Confirming \<and>
    ota = Some o' \<and> trial o' \<and> source o' = Some Server \<and> pending_update_id o' = Some u \<and>
    running_sha256 o' = im_sha256 (job_image j)"
proof -
  from assms obtain s where s: "decide_assigned b m ota (observation_changed b m ota e st) idle now s =
      (Inr (Confirm u), st')"
    by (rule decide_at_Inr)
  from s obtain o' j j' where o': "ota = Some o'" and j: "\<not> is_terminal (phase j)"
    and dj: "decide_job o' (observation_changed b m ota e st) idle now j = (j', Confirm u)"
    and stored: "map_of (jobs st') b = Some j' \<or> map_of (jobs st') b = Some j \<and> phase j' = phase j"
    by (rule decide_assigned_stored) auto
  have "same_job j j'"
    using decide_job_progress [OF j, of o' "observation_changed b m ota e st" idle now] dj
    by (simp add: job_progress_def)
  with decide_job_Confirm [OF dj] o' stored show ?thesis
    by (auto simp: same_job_def)
qed

definition demo_trial :: loader_ota_state where
  "demo_trial = (demo_device ''new'')\<lparr>trial := True, source := Some Server,
     pending_update_id := Some ''u''\<rparr>"

lemma ota_confirm_sound_witness:
  "\<exists>j st'. decide_at ''b'' demo_mac (Some demo_trial) True ''e'' 0 (demo_store Staged) =
       (Inr (Confirm ''u''), st') \<and> map_of (jobs st') ''b'' = Some j \<and> phase j = Confirming"
proof -
  obtain st' where run: "decide_at ''b'' demo_mac (Some demo_trial) True ''e'' 0 (demo_store Staged) =
      (Inr (Confirm ''u''), st')"
    by (simp add: demo_trial_def demo_ota_defs decide_at_def observation_changed_def observe_def
        save_observations_def save_def file_op_def next_io_def decide_assigned_def decide_job_def
        apply_outcome_def is_terminal_def clear_delivery_def Let_def)
  from this ota_confirm_sound [OF this] show ?thesis by blast
qed

definition success_evidence :: "ota_store \<Rightarrow> ota_event \<Rightarrow> string \<Rightarrow> job \<Rightarrow> bool" where
  "success_evidence st ev b j \<longleftrightarrow>
     (\<exists>ota idle e now. ev = EvDecide b (jb_mac_address j) (Some ota) idle e now \<and>
        last_update_id ota = Some (update_id j) \<and> last_outcome ota = Some OutcomeConfirmed \<and>
        active_sha256 ota = im_sha256 (job_image j)) \<or>
     (\<exists>e err s. ev = EvReport b e (update_id j) Succeeded err (Some (im_sha256 (job_image j))) \<and>
        map_of (observations st) b =
          Some \<lparr>ob_mac_address = jb_mac_address j, ob_state = Some s, ob_epoch = e\<rparr> \<and>
        trial s \<and> source s = Some Server \<and> pending_update_id s = Some (update_id j) \<and>
        running_sha256 s = im_sha256 (job_image j))"

lemma decide_job_Succeeded:
  assumes "phase (fst (decide_job ota changed idle now j)) = Succeeded" "\<not> is_terminal (phase j)"
  shows "last_update_id ota = Some (update_id j) \<and> last_outcome ota = Some OutcomeConfirmed \<and>
    active_sha256 ota = im_sha256 (job_image j)"
proof -
  define j0 where "j0 = (if changed then j\<lparr>waiting_for_device_change := False\<rparr> else j)"
  have j0: "phase j0 = phase j" "update_id j0 = update_id j" "job_image j0 = job_image j"
    by (simp_all add: j0_def)
  have "phase (apply_outcome ota j0) = Succeeded"
    using assms by (auto simp: decide_job_def Let_def j0_def [symmetric] clear_delivery_def
        is_terminal_def split: if_splits)
  with assms(2) j0 show ?thesis
    by (auto simp: apply_outcome_def is_terminal_def split: if_splits option.splits ota_outcome.splits)
qed

text \<open>After committing one job, a lookup gives that job or what was there.\<close>

lemma commit_lookup:
  assumes "ota_bind (save (AList.update k x (jobs st)) s) (\<lambda>_ st'. (Inr y, st'\<lparr>jobs := AList.update k x (jobs st)\<rparr>)) = (r, st')"
    and "jobs s = jobs st" "map_of (jobs st') b = Some j'"
  shows "map_of (jobs st) b = Some j' \<or> b = k \<and> j' = x"
  using assms(1)
proof (cases rule: commit_jobs)
  case (1 st0)
  with assms(3) show ?thesis by (auto simp: map_of_update split: if_splits)
next
  case (2 st0)
  with assms(2,3) show ?thesis by (auto dest: same_store_fields)
qed

lemma decide_lookup:
  assumes "decide_at b0 m ota idle e now st = (r, st')" "map_of (jobs st') b = Some j'"
    and "map_of (jobs st) b \<noteq> Some j'"
  shows "\<exists>j changed. b = b0 \<and> map_of (jobs st) b = Some j \<and> jb_mac_address j = m \<and>
    \<not> is_terminal (phase j) \<and>
    j' = fst (case ota of Some o' \<Rightarrow> decide_job o' changed idle now j | None \<Rightarrow> (decide_missing j, Idle))"
proof -
  obtain q s where obs: "observe b0 m ota e st = (q, s)" by (cases "observe b0 m ota e st")
  then have s: "jobs s = jobs st"
    by (cases rule: observe_cases) (auto dest: same_store_fields)
  define changed where "changed = observation_changed b0 m ota e st"
  from assms obs s have run: "decide_assigned b0 m ota changed idle now s = (r, st')"
    by (cases q) (auto simp: decide_at_def changed_def)
  from run assms(2,3) s obtain j where j: "map_of (jobs s) b0 = Some j" "jb_mac_address j = m"
    "\<not> is_terminal (phase j)"
    by (auto simp: decide_assigned_def Let_def split: option.splits if_splits)
  obtain x d where new: "(case ota of Some o' \<Rightarrow> decide_job o' changed idle now j
      | None \<Rightarrow> (decide_missing j, Idle)) = (x, d)"
    by fastforce
  from run assms(2,3) s j new have "b = b0 \<and> j' = x"
    by (auto simp: decide_assigned_def Let_def split: if_splits dest!: commit_lookup [of b0 x st s])
  with j s new show ?thesis
    by (intro exI [of _ j] exI [of _ changed]) simp
qed

lemma report_lookup:
  assumes "report b0 e u p err a st = (r, st')" "map_of (jobs st') b = Some j'"
    and "map_of (jobs st) b \<noteq> Some j'"
  shows "b = b0 \<and> (\<exists>j. map_of (jobs st) b = Some j \<and> update_id j = u \<and>
    (phase j' = phase j \<or> phase j' = p \<and>
      (p = Succeeded \<longrightarrow> success_evidence st (EvReport b0 e u p err a) b j)))"
proof -
  have "st' \<noteq> st" using assms(2,3) by auto
  with assms(1) obtain j ob where j: "map_of (jobs st) b0 = Some j" "update_id j = u"
    "\<not> is_terminal (phase j)" and ob: "map_of (observations st) b0 = Some ob"
    "ob_mac_address ob = jb_mac_address j \<and> ob_epoch ob = e \<and> ob_state ob \<noteq> None"
    "p = Downloading \<or> p = Staged \<or> p = Failed \<or> p = Succeeded"
    by (simp add: report_def split: option.splits if_splits)
  show ?thesis
  proof (cases "phase j = p")
    case True
    from assms(1) j ob True \<open>st' \<noteq> st\<close> have
      "ota_bind (save (AList.update b0 (j\<lparr>job_error := err\<rparr>) (jobs st)) st)
        (\<lambda>_ st'. (Inr (), st'\<lparr>jobs := AList.update b0 (j\<lparr>job_error := err\<rparr>) (jobs st)\<rparr>)) = (r, st')"
      by (simp add: report_def Let_def split: if_splits)
    from commit_lookup [OF this refl assms(2)] assms(3) j show ?thesis by auto
  next
    case False
    define x where "x = (if p \<noteq> Downloading then clear_delivery (j\<lparr>phase := p, job_error := err\<rparr>)
      else j\<lparr>phase := p, job_error := err\<rparr>)"
    from assms(1) j ob False \<open>st' \<noteq> st\<close> have
      commit: "ota_bind (save (AList.update b0 x (jobs st)) st)
        (\<lambda>_ st'. (Inr (), st'\<lparr>jobs := AList.update b0 x (jobs st)\<rparr>)) = (r, st')"
      and trial: "p = Succeeded \<longrightarrow> a = Some (im_sha256 (job_image j)) \<and>
        (\<exists>s. ob_state ob = Some s \<and> trial s \<and> source s = Some Server \<and>
          pending_update_id s = Some u \<and> running_sha256 s = im_sha256 (job_image j))"
      by (auto simp: report_def Let_def x_def is_some_and_iff split: if_splits)
    from trial j ob have ok: "p = Succeeded \<longrightarrow> success_evidence st (EvReport b0 e u p err a) b0 j"
      by (cases ob) (auto simp: success_evidence_def)
    have "phase x = p" by (simp add: x_def clear_delivery_def)
    with commit_lookup [OF commit refl assms(2)] assms(3) j ok show ?thesis by auto
  qed
qed

lemma success_from_evidence:
  assumes "map_of (jobs st) b = Some j" "\<not> is_terminal (phase j)"
    and "map_of (jobs (ota_step sha st ev)) b = Some j'" "phase j' = Succeeded"
  shows "success_evidence st ev b j"
proof -
  have new: "map_of (jobs st) b \<noteq> Some j'"
    using assms by (auto simp: is_terminal_def)
  show ?thesis
  proof (cases ev)
    case (EvDecide b0 m ota idle e now)
    with assms(3) obtain r st' where run: "decide_at b0 m ota idle e now st = (r, st')"
      "map_of (jobs st') b = Some j'"
      by (cases "decide_at b0 m ota idle e now st") simp
    from decide_lookup [OF run new] assms(1) obtain changed where
      *: "b = b0" "jb_mac_address j = m"
      "j' = fst (case ota of Some o' \<Rightarrow> decide_job o' changed idle now j | None \<Rightarrow> (decide_missing j, Idle))"
      by auto
    show ?thesis
    proof (cases ota)
      case None
      with * assms(2,4) show ?thesis by (simp add: decide_missing_def is_terminal_def Let_def split: if_splits)
    next
      case (Some o')
      with * assms(2,4) decide_job_Succeeded [of o' changed idle now j] EvDecide show ?thesis
        by (auto simp: success_evidence_def)
    qed
  next
    case (EvReport b0 e u p err a)
    then obtain r st' where run: "report b0 e u p err a st = (r, st')" "map_of (jobs st') b = Some j'"
      using assms(3) by (cases "report b0 e u p err a st") simp
    from report_lookup [OF run new] assms(1,2,4) EvReport show ?thesis
      by (auto simp: success_evidence_def is_terminal_def)
  next
    case (EvQueue b0 m d u)
    then obtain r st' where run: "queue b0 m d u st = (r, st')" "map_of (jobs st') b = Some j'"
      using assms(3) by (cases "queue b0 m d u st") simp
    with new assms(4) show ?thesis
      by (auto simp: queue_def Let_def split: option.splits if_splits dest!: commit_lookup)
  next
    case (EvFailure b0 m u e f n)
    then obtain r st' where run: "record_delivery_failure b0 m u e f n st = (r, st')"
      "map_of (jobs st') b = Some j'"
      using assms(3) by (cases "record_delivery_failure b0 m u e f n st") simp
    with new assms(4) show ?thesis
      by (auto simp: record_delivery_failure_def apply_failure_def Let_def
          split: option.splits if_splits delivery_failure.splits dest!: commit_lookup)
  next
    case (EvCancel b0 u)
    with new assms(3,4) show ?thesis
      by (auto simp: cancel_def save_def save_observations_def file_op_def next_io_def Let_def
          map_of_update split: option.splits if_splits list.splits io_outcome.splits)
  qed (use new assms(3) image_steps_jobs in \<open>simp_all add: assignments_def\<close>)
qed

text \<open>
  C5: success is proved by the device. A job becomes succeeded only from confirming, and the
  device gave the digest of the job's image as its active loader: in a decision for the board
  and device of the job where it says it confirmed this update, or in a report of success for
  this update in the epoch of the stored observation, which has the job's device running this
  very image on trial from this server under this update's identifier.
\<close>

theorem ota_success_sound:
  assumes "map_of (jobs st) b = Some j" "phase j \<noteq> Succeeded"
    and "map_of (jobs (ota_step sha st ev)) b = Some j'" "phase j' = Succeeded"
  shows "phase j = Confirming \<and> same_job j j' \<and> success_evidence st ev b j"
proof -
  from ota_job_progress [OF assms(1), of sha ev] assms(2-4)
  have act: "\<not> is_terminal (phase j)" "same_job j j'" "phase_edge (phase j) Succeeded"
    by (auto simp: fresh_job_def)
  then have "phase j = Confirming"
    using assms(2) by (auto elim: phase_edge_Succeeded)
  moreover have "success_evidence st ev b j"
    by (rule success_from_evidence [OF assms(1) act(1) assms(3,4)])
  ultimately show ?thesis using act by blast
qed

definition demo_confirmed :: loader_ota_state where
  "demo_confirmed = (demo_device ''new'')\<lparr>last_update_id := Some ''u'',
     last_outcome := Some OutcomeConfirmed\<rparr>"

lemma ota_success_sound_witness:
  "\<exists>j'. map_of (jobs (ota_step (\<lambda>_. ''new'') (demo_store Confirming)
      (EvDecide ''b'' demo_mac (Some demo_confirmed) True ''e'' 0))) ''b'' = Some j' \<and>
    phase j' = Succeeded \<and> same_job (demo_job Confirming) j' \<and>
    success_evidence (demo_store Confirming) (EvDecide ''b'' demo_mac (Some demo_confirmed) True ''e'' 0) ''b'' (demo_job Confirming)"
proof -
  let ?ev = "EvDecide ''b'' demo_mac (Some demo_confirmed) True ''e'' 0"
  have "map_of (jobs (demo_store Confirming)) ''b'' = Some (demo_job Confirming)"
    "phase (demo_job Confirming) \<noteq> Succeeded"
    by (simp_all add: demo_ota_defs)
  moreover obtain j' where "map_of (jobs (ota_step (\<lambda>_. ''new'') (demo_store Confirming) ?ev)) ''b'' = Some j'"
    "phase j' = Succeeded"
    by (simp add: demo_confirmed_def demo_ota_defs decide_at_def observation_changed_def observe_def
        save_observations_def save_def file_op_def next_io_def decide_assigned_def decide_job_def
        apply_outcome_def is_terminal_def clear_delivery_def in_trial_def Let_def)
  ultimately show ?thesis
    using ota_success_sound [of "demo_store Confirming" "''b''" "demo_job Confirming" "\<lambda>_. ''new''" ?ev j']
    by blast
qed





text \<open>
  A cancellation whose second write fails leaves \<open>devices.json\<close> without the observation the
  server still holds in memory.
\<close>

lemma cancel_partial_failure:
  "\<exists>st st' e. synced st \<and> atomic_faults st \<and> cancel ''b'' ''u'' st = (Inl e, st') \<and> \<not> synced st'"
proof -
  let ?st = "(demo_store Queued)\<lparr>observations := [(''b'', \<lparr>ob_mac_address = demo_mac, ob_state = None,
    ob_epoch = ''e''\<rparr>)], devices_file := [(''b'', \<lparr>ob_mac_address = demo_mac, ob_state = None,
    ob_epoch = ''e''\<rparr>)], io_faults := [Done, NotDone]\<rparr>"
  have "synced ?st" "atomic_faults ?st" "fst (cancel ''b'' ''u'' ?st) = Inl StorageError"
    "\<not> synced (snd (cancel ''b'' ''u'' ?st))"
    by (simp_all add: demo_ota_defs synced_def atomic_faults_def cancel_def is_terminal_def
        save_observations_def save_def file_op_def next_io_def Let_def)
  then show ?thesis by (metis prod.collapse)
qed

end
