(* ===== verification/Loader_Registry.thy ===== *)
theory Loader_Registry
  imports Assoc_Map Httpboot_Protocol Serial_Protocol
begin

text \<open>
  The registry of boot loaders, \<open>ostool-server/src/loader.rs\<close>: registrations handed out to
  discovery probes, the device record of each MAC address, and the rules that decide which of
  several loaders behind one address has authority. Times are integers in nanoseconds and an
  argument of each operation; registration identifiers are fresh UUIDs, arguments too. The
  returned lock guard of an accepted report is a unit here. The UDP socket, the deadline task and
  the notifications to the web interface are not modelled.
\<close>

section \<open>State\<close>

definition REGISTRATION_TTL :: int where "REGISTRATION_TTL = 30 * 10 ^ 9"
definition ONLINE_TTL :: int where "ONLINE_TTL = 10 * 10 ^ 9"
definition RECORD_RETENTION :: int where "RECORD_RETENTION = 24 * 3600 * 10 ^ 9"

lemmas loader_ttls = REGISTRATION_TTL_def ONLINE_TTL_def RECORD_RETENTION_def

text \<open>MAC addresses are ordered by their octets, as the derived \<open>Ord\<close> of the code does.\<close>

instantiation mac_address :: linorder
begin

definition less_eq_mac_address :: "mac_address \<Rightarrow> mac_address \<Rightarrow> bool" where
  "m \<le> n \<longleftrightarrow> octets m \<le> octets n"

definition less_mac_address :: "mac_address \<Rightarrow> mac_address \<Rightarrow> bool" where
  "m < n \<longleftrightarrow> octets m < octets n"

instance
proof
  fix x y z :: mac_address
  show "(x < y) = (x \<le> y \<and> \<not> y \<le> x)" "x \<le> x" "x \<le> y \<Longrightarrow> y \<le> z \<Longrightarrow> x \<le> z" "x \<le> y \<or> y \<le> x"
    unfolding less_eq_mac_address_def less_mac_address_def by auto
  have "octets x = octets y \<Longrightarrow> x = y"
    by (cases x; cases y) simp
  then show "x \<le> y \<Longrightarrow> y \<le> x \<Longrightarrow> x = y"
    unfolding less_eq_mac_address_def by auto
qed

end

record registration =
  rg_mac_address :: mac_address
  rg_protocol_version :: u16
  issued_at :: int
  rg_last_seen_at :: "int option"
  superseded_at :: "int option"

record device_record =
  dv_protocol_version :: u16
  dv_current_mac_address :: mac_address
  dv_ip_address :: string
  dv_arch :: boot_arch
  dv_loader_version :: string
  dv_hardware :: hardware_info
  dv_last_seen_at :: int
  current_registration_id :: string
  conflict :: bool

record registry =
  registrations :: "(string, registration) amap"
  devices :: "(mac_address, device_record) amap"

record device_boot_status =
  db_boot_id :: string
  db_phase :: string
  kernel_received :: bool
  initramfs_received :: bool
  db_last_error :: "string option"

record device_status =
  ds_protocol_version :: u16
  ds_boot_epoch :: string
  ds_mac_address :: mac_address
  ds_current_mac_address :: mac_address
  ds_arch :: boot_arch
  ds_loader_version :: string
  ds_hardware :: hardware_info
  ds_boot :: "device_boot_status option"
  ds_ota :: "loader_ota_state option"
  ds_serial :: "loader_serial_status option"

record device_snapshot =
  sn_mac_address :: mac_address
  sn_current_mac_address :: mac_address
  sn_ip_address :: string
  sn_arch :: boot_arch
  sn_loader_version :: string
  sn_hardware :: hardware_info
  sn_last_seen_at :: int
  online :: bool
  sn_conflict :: bool
  sn_current_registration_id :: "string option"

datatype registration_error =
  RegProtocolVersion | RegUnknown | RegExpired | RegMacMismatch | RegReplaced | RegConflict

type_synonym 'a registry_result = "(registration_error + 'a) \<times> registry"

definition registry_new :: registry where
  "registry_new = \<lparr>registrations = [], devices = []\<rparr>"

definition known_version :: "u16 \<Rightarrow> bool" where
  "known_version v \<longleftrightarrow>
     v = LEGACY_PROTOCOL_VERSION \<or> v = PREVIOUS_PROTOCOL_VERSION \<or> v = PROTOCOL_VERSION"

text \<open>\<open>get_mut\<close> of the two maps.\<close>

definition map_registration :: "string \<Rightarrow> (registration \<Rightarrow> registration) \<Rightarrow> registry \<Rightarrow> registry" where
  "map_registration i f st =
     (case map_of (registrations st) i of
        None \<Rightarrow> st
      | Some r \<Rightarrow> st\<lparr>registrations := AList.update i (f r) (registrations st)\<rparr>)"

definition map_device :: "mac_address \<Rightarrow> (device_record \<Rightarrow> device_record) \<Rightarrow> registry \<Rightarrow> registry" where
  "map_device m f st =
     (case map_of (devices st) m of
        None \<Rightarrow> st
      | Some d \<Rightarrow> st\<lparr>devices := AList.update m (f d) (devices st)\<rparr>)"

section \<open>Operations\<close>

definition has_live_superseded_report :: "registry \<Rightarrow> mac_address \<Rightarrow> int \<Rightarrow> bool" where
  "has_live_superseded_report st m now \<longleftrightarrow>
     any_value (registrations st) (\<lambda>r.
       rg_mac_address r = m \<and>
       is_some_and (superseded_at r) (\<lambda>sup.
         is_some_and (rg_last_seen_at r) (\<lambda>seen. seen > sup \<and> now - seen \<le> ONLINE_TTL)))"

definition keep_registration :: "int \<Rightarrow> registration \<Rightarrow> bool" where
  "keep_registration now r \<longleftrightarrow>
     (case rg_last_seen_at r of
        None \<Rightarrow> now - issued_at r \<le> REGISTRATION_TTL
      | Some seen \<Rightarrow> now - seen \<le> RECORD_RETENTION)"

definition prune :: "registry \<Rightarrow> int \<Rightarrow> registry" where
  "prune st now =
     (let st = st\<lparr>registrations := retain (\<lambda>_. keep_registration now) (registrations st)\<rparr>;
          st = st\<lparr>devices := retain (\<lambda>_ d. now - dv_last_seen_at d \<le> RECORD_RETENTION) (devices st)\<rparr>
      in st\<lparr>devices := map (\<lambda>(m, d).
           let v5_conflict = conflict d \<and>
                 map_of (registrations st) (current_registration_id d) = None \<and>
                 now - dv_last_seen_at d < ONLINE_TTL
           in (m, d\<lparr>conflict := (v5_conflict \<or> has_live_superseded_report st m now)\<rparr>)) (devices st)\<rparr>)"

definition accept_announcement ::
    "announcement \<Rightarrow> device_status \<Rightarrow> string \<Rightarrow> int \<Rightarrow> registry \<Rightarrow> bool registry_result" where
  "accept_announcement an ds ip now st =
     (if \<not> (an_protocol_version an = DEVICE_PROTOCOL_VERSION \<or>
            an_protocol_version an = PREVIOUS_DEVICE_PROTOCOL_VERSION) \<or>
         ds_protocol_version ds \<noteq> an_protocol_version an \<or> an_mac_address an \<noteq> ds_mac_address ds \<or>
         an_boot_epoch an \<noteq> ds_boot_epoch ds \<or> an_arch an \<noteq> ds_arch ds
      then (Inl RegProtocolVersion, st)
      else
        let st = prune st now;
            conflicting = is_some_and (map_of (devices st) (ds_mac_address ds)) (\<lambda>previous.
              (dv_ip_address previous \<noteq> ip \<or> conflict previous) \<and>
              now - dv_last_seen_at previous < ONLINE_TTL)
        in (Inr conflicting,
            if conflicting then map_device (ds_mac_address ds) (\<lambda>d. d\<lparr>conflict := True\<rparr>) st
            else st\<lparr>devices := AList.update (ds_mac_address ds)
              \<lparr>dv_protocol_version = ds_protocol_version ds,
               dv_current_mac_address = ds_current_mac_address ds, dv_ip_address = ip,
               dv_arch = ds_arch ds, dv_loader_version = ds_loader_version ds,
               dv_hardware = ds_hardware ds, dv_last_seen_at = now,
               current_registration_id = ds_boot_epoch ds, conflict = False\<rparr> (devices st)\<rparr>))"

definition touch_announcement :: "announcement \<Rightarrow> string \<Rightarrow> int \<Rightarrow> registry \<Rightarrow> registry" where
  "touch_announcement an ip now st =
     map_device (an_mac_address an) (\<lambda>d.
       if current_registration_id d = an_boot_epoch an \<and> dv_ip_address d = ip
       then d\<lparr>dv_last_seen_at := now\<rparr> else d) st"

definition offer ::
    "string \<Rightarrow> discovery_probe \<Rightarrow> string \<Rightarrow> string \<Rightarrow> int \<Rightarrow> registry \<Rightarrow> discovery_offer registry_result"
  where
  "offer server_id probe base_url rid now st =
     (if \<not> known_version (pr_protocol_version probe) then (Inl RegProtocolVersion, st)
      else
        let st = prune st now
        in (Inr \<lparr>of_protocol_version = pr_protocol_version probe, of_server_id = server_id,
              of_control_base_url = base_url, of_registration_id = rid,
              of_expires_in_ms = word_of_int (REGISTRATION_TTL div 10 ^ 6)\<rparr>,
            st\<lparr>registrations := AList.update rid
              \<lparr>rg_mac_address = pr_mac_address probe,
               rg_protocol_version = pr_protocol_version probe, issued_at = now,
               rg_last_seen_at = None, superseded_at = None\<rparr> (registrations st)\<rparr>))"

text \<open>
  A poll. \<open>poll_registered\<close> is its second half: it decides between the validated registration
  \<open>r\<close> of the request and the registration the device had before. A missing previous
  registration counts as older than any (\<open>MIN_UTC\<close>).
\<close>

definition record_poll :: "poll_request \<Rightarrow> int \<Rightarrow> registry \<Rightarrow> bool registry_result" where
  "record_poll req now st =
     (let conflicting = has_live_superseded_report st (pl_mac_address req) now
      in (Inr conflicting,
          st\<lparr>devices := AList.update (pl_mac_address req)
            \<lparr>dv_protocol_version = pl_protocol_version req,
             dv_current_mac_address = pl_current_mac_address req,
             dv_ip_address = pl_ip_address req, dv_arch = pl_arch req,
             dv_loader_version = pl_loader_version req, dv_hardware = pl_hardware req,
             dv_last_seen_at = now, current_registration_id = pl_registration_id req,
             conflict = conflicting\<rparr> (devices st)\<rparr>))"

definition poll_registered ::
    "poll_request \<Rightarrow> registration \<Rightarrow> int \<Rightarrow> registry \<Rightarrow> bool registry_result" where
  "poll_registered req r now st =
     (let rid = pl_registration_id req; mac = pl_mac_address req;
          st = map_registration rid (\<lambda>r. r\<lparr>rg_last_seen_at := Some now\<rparr>) st
      in if superseded_at r \<noteq> None then
           (Inr True, map_device mac (\<lambda>d. d\<lparr>conflict := True\<rparr>) st)
         else
           case map_of (devices st) mac of
             None \<Rightarrow> record_poll req now st
           | Some d \<Rightarrow>
               let previous = current_registration_id d in
               if previous = rid then record_poll req now st
               else if is_none_or (map_of (registrations st) previous)
                   (\<lambda>p. issued_at p < issued_at r)
               then record_poll req now
                 (map_registration previous (\<lambda>p. p\<lparr>superseded_at := Some now\<rparr>) st)
               else
                 (Inr True, map_device mac (\<lambda>d. d\<lparr>conflict := True\<rparr>)
                   (map_registration rid (\<lambda>r. r\<lparr>superseded_at := Some now\<rparr>) st)))"

definition accept_poll :: "poll_request \<Rightarrow> int \<Rightarrow> registry \<Rightarrow> bool registry_result" where
  "accept_poll req now st =
     (if \<not> known_version (pl_protocol_version req) then (Inl RegProtocolVersion, st)
      else
        let st = prune st now; rid = pl_registration_id req; mac = pl_mac_address req in
        case map_of (registrations st) rid of
          None \<Rightarrow> (Inl RegUnknown, st)
        | Some r \<Rightarrow>
            if rg_mac_address r \<noteq> mac then (Inl RegMacMismatch, st)
            else if rg_protocol_version r \<noteq> pl_protocol_version req then (Inl RegProtocolVersion, st)
            else if rg_last_seen_at r = None \<and> now - issued_at r > REGISTRATION_TTL
            then (Inl RegExpired, st)
            else poll_registered req r now st)"

definition accept_status :: "status_report \<Rightarrow> int \<Rightarrow> registry \<Rightarrow> unit registry_result" where
  "accept_status rep now st =
     (if \<not> known_version (sr_protocol_version rep) then (Inl RegProtocolVersion, st)
      else
        let st = prune st now; rid = sr_registration_id rep; mac = sr_mac_address rep in
        case map_of (registrations st) rid of
          None \<Rightarrow> (Inl RegUnknown, st)
        | Some r \<Rightarrow>
            if rg_mac_address r \<noteq> mac then (Inl RegMacMismatch, st)
            else if rg_protocol_version r \<noteq> sr_protocol_version rep then (Inl RegProtocolVersion, st)
            else if superseded_at r \<noteq> None then
              (Inl RegReplaced, map_device mac (\<lambda>d. d\<lparr>conflict := True\<rparr>)
                (map_registration rid (\<lambda>r. r\<lparr>rg_last_seen_at := Some now\<rparr>) st))
            else
              case map_of (devices st) mac of
                None \<Rightarrow> (Inl RegUnknown, st)
              | Some d \<Rightarrow>
                  if dv_protocol_version d \<noteq> sr_protocol_version rep then (Inl RegProtocolVersion, st)
                  else if conflict d then (Inl RegConflict, st)
                  else if current_registration_id d \<noteq> rid then (Inl RegReplaced, st)
                  else
                    (Inr (), map_device mac (\<lambda>d. d\<lparr>dv_last_seen_at := now\<rparr>)
                      (map_registration rid (\<lambda>r. r\<lparr>rg_last_seen_at := Some now\<rparr>) st)))"

definition accept_ota_status :: "status_report \<Rightarrow> int \<Rightarrow> registry \<Rightarrow> unit registry_result" where
  "accept_ota_status rep now st =
     (if sr_protocol_version rep = PROTOCOL_VERSION then accept_status rep now st
      else (Inl RegProtocolVersion, st))"

definition legacy_ota_registration ::
    "mac_address \<Rightarrow> int \<Rightarrow> registry \<Rightarrow> string option \<times> registry" where
  "legacy_ota_registration m now st =
     (let st = prune st now
      in (case map_of (devices st) m of
            None \<Rightarrow> None
          | Some d \<Rightarrow>
              if dv_protocol_version d \<noteq> PROTOCOL_VERSION \<or> conflict d \<or>
                 now - dv_last_seen_at d > ONLINE_TTL
              then None
              else case map_of (registrations st) (current_registration_id d) of
                None \<Rightarrow> None
              | Some r \<Rightarrow>
                  if rg_protocol_version r \<noteq> PROTOCOL_VERSION \<or> rg_mac_address r \<noteq> m \<or>
                     superseded_at r \<noteq> None
                  then None else Some (current_registration_id d), st))"

definition snapshots :: "int \<Rightarrow> registry \<Rightarrow> device_snapshot list \<times> registry" where
  "snapshots now st =
     (let st = prune st now
      in (map (\<lambda>(m, d). \<lparr>sn_mac_address = m, sn_current_mac_address = dv_current_mac_address d,
            sn_ip_address = dv_ip_address d, sn_arch = dv_arch d,
            sn_loader_version = dv_loader_version d, sn_hardware = dv_hardware d,
            sn_last_seen_at = dv_last_seen_at d, online = (now - dv_last_seen_at d \<le> ONLINE_TTL),
            sn_conflict = conflict d, sn_current_registration_id = Some (current_registration_id d)\<rparr>)
          (sort_key fst (devices st)), st))"

end
