(* ===== verification/Loader_Properties.thy ===== *)
theory Loader_Properties
  imports Loader_Registry
begin

text \<open>
  Properties of the loader registry. \<open>registry_step\<close> is any operation by any client at any time;
  its ghost state is the sets of registration identifiers and boot epochs handed out so far,
  so that \<open>fresh\<close> can say what a UUID provides: a new identifier differs from all of them.
\<close>

section \<open>Steps\<close>

record registry_run =
  offered :: "string set"
  epochs :: "string set"
  reg :: registry

inductive registry_step :: "registry_run \<Rightarrow> registry_run \<Rightarrow> bool" where
  offers: "rid \<notin> offered s \<Longrightarrow> rid \<notin> epochs s \<Longrightarrow>
    registry_step s (s\<lparr>offered := insert rid (offered s),
      reg := snd (offer server probe url rid now (reg s))\<rparr>)"
| announces: "ds_boot_epoch ds \<notin> offered s \<Longrightarrow>
    registry_step s (s\<lparr>epochs := insert (ds_boot_epoch ds) (epochs s),
      reg := snd (accept_announcement an ds ip now (reg s))\<rparr>)"
| touches: "registry_step s (s\<lparr>reg := touch_announcement an ip now (reg s)\<rparr>)"
| polls: "registry_step s (s\<lparr>reg := snd (accept_poll req now (reg s))\<rparr>)"
| reports: "registry_step s (s\<lparr>reg := snd (accept_status rep now (reg s))\<rparr>)"
| ota_reports: "registry_step s (s\<lparr>reg := snd (accept_ota_status rep now (reg s))\<rparr>)"
| asks: "registry_step s (s\<lparr>reg := snd (legacy_ota_registration m now (reg s))\<rparr>)"
| lists: "registry_step s (s\<lparr>reg := snd (snapshots now (reg s))\<rparr>)"

inductive registry_steps :: "registry_run \<Rightarrow> registry_run \<Rightarrow> bool" where
  none: "registry_steps s s"
| more: "registry_steps s t \<Longrightarrow> registry_step t u \<Longrightarrow> registry_steps s u"

definition registry_start :: registry_run where
  "registry_start = \<lparr>offered = {}, epochs = {}, reg = registry_new\<rparr>"

inductive_cases registry_stepE: "registry_step s t"

section \<open>Lookups\<close>

lemma map_of_map_value:
  "map_of (map (\<lambda>(k, v). (k, f k v)) m) k = map_option (f k) (map_of m k)"
  by (induction m) auto

lemma keys_distinct_map_value [simp]:
  "keys_distinct (map (\<lambda>(k, v). (k, f k v)) m) = keys_distinct m"
  by (simp add: keys_distinct_def comp_def case_prod_beta)

text \<open>What pruning does to a device: it keeps all but the conflict flag.\<close>

definition pruned_device :: "registry \<Rightarrow> int \<Rightarrow> mac_address \<Rightarrow> device_record \<Rightarrow> device_record" where
  "pruned_device st now m d = d\<lparr>conflict :=
     (conflict d \<and> map_of (registrations st) (current_registration_id d) = None \<and>
        now - dv_last_seen_at d < ONLINE_TTL \<or> has_live_superseded_report st m now)\<rparr>"

definition distinct_registry :: "registry \<Rightarrow> bool" where
  "distinct_registry st \<longleftrightarrow> keys_distinct (registrations st) \<and> keys_distinct (devices st)"

lemma prune_registrations:
  "keys_distinct (registrations st) \<Longrightarrow>
     map_of (registrations (prune st now)) i =
       (case map_of (registrations st) i of None \<Rightarrow> None
        | Some r \<Rightarrow> if keep_registration now r then Some r else None)"
  by (simp add: prune_def Let_def map_of_retain)

lemma prune_devices:
  "keys_distinct (devices st) \<Longrightarrow>
     map_of (devices (prune st now)) m =
       (case map_of (devices st) m of None \<Rightarrow> None
        | Some d \<Rightarrow> if now - dv_last_seen_at d \<le> RECORD_RETENTION
            then Some (pruned_device (prune st now) now m d) else None)"
  by (simp add: prune_def Let_def map_of_map_value map_of_retain pruned_device_def
      has_live_superseded_report_def split: option.split)

lemma prune_distinct [simp]: "distinct_registry st \<Longrightarrow> distinct_registry (prune st now)"
  by (simp add: distinct_registry_def prune_def Let_def)

lemma map_registration_lookup:
  "map_of (registrations (map_registration i f st)) j =
     (if j = i then map_option f (map_of (registrations st) i) else map_of (registrations st) j)"
  "devices (map_registration i f st) = devices st"
  by (simp_all add: map_registration_def map_of_update split: option.split)

lemma map_device_lookup:
  "map_of (devices (map_device m f st)) n =
     (if n = m then map_option f (map_of (devices st) m) else map_of (devices st) n)"
  "registrations (map_device m f st) = registrations st"
  by (simp_all add: map_device_def map_of_update split: option.split)

lemma map_distinct [simp]:
  "distinct_registry st \<Longrightarrow> distinct_registry (map_registration i f st)"
  "distinct_registry st \<Longrightarrow> distinct_registry (map_device m g st)"
  by (simp_all add: distinct_registry_def map_registration_def map_device_def split: option.split)

lemma keep_seen [simp]: "keep_registration now (r\<lparr>rg_last_seen_at := Some now\<rparr>)"
  by (simp add: keep_registration_def RECORD_RETENTION_def)

section \<open>The invariant\<close>

text \<open>
  A device that polls has a registration of its own address and protocol that is not replaced,
  if it is still recorded; a device that announces itself has a boot epoch that is no
  registration. Every recorded registration was offered.
\<close>

definition device_ok :: "registry \<Rightarrow> mac_address \<Rightarrow> device_record \<Rightarrow> bool" where
  "device_ok st m d \<longleftrightarrow>
     is_none_or (map_of (registrations st) (current_registration_id d)) (\<lambda>r.
       rg_mac_address r = m \<and> rg_protocol_version r = dv_protocol_version d \<and>
       superseded_at r = None)"

definition registry_inv :: "string set \<Rightarrow> string set \<Rightarrow> registry \<Rightarrow> bool" where
  "registry_inv os es st \<longleftrightarrow>
     distinct_registry st \<and>
     (\<forall>i r. map_of (registrations st) i = Some r \<longrightarrow> i \<in> os) \<and>
     (\<forall>m d. map_of (devices st) m = Some d \<longrightarrow>
        current_registration_id d \<in> os \<union> es \<and> device_ok st m d)"

lemma registry_invI:
  assumes "distinct_registry st" "\<And>i r. map_of (registrations st) i = Some r \<Longrightarrow> i \<in> os"
    and "\<And>m d. map_of (devices st) m = Some d \<Longrightarrow>
      current_registration_id d \<in> os \<union> es \<and> device_ok st m d"
  shows "registry_inv os es st"
  using assms by (auto simp: registry_inv_def)

lemma registry_invD:
  assumes "registry_inv os es st"
  shows "distinct_registry st" "map_of (registrations st) i = Some r \<Longrightarrow> i \<in> os"
    "map_of (devices st) m = Some d \<Longrightarrow> current_registration_id d \<in> os \<union> es"
    "map_of (devices st) m = Some d \<Longrightarrow> device_ok st m d"
  using assms by (auto simp: registry_inv_def)

lemma registry_inv_new: "registry_inv {} {} registry_new"
  by (rule registry_invI) (simp_all add: registry_new_def distinct_registry_def)

text \<open>Changes that keep the invariant.\<close>

lemma inv_prune:
  assumes "registry_inv os es st"
  shows "registry_inv os es (prune st now)"
proof (rule registry_invI)
  note inv = registry_invD [OF assms]
  have dist: "keys_distinct (registrations st)" "keys_distinct (devices st)"
    using inv(1) by (simp_all add: distinct_registry_def)
  note look = prune_registrations [OF dist(1)] prune_devices [OF dist(2)]
  show "distinct_registry (prune st now)" using inv(1) by simp
  show "map_of (registrations (prune st now)) i = Some r \<Longrightarrow> i \<in> os" for i r
    using inv(2) by (auto simp: look split: option.splits if_splits)
  show "current_registration_id d \<in> os \<union> es \<and> device_ok (prune st now) m d"
    if "map_of (devices (prune st now)) m = Some d" for m d
  proof -
    from that obtain d0 where d0: "map_of (devices st) m = Some d0"
      "d = pruned_device (prune st now) now m d0"
      by (auto simp: look split: option.splits if_splits)
    with inv(3,4) [OF d0(1)] show ?thesis
      by (auto simp: device_ok_def pruned_device_def is_none_or_iff look split: option.splits if_splits)
  qed
qed

lemma inv_map_registration:
  assumes "registry_inv os es st"
    and "\<And>r. rg_mac_address (f r) = rg_mac_address r \<and> rg_protocol_version (f r) = rg_protocol_version r"
    and "\<And>r m d. map_of (registrations st) i = Some r \<Longrightarrow> map_of (devices st) m = Some d \<Longrightarrow>
      current_registration_id d = i \<Longrightarrow> superseded_at (f r) = superseded_at r"
  shows "registry_inv os es (map_registration i f st)"
proof (rule registry_invI)
  note inv = registry_invD [OF assms(1)]
  show "distinct_registry (map_registration i f st)" using inv(1) by simp
  show "map_of (registrations (map_registration i f st)) j = Some r \<Longrightarrow> j \<in> os" for j r
    using inv(2) by (auto simp: map_registration_lookup split: if_splits)
  show "current_registration_id d \<in> os \<union> es \<and> device_ok (map_registration i f st) m d"
    if "map_of (devices (map_registration i f st)) m = Some d" for m d
  proof -
    from that have d: "map_of (devices st) m = Some d" by (simp add: map_registration_lookup)
    with inv(3,4) [OF d] assms(2) assms(3) [OF _ d] show ?thesis
      by (auto simp: device_ok_def is_none_or_iff map_registration_lookup)
  qed
qed

lemma inv_map_device:
  assumes "registry_inv os es st"
    and "\<And>d. current_registration_id (f d) = current_registration_id d \<and>
      dv_protocol_version (f d) = dv_protocol_version d"
  shows "registry_inv os es (map_device m f st)"
proof (rule registry_invI)
  note inv = registry_invD [OF assms(1)]
  show "distinct_registry (map_device m f st)" using inv(1) by simp
  show "map_of (registrations (map_device m f st)) j = Some r \<Longrightarrow> j \<in> os" for j r
    using inv(2) by (simp add: map_device_lookup)
  show "current_registration_id d \<in> os \<union> es \<and> device_ok (map_device m f st) n d"
    if "map_of (devices (map_device m f st)) n = Some d" for n d
  proof -
    from that obtain d0 where d0: "map_of (devices st) n = Some d0" "d = d0 \<or> d = f d0"
      by (auto simp: map_device_lookup split: if_splits)
    with inv(3,4) [OF d0(1)] assms(2) [of d0] show ?thesis
      by (auto simp: device_ok_def map_device_lookup)
  qed
qed

lemma inv_insert_device:
  assumes "registry_inv os es st" "current_registration_id d \<in> os \<union> es" "device_ok st m d"
  shows "registry_inv os es (st\<lparr>devices := AList.update m d (devices st)\<rparr>)"
proof (rule registry_invI)
  note inv = registry_invD [OF assms(1)]
  show "distinct_registry (st\<lparr>devices := AList.update m d (devices st)\<rparr>)"
    using inv(1) by (simp add: distinct_registry_def)
  show "map_of (registrations (st\<lparr>devices := AList.update m d (devices st)\<rparr>)) j = Some r \<Longrightarrow> j \<in> os"
    for j r using inv(2) by simp
  show "current_registration_id e \<in> os \<union> es \<and>
      device_ok (st\<lparr>devices := AList.update m d (devices st)\<rparr>) n e"
    if "map_of (devices (st\<lparr>devices := AList.update m d (devices st)\<rparr>)) n = Some e" for n e
    using that assms(2,3) inv(3,4) [of n e]
    by (auto simp: map_of_update device_ok_def split: if_splits)
qed

lemma inv_takeover:
  assumes "registry_inv os es st" "map_of (devices st) m = Some d0" "current_registration_id d0 = p"
    and "map_of (registrations st) i = Some r" "i \<noteq> p" "rg_mac_address r = m" "superseded_at r = None"
    and "current_registration_id d = i" "dv_protocol_version d = rg_protocol_version r"
  shows "registry_inv os es ((map_registration p (\<lambda>x. x\<lparr>superseded_at := Some now\<rparr>) st)
    \<lparr>devices := AList.update m d (devices st)\<rparr>)" (is "registry_inv os es ?new")
proof (rule registry_invI)
  note inv = registry_invD [OF assms(1)]
  show "distinct_registry ?new"
    using inv(1) by (simp add: distinct_registry_def map_registration_def split: option.split)
  show "map_of (registrations ?new) j = Some r \<Longrightarrow> j \<in> os" for j r
    using inv(2) by (auto simp: map_registration_lookup split: if_splits)
  show "current_registration_id e \<in> os \<union> es \<and> device_ok ?new n e"
    if "map_of (devices ?new) n = Some e" for n e
  proof (cases "n = m")
    case True
    with that assms(4-9) inv(2) [OF assms(4)] show ?thesis
      by (auto simp: device_ok_def map_registration_lookup map_of_update)
  next
    case False
    with that have e: "map_of (devices st) n = Some e" by (simp add: map_of_update)
    note old = inv(3,4) [OF e] inv(4) [OF assms(2)]
    with assms(3) False have "current_registration_id e = p \<Longrightarrow> map_of (registrations st) p = None"
      by (cases "map_of (registrations st) p") (auto simp: device_ok_def)
    with old show ?thesis
      by (auto simp: device_ok_def map_registration_lookup)
  qed
qed

lemma inv_record_poll:
  assumes "registry_inv os es st" "map_of (registrations st) (pl_registration_id req) = Some r"
    and "rg_mac_address r = pl_mac_address req" "rg_protocol_version r = pl_protocol_version req"
    and "superseded_at r = None"
  shows "registry_inv os es (snd (record_poll req now st))"
  unfolding record_poll_def Let_def snd_conv
  using registry_invD(2) [OF assms(1,2)] assms
  by (intro inv_insert_device) (auto simp: device_ok_def)

lemma inv_poll_registered:
  assumes "registry_inv os es st" "map_of (registrations st) (pl_registration_id req) = Some r"
    and "rg_mac_address r = pl_mac_address req" "rg_protocol_version r = pl_protocol_version req"
  shows "registry_inv os es (snd (poll_registered req r now st))"
proof -
  let ?rid = "pl_registration_id req" and ?mac = "pl_mac_address req"
  let ?seen = "\<lambda>r. r\<lparr>rg_last_seen_at := Some now\<rparr>" and ?sup = "\<lambda>r. r\<lparr>superseded_at := Some now\<rparr>"
  let ?mark = "\<lambda>d. d\<lparr>conflict := True\<rparr>"
  define s2 where "s2 = map_registration ?rid ?seen st"
  have inv: "registry_inv os es s2"
    unfolding s2_def by (rule inv_map_registration [OF assms(1)]) simp_all
  have r2: "map_of (registrations s2) ?rid = Some (?seen r)"
    using assms(2) by (simp add: s2_def map_registration_lookup)
  have mark: "registry_inv os es (map_device ?mac ?mark t)" if "registry_inv os es t" for t
    using that by (rule inv_map_device) simp
  show ?thesis
  proof (cases "superseded_at r")
    case (Some x)
    with mark [OF inv] show ?thesis by (simp add: poll_registered_def Let_def s2_def)
  next
    case fresh: None
    have rec: "registry_inv os es (snd (record_poll req now s2))"
      using assms fresh by (intro inv_record_poll [OF inv r2]) simp_all
    show ?thesis
    proof (cases "map_of (devices s2) ?mac")
      case None
      with rec fresh show ?thesis by (simp add: poll_registered_def Let_def s2_def)
    next
      case (Some d)
      show ?thesis
      proof (cases "current_registration_id d = ?rid")
        case True
        with rec fresh Some show ?thesis by (simp add: poll_registered_def Let_def s2_def)
      next
        case False
        have take: "registry_inv os es
            (snd (record_poll req now (map_registration (current_registration_id d) ?sup s2)))"
          unfolding record_poll_def Let_def snd_conv map_registration_lookup(2)
          using assms fresh False
          by (intro inv_takeover [OF inv Some refl r2]) auto
        have old: "registry_inv os es (map_device ?mac ?mark (map_registration ?rid ?sup s2))"
        proof (rule mark, rule inv_map_registration [OF inv])
          fix m da r'
          assume da: "map_of (devices s2) m = Some da" "current_registration_id da = ?rid"
          with registry_invD(4) [OF inv da(1)] r2 assms(3) have "m = ?mac"
            by (simp add: device_ok_def)
          with da Some False show "superseded_at (?sup r') = superseded_at r'" by simp
        qed simp_all
        show ?thesis
          using take old fresh Some False
          by (auto simp: poll_registered_def Let_def s2_def [symmetric])
      qed
    qed
  qed
qed

lemma inv_accept_poll:
  assumes "registry_inv os es st"
  shows "registry_inv os es (snd (accept_poll req now st))"
  using assms inv_prune [OF assms, of now] inv_poll_registered [OF inv_prune [OF assms, of now]]
  by (auto simp: accept_poll_def Let_def split: option.split)

lemma inv_accept_status:
  assumes "registry_inv os es st"
  shows "registry_inv os es (snd (accept_status rep now st))"
proof -
  let ?rid = "sr_registration_id rep" and ?mac = "sr_mac_address rep"
  let ?st = "prune st now"
  let ?seen = "map_registration ?rid (\<lambda>r. r\<lparr>rg_last_seen_at := Some now\<rparr>) ?st"
  have inv: "registry_inv os es ?st" by (rule inv_prune [OF assms])
  have seen: "registry_inv os es ?seen"
    by (rule inv_map_registration [OF inv]) simp_all
  have "registry_inv os es (map_device ?mac (\<lambda>d. d\<lparr>conflict := True\<rparr>) ?seen)"
    "registry_inv os es (map_device ?mac (\<lambda>d. d\<lparr>dv_last_seen_at := now\<rparr>) ?seen)"
    by (rule inv_map_device [OF seen], simp)+
  with inv assms show ?thesis
    by (auto simp: accept_status_def Let_def split: option.split)
qed

lemma inv_weaken:
  "registry_inv os es st \<Longrightarrow> os \<subseteq> os' \<Longrightarrow> es \<subseteq> es' \<Longrightarrow> registry_inv os' es' st"
  unfolding registry_inv_def by (meson UnE UnI1 UnI2 subsetD)

lemma inv_new_registration:
  assumes "registry_inv os es st" "rid \<notin> os" "rid \<notin> es"
  shows "registry_inv (insert rid os) es (st\<lparr>registrations := AList.update rid r (registrations st)\<rparr>)"
proof (rule registry_invI)
  note inv = registry_invD [OF assms(1)]
  let ?new = "st\<lparr>registrations := AList.update rid r (registrations st)\<rparr>"
  show "distinct_registry ?new" using inv(1) by (simp add: distinct_registry_def)
  show "map_of (registrations ?new) j = Some q \<Longrightarrow> j \<in> insert rid os" for j q
    using inv(2) by (auto simp: map_of_update split: if_splits)
  show "current_registration_id d \<in> insert rid os \<union> es \<and> device_ok ?new m d"
    if "map_of (devices ?new) m = Some d" for m d
  proof -
    from that have "map_of (devices st) m = Some d" by simp
    from inv(3,4) [OF this] assms(2,3) show ?thesis
      by (auto simp: device_ok_def map_of_update)
  qed
qed

lemma inv_offer:
  assumes "registry_inv os es st" "rid \<notin> os" "rid \<notin> es"
  shows "registry_inv (insert rid os) es (snd (offer server probe url rid now st))"
  using inv_new_registration [OF inv_prune [OF assms(1)] assms(2,3)]
    inv_weaken [OF assms(1), of "insert rid os" es]
  by (auto simp: offer_def Let_def)

lemma inv_announcement:
  assumes "registry_inv os es st" "ds_boot_epoch ds \<notin> os"
  shows "registry_inv os (insert (ds_boot_epoch ds) es) (snd (accept_announcement an ds ip now st))"
proof -
  let ?es = "insert (ds_boot_epoch ds) es"
  have st: "registry_inv os ?es st" "registry_inv os ?es (prune st now)"
    using inv_weaken [OF assms(1), of os ?es] inv_weaken [OF inv_prune [OF assms(1)], of os ?es now]
    by auto
  have none: "map_of (registrations (prune st now)) (ds_boot_epoch ds) = None"
    using registry_invD(2) [OF inv_prune [OF assms(1), of now], of "ds_boot_epoch ds"] assms(2)
    by (cases "map_of (registrations (prune st now)) (ds_boot_epoch ds)") auto
  have "registry_inv os ?es (map_device (ds_mac_address ds) (\<lambda>d. d\<lparr>conflict := True\<rparr>) (prune st now))"
    by (rule inv_map_device [OF st(2)]) simp
  moreover have "registry_inv os ?es ((prune st now)\<lparr>devices := AList.update m d (devices (prune st now))\<rparr>)"
    if "current_registration_id d = ds_boot_epoch ds" for m d
    by (rule inv_insert_device [OF st(2)]) (simp_all add: that device_ok_def none)
  ultimately show ?thesis
    using st(1) by (simp add: accept_announcement_def Let_def)
qed

lemma inv_touch:
  "registry_inv os es st \<Longrightarrow> registry_inv os es (touch_announcement an ip now st)"
  unfolding touch_announcement_def by (rule inv_map_device) auto

lemma step_inv:
  "registry_step s t \<Longrightarrow> registry_inv (offered s) (epochs s) (reg s) \<Longrightarrow>
     registry_inv (offered t) (epochs t) (reg t)"
  by (erule registry_stepE)
    (auto simp: accept_ota_status_def legacy_ota_registration_def snapshots_def Let_def
      intro: inv_offer inv_announcement inv_touch inv_accept_poll inv_accept_status inv_prune)

lemma steps_inv:
  "registry_steps s t \<Longrightarrow> registry_inv (offered s) (epochs s) (reg s) \<Longrightarrow>
     registry_inv (offered t) (epochs t) (reg t)"
  by (induction rule: registry_steps.induct) (auto dest: step_inv)

definition reachable :: "registry_run \<Rightarrow> bool" where
  "reachable s \<longleftrightarrow> registry_steps registry_start s"

lemma reachable_inv: "reachable s \<Longrightarrow> registry_inv (offered s) (epochs s) (reg s)"
  unfolding reachable_def by (erule steps_inv) (simp add: registry_start_def registry_inv_new)

section \<open>Replaced registrations\<close>

text \<open>
  A registration is retired when it was offered and is replaced, or no longer recorded. No step
  brings it back.
\<close>

definition retired_in :: "string \<Rightarrow> registry \<Rightarrow> bool" where
  "retired_in i st \<longleftrightarrow> is_none_or (map_of (registrations st) i) (\<lambda>r. superseded_at r \<noteq> None)"

definition retired :: "string \<Rightarrow> registry_run \<Rightarrow> bool" where
  "retired i s \<longleftrightarrow> i \<in> offered s \<and> retired_in i (reg s)"

lemma retired_prune:
  "distinct_registry st \<Longrightarrow> retired_in i st \<Longrightarrow> retired_in i (prune st now)"
  by (auto simp: retired_in_def distinct_registry_def prune_registrations is_none_or_iff
      split: option.splits)

lemma retired_map_registration:
  "retired_in i st \<Longrightarrow> (\<And>r. superseded_at r \<noteq> None \<Longrightarrow> superseded_at (f r) \<noteq> None) \<Longrightarrow>
     retired_in i (map_registration j f st)"
  by (auto simp: retired_in_def map_registration_lookup is_none_or_iff split: if_splits)

lemma retired_devices [simp]:
  "retired_in i (map_device m g st) = retired_in i st"
  "retired_in i (st\<lparr>devices := ds\<rparr>) = retired_in i st"
  by (simp_all add: retired_in_def map_device_lookup)

lemma retired_poll_registered:
  "retired_in i st \<Longrightarrow> retired_in i (snd (poll_registered req r now st))"
  by (auto simp: poll_registered_def record_poll_def Let_def map_registration_lookup
      intro!: retired_map_registration split: option.splits)

lemma retired_poll:
  "distinct_registry st \<Longrightarrow> retired_in i st \<Longrightarrow> retired_in i (snd (accept_poll req now st))"
  by (auto simp: accept_poll_def Let_def intro: retired_prune retired_poll_registered split: option.split)

lemma retired_status:
  "distinct_registry st \<Longrightarrow> retired_in i st \<Longrightarrow> retired_in i (snd (accept_status rep now st))"
  by (auto simp: accept_status_def Let_def intro!: retired_prune retired_map_registration
      split: option.split)

lemma retired_step:
  assumes "registry_step s t" "registry_inv (offered s) (epochs s) (reg s)" "retired i s"
  shows "retired i t"
proof -
  have dist: "distinct_registry (reg s)" using registry_invD(1) [OF assms(2)] .
  show ?thesis
    using assms(1)
  proof cases
    case (offers rid server probe url now)
    with assms(3) retired_prune [OF dist, of i now] show ?thesis
      by (auto simp: retired_def offer_def Let_def retired_in_def map_of_update)
  next
    case (announces ds an ip now)
    with assms(3) retired_prune [OF dist, of i now] show ?thesis
      by (auto simp: retired_def accept_announcement_def Let_def)
  qed (use assms(3) dist in \<open>auto simp: retired_def touch_announcement_def accept_ota_status_def
      legacy_ota_registration_def snapshots_def Let_def
      intro: retired_prune retired_poll retired_status\<close>)
qed

lemma retired_steps:
  "registry_steps s t \<Longrightarrow> registry_inv (offered s) (epochs s) (reg s) \<Longrightarrow> retired i s \<Longrightarrow> retired i t"
  by (induction rule: registry_steps.induct) (auto dest: steps_inv intro: retired_step)

section \<open>Acceptance\<close>

definition live_report :: "mac_address \<Rightarrow> int \<Rightarrow> registration \<Rightarrow> bool" where
  "live_report m now r \<longleftrightarrow>
     rg_mac_address r = m \<and>
     is_some_and (superseded_at r) (\<lambda>sup.
       is_some_and (rg_last_seen_at r) (\<lambda>seen. seen > sup \<and> now - seen \<le> ONLINE_TTL))"

lemma live_iff:
  "keys_distinct (registrations st) \<Longrightarrow>
     has_live_superseded_report st m now \<longleftrightarrow>
       (\<exists>i r. map_of (registrations st) i = Some r \<and> live_report m now r)"
  by (simp add: has_live_superseded_report_def any_value_iff live_report_def)

lemma live_kept: "live_report m now r \<Longrightarrow> keep_registration now r"
  by (auto simp: live_report_def keep_registration_def is_some_and_iff loader_ttls)

lemma live_prune:
  assumes "keys_distinct (registrations st)"
  shows "has_live_superseded_report (prune st now) m now = has_live_superseded_report st m now"
proof -
  have "keys_distinct (registrations (prune st now))"
    using assms by (simp add: prune_def Let_def)
  moreover have "map_of (registrations (prune st now)) i = Some r \<longleftrightarrow>
      map_of (registrations st) i = Some r \<and> keep_registration now r" for i r
    by (auto simp: prune_registrations [OF assms] split: option.split)
  ultimately show ?thesis
    using live_kept by (simp add: live_iff assms) blast
qed

text \<open>Pruning twice at one time is pruning once, as far as lookups can tell.\<close>

lemma prune_twice_registrations:
  assumes "keys_distinct (registrations st)"
  shows "map_of (registrations (prune (prune st now) now)) i = map_of (registrations (prune st now)) i"
proof -
  have "keys_distinct (registrations (prune st now))" using assms by (simp add: prune_def Let_def)
  with assms show ?thesis by (simp add: prune_registrations split: option.split)
qed

lemma prune_twice_devices:
  assumes "distinct_registry st"
  shows "map_of (devices (prune (prune st now) now)) m = map_of (devices (prune st now)) m"
proof -
  have d: "keys_distinct (registrations st)" "keys_distinct (devices st)"
    "keys_distinct (devices (prune st now))" "keys_distinct (registrations (prune st now))"
    using assms prune_distinct [OF assms, of now] by (simp_all add: distinct_registry_def)
  have "pruned_device (prune (prune st now) now) now m (pruned_device (prune st now) now m x) =
      pruned_device (prune st now) now m x" for x
    by (rule device_record.equality)
      (auto simp: pruned_device_def live_prune d prune_twice_registrations)
  then show ?thesis
    by (auto simp: prune_devices d pruned_device_def split: option.splits)
qed

text \<open>When a report is accepted.\<close>

definition may_report :: "status_report \<Rightarrow> int \<Rightarrow> registry \<Rightarrow> bool" where
  "may_report rep now st \<longleftrightarrow>
     known_version (sr_protocol_version rep) \<and>
     (\<exists>r d. map_of (registrations (prune st now)) (sr_registration_id rep) = Some r \<and>
        rg_mac_address r = sr_mac_address rep \<and>
        rg_protocol_version r = sr_protocol_version rep \<and> superseded_at r = None \<and>
        map_of (devices (prune st now)) (sr_mac_address rep) = Some d \<and>
        dv_protocol_version d = sr_protocol_version rep \<and> \<not> conflict d \<and>
        current_registration_id d = sr_registration_id rep)"

lemma accept_status_ok: "is_ok (fst (accept_status rep now st)) \<longleftrightarrow> may_report rep now st"
  by (auto simp: accept_status_def may_report_def Let_def split: option.splits)

section \<open>Properties\<close>

text \<open>
  C29: the registry stays consistent. In every reachable state the registration a device record
  points to, if still recorded, is of the device's own address and protocol version and is not
  replaced.
\<close>

theorem registry_consistent:
  assumes "reachable s" "map_of (devices (reg s)) m = Some d"
    and "map_of (registrations (reg s)) (current_registration_id d) = Some r"
  shows "rg_mac_address r = m \<and> rg_protocol_version r = dv_protocol_version d \<and> superseded_at r = None"
  using registry_invD(4) [OF reachable_inv [OF assms(1)] assms(2)] assms(3)
  by (simp add: device_ok_def)

definition demo_probe :: discovery_probe where
  "demo_probe = \<lparr>pr_protocol_version = 4, pr_mac_address = mac_zero, pr_current_mac_address = mac_zero,
     pr_arch = X86_64, pr_loader_version = ''1''\<rparr>"

definition demo_poll :: "string \<Rightarrow> poll_request" where
  "demo_poll i = \<lparr>pl_protocol_version = 4, pl_registration_id = i, pl_mac_address = mac_zero,
     pl_current_mac_address = mac_zero, pl_ip_address = ''10.0.0.2'', pl_arch = X86_64,
     pl_loader_version = ''1'', pl_hardware = \<lparr>manufacturer = None, product = None, hw_version = None,
     hw_serial = None\<rparr>, pl_ota = None\<rparr>"

definition demo_report :: "string \<Rightarrow> status_report" where
  "demo_report i = \<lparr>sr_protocol_version = 4, sr_registration_id = i, sr_mac_address = mac_zero,
     sr_session_id = ''s'', sr_boot_id = ''b'', sr_status = StAccepted\<rparr>"

text \<open>Two loaders behind one address: \<open>a\<close> registers and polls, then \<open>b\<close> does.\<close>

definition demo_reg :: "string \<Rightarrow> int \<Rightarrow> registry \<Rightarrow> registry" where
  "demo_reg i t st = snd (accept_poll (demo_poll i) (t + 1) (snd (offer ''srv'' demo_probe ''u'' i t st)))"

definition demo_run1 :: registry_run where
  "demo_run1 = \<lparr>offered = {''a''}, epochs = {}, reg = demo_reg ''a'' 0 registry_new\<rparr>"

definition demo_run2 :: registry_run where
  "demo_run2 = \<lparr>offered = {''b'', ''a''}, epochs = {}, reg = demo_reg ''b'' 5 (reg demo_run1)\<rparr>"

lemma demo_steps:
  assumes "registry_steps s u" "i \<notin> offered u" "i \<notin> epochs u"
  shows "registry_steps s (u\<lparr>offered := insert i (offered u), reg := demo_reg i t (reg u)\<rparr>)"
proof -
  let ?u = "u\<lparr>offered := insert i (offered u), reg := snd (offer ''srv'' demo_probe ''u'' i t (reg u))\<rparr>"
  have "registry_step u ?u" by (rule registry_step.offers [OF assms(2,3)])
  from registry_steps.more [OF assms(1) this] have "registry_steps s ?u" .
  from registry_steps.more [OF this registry_step.polls, of "demo_poll i" "t + 1"] show ?thesis
    by (simp add: demo_reg_def)
qed

lemma demo_run1_reachable: "registry_steps registry_start demo_run1"
  using demo_steps [OF registry_steps.none, of "''a''" registry_start 0]
  by (simp add: demo_run1_def registry_start_def)

lemma demo_run2_steps: "registry_steps demo_run1 demo_run2"
  using demo_steps [OF registry_steps.none, of "''b''" demo_run1 5]
  by (simp add: demo_run2_def demo_run1_def)

lemmas demo_loader_defs = demo_run1_def demo_run2_def demo_reg_def demo_probe_def demo_poll_def
  registry_new_def offer_def accept_poll_def poll_registered_def record_poll_def prune_def retain_def
  has_live_superseded_report_def any_value_def map_registration_def map_device_def keep_registration_def
  known_version_def protocol_versions loader_ttls mac_zero_def

lemma demo_run1_device:
  "\<exists>d r. map_of (devices (reg demo_run1)) mac_zero = Some d \<and> current_registration_id d = ''a'' \<and>
     map_of (registrations (reg demo_run1)) ''a'' = Some r"
  by (simp add: demo_loader_defs Let_def)

lemma registry_consistent_witness:
  "\<exists>r. map_of (registrations (reg demo_run1)) ''a'' = Some r \<and> rg_mac_address r = mac_zero \<and>
     superseded_at r = None"
proof -
  from demo_run1_device obtain d r where d: "map_of (devices (reg demo_run1)) mac_zero = Some d"
    "current_registration_id d = ''a''" and r: "map_of (registrations (reg demo_run1)) ''a'' = Some r"
    by blast
  have "reachable demo_run1" using demo_run1_reachable by (simp add: reachable_def)
  from registry_consistent [OF this d(1), of r] d(2) r show ?thesis by simp
qed

lemma retired_refused:
  assumes "distinct_registry st" "retired_in i st"
  shows "sr_registration_id rep = i \<Longrightarrow> \<not> is_ok (fst (accept_status rep now st)) \<and>
      \<not> is_ok (fst (accept_ota_status rep now st))"
    and "pl_registration_id req = i \<Longrightarrow> fst (accept_poll req now st) \<noteq> Inr False"
proof -
  have r: "retired_in i (prune st now)" by (rule retired_prune [OF assms])
  then show "sr_registration_id rep = i \<Longrightarrow> \<not> is_ok (fst (accept_status rep now st)) \<and>
      \<not> is_ok (fst (accept_ota_status rep now st))"
    by (auto simp: accept_status_ok may_report_def retired_in_def accept_ota_status_def)
  show "pl_registration_id req = i \<Longrightarrow> fst (accept_poll req now st) \<noteq> Inr False"
    using r by (auto simp: accept_poll_def poll_registered_def retired_in_def Let_def split: option.split)
qed

text \<open>
  C30: a replaced loader never regains authority. Once a registration is replaced (or forgotten)
  in a reachable state, then after any further operations at any times, every status report
  and every upgrade report under it is refused, and a poll under it is refused or answered as a
  conflict.
\<close>

theorem replaced_never_accepted:
  assumes "reachable s" "retired i s" "registry_steps s t"
    and "sr_registration_id rep = i" "pl_registration_id req = i"
  shows "\<not> is_ok (fst (accept_status rep now (reg t))) \<and>
    \<not> is_ok (fst (accept_ota_status rep now (reg t))) \<and>
    fst (accept_poll req now (reg t)) \<noteq> Inr False"
proof -
  note inv = reachable_inv [OF assms(1)]
  have "retired_in i (reg t)" "distinct_registry (reg t)"
    using retired_steps [OF assms(3) inv assms(2)] registry_invD(1) [OF steps_inv [OF assms(3) inv]]
    by (simp_all add: retired_def)
  with retired_refused assms(4,5) show ?thesis by blast
qed

lemma demo_run2_retired: "retired ''a'' demo_run2"
  by (simp add: retired_def retired_in_def demo_loader_defs Let_def)

lemma replaced_never_accepted_witness:
  "\<not> is_ok (fst (accept_status (demo_report ''a'') 7 (reg demo_run2)))"
proof -
  have "reachable demo_run2"
    unfolding reachable_def
    using demo_steps [OF demo_run1_reachable, of "''b''" 5] by (simp add: demo_run2_def demo_run1_def)
  from replaced_never_accepted [OF this demo_run2_retired registry_steps.none,
      of "demo_report ''a''" "demo_poll ''a''" 7]
  show ?thesis by (simp add: demo_report_def demo_poll_def)
qed

text \<open>
  At most one loader has authority over an address. If reports for one address are accepted
  from one state, they carry the same registration, even at different times.
\<close>

theorem single_authority:
  assumes "distinct_registry st" "is_ok (fst (accept_status rep now st))"
    and "is_ok (fst (accept_status rep' now' st))" "sr_mac_address rep = sr_mac_address rep'"
  shows "sr_registration_id rep = sr_registration_id rep' \<and>
    sr_protocol_version rep = sr_protocol_version rep'"
proof -
  have d: "keys_distinct (devices st)" using assms(1) by (simp add: distinct_registry_def)
  show ?thesis
    using assms(2-4)
    by (auto simp: accept_status_ok may_report_def prune_devices [OF d] pruned_device_def
        split: option.splits if_splits)
qed

lemma demo_run2_accepts: "is_ok (fst (accept_status (demo_report ''b'') 7 (reg demo_run2)))"
  by (simp add: accept_status_ok may_report_def demo_report_def demo_loader_defs Let_def)

lemma demo_run2_distinct: "distinct_registry (reg demo_run2)"
  by (simp add: distinct_registry_def keys_distinct_def demo_loader_defs Let_def)

lemma single_authority_witness:
  "\<exists>rep. is_ok (fst (accept_status rep 8 (reg demo_run2))) \<and>
     sr_registration_id (demo_report ''b'') = sr_registration_id rep"
proof -
  let ?rep = "(demo_report ''b'')\<lparr>sr_session_id := ''other''\<rparr>"
  have ok: "is_ok (fst (accept_status ?rep 8 (reg demo_run2)))"
    by (simp add: accept_status_ok may_report_def demo_report_def demo_loader_defs Let_def)
  have "sr_mac_address (demo_report ''b'') = sr_mac_address ?rep" by (simp add: demo_report_def)
  from single_authority [OF demo_run2_distinct demo_run2_accepts ok this] ok show ?thesis by blast
qed

lemma keys_after_poll:
  "distinct_registry st \<Longrightarrow> distinct_registry (snd (poll_registered req r now st))"
  by (auto simp: poll_registered_def record_poll_def Let_def distinct_registry_def map_registration_def
      map_device_def split: option.split)

lemma poll_grants:
  assumes "accept_poll req now st = (Inr False, st')" "distinct_registry st"
  obtains r d where "map_of (registrations st') (pl_registration_id req) = Some r"
    "rg_mac_address r = pl_mac_address req" "rg_protocol_version r = pl_protocol_version req"
    "superseded_at r = None" "rg_last_seen_at r = Some now"
    "map_of (devices st') (pl_mac_address req) = Some d" "dv_last_seen_at d = now"
    "dv_protocol_version d = pl_protocol_version req" "\<not> conflict d"
    "current_registration_id d = pl_registration_id req"
    "\<not> has_live_superseded_report st' (pl_mac_address req) now" "distinct_registry st'"
    "known_version (pl_protocol_version req)"
proof -
  let ?rid = "pl_registration_id req" and ?mac = "pl_mac_address req"
  from assms(1) obtain r where known: "known_version (pl_protocol_version req)"
    and r: "map_of (registrations (prune st now)) ?rid = Some r" "rg_mac_address r = ?mac"
      "rg_protocol_version r = pl_protocol_version req"
    and poll: "poll_registered req r now (prune st now) = (Inr False, st')"
    by (auto simp: accept_poll_def Let_def split: if_splits option.splits)
  define s2 where "s2 = map_registration ?rid (\<lambda>r. r\<lparr>rg_last_seen_at := Some now\<rparr>) (prune st now)"
  have r2: "map_of (registrations s2) ?rid = Some (r\<lparr>rg_last_seen_at := Some now\<rparr>)"
    using r(1) by (simp add: s2_def map_registration_lookup)
  from poll have fresh: "superseded_at r = None"
    by (auto simp: poll_registered_def Let_def split: if_splits)
  from poll obtain s3 where s3: "record_poll req now s3 = (Inr False, st')"
    and r3: "map_of (registrations s3) ?rid = Some (r\<lparr>rg_last_seen_at := Some now\<rparr>)"
    using r2 fresh
    by (auto simp: poll_registered_def Let_def s2_def [symmetric] map_registration_lookup
        split: if_splits option.splits)
  have dist: "distinct_registry st'"
    using keys_after_poll [OF prune_distinct [OF assms(2), of now], of req r now] poll by simp
  from s3 r3 r fresh dist known that show ?thesis
    by (auto simp: record_poll_def Let_def map_of_update has_live_superseded_report_def)
qed

text \<open>
  A poll answered without conflict gives authority. When \<open>accept_poll\<close> answers \<open>Ok(false)\<close>, a
  report of the same registration, address and version at that time is accepted, and the
  registration the device had before, if it was another one still recorded, is replaced.
\<close>

theorem poll_gives_authority:
  assumes "accept_poll req now st = (Inr False, st')" "distinct_registry st"
    and "sr_registration_id rep = pl_registration_id req" "sr_mac_address rep = pl_mac_address req"
    and "sr_protocol_version rep = pl_protocol_version req"
  shows "is_ok (fst (accept_status rep now st'))"
proof -
  from poll_grants [OF assms(1,2)] obtain r d where
    g: "map_of (registrations st') (pl_registration_id req) = Some r"
    "rg_mac_address r = pl_mac_address req" "rg_protocol_version r = pl_protocol_version req"
    "superseded_at r = None" "rg_last_seen_at r = Some now"
    "map_of (devices st') (pl_mac_address req) = Some d" "dv_last_seen_at d = now"
    "dv_protocol_version d = pl_protocol_version req" "\<not> conflict d"
    "current_registration_id d = pl_registration_id req"
    "\<not> has_live_superseded_report st' (pl_mac_address req) now" "distinct_registry st'"
    "known_version (pl_protocol_version req)" .
  from g(12) have dist: "keys_distinct (registrations st')" "keys_distinct (devices st')"
    by (simp_all add: distinct_registry_def)
  have "map_of (registrations (prune st' now)) (pl_registration_id req) = Some r"
    using g(1,5) by (simp add: prune_registrations [OF dist(1)] keep_registration_def RECORD_RETENTION_def)
  moreover have "map_of (devices (prune st' now)) (pl_mac_address req) = Some (d\<lparr>conflict := False\<rparr>)"
    using g(6,7,9,11)
    by (simp add: prune_devices [OF dist(2)] pruned_device_def RECORD_RETENTION_def live_prune [OF dist(1)])
  ultimately show ?thesis
    using g assms(3-5) by (simp add: accept_status_ok may_report_def)
qed

lemma poll_gives_authority_witness:
  "is_ok (fst (accept_status (demo_report ''a'') 1 (reg demo_run1)))"
proof (rule poll_gives_authority)
  show "accept_poll (demo_poll ''a'') 1 (snd (offer ''srv'' demo_probe ''u'' ''a'' 0 registry_new)) =
      (Inr False, reg demo_run1)"
    by (simp add: demo_loader_defs Let_def)
  show "distinct_registry (snd (offer ''srv'' demo_probe ''u'' ''a'' 0 registry_new))"
    by (simp add: distinct_registry_def keys_distinct_def demo_loader_defs Let_def)
qed (simp_all add: demo_report_def demo_poll_def)

text \<open>
  The registration handed to the upgrade path is usable. When \<open>legacy_ota_registration\<close>
  returns a registration for an address, an upgrade report for that registration and address at
  that time is accepted.
\<close>

theorem legacy_registration_accepted:
  assumes "legacy_ota_registration m now st = (Some i, st')" "distinct_registry st"
    and "sr_registration_id rep = i" "sr_mac_address rep = m"
    and "sr_protocol_version rep = PROTOCOL_VERSION"
  shows "is_ok (fst (accept_ota_status rep now st'))"
proof -
  have st': "st' = prune st now"
    using assms(1) by (auto simp: legacy_ota_registration_def Let_def)
  from assms(1) obtain d r where d: "map_of (devices (prune st now)) m = Some d"
    "dv_protocol_version d = PROTOCOL_VERSION" "\<not> conflict d" "current_registration_id d = i"
    "map_of (registrations (prune st now)) i = Some r" "rg_protocol_version r = PROTOCOL_VERSION"
    "rg_mac_address r = m" "superseded_at r = None"
    by (auto simp: legacy_ota_registration_def Let_def split: option.splits if_splits)
  have "keys_distinct (registrations st)" using assms(2) by (simp add: distinct_registry_def)
  with d assms(3-5) show ?thesis
    by (simp add: st' accept_ota_status_def accept_status_ok may_report_def known_version_def
        prune_twice_registrations prune_twice_devices [OF assms(2)])
qed

lemma legacy_registration_accepted_witness:
  "is_ok (fst (accept_ota_status (demo_report ''b'') 7
     (snd (legacy_ota_registration mac_zero 7 (reg demo_run2)))))"
proof (rule legacy_registration_accepted)
  show "legacy_ota_registration mac_zero 7 (reg demo_run2) =
      (Some ''b'', snd (legacy_ota_registration mac_zero 7 (reg demo_run2)))"
    by (simp add: legacy_ota_registration_def demo_loader_defs Let_def)
qed (simp_all add: demo_run2_distinct demo_report_def PROTOCOL_VERSION_def mac_zero_def)

end
