(* ===== verification/Board_Pool.thy ===== *)
theory Board_Pool
  imports Assoc_Map Rust_Text
begin

text \<open>
  Board configurations (\<open>ostool-server/src/config.rs\<close>) and the allocation of a board to a
  session (\<open>ostool-server/src/board_pool.rs\<close>).

  \<open>board_config\<close> keeps the fields the pool and the lease manager look at; the serial port, the
  network identity, the notes and the contents of the boot profiles are not read by them. A
  \<open>BTreeMap\<close> of boards is an association list, a \<open>BTreeSet\<close> of board ids a list of ids.
  \<open>allocate_board\<close> returns \<open>None\<close> where the code panics in \<open>unreachable!\<close>.
\<close>

section \<open>Configuration\<close>

datatype serial_port_key_kind = SerialNumber | UsbId | UsbPath | QemuPort

record serial_port_key =
  key_kind :: serial_port_key_kind
  key_value :: string

datatype power_management =
    CustomPower string string
  | ZhongshengRelay serial_port_key
  | Qemu string

datatype boot_config = Uboot | Pxe | UefiHttp

record board_config =
  bc_id :: string
  board_type :: string
  tags :: "string list"
  power_management :: power_management
  boot :: boot_config
  disabled :: bool

section \<open>Allocation\<close>

datatype allocation_status = BoardTypeNotFound | NoAvailableBoard

datatype allocation_with_id_status =
    IdBoardTypeNotFound
  | BoardNotFound
  | BoardTypeMismatch string string string
  | IdNoAvailableBoard

definition has_tags :: "string list \<Rightarrow> board_config \<Rightarrow> bool" where
  "has_tags required b \<longleftrightarrow> list_all (\<lambda>t. t \<in> set (tags b)) required"

definition allocate_board_impl ::
    "(string, board_config) amap \<Rightarrow> string list \<Rightarrow> string \<Rightarrow> string option \<Rightarrow> string list \<Rightarrow>
      allocation_with_id_status + board_config" where
  "allocate_board_impl boards leased ty board_id required =
     (case board_id of
        Some i \<Rightarrow>
          (case map_of boards i of
             None \<Rightarrow> Inl BoardNotFound
           | Some b \<Rightarrow>
               if board_type b \<noteq> ty then Inl (BoardTypeMismatch i ty (board_type b))
               else if disabled b \<or> bc_id b \<in> set leased \<or> \<not> has_tags required b
               then Inl IdNoAvailableBoard
               else Inr b)
      | None \<Rightarrow>
          let matching = filter (has_tags required)
                (filter (\<lambda>b. board_type b = ty) (filter (\<lambda>b. \<not> disabled b) (bt_values boards)))
          in if matching = [] then
               if list_ex (\<lambda>b. \<not> disabled b \<and> board_type b = ty) (bt_values boards)
               then Inl IdNoAvailableBoard else Inl IdBoardTypeNotFound
             else case find (\<lambda>b. bc_id b \<notin> set leased) matching of
               None \<Rightarrow> Inl IdNoAvailableBoard
             | Some b \<Rightarrow> Inr b)"

definition allocate_board ::
    "(string, board_config) amap \<Rightarrow> string list \<Rightarrow> string \<Rightarrow> string list \<Rightarrow>
      (allocation_status + board_config) option" where
  "allocate_board boards leased ty required =
     (case allocate_board_impl boards leased ty None required of
        Inr b \<Rightarrow> Some (Inr b)
      | Inl IdBoardTypeNotFound \<Rightarrow> Some (Inl BoardTypeNotFound)
      | Inl IdNoAvailableBoard \<Rightarrow> Some (Inl NoAvailableBoard)
      | Inl _ \<Rightarrow> None)"

definition allocate_board_with_board_id ::
    "(string, board_config) amap \<Rightarrow> string list \<Rightarrow> string \<Rightarrow> string \<Rightarrow> string list \<Rightarrow>
      allocation_with_id_status + board_config" where
  "allocate_board_with_board_id boards leased ty board_id required =
     allocate_board_impl boards leased ty (Some (trim board_id)) required"

section \<open>Lemmas\<close>

text \<open>A board that a request can be given: enabled, of the type, with the tags, not leased.\<close>

definition eligible :: "string \<Rightarrow> string list \<Rightarrow> board_config \<Rightarrow> bool" where
  "eligible ty required b \<longleftrightarrow> \<not> disabled b \<and> board_type b = ty \<and> has_tags required b"

text \<open>What the server keeps of its board map: every board is filed under its own id.\<close>

definition filed :: "(string, board_config) amap \<Rightarrow> bool" where
  "filed boards \<longleftrightarrow> keys_distinct boards \<and> list_all (\<lambda>(k, b). bc_id b = k) boards"

lemma filed_map_of: "filed boards \<Longrightarrow> map_of boards k = Some b \<Longrightarrow> bc_id b = k"
  by (auto simp: filed_def list_all_iff dest!: map_of_SomeD)

lemma bt_values_map_of:
  "keys_distinct boards \<Longrightarrow> b \<in> set (bt_values boards) \<longleftrightarrow> (\<exists>k. map_of boards k = Some b)"
  by (force simp: bt_values_set keys_distinct_def)

lemma filed_bt_values:
  "filed boards \<Longrightarrow> b \<in> set (bt_values boards) \<longleftrightarrow> map_of boards (bc_id b) = Some b"
  by (metis bt_values_map_of filed_def filed_map_of)

lemma bt_values_sorted:
  "filed boards \<Longrightarrow> sorted_wrt (\<lambda>a b. bc_id a \<le> bc_id b) (bt_values boards)"
proof -
  assume f: "filed boards"
  have "sorted (map fst (sort_key fst boards))"
    by (rule sorted_sort_key)
  moreover have "map fst (sort_key fst boards) = map bc_id (bt_values boards)"
    using f by (auto simp: bt_values_def filed_def list_all_iff)
  ultimately show ?thesis
    by (simp add: sorted_wrt_map)
qed

lemma find_sorted_least:
  assumes "sorted_wrt (\<lambda>a b. f a \<le> f b) xs" "find P xs = Some x" "y \<in> set xs" "P y"
  shows "(f x :: 'b :: linorder) \<le> f y"
  using assms by (induction xs) (auto split: if_splits)

lemma allocate_impl_any:
  "allocate_board_impl boards leased ty None required =
     (let matching = filter (eligible ty required) (bt_values boards) in
      if list_all (\<lambda>b. disabled b \<or> board_type b \<noteq> ty) (bt_values boards) then Inl IdBoardTypeNotFound
      else case find (\<lambda>b. bc_id b \<notin> set leased) matching of
        None \<Rightarrow> Inl IdNoAvailableBoard | Some b \<Rightarrow> Inr b)"
proof -
  have m: "filter (has_tags required)
      (filter (\<lambda>b. board_type b = ty) (filter (\<lambda>b. \<not> disabled b) (bt_values boards))) =
      filter (eligible ty required) (bt_values boards)"
    by (auto simp: eligible_def intro: filter_cong)
  have e: "list_ex (\<lambda>b. \<not> disabled b \<and> board_type b = ty) (bt_values boards) \<longleftrightarrow>
      \<not> list_all (\<lambda>b. disabled b \<or> board_type b \<noteq> ty) (bt_values boards)"
    by (auto simp: list_ex_iff list_all_iff)
  have none: "list_all (\<lambda>b. disabled b \<or> board_type b \<noteq> ty) (bt_values boards) \<Longrightarrow>
      filter (eligible ty required) (bt_values boards) = []"
    by (auto simp: list_all_iff eligible_def filter_empty_conv)
  show ?thesis
    unfolding allocate_board_impl_def option.case m e Let_def using none by auto
qed

lemma list_all_bt:
  "filed boards \<Longrightarrow> list_all P (bt_values boards) \<longleftrightarrow> (\<forall>b. map_of boards (bc_id b) = Some b \<longrightarrow> P b)"
  by (auto simp: list_all_iff filed_bt_values)

lemma allocate_impl_any_Inr:
  assumes "filed boards"
  shows "allocate_board_impl boards leased ty None required = Inr b \<longleftrightarrow>
     map_of boards (bc_id b) = Some b \<and> eligible ty required b \<and> bc_id b \<notin> set leased \<and>
     (\<forall>c. map_of boards (bc_id c) = Some c \<and> eligible ty required c \<and> bc_id c \<notin> set leased \<longrightarrow>
        bc_id b \<le> bc_id c)"
  (is "?L \<longleftrightarrow> ?R")
proof -
  let ?M = "filter (eligible ty required) (bt_values boards)"
  let ?free = "\<lambda>b. bc_id b \<notin> set leased"
  have mem: "c \<in> set ?M \<longleftrightarrow> map_of boards (bc_id c) = Some c \<and> eligible ty required c" for c
    using assms by (auto simp: filed_bt_values)
  have srt: "sorted_wrt (\<lambda>a b. bc_id a \<le> bc_id b) ?M"
    using bt_values_sorted [OF assms] by (rule sorted_wrt_filter)
  have type: "c \<in> set ?M \<Longrightarrow> \<not> list_all (\<lambda>b. disabled b \<or> board_type b \<noteq> ty) (bt_values boards)" for c
    by (auto simp: list_all_iff eligible_def)
  have found: "?L \<longleftrightarrow> find ?free ?M = Some b"
  proof
    show "?L \<Longrightarrow> find ?free ?M = Some b"
      by (auto simp: allocate_impl_any Let_def split: if_splits option.splits)
  next
    assume f: "find ?free ?M = Some b"
    then have "b \<in> set ?M" by (blast dest: find_SomeD)
    from type [OF this] f show ?L by (simp add: allocate_impl_any)
  qed
  show ?thesis
  proof
    assume ?L
    with found have f: "find ?free ?M = Some b" by simp
    then have b: "b \<in> set ?M" "?free b" by (blast dest: find_SomeD)+
    with find_sorted_least [OF srt f] mem show ?R by auto
  next
    assume r: ?R
    then have b: "b \<in> set ?M" "?free b" using mem by auto
    then obtain x where x: "find ?free ?M = Some x"
      by (cases "find ?free ?M") (auto simp: find_None_iff)
    then have xm: "x \<in> set ?M" "?free x" by (blast dest: find_SomeD)+
    from find_sorted_least [OF srt x b] have "bc_id x \<le> bc_id b" .
    moreover from r xm mem have "bc_id b \<le> bc_id x" by auto
    ultimately have "bc_id x = bc_id b" by simp
    with xm b mem have "x = b" by (metis option.inject)
    with x found show ?L by simp
  qed
qed

lemma allocate_impl_any_Inl:
  assumes "filed boards"
  shows "allocate_board_impl boards leased ty None required = Inl e \<longleftrightarrow>
     (if \<exists>b. map_of boards (bc_id b) = Some b \<and> \<not> disabled b \<and> board_type b = ty
      then e = IdNoAvailableBoard \<and> (\<forall>b. map_of boards (bc_id b) = Some b \<and> eligible ty required b \<longrightarrow>
        bc_id b \<in> set leased)
      else e = IdBoardTypeNotFound)"
proof -
  let ?M = "filter (eligible ty required) (bt_values boards)"
  have none: "find (\<lambda>b. bc_id b \<notin> set leased) ?M = None \<longleftrightarrow>
     (\<forall>b. map_of boards (bc_id b) = Some b \<and> eligible ty required b \<longrightarrow> bc_id b \<in> set leased)"
    using assms by (auto simp: find_None_iff filed_bt_values)
  have all: "list_all (\<lambda>b. disabled b \<or> board_type b \<noteq> ty) (bt_values boards) \<longleftrightarrow>
     \<not> (\<exists>b. map_of boards (bc_id b) = Some b \<and> \<not> disabled b \<and> board_type b = ty)"
    using assms by (auto simp: list_all_bt)
  show ?thesis
    unfolding allocate_impl_any all none [symmetric] Let_def
    by (auto split: option.splits)
qed

lemma allocate_impl_id_Inr:
  "allocate_board_impl boards leased ty (Some i) required = Inr b \<longleftrightarrow>
     map_of boards i = Some b \<and> eligible ty required b \<and> bc_id b \<notin> set leased"
  by (auto simp: allocate_board_impl_def eligible_def split: option.splits)

lemma allocate_board_total: "allocate_board boards leased ty required \<noteq> None"
  by (auto simp: allocate_board_def allocate_board_impl_def Let_def split: option.splits)

section \<open>Allocation is exact\<close>

text \<open>
  C34: \<open>allocate_board\<close> never panics. It returns the board with the least id among the enabled
  boards of the requested type that have the tags and are not leased; it reports that the type
  does not exist exactly when no enabled board has it, and that none is available exactly when
  the type exists and every suitable board is leased. With a board id it returns the board
  filed under the trimmed id exactly when that board is suitable and not leased.
\<close>

theorem allocate_board_correct:
  assumes "filed boards"
  shows "allocate_board boards leased ty required \<noteq> None \<and>
     (allocate_board boards leased ty required = Some (Inr b) \<longleftrightarrow>
       map_of boards (bc_id b) = Some b \<and> eligible ty required b \<and> bc_id b \<notin> set leased \<and>
       (\<forall>c. map_of boards (bc_id c) = Some c \<and> eligible ty required c \<and> bc_id c \<notin> set leased \<longrightarrow>
          bc_id b \<le> bc_id c)) \<and>
     (allocate_board boards leased ty required = Some (Inl BoardTypeNotFound) \<longleftrightarrow>
       \<not> (\<exists>c. map_of boards (bc_id c) = Some c \<and> \<not> disabled c \<and> board_type c = ty)) \<and>
     (allocate_board boards leased ty required = Some (Inl NoAvailableBoard) \<longleftrightarrow>
       (\<exists>c. map_of boards (bc_id c) = Some c \<and> \<not> disabled c \<and> board_type c = ty) \<and>
       (\<forall>c. map_of boards (bc_id c) = Some c \<and> eligible ty required c \<longrightarrow> bc_id c \<in> set leased)) \<and>
     (allocate_board_with_board_id boards leased ty i required = Inr b \<longleftrightarrow>
       map_of boards (trim i) = Some b \<and> eligible ty required b \<and> bc_id b \<notin> set leased)"
proof -
  let ?r = "allocate_board_impl boards leased ty None required"
  have Inr: "allocate_board boards leased ty required = Some (Inr b) \<longleftrightarrow> ?r = Inr b" for b
    by (auto simp: allocate_board_def split: sum.splits allocation_with_id_status.splits)
  have nf: "allocate_board boards leased ty required = Some (Inl BoardTypeNotFound) \<longleftrightarrow>
      ?r = Inl IdBoardTypeNotFound"
    by (auto simp: allocate_board_def split: sum.splits allocation_with_id_status.splits)
  have na: "allocate_board boards leased ty required = Some (Inl NoAvailableBoard) \<longleftrightarrow>
      ?r = Inl IdNoAvailableBoard"
    by (auto simp: allocate_board_def split: sum.splits allocation_with_id_status.splits)
  show ?thesis
    unfolding Inr nf na allocate_impl_any_Inr [OF assms] allocate_impl_any_Inl [OF assms]
      allocate_board_with_board_id_def allocate_impl_id_Inr
    using allocate_board_total by simp
qed

definition demo_board :: "string \<Rightarrow> board_config" where
  "demo_board i = \<lparr>bc_id = i, board_type = ''rpi4'', tags = [''usb''], power_management = Qemu ''vm'',
     boot = Uboot, disabled = False\<rparr>"

definition demo_boards :: "(string, board_config) amap" where
  "demo_boards = [(''b'', demo_board ''b''), (''a'', demo_board ''a'')]"

lemma demo_filed: "filed demo_boards"
  by code_simp

theorem allocate_board_correct_witness:
  "allocate_board demo_boards [''a''] ''rpi4'' [''usb''] = Some (Inr (demo_board ''b'')) \<and>
   allocate_board_with_board_id demo_boards [''a''] ''rpi4'' '' b '' [] = Inr (demo_board ''b'')"
proof
  show "allocate_board demo_boards [''a''] ''rpi4'' [''usb''] = Some (Inr (demo_board ''b''))"
    by code_simp
  have "map_of demo_boards (trim '' b '') = Some (demo_board ''b'') \<and>
      eligible ''rpi4'' [] (demo_board ''b'') \<and> bc_id (demo_board ''b'') \<notin> set [''a'']"
    by code_simp
  with allocate_board_correct [OF demo_filed, of "[''a'']" "''rpi4''" "[]" "demo_board ''b''" "'' b ''"]
  show "allocate_board_with_board_id demo_boards [''a''] ''rpi4'' '' b '' [] = Inr (demo_board ''b'')"
    by (elim conjE) (simp only: simp_thms)
qed

end
