(* ===== verification/Session.thy ===== *)
theory Session
  imports Board_Pool Httpboot_Protocol
begin

text \<open>
  A board session (\<open>ostool-server/src/session.rs\<close>): its heartbeat and expiry, the lifecycle
  \<open>Active\<close> to \<open>Releasing\<close>, the stop request and the command channel of its actor, the boot
  command it publishes and the loader's status of that boot.

  \<^item> Times are nanoseconds (\<open>DateTime<Utc>\<close>), passed as \<open>now\<close>.
  \<^item> \<open>lifecycle_state\<close> is the \<open>AtomicU8\<close>; \<open>begin_release\<close> is the compare-exchange on it. An
    operation on one atomic or under one lock is one function, so its result says which of two
    racing callers won.
  \<^item> \<open>commands\<close> is what the unbounded channel to the actor holds, \<open>None\<close> for a session without
    an actor. The serial runtime the session points to is a component of its own, so its status is
    not a field of the snapshot here.
  \<^item> \<open>boot_generation\<close> counts power changes; the code's \<open>checked_add\<close> panics at \<open>u64::MAX\<close>,
    which is \<open>None\<close> of \<open>change_power\<close>.
\<close>

definition SESSION_TTL :: int where "SESSION_TTL = 10 * 10 ^ 9"

definition SESSION_STATE_ACTIVE :: u8 where "SESSION_STATE_ACTIVE = 0"
definition SESSION_STATE_RELEASING :: u8 where "SESSION_STATE_RELEASING = 1"

datatype session_lifecycle_state = Active | LcReleasing

fun lifecycle_as_u8 :: "session_lifecycle_state \<Rightarrow> u8" where
  "lifecycle_as_u8 Active = SESSION_STATE_ACTIVE"
| "lifecycle_as_u8 LcReleasing = SESSION_STATE_RELEASING"

definition lifecycle_from_u8 :: "u8 \<Rightarrow> session_lifecycle_state" where
  "lifecycle_from_u8 v = (if v = SESSION_STATE_RELEASING then LcReleasing else Active)"

datatype session_stop_reason = ApiDelete | SerialClosed | BootFailed | Expired | Dropped

record session =
  session_id :: string
  session_board_id :: string
  client_name :: "string option"
  created_at :: int
  last_heartbeat_at :: int
  expires_at :: int
  info_serial_connected :: bool
  info_state :: session_lifecycle_state

definition session_new_with_id :: "int \<Rightarrow> string \<Rightarrow> string \<Rightarrow> string option \<Rightarrow> session" where
  "session_new_with_id now i board client =
     \<lparr>session_id = i, session_board_id = board, client_name = client, created_at = now,
      last_heartbeat_at = now, expires_at = now + SESSION_TTL, info_serial_connected = False,
      info_state = Active\<rparr>"

definition touch :: "int \<Rightarrow> session \<Rightarrow> session" where
  "touch now s = s\<lparr>last_heartbeat_at := now, expires_at := now + SESSION_TTL\<rparr>"

section \<open>State\<close>

record boot_file =
  bf_path :: string
  bf_size :: u64
  bf_sha256 :: string

record session_boot_command =
  boot_id :: string
  kernel_path :: string
  kernel_size :: u64
  kernel_sha256 :: string
  cmd_arch :: boot_arch
  cmd_image_format :: image_format
  entry_symbol :: "string option"
  initramfs :: "boot_file option"
  cmdline :: "string option"

record loader_status_response =
  lr_session_id :: string
  lr_boot_id :: string
  lr_registration_id :: "string option"
  lr_status :: "status_phase option"

record session_loader_state =
  boot_command :: "session_boot_command option"
  loader_response :: "loader_status_response option"

datatype loader_status_update_error = NoBootCommand | StaleBoot

record session_state =
  boot_generation :: u64
  info :: session
  session_board :: board_config
  shutdown :: bool
  lifecycle_state :: u8
  stop_requested :: bool
  serial_connected :: bool
  loader :: session_loader_state
  commands :: "session_stop_reason list option"

definition session_new_inner ::
    "int \<Rightarrow> string \<Rightarrow> board_config \<Rightarrow> string option \<Rightarrow> session_stop_reason list option \<Rightarrow> session_state"
  where
  "session_new_inner now i board client command_tx =
     \<lparr>boot_generation = 0, info = session_new_with_id now i (bc_id board) client,
      session_board = board, shutdown = False, lifecycle_state = lifecycle_as_u8 Active,
      stop_requested = False, serial_connected = False,
      loader = \<lparr>boot_command = None, loader_response = None\<rparr>, commands = command_tx\<rparr>"

definition session_new_with_actor ::
    "int \<Rightarrow> string \<Rightarrow> board_config \<Rightarrow> string option \<Rightarrow> session_state" where
  "session_new_with_actor now i board client = session_new_inner now i board client (Some [])"

section \<open>Operations\<close>

definition change_power :: "session_state \<Rightarrow> session_state option" where
  "change_power s =
     (if boot_generation s = - 1 then None
      else Some (s\<lparr>boot_generation := boot_generation s + 1\<rparr>))"

definition lifecycle :: "session_state \<Rightarrow> session_lifecycle_state" where
  "lifecycle s = lifecycle_from_u8 (lifecycle_state s)"

definition session_snapshot :: "session_state \<Rightarrow> session" where
  "session_snapshot s = (info s)\<lparr>info_serial_connected := serial_connected s, info_state := lifecycle s\<rparr>"

definition session_heartbeat :: "int \<Rightarrow> session_state \<Rightarrow> session \<times> session_state" where
  "session_heartbeat now s =
     (let i = (touch now (info s))\<lparr>info_serial_connected := serial_connected s, info_state := lifecycle s\<rparr>
      in (i, s\<lparr>info := i\<rparr>))"

definition begin_release :: "session_state \<Rightarrow> bool \<times> session_state" where
  "begin_release s =
     (if lifecycle_state s = lifecycle_as_u8 Active
      then (True, s\<lparr>lifecycle_state := lifecycle_as_u8 LcReleasing\<rparr>) else (False, s))"

definition is_releasing :: "session_state \<Rightarrow> bool" where
  "is_releasing s \<longleftrightarrow> lifecycle s = LcReleasing"

definition send_command :: "session_stop_reason \<Rightarrow> session_state \<Rightarrow> session_state" where
  "send_command reason s = s\<lparr>commands := map_option (\<lambda>q. q @ [reason]) (commands s)\<rparr>"

definition request_stop :: "session_stop_reason \<Rightarrow> session_state \<Rightarrow> session_state" where
  "request_stop reason s =
     (if is_releasing s then s
      else if stop_requested s then s
      else send_command reason (s\<lparr>stop_requested := True\<rparr>))"

definition signal_shutdown :: "session_state \<Rightarrow> session_state" where
  "signal_shutdown s = s\<lparr>shutdown := True\<rparr>"

definition try_set_serial_connected :: "session_state \<Rightarrow> bool \<times> session_state" where
  "try_set_serial_connected s =
     (if serial_connected s then (False, s) else (True, s\<lparr>serial_connected := True\<rparr>))"

definition set_serial_connected :: "bool \<Rightarrow> session_state \<Rightarrow> session_state" where
  "set_serial_connected c s = s\<lparr>serial_connected := c\<rparr>"

definition clear_serial_connected :: "session_state \<Rightarrow> session_state" where
  "clear_serial_connected s = s\<lparr>serial_connected := False\<rparr>"

definition publish_boot_command :: "session_boot_command \<Rightarrow> session_state \<Rightarrow> session_state" where
  "publish_boot_command c s = s\<lparr>loader := \<lparr>boot_command = Some c, loader_response = None\<rparr>\<rparr>"

definition update_loader_status ::
    "string \<Rightarrow> string \<Rightarrow> status_phase \<Rightarrow> session_state \<Rightarrow>
      (loader_status_update_error + unit) \<times> session_state" where
  "update_loader_status registration bid status s =
     (case boot_command (loader s) of
        None \<Rightarrow> (Inl NoBootCommand, s)
      | Some c \<Rightarrow>
          if boot_id c \<noteq> bid then (Inl StaleBoot, s)
          else (Inr (), s\<lparr>loader := (loader s)\<lparr>loader_response := Some
            \<lparr>lr_session_id = session_id (info s), lr_boot_id = bid,
             lr_registration_id = Some registration, lr_status = Some status\<rparr>\<rparr>\<rparr>))"

definition loader_status :: "session_state \<Rightarrow> loader_status_response option" where
  "loader_status s =
     (case loader_response (loader s) of
        Some r \<Rightarrow> Some r
      | None \<Rightarrow> map_option (\<lambda>c.
          \<lparr>lr_session_id = session_id (info s), lr_boot_id = boot_id c,
           lr_registration_id = None, lr_status = None\<rparr>) (boot_command (loader s)))"

definition session_drop :: "session_state \<Rightarrow> session_state" where
  "session_drop s = (if lifecycle s \<noteq> Active then s else send_command Dropped s)"

section \<open>The session as a machine\<close>

datatype session_op =
    OpHeartbeat int
  | OpRequestStop session_stop_reason
  | OpBeginRelease
  | OpSignalShutdown
  | OpTrySerial
  | OpSetSerial bool
  | OpClearSerial
  | OpPublish session_boot_command
  | OpLoaderStatus string string status_phase
  | OpChangePower

fun session_step :: "session_state \<Rightarrow> session_op \<Rightarrow> session_state" where
  "session_step s (OpHeartbeat now) = snd (session_heartbeat now s)"
| "session_step s (OpRequestStop reason) = request_stop reason s"
| "session_step s OpBeginRelease = snd (begin_release s)"
| "session_step s OpSignalShutdown = signal_shutdown s"
| "session_step s OpTrySerial = snd (try_set_serial_connected s)"
| "session_step s (OpSetSerial c) = set_serial_connected c s"
| "session_step s OpClearSerial = clear_serial_connected s"
| "session_step s (OpPublish c) = publish_boot_command c s"
| "session_step s (OpLoaderStatus registration bid status) =
     snd (update_loader_status registration bid status s)"
| "session_step s OpChangePower = unwrap_or (change_power s) s"

lemmas session_op_defs =
  session_heartbeat_def request_stop_def begin_release_def signal_shutdown_def
  try_set_serial_connected_def set_serial_connected_def clear_serial_connected_def
  publish_boot_command_def update_loader_status_def change_power_def send_command_def

lemma lifecycle_code_cases [simp]:
  "lifecycle_as_u8 l = SESSION_STATE_ACTIVE \<longleftrightarrow> l = Active"
  "lifecycle_from_u8 SESSION_STATE_ACTIVE = Active"
  "lifecycle_from_u8 SESSION_STATE_RELEASING = LcReleasing"
  by (cases l; simp add: SESSION_STATE_ACTIVE_def SESSION_STATE_RELEASING_def lifecycle_from_u8_def)+

text \<open>
  What every operation keeps: the lifecycle byte is a state's code, the loader's answer is about
  the boot command that is published, and a command was sent only after a stop was requested, at
  most one.
\<close>

definition session_ok :: "session_state \<Rightarrow> bool" where
  "session_ok s \<longleftrightarrow>
     (lifecycle_state s = SESSION_STATE_ACTIVE \<or> lifecycle_state s = SESSION_STATE_RELEASING) \<and>
     is_none_or (loader_response (loader s)) (\<lambda>r.
       lr_session_id r = session_id (info s) \<and> lr_registration_id r \<noteq> None \<and> lr_status r \<noteq> None \<and>
       is_some_and (boot_command (loader s)) (\<lambda>c. boot_id c = lr_boot_id r)) \<and>
     is_none_or (commands s) (\<lambda>q. length q \<le> of_bool (stop_requested s))"

lemma session_ok_new:
  "length (unwrap_or q []) = 0 \<Longrightarrow> session_ok (session_new_inner now i board client q)"
  by (cases q) (simp_all add: session_ok_def session_new_inner_def)

lemma session_ok_step: "session_ok s \<Longrightarrow> session_ok (session_step s e)"
  by (cases e)
    (auto simp: session_ok_def session_op_defs is_none_or_iff is_some_and_iff touch_def Let_def
      unwrap_or_def split: option.splits)

lemma session_id_step: "session_id (info (session_step s e)) = session_id (info s)"
  by (cases e) (auto simp: session_op_defs touch_def Let_def unwrap_or_def split: option.splits)

lemma session_board_step:
  "session_board (session_step s e) = session_board s \<and>
   session_board_id (info (session_step s e)) = session_board_id (info s)"
  by (cases e) (auto simp: session_op_defs touch_def Let_def unwrap_or_def split: option.splits)

lemma releasing_step: "is_releasing s \<Longrightarrow> is_releasing (session_step s e)"
  by (cases e)
    (auto simp: is_releasing_def lifecycle_def session_op_defs Let_def unwrap_or_def
      split: option.splits)

lemma releasing_commands:
  "is_releasing s \<Longrightarrow> commands (session_step s e) = commands s"
  by (cases e)
    (auto simp: is_releasing_def lifecycle_def session_op_defs Let_def unwrap_or_def
      split: option.splits)

interpretation session_machine: absorbing_machine session_step session_ok
    is_releasing "\<lambda>s. (session_id (info s), session_board s, commands s)"
  by unfold_locales
    (simp_all add: session_ok_step releasing_step session_id_step session_board_step releasing_commands)

section \<open>Properties of a session\<close>

text \<open>
  The loader status a session reports is about the boot it has published last: through any
  sequence of operations on a new session, \<open>loader_status\<close> names this session and the id of the
  published command, it is empty exactly when nothing was published, a status for another boot
  is refused without any effect, and publishing a new command forgets the status of the old one.
\<close>

theorem session_status_current:
  fixes ops :: "session_op list"
  assumes "s = foldl session_step (session_new_with_actor now i board client) ops"
  shows "(case loader_status s of
       None \<Rightarrow> boot_command (loader s) = None
     | Some r \<Rightarrow> lr_session_id r = i \<and>
         map_option boot_id (boot_command (loader s)) = Some (lr_boot_id r)) \<and>
     (map_option boot_id (boot_command (loader s)) \<noteq> Some bid \<longrightarrow>
       (\<exists>e. update_loader_status registration bid status s = (Inl e, s))) \<and>
     loader_status (publish_boot_command c s) =
       Some \<lparr>lr_session_id = i, lr_boot_id = boot_id c, lr_registration_id = None, lr_status = None\<rparr>"
proof (intro conjI)
  let ?s0 = "session_new_with_actor now i board client"
  have "session_ok ?s0"
    by (simp add: session_new_with_actor_def session_ok_new)
  then have ok: "session_ok s"
    using session_machine.run_inv assms by simp
  have "session_id (info (foldl session_step t ops)) = session_id (info t)" for t
    by (induction ops arbitrary: t) (simp_all add: session_id_step)
  then have i: "session_id (info s) = i"
    using assms by (simp add: session_new_with_actor_def session_new_inner_def session_new_with_id_def)
  from ok i show "case loader_status s of
       None \<Rightarrow> boot_command (loader s) = None
     | Some r \<Rightarrow> lr_session_id r = i \<and>
         map_option boot_id (boot_command (loader s)) = Some (lr_boot_id r)"
    by (auto simp: loader_status_def session_ok_def is_some_and_iff split: option.splits)
  show "map_option boot_id (boot_command (loader s)) \<noteq> Some bid \<longrightarrow>
      (\<exists>e. update_loader_status registration bid status s = (Inl e, s))"
    by (auto simp: update_loader_status_def split: option.splits)
  show "loader_status (publish_boot_command c s) =
      Some \<lparr>lr_session_id = i, lr_boot_id = boot_id c, lr_registration_id = None, lr_status = None\<rparr>"
    using i by (simp add: loader_status_def publish_boot_command_def)
qed

definition demo_boot_command :: "string \<Rightarrow> session_boot_command" where
  "demo_boot_command b = \<lparr>boot_id = b, kernel_path = ''kernel'', kernel_size = 4096, kernel_sha256 = ''00'',
     cmd_arch = Riscv64, cmd_image_format = Elf64, entry_symbol = None, initramfs = None,
     cmdline = None\<rparr>"

definition demo_ops :: "session_op list" where
  "demo_ops = [OpPublish (demo_boot_command ''one''), OpLoaderStatus ''reg'' ''one'' StVerified,
     OpPublish (demo_boot_command ''two'')]"

theorem session_status_current_witness:
  "\<exists>e. update_loader_status ''reg'' ''one'' StReadyToHandoff
     (foldl session_step (session_new_with_actor 0 ''s'' (demo_board ''a'') None) demo_ops) =
     (Inl e, foldl session_step (session_new_with_actor 0 ''s'' (demo_board ''a'') None) demo_ops)"
proof -
  have "map_option boot_id (boot_command (loader
      (foldl session_step (session_new_with_actor 0 ''s'' (demo_board ''a'') None) demo_ops))) = Some ''two''"
    by (simp add: demo_ops_def publish_boot_command_def demo_boot_command_def)
  with session_status_current [OF refl, of 0 "''s''" "demo_board ''a''" None demo_ops "''one''" "''reg''"
      StReadyToHandoff]
  show ?thesis by simp
qed

end
