(* ===== verification/Lease_Manager.thy ===== *)
theory Lease_Manager
  imports Session
begin

text \<open>
  The lease manager of the server (\<open>ostool-server/src/state.rs\<close>): which session holds which
  board, how a session is created, stopped and released.

  \<^item> A session object is shared: the session table, the session's actor and its release job hold
    an \<open>Arc\<close> to it. \<open>heap\<close> is the list of session objects ever made and an \<open>Arc\<close> is an index
    into it; \<open>sessions\<close> is the table.
  \<^item> \<open>release_queue\<close> is the channel to the release coordinator, \<open>release_tasks\<close> the jobs it has
    spawned. The code's four local flags of a job are the fields of \<open>release_task\<close>.
  \<^item> One function is one lock-protected section or one round of a loop; the steps between them are
    interleaved by the step relation of \<open>Lease_Properties\<close>.
  \<^item> Two functions join two sections. \<open>create_round\<close> claims the board and inserts the session: the
    code holds the inventory gate over both, and until the insertion nobody else knows the new
    identifier. \<open>run_session_actor\<close> marks the session as releasing and then the runtime of its
    board: no other operation writes the runtime of a board that is in use by that session.
  \<^item> What the environment answers is an argument: the readings of the serial flag, the answer of
    the serial manager, of the power action and of the TFTP cleanup, per attempt, and the clock of
    a round of a release job. The panic of the power generation counter after \<open>2 ^ 64\<close> power
    changes is not followed here.
\<close>

section \<open>State\<close>

definition RELEASE_RETRY_ATTEMPTS :: nat where "RELEASE_RETRY_ATTEMPTS = 3"
definition ZHONGSHENG_RELEASE_SETTLE_DELAY :: int where
  "ZHONGSHENG_RELEASE_SETTLE_DELAY = 10 * 10 ^ 9"

datatype board_lease_state = LeaseIdle | LeaseUsing | LeaseReleasing | LeaseError

record board_runtime =
  lease_state :: board_lease_state
  active_session_id :: "string option"
  last_release_error :: "string option"
  updated_at :: int

definition runtime_default :: "int \<Rightarrow> board_runtime" where
  "runtime_default now =
     \<lparr>lease_state = LeaseIdle, active_session_id = None, last_release_error = None, updated_at = now\<rparr>"

type_synonym session_ref = nat

record release_task =
  task_session :: session_ref
  session_tasks_stopped :: bool
  board_powered_off :: bool
  release_settled :: bool
  tftp_cleaned :: bool

record app_state =
  boards :: "(string, board_config) amap"
  board_runtimes :: "(string, board_runtime) amap"
  sessions :: "(string, session_ref) amap"
  heap :: "session_state list"
  release_queue :: "(session_ref \<times> session_stop_reason) list"
  release_tasks :: "release_task list"

definition release_settle_delay :: "board_config \<Rightarrow> int option" where
  "release_settle_delay b =
     (case power_management b of
        ZhongshengRelay _ \<Rightarrow> Some ZHONGSHENG_RELEASE_SETTLE_DELAY
      | _ \<Rightarrow> None)"

definition initial_board_runtimes :: "int \<Rightarrow> (string, board_config) amap \<Rightarrow> (string, board_runtime) amap"
  where
  "initial_board_runtimes now bs = map (\<lambda>(k, b). (k, runtime_default now)) bs"

definition build_app_state :: "int \<Rightarrow> (string, board_config) amap \<Rightarrow> app_state" where
  "build_app_state now bs =
     \<lparr>boards = bs, board_runtimes = initial_board_runtimes now bs, sessions = [], heap = [],
      release_queue = [], release_tasks = []\<rparr>"

definition update_object :: "session_ref \<Rightarrow> (session_state \<Rightarrow> session_state) \<Rightarrow> app_state \<Rightarrow> app_state" where
  "update_object r f st = st\<lparr>heap := (heap st)[r := f (heap st ! r)]\<rparr>"

definition set_runtime :: "string \<Rightarrow> board_runtime \<Rightarrow> app_state \<Rightarrow> app_state" where
  "set_runtime b rt st = st\<lparr>board_runtimes := AList.update b rt (board_runtimes st)\<rparr>"

section \<open>Creating a session\<close>

definition claim_board_for_session :: "string \<Rightarrow> string \<Rightarrow> int \<Rightarrow> app_state \<Rightarrow> bool \<times> app_state" where
  "claim_board_for_session board sid now st =
     (case map_of (board_runtimes st) board of
        None \<Rightarrow> (False, st)
      | Some rt \<Rightarrow>
          if lease_state rt \<noteq> LeaseIdle then (False, st)
          else (True, set_runtime board (rt\<lparr>lease_state := LeaseUsing, active_session_id := Some sid,
                 last_release_error := None, updated_at := now\<rparr>) st))"

text \<open>
  The set of boards that cannot be given: those not idle, and those whose power resource has a
  running administrative action, which \<open>busy\<close> decides.
\<close>

definition unavailable_board_ids :: "(power_management \<Rightarrow> bool) \<Rightarrow> app_state \<Rightarrow> string list" where
  "unavailable_board_ids busy st =
     map fst (filter (\<lambda>(k, rt). lease_state rt \<noteq> LeaseIdle) (board_runtimes st)) @
     map bc_id (filter (\<lambda>b. busy (power_management b)) (bt_values (boards st)))"

definition choose_board ::
    "(power_management \<Rightarrow> bool) \<Rightarrow> string \<Rightarrow> string option \<Rightarrow> string list \<Rightarrow> app_state \<Rightarrow>
      (allocation_with_id_status + board_config) option" where
  "choose_board busy ty board_id required st =
     (let unavailable = unavailable_board_ids busy st in
      case board_id of
        Some i \<Rightarrow> Some (allocate_board_with_board_id (boards st) unavailable ty i required)
      | None \<Rightarrow> map_option (\<lambda>r. case r of
            Inr b \<Rightarrow> Inr b
          | Inl BoardTypeNotFound \<Rightarrow> Inl IdBoardTypeNotFound
          | Inl NoAvailableBoard \<Rightarrow> Inl IdNoAvailableBoard)
          (allocate_board (boards st) unavailable ty required))"

text \<open>
  One round of the loop of \<open>create_session_inner\<close>: \<open>Retry\<close> is its \<open>continue\<close>, \<open>Panic\<close> the
  \<open>unreachable!\<close> of the allocation. \<open>sid\<close> is the fresh UUID of the round.
\<close>

datatype create_outcome = Panic | Retry | Refused allocation_with_id_status | Created session

definition insert_session :: "session_state \<Rightarrow> app_state \<Rightarrow> app_state" where
  "insert_session s st =
     st\<lparr>heap := heap st @ [s],
        sessions := AList.update (session_id (info s)) (length (heap st)) (sessions st)\<rparr>"

definition create_round ::
    "(power_management \<Rightarrow> bool) \<Rightarrow> string \<Rightarrow> string option \<Rightarrow> string list \<Rightarrow> string option \<Rightarrow>
      string \<Rightarrow> int \<Rightarrow> app_state \<Rightarrow> create_outcome \<times> app_state" where
  "create_round busy ty board_id required client sid now st =
     (case choose_board busy ty board_id required st of
        None \<Rightarrow> (Panic, st)
      | Some (Inl e) \<Rightarrow> (Refused e, st)
      | Some (Inr b) \<Rightarrow>
          let (claimed, st) = claim_board_for_session (bc_id b) sid now st in
          if \<not> claimed then (Retry, st)
          else
            let s = session_new_with_actor now sid b client
            in (Created (session_snapshot s), insert_session s st))"

text \<open>The loop itself, over the UUIDs and times of its rounds; \<open>None\<close> while it has not returned.\<close>

fun create_session_inner ::
    "(power_management \<Rightarrow> bool) \<Rightarrow> string \<Rightarrow> string option \<Rightarrow> string list \<Rightarrow> string option \<Rightarrow>
      (string \<times> int) list \<Rightarrow> app_state \<Rightarrow> (create_outcome \<times> app_state) option" where
  "create_session_inner busy ty board_id required client [] st = None"
| "create_session_inner busy ty board_id required client ((sid, now) # rounds) st =
     (case create_round busy ty board_id required client sid now st of
        (Retry, st) \<Rightarrow> create_session_inner busy ty board_id required client rounds st
      | (r, st) \<Rightarrow> Some (r, st))"

section \<open>Looking at sessions\<close>

definition session_state_of :: "string \<Rightarrow> app_state \<Rightarrow> session_state option" where
  "session_state_of sid st = map_option (\<lambda>r. heap st ! r) (map_of (sessions st) sid)"

definition get_session :: "string \<Rightarrow> app_state \<Rightarrow> session option" where
  "get_session sid st = map_option session_snapshot (session_state_of sid st)"

definition session_board_of :: "string \<Rightarrow> app_state \<Rightarrow> board_config option" where
  "session_board_of sid st = map_option session_board (session_state_of sid st)"

datatype touch_session_error = TouchNotFound | TouchReleasing

definition heartbeat_session ::
    "string \<Rightarrow> int \<Rightarrow> app_state \<Rightarrow> (touch_session_error + session) \<times> app_state" where
  "heartbeat_session sid now st =
     (case map_of (sessions st) sid of
        None \<Rightarrow> (Inl TouchNotFound, st)
      | Some r \<Rightarrow>
          if is_releasing (heap st ! r) then (Inl TouchReleasing, st)
          else (Inr (fst (session_heartbeat now (heap st ! r))),
                update_object r (\<lambda>s. snd (session_heartbeat now s)) st))"

definition request_session_stop ::
    "string \<Rightarrow> session_stop_reason \<Rightarrow> app_state \<Rightarrow> session option \<times> app_state" where
  "request_session_stop sid reason st =
     (case map_of (sessions st) sid of
        None \<Rightarrow> (None, st)
      | Some r \<Rightarrow>
          let st = update_object r (request_stop reason) st
          in (Some (session_snapshot (heap st ! r)), st))"

fun expire_sessions :: "int \<Rightarrow> session_ref list \<Rightarrow> app_state \<Rightarrow> string list \<times> app_state" where
  "expire_sessions now [] st = ([], st)"
| "expire_sessions now (r # rs) st =
     (let snapshot = session_snapshot (heap st ! r) in
      if info_state snapshot = LcReleasing then expire_sessions now rs st
      else if expires_at snapshot \<le> now then
        let (ids, st) = expire_sessions now rs (update_object r (request_stop Expired) st)
        in (session_id snapshot # ids, st)
      else expire_sessions now rs st)"

definition cleanup_expired_sessions :: "int \<Rightarrow> app_state \<Rightarrow> string list \<times> app_state" where
  "cleanup_expired_sessions now st = expire_sessions now (bt_values (sessions st)) st"

section \<open>The runtimes of the boards\<close>

definition sync_board_runtime_states :: "int \<Rightarrow> app_state \<Rightarrow> app_state" where
  "sync_board_runtime_states now st =
     st\<lparr>board_runtimes := map (\<lambda>(k, b).
       (k, unwrap_or (map_of (board_runtimes st) k) (runtime_default now))) (boards st)\<rparr>"

datatype lease_error =
    RuntimeNotFound string
  | NotOwned string string
  | NotAssociated string string
  | SessionDisappeared string

definition quoted :: "string \<Rightarrow> string" where
  "quoted s = ''`'' @ s @ ''`''"

fun lease_error_text :: "lease_error \<Rightarrow> string" where
  "lease_error_text (RuntimeNotFound b) = ''board runtime '' @ quoted b @ '' not found''"
| "lease_error_text (NotOwned b s) =
     ''board '' @ quoted b @ '' is not owned by session '' @ quoted s @ '' during release transition''"
| "lease_error_text (NotAssociated b s) =
     ''board '' @ quoted b @ '' is no longer associated with session '' @ quoted s"
| "lease_error_text (SessionDisappeared s) =
     ''session '' @ quoted s @ '' disappeared before board release completed''"

definition transition_board_to_releasing ::
    "string \<Rightarrow> string \<Rightarrow> int \<Rightarrow> app_state \<Rightarrow> (lease_error + unit) \<times> app_state" where
  "transition_board_to_releasing board sid now st =
     (case map_of (board_runtimes st) board of
        None \<Rightarrow> (Inl (RuntimeNotFound board), st)
      | Some rt \<Rightarrow>
          if lease_state rt = LeaseReleasing \<and> active_session_id rt = Some sid then (Inr (), st)
          else if lease_state rt \<noteq> LeaseUsing \<or> active_session_id rt \<noteq> Some sid
          then (Inl (NotOwned board sid), st)
          else (Inr (), set_runtime board (rt\<lparr>lease_state := LeaseReleasing, updated_at := now\<rparr>) st))"

definition complete_session_release ::
    "string \<Rightarrow> string \<Rightarrow> int \<Rightarrow> app_state \<Rightarrow> (lease_error + unit) \<times> app_state" where
  "complete_session_release board sid now st =
     (case map_of (board_runtimes st) board of
        None \<Rightarrow> (Inl (RuntimeNotFound board), st)
      | Some rt \<Rightarrow>
          if active_session_id rt \<noteq> Some sid then (Inl (NotAssociated board sid), st)
          else if map_of (sessions st) sid = None then (Inl (SessionDisappeared sid), st)
          else
            let st = set_runtime board (rt\<lparr>lease_state := LeaseIdle, active_session_id := None,
                  last_release_error := None, updated_at := now\<rparr>) st
            in (Inr (), st\<lparr>sessions := AList.delete sid (sessions st)\<rparr>))"

definition mark_board_error ::
    "string \<Rightarrow> string \<Rightarrow> string \<Rightarrow> int \<Rightarrow> app_state \<Rightarrow> (lease_error + unit) \<times> app_state" where
  "mark_board_error board sid err now st =
     (case map_of (board_runtimes st) board of
        None \<Rightarrow> (Inl (RuntimeNotFound board), st)
      | Some rt \<Rightarrow>
          if active_session_id rt \<noteq> Some sid then (Inl (NotAssociated board sid), st)
          else (Inr (), set_runtime board (rt\<lparr>lease_state := LeaseError,
                 last_release_error := Some err, updated_at := now\<rparr>) st))"

definition enqueue_release :: "session_ref \<Rightarrow> session_stop_reason \<Rightarrow> app_state \<Rightarrow> app_state" where
  "enqueue_release r reason st = st\<lparr>release_queue := release_queue st @ [(r, reason)]\<rparr>"

text \<open>
  \<open>run_session_actor\<close>: the actor takes one command and ends; its receiver is gone afterwards, so
  later commands are lost. A failed transition is only logged.
\<close>

definition run_session_actor :: "session_ref \<Rightarrow> int \<Rightarrow> app_state \<Rightarrow> app_state" where
  "run_session_actor r now st =
     (case commands (heap st ! r) of
        Some (reason # rest) \<Rightarrow>
          let (began, s) = begin_release (heap st ! r);
              st = update_object r (\<lambda>_. s\<lparr>commands := None\<rparr>) st
          in if \<not> began then st
             else
               let st = update_object r signal_shutdown st;
                   snapshot = session_snapshot (heap st ! r);
                   st = snd (transition_board_to_releasing (session_board_id snapshot)
                     (session_id snapshot) now st)
               in enqueue_release r reason st
      | _ \<Rightarrow> st)"

section \<open>Power actions\<close>

text \<open>
  \<open>execute_board_power_action\<close>: a board that boots over HTTP and is leased gets a new boot
  generation in its session first; the action's own result is the answer of the environment.
\<close>

definition execute_board_power_action ::
    "board_config \<Rightarrow> (string + unit) \<Rightarrow> app_state \<Rightarrow> (string + unit) \<times> app_state" where
  "execute_board_power_action board answer st =
     (answer,
      if boot board = UefiHttp then
        case Option.bind (map_of (board_runtimes st) (bc_id board)) active_session_id of
          None \<Rightarrow> st
        | Some sid \<Rightarrow>
            (case map_of (sessions st) sid of
               None \<Rightarrow> st
             | Some r \<Rightarrow> update_object r (\<lambda>s. unwrap_or (change_power s) s) st)
      else st)"

fun power_off_boards ::
    "(board_config \<Rightarrow> string + unit) \<Rightarrow> board_config list \<Rightarrow> app_state \<Rightarrow>
      (string \<times> string) list \<times> app_state" where
  "power_off_boards answer [] st = ([], st)"
| "power_off_boards answer (b # bs) st =
     (case execute_board_power_action b (answer b) st of
        (Inr _, st) \<Rightarrow> power_off_boards answer bs st
      | (Inl e, st) \<Rightarrow>
          let st = (case map_of (boards st) (bc_id b) of
                None \<Rightarrow> st
              | Some stored \<Rightarrow>
                  st\<lparr>boards := AList.update (bc_id b) (stored\<lparr>disabled := True\<rparr>) (boards st)\<rparr>);
              (failures, st) = power_off_boards answer bs st
          in ((bc_id b, e) # failures, st))"

definition power_off_all_boards_on_startup ::
    "(board_config \<Rightarrow> string + unit) \<Rightarrow> app_state \<Rightarrow> (string \<times> string) list \<times> app_state" where
  "power_off_all_boards_on_startup answer st = power_off_boards answer (bt_values (boards st)) st"

section \<open>Releasing a session\<close>

text \<open>
  \<open>retry_release_step\<close>: \<open>retry_from remaining attempt\<close> is the loop from that attempt on; the
  operation sees the number of its attempt so that the environment can answer each one.
\<close>

fun retry_from ::
    "nat \<Rightarrow> nat \<Rightarrow> (nat \<Rightarrow> 's \<Rightarrow> (string + unit) \<times> 's) \<Rightarrow> string option \<Rightarrow> 's \<Rightarrow> (string + unit) \<times> 's" where
  "retry_from 0 attempt operation last_error s =
     (Inl (unwrap_or last_error ''release step failed''), s)"
| "retry_from (Suc remaining) attempt operation last_error s =
     (case operation attempt s of
        (Inr _, s) \<Rightarrow> (Inr (), s)
      | (Inl e, s) \<Rightarrow> retry_from remaining (attempt + 1) operation (Some e) s)"

definition retry_release_step ::
    "nat \<Rightarrow> (nat \<Rightarrow> 's \<Rightarrow> (string + unit) \<times> 's) \<Rightarrow> 's \<Rightarrow> (string + unit) \<times> 's" where
  "retry_release_step attempts operation s = retry_from attempts 1 operation None s"

text \<open>
  \<open>wait_for_session_tasks_to_stop\<close>: the list holds the readings of the serial flag up to the
  first one at the deadline; once a reading is false the serial manager's answer decides.
\<close>

fun wait_for_session_tasks_to_stop :: "bool list \<Rightarrow> string + unit \<Rightarrow> string + unit" where
  "wait_for_session_tasks_to_stop [] released = Inl ''timed out waiting for session tasks to stop''"
| "wait_for_session_tasks_to_stop (connected # readings) released =
     (if \<not> connected then released else wait_for_session_tasks_to_stop readings released)"

text \<open>
  What the environment answers in one round of a job: \<open>env_now\<close> is the clock when the round has
  stopped the tasks and cut the power, or tried to, and \<open>env_rest\<close> the time the round takes for
  what is left of it besides the sleep that lets the board settle.
\<close>

record release_env =
  readings :: "bool list"
  owner_released :: "string + unit"
  power_answer :: "nat \<Rightarrow> string + unit"
  tftp_answer :: "nat \<Rightarrow> string + unit"
  env_now :: int
  env_rest :: nat

definition new_release_task :: "session_ref \<Rightarrow> release_task" where
  "new_release_task r =
     \<lparr>task_session = r, session_tasks_stopped = False, board_powered_off = False,
      release_settled = False, tftp_cleaned = False\<rparr>"

definition stop_stage :: "release_env \<Rightarrow> release_task \<Rightarrow> release_task \<times> string list" where
  "stop_stage env t =
     (if session_tasks_stopped t then (t, [])
      else case wait_for_session_tasks_to_stop (readings env) (owner_released env) of
        Inr _ \<Rightarrow> (t\<lparr>session_tasks_stopped := True\<rparr>, [])
      | Inl e \<Rightarrow> (t, [e]))"

definition power_stage ::
    "release_env \<Rightarrow> release_task \<Rightarrow> app_state \<Rightarrow> release_task \<times> string list \<times> app_state" where
  "power_stage env t st =
     (if board_powered_off t then (t, [], st)
      else
        let board = session_board (heap st ! task_session t) in
        case retry_release_step RELEASE_RETRY_ATTEMPTS
            (\<lambda>attempt st. execute_board_power_action board (power_answer env attempt) st) st of
          (Inr _, st) \<Rightarrow> (t\<lparr>board_powered_off := True\<rparr>, [], st)
        | (Inl e, st) \<Rightarrow> (t, [''power-off failed: '' @ e], st))"

text \<open>The sleep of the settle delay moves the clock.\<close>

definition settle_stage :: "release_env \<Rightarrow> board_config \<Rightarrow> release_task \<Rightarrow> release_task \<times> int" where
  "settle_stage env board t =
     (if \<not> release_settled t \<and> session_tasks_stopped t \<and> board_powered_off t
      then (t\<lparr>release_settled := True\<rparr>, env_now env + unwrap_or (release_settle_delay board) 0)
      else (t, env_now env))"

definition tftp_stage :: "release_env \<Rightarrow> release_task \<Rightarrow> release_task \<times> string list" where
  "tftp_stage env t =
     (if tftp_cleaned t then (t, [])
      else case retry_release_step RELEASE_RETRY_ATTEMPTS (\<lambda>attempt s. (tftp_answer env attempt, s)) () of
        (Inr _, _) \<Rightarrow> (t\<lparr>tftp_cleaned := True\<rparr>, [])
      | (Inl e, _) \<Rightarrow> (t, [''tftp cleanup failed: '' @ e]))"

definition task_finished :: "release_task \<Rightarrow> bool" where
  "task_finished t \<longleftrightarrow>
     session_tasks_stopped t \<and> board_powered_off t \<and> release_settled t \<and> tftp_cleaned t"

fun join :: "string \<Rightarrow> string list \<Rightarrow> string" where
  "join sep [] = []"
| "join sep [s] = s"
| "join sep (s # t # ts) = s @ sep @ join sep (t # ts)"

text \<open>The stages of one round, with its errors and the clock at their end.\<close>

definition release_stages ::
    "release_env \<Rightarrow> release_task \<Rightarrow> app_state \<Rightarrow> release_task \<times> string list \<times> int \<times> app_state" where
  "release_stages env t st =
     (let board = session_board (heap st ! task_session t);
          (t, e1) = stop_stage env t;
          (t, e2, st) = power_stage env t st;
          (t, now) = settle_stage env board t;
          (t, e3) = tftp_stage env t
      in (t, e1 @ e2 @ e3, now + int (env_rest env), st))"

text \<open>One round of \<open>process_release_job\<close>: true when the job has returned.\<close>

definition release_round ::
    "release_env \<Rightarrow> release_task \<Rightarrow> app_state \<Rightarrow> bool \<times> release_task \<times> app_state" where
  "release_round env t st =
     (let snapshot = session_snapshot (heap st ! task_session t);
          board = session_board_id snapshot;
          sid = session_id snapshot;
          (t, errors, now, st) = release_stages env t st;
          give_up = (\<lambda>errors st. (False, t,
            snd (mark_board_error board sid (join ''; '' errors) now st)))
      in if errors = [] \<and> task_finished t then
           case complete_session_release board sid now st of
             (Inr _, st) \<Rightarrow> (True, t, st)
           | (Inl e, st) \<Rightarrow> give_up (errors @ [''failed to mark board idle: '' @ lease_error_text e]) st
         else give_up errors st)"

fun process_release_job ::
    "release_env list \<Rightarrow> release_task \<Rightarrow> app_state \<Rightarrow> bool \<times> release_task \<times> app_state" where
  "process_release_job [] t st = (False, t, st)"
| "process_release_job (env # envs) t st =
     (case release_round env t st of
        (True, t, st) \<Rightarrow> (True, t, st)
      | (False, t, st) \<Rightarrow> process_release_job envs t st)"

text \<open>The coordinator spawns a task for each job it receives.\<close>

definition coordinate :: "app_state \<Rightarrow> app_state" where
  "coordinate st =
     (case release_queue st of
        [] \<Rightarrow> st
      | (r, reason) # rest \<Rightarrow>
          st\<lparr>release_queue := rest, release_tasks := release_tasks st @ [new_release_task r]\<rparr>)"

definition run_task :: "nat \<Rightarrow> release_env \<Rightarrow> app_state \<Rightarrow> app_state" where
  "run_task i env st =
     (case release_round env (release_tasks st ! i) st of
        (done, t, st) \<Rightarrow>
          st\<lparr>release_tasks :=
            (if done then take i (release_tasks st) @ drop (Suc i) (release_tasks st)
             else (release_tasks st)[i := t])\<rparr>)"

end
