(* ===== verification/Lease_Properties.thy ===== *)
theory Lease_Properties
  imports Lease_Manager
begin

text \<open>
  The lease manager as a step relation, its invariant, and the properties of leases: a session
  and a board own each other or neither, a session is released once, its release ends when the
  environment lets every step succeed, and a board becomes free only after its session was
  stopped, its power cut and its files removed.
\<close>

section \<open>Steps\<close>

definition session_ids :: "app_state \<Rightarrow> string list" where
  "session_ids st = map (\<lambda>s. session_id (info s)) (heap st)"

text \<open>
  What other parts of the server do to a session object they hold: everything but the release
  itself, which is the actor's.
\<close>

definition shared_op :: "session_op \<Rightarrow> bool" where
  "shared_op e \<longleftrightarrow> e \<noteq> OpBeginRelease"

definition idle_board :: "app_state \<Rightarrow> string \<Rightarrow> bool" where
  "idle_board st b \<longleftrightarrow> is_none_or (map_of (board_runtimes st) b) (\<lambda>rt. lease_state rt = LeaseIdle)"

text \<open>
  The steps of the server. A new session has a UUID no session had before. The board inventory
  is edited under the gate that session creation takes too, and the handlers refuse to change
  or delete a board that is not idle (\<open>api/router.rs\<close>), so an edit keeps the boards in use.
\<close>

inductive lease_step :: "app_state \<Rightarrow> app_state \<Rightarrow> bool" where
  create: "sid \<notin> set (session_ids st) \<Longrightarrow>
     lease_step st (snd (create_round busy ty board_id required client sid now st))"
| heartbeat: "lease_step st (snd (heartbeat_session sid now st))"
| stop: "lease_step st (snd (request_session_stop sid reason st))"
| cleanup: "lease_step st (snd (cleanup_expired_sessions now st))"
| object: "r < length (heap st) \<Longrightarrow> shared_op e \<Longrightarrow>
     lease_step st (update_object r (\<lambda>s. session_step s e) st)"
| actor: "r < length (heap st) \<Longrightarrow> lease_step st (run_session_actor r now st)"
| coordinator: "lease_step st (coordinate st)"
| task: "i < length (release_tasks st) \<Longrightarrow> lease_step st (run_task i env st)"
| inventory: "filed bs \<Longrightarrow> (\<And>b. \<not> idle_board st b \<Longrightarrow> map_of bs b = map_of (boards st) b) \<Longrightarrow>
     lease_step st (sync_board_runtime_states now (st\<lparr>boards := bs\<rparr>))"

inductive lease_reachable :: "app_state \<Rightarrow> bool" where
  start: "filed bs \<Longrightarrow> lease_reachable (build_app_state now bs)"
| step: "lease_reachable st \<Longrightarrow> lease_step st st' \<Longrightarrow> lease_reachable st'"

section \<open>The invariant\<close>

definition pending :: "app_state \<Rightarrow> session_ref \<Rightarrow> nat" where
  "pending st r =
     count_list (map fst (release_queue st)) r + count_list (map task_session (release_tasks st)) r"

definition tables_ok :: "app_state \<Rightarrow> bool" where
  "tables_ok st \<longleftrightarrow>
     filed (boards st) \<and> keys_distinct (board_runtimes st) \<and> keys_distinct (sessions st) \<and>
     distinct (session_ids st) \<and>
     (\<forall>b. map_of (board_runtimes st) b = None \<longleftrightarrow> map_of (boards st) b = None)"

definition runtime_ok :: "app_state \<Rightarrow> string \<Rightarrow> board_runtime \<Rightarrow> bool" where
  "runtime_ok st b rt \<longleftrightarrow>
     (case active_session_id rt of
        None \<Rightarrow> lease_state rt = LeaseIdle
      | Some sid \<Rightarrow> lease_state rt \<noteq> LeaseIdle \<and>
          (\<exists>r. map_of (sessions st) sid = Some r \<and> session_board_id (info (heap st ! r)) = b))"

definition owned :: "app_state \<Rightarrow> string \<Rightarrow> string \<Rightarrow> bool \<Rightarrow> bool" where
  "owned st b sid releasing \<longleftrightarrow>
     (\<exists>rt. map_of (board_runtimes st) b = Some rt \<and> active_session_id rt = Some sid \<and>
        (lease_state rt = LeaseUsing \<longleftrightarrow> \<not> releasing))"

definition session_entry_ok :: "app_state \<Rightarrow> string \<Rightarrow> session_ref \<Rightarrow> bool" where
  "session_entry_ok st sid r \<longleftrightarrow>
     r < length (heap st) \<and> session_id (info (heap st ! r)) = sid \<and>
     owned st (session_board_id (info (heap st ! r))) sid (is_releasing (heap st ! r))"

definition object_ok :: "app_state \<Rightarrow> session_ref \<Rightarrow> bool" where
  "object_ok st r \<longleftrightarrow>
     session_ok (heap st ! r) \<and>
     bc_id (session_board (heap st ! r)) = session_board_id (info (heap st ! r)) \<and>
     (if is_releasing (heap st ! r)
      then commands (heap st ! r) = None \<and>
        pending st r = of_bool (map_of (sessions st) (session_id (info (heap st ! r))) = Some r)
      else commands (heap st ! r) \<noteq> None \<and> pending st r = 0 \<and>
        map_of (sessions st) (session_id (info (heap st ! r))) = Some r)"

definition lease_ok :: "app_state \<Rightarrow> bool" where
  "lease_ok st \<longleftrightarrow>
     tables_ok st \<and>
     (\<forall>b rt. map_of (board_runtimes st) b = Some rt \<longrightarrow> runtime_ok st b rt) \<and>
     (\<forall>sid r. map_of (sessions st) sid = Some r \<longrightarrow> session_entry_ok st sid r) \<and>
     (\<forall>r. r < length (heap st) \<longrightarrow> object_ok st r) \<and>
     (\<forall>r. 0 < pending st r \<longrightarrow> r < length (heap st))"

lemma lease_okI:
  assumes "tables_ok st"
    and "\<And>b rt. map_of (board_runtimes st) b = Some rt \<Longrightarrow> runtime_ok st b rt"
    and "\<And>sid r. map_of (sessions st) sid = Some r \<Longrightarrow> session_entry_ok st sid r"
    and "\<And>r. r < length (heap st) \<Longrightarrow> object_ok st r"
    and "\<And>r. 0 < pending st r \<Longrightarrow> r < length (heap st)"
  shows "lease_ok st"
  using assms by (simp add: lease_ok_def)

lemma lease_okD:
  assumes "lease_ok st"
  shows "tables_ok st"
    and "map_of (board_runtimes st) b = Some rt \<Longrightarrow> runtime_ok st b rt"
    and "map_of (sessions st) sid = Some r \<Longrightarrow> session_entry_ok st sid r"
    and "r < length (heap st) \<Longrightarrow> object_ok st r"
    and "0 < pending st r \<Longrightarrow> r < length (heap st)"
  using assms by (simp_all add: lease_ok_def)

section \<open>Changing one session object\<close>

text \<open>The functions on a session that the invariant does not notice.\<close>

definition quiet :: "(session_state \<Rightarrow> session_state) \<Rightarrow> session_state \<Rightarrow> bool" where
  "quiet f s \<longleftrightarrow>
     (session_ok s \<longrightarrow> session_ok (f s)) \<and> session_id (info (f s)) = session_id (info s) \<and>
     session_board_id (info (f s)) = session_board_id (info s) \<and>
     session_board (f s) = session_board s \<and> is_releasing (f s) = is_releasing s \<and>
     (commands (f s) = None \<longleftrightarrow> commands s = None)"

lemma update_object_simps [simp]:
  "boards (update_object r f st) = boards st"
  "board_runtimes (update_object r f st) = board_runtimes st"
  "sessions (update_object r f st) = sessions st"
  "release_queue (update_object r f st) = release_queue st"
  "release_tasks (update_object r f st) = release_tasks st"
  "heap (update_object r f st) = (heap st)[r := f (heap st ! r)]"
  by (simp_all add: update_object_def)

lemma pending_update_object [simp]: "pending (update_object r f st) r' = pending st r'"
  by (simp add: pending_def)

lemma update_object_ok:
  assumes ok: "lease_ok st" and q: "quiet f (heap st ! r)"
  shows "lease_ok (update_object r f st)"
proof (cases "r < length (heap st)")
  case False
  then have "update_object r f st = st" by (cases st) (simp add: update_object_def list_update_beyond)
  with ok show ?thesis by simp
next
  case True
  let ?st = "update_object r f st"
  note D = lease_okD [OF ok]
  have same: "session_id (info (heap ?st ! r')) = session_id (info (heap st ! r')) \<and>
      session_board_id (info (heap ?st ! r')) = session_board_id (info (heap st ! r')) \<and>
      session_board (heap ?st ! r') = session_board (heap st ! r') \<and>
      is_releasing (heap ?st ! r') = is_releasing (heap st ! r') \<and>
      (commands (heap ?st ! r') = None \<longleftrightarrow> commands (heap st ! r') = None) \<and>
      (session_ok (heap st ! r') \<longrightarrow> session_ok (heap ?st ! r'))" for r'
    using q True by (cases "r' = r") (simp_all add: quiet_def)
  have ids: "session_ids ?st = session_ids st"
    using same by (auto simp: session_ids_def intro!: nth_equalityI)
  show ?thesis
  proof (rule lease_okI)
    show "tables_ok ?st" using D(1) ids by (simp add: tables_ok_def)
    show "runtime_ok ?st b rt" if "map_of (board_runtimes ?st) b = Some rt" for b rt
      using D(2) [of b rt] that same by (simp add: runtime_ok_def split: option.splits)
    show "session_entry_ok ?st sid r'" if "map_of (sessions ?st) sid = Some r'" for sid r'
      using D(3) [of sid r'] that same [of r'] by (simp add: session_entry_ok_def owned_def)
    show "object_ok ?st r'" if "r' < length (heap ?st)" for r'
      using D(4) [of r'] that same [of r'] by (simp add: object_ok_def Let_def)
    show "r' < length (heap ?st)" if "0 < pending ?st r'" for r'
      using D(5) [of r'] that by simp
  qed
qed

lemma releasing_step_iff: "shared_op e \<Longrightarrow> is_releasing (session_step s e) = is_releasing s"
  by (cases e)
    (auto simp: shared_op_def is_releasing_def lifecycle_def session_op_defs Let_def unwrap_or_def
      split: option.splits)

lemma commands_step: "commands (session_step s e) = None \<longleftrightarrow> commands s = None"
  by (cases e) (auto simp: session_op_defs Let_def unwrap_or_def split: option.splits)

lemma quiet_step: "shared_op e \<Longrightarrow> quiet (\<lambda>s. session_step s e) s"
  by (simp add: quiet_def session_ok_step session_id_step session_board_step releasing_step_iff
      commands_step)

lemma quiet_ops:
  "quiet (request_stop reason) s"
  "quiet (\<lambda>s. snd (session_heartbeat now s)) s"
  "quiet (\<lambda>s. unwrap_or (change_power s) s) s"
  using quiet_step [of "OpRequestStop reason" s] quiet_step [of "OpHeartbeat now" s]
    quiet_step [of OpChangePower s]
  by (simp_all add: shared_op_def)

lemma heartbeat_ok: "lease_ok st \<Longrightarrow> lease_ok (snd (heartbeat_session sid now st))"
  by (auto simp: heartbeat_session_def intro!: update_object_ok quiet_ops split: option.splits)

lemma stop_ok: "lease_ok st \<Longrightarrow> lease_ok (snd (request_session_stop sid reason st))"
  by (auto simp: request_session_stop_def Let_def intro!: update_object_ok quiet_ops
      split: option.splits)

lemma expire_ok: "lease_ok st \<Longrightarrow> lease_ok (snd (expire_sessions now rs st))"
  by (induction now rs st rule: expire_sessions.induct)
    (auto simp: Let_def case_prod_beta intro!: update_object_ok quiet_ops)

lemma power_action_ok:
  "lease_ok st \<Longrightarrow> lease_ok (snd (execute_board_power_action b answer st))"
  by (auto simp: execute_board_power_action_def intro!: update_object_ok quiet_ops
      split: option.splits)

section \<open>Changing a runtime\<close>

lemma set_runtime_simps [simp]:
  "boards (set_runtime b rt st) = boards st"
  "map_of (board_runtimes (set_runtime b rt st)) b' =
     (if b' = b then Some rt else map_of (board_runtimes st) b')"
  "sessions (set_runtime b rt st) = sessions st"
  "heap (set_runtime b rt st) = heap st"
  "release_queue (set_runtime b rt st) = release_queue st"
  "release_tasks (set_runtime b rt st) = release_tasks st"
  "session_ids (set_runtime b rt st) = session_ids st"
  "pending (set_runtime b rt st) r = pending st r"
  by (simp_all add: set_runtime_def amap.get_put session_ids_def pending_def)

lemma set_runtime_distinct [simp]:
  "keys_distinct (board_runtimes st) \<Longrightarrow> keys_distinct (board_runtimes (set_runtime b rt st))"
  by (simp add: set_runtime_def)

lemma set_runtime_tables:
  "tables_ok st \<Longrightarrow> map_of (board_runtimes st) b \<noteq> None \<Longrightarrow> tables_ok (set_runtime b rt st)"
  by (simp add: tables_ok_def)

lemma runtime_ok_set_runtime [simp]: "runtime_ok (set_runtime b rt st) = runtime_ok st"
  by (intro ext) (simp add: runtime_ok_def cong: option.case_cong)

lemma object_ok_set_runtime [simp]: "object_ok (set_runtime b rt st) = object_ok st"
  by (intro ext) (simp only: object_ok_def set_runtime_simps)

lemma set_runtime_keep:
  assumes ok: "lease_ok st" and rt: "map_of (board_runtimes st) b = Some rt"
    and same: "active_session_id rt' = active_session_id rt"
    and idle: "lease_state rt' = LeaseIdle \<longleftrightarrow> lease_state rt = LeaseIdle"
    and in_use: "lease_state rt' = LeaseUsing \<longleftrightarrow> lease_state rt = LeaseUsing"
  shows "lease_ok (set_runtime b rt' st)"
proof (rule lease_okI)
  note D = lease_okD [OF ok]
  show "tables_ok (set_runtime b rt' st)"
    using D(1) rt by (simp add: set_runtime_tables)
  show "runtime_ok (set_runtime b rt' st) b' r" if "map_of (board_runtimes (set_runtime b rt' st)) b' = Some r"
    for b' r
  proof (cases "b' = b")
    case True
    with that have "r = rt'" by simp
    moreover have "runtime_ok st b rt" using rt by (rule D(2))
    ultimately show ?thesis
      using True same idle by (simp add: runtime_ok_def split: option.splits)
  next
    case False
    with that show ?thesis by (simp add: D(2))
  qed
  show "session_entry_ok (set_runtime b rt' st) sid r"
    if "map_of (sessions (set_runtime b rt' st)) sid = Some r" for sid r
    using that D(3) [of sid r] rt same in_use by (auto simp: session_entry_ok_def owned_def)
  show "object_ok (set_runtime b rt' st) r" if "r < length (heap (set_runtime b rt' st))" for r
    using that D(4) [of r] by simp
  show "r < length (heap (set_runtime b rt' st))" if "0 < pending (set_runtime b rt' st) r" for r
    using that D(5) [of r] by simp
qed

lemma owner_of_listed:
  assumes "lease_ok st" "map_of (sessions st) sid = Some r"
  obtains rt where "map_of (board_runtimes st) (session_board_id (info (heap st ! r))) = Some rt"
    "active_session_id rt = Some sid" "lease_state rt = LeaseUsing \<longleftrightarrow> \<not> is_releasing (heap st ! r)"
    "r < length (heap st)" "session_id (info (heap st ! r)) = sid"
  using lease_okD(3) [OF assms] by (auto simp: session_entry_ok_def owned_def)

lemma mark_error_ok:
  assumes ok: "lease_ok st" and l: "map_of (sessions st) sid = Some r"
    and rel: "is_releasing (heap st ! r)" and b: "b = session_board_id (info (heap st ! r))"
  shows "lease_ok (snd (mark_board_error b sid err now st))"
proof -
  obtain rt where rt: "map_of (board_runtimes st) b = Some rt" "active_session_id rt = Some sid"
      "lease_state rt \<noteq> LeaseUsing"
    by (rule owner_of_listed [OF ok l]) (simp add: rel b)
  have "lease_state rt \<noteq> LeaseIdle"
    using lease_okD(2) [OF ok rt(1)] rt(2) by (simp add: runtime_ok_def)
  with rt show ?thesis
    by (auto simp: mark_board_error_def intro!: set_runtime_keep [OF ok rt(1)])
qed

section \<open>Creating a session\<close>

lemma unavailable_complete:
  assumes "lease_ok st" "map_of (boards st) b = Some c" "b \<notin> set (unavailable_board_ids busy st)"
  obtains rt where "map_of (board_runtimes st) b = Some rt" "lease_state rt = LeaseIdle"
    "active_session_id rt = None"
proof -
  from assms(1) have t: "tables_ok st" by (rule lease_okD)
  with assms(2) obtain rt where rt: "map_of (board_runtimes st) b = Some rt"
    by (cases "map_of (board_runtimes st) b") (auto simp: tables_ok_def)
  have idle: "lease_state rt = LeaseIdle"
    using assms(3) map_of_SomeD [OF rt] by (force simp: unavailable_board_ids_def)
  from lease_okD(2) [OF assms(1) rt] idle have "active_session_id rt = None"
    by (simp add: runtime_ok_def split: option.splits)
  with rt idle show thesis by (rule that)
qed

lemma choose_board_Inr:
  assumes "filed (boards st)" "choose_board busy ty bid required st = Some (Inr b)"
  shows "map_of (boards st) (bc_id b) = Some b \<and> eligible ty required b \<and>
    bc_id b \<notin> set (unavailable_board_ids busy st)"
proof (cases bid)
  case None
  with assms(2) obtain r where r: "allocate_board (boards st) (unavailable_board_ids busy st) ty required = Some r"
      "(case r of Inr b \<Rightarrow> Inr b | Inl BoardTypeNotFound \<Rightarrow> Inl IdBoardTypeNotFound
        | Inl NoAvailableBoard \<Rightarrow> Inl IdNoAvailableBoard) = (Inr b :: allocation_with_id_status + board_config)"
    by (auto simp: choose_board_def Let_def)
  from r(2) have "r = Inr b" by (auto split: sum.splits allocation_status.splits)
  with r(1) have "allocate_board_impl (boards st) (unavailable_board_ids busy st) ty None required = Inr b"
    by (auto simp: allocate_board_def split: sum.splits allocation_with_id_status.splits)
  then show ?thesis by (simp add: allocate_impl_any_Inr [OF assms(1)])
next
  case (Some i)
  with assms(2) have "map_of (boards st) (trim i) = Some b \<and> eligible ty required b \<and>
      bc_id b \<notin> set (unavailable_board_ids busy st)"
    by (simp add: choose_board_def allocate_board_with_board_id_def allocate_impl_id_Inr)
  with filed_map_of [OF assms(1)] show ?thesis by auto
qed

lemma choose_board_total: "choose_board busy ty bid required st \<noteq> None"
  using allocate_board_total [of "boards st" "unavailable_board_ids busy st" ty required]
  by (cases bid) (simp_all add: choose_board_def Let_def)

definition claimed :: "string \<Rightarrow> int \<Rightarrow> board_runtime \<Rightarrow> board_runtime" where
  "claimed sid now rt = rt\<lparr>lease_state := LeaseUsing, active_session_id := Some sid,
     last_release_error := None, updated_at := now\<rparr>"

lemma create_round_cases:
  assumes ok: "lease_ok st"
  obtains (refused) e where "choose_board busy ty bid required st = Some (Inl e)"
      "create_round busy ty bid required client sid now st = (Refused e, st)"
  | (created) b rt where "choose_board busy ty bid required st = Some (Inr b)"
      "map_of (boards st) (bc_id b) = Some b" "eligible ty required b"
      "map_of (board_runtimes st) (bc_id b) = Some rt" "lease_state rt = LeaseIdle"
      "active_session_id rt = None"
      "create_round busy ty bid required client sid now st =
         (Created (session_snapshot (session_new_with_actor now sid b client)),
          insert_session (session_new_with_actor now sid b client)
            (set_runtime (bc_id b) (claimed sid now rt) st))"
proof -
  have f: "filed (boards st)" using lease_okD(1) [OF ok] by (simp add: tables_ok_def)
  show thesis
  proof (cases "choose_board busy ty bid required st")
    case None
    with choose_board_total show thesis by blast
  next
    case (Some r)
    show thesis
    proof (cases r)
      case (Inl e)
      with Some show thesis by (intro refused [of e]) (simp_all add: create_round_def)
    next
      case (Inr b)
      with Some choose_board_Inr [OF f] have b: "map_of (boards st) (bc_id b) = Some b"
          "eligible ty required b" "bc_id b \<notin> set (unavailable_board_ids busy st)"
        by blast+
      obtain rt where rt: "map_of (board_runtimes st) (bc_id b) = Some rt" "lease_state rt = LeaseIdle"
          "active_session_id rt = None"
        by (rule unavailable_complete [OF ok b(1,3)])
      with Some Inr b show thesis
        by (intro created [of b rt])
          (simp_all add: create_round_def claim_board_for_session_def claimed_def Let_def)
    qed
  qed
qed

lemma insert_session_simps [simp]:
  "boards (insert_session s st) = boards st"
  "board_runtimes (insert_session s st) = board_runtimes st"
  "map_of (sessions (insert_session s st)) sid =
     (if sid = session_id (info s) then Some (length (heap st)) else map_of (sessions st) sid)"
  "heap (insert_session s st) = heap st @ [s]"
  "release_queue (insert_session s st) = release_queue st"
  "release_tasks (insert_session s st) = release_tasks st"
  "session_ids (insert_session s st) = session_ids st @ [session_id (info s)]"
  "pending (insert_session s st) r = pending st r"
  "keys_distinct (sessions st) \<Longrightarrow> keys_distinct (sessions (insert_session s st))"
  by (simp_all add: insert_session_def amap.get_put session_ids_def pending_def)

lemma new_session_simps [simp]:
  "session_id (info (session_new_with_actor now sid b client)) = sid"
  "session_board_id (info (session_new_with_actor now sid b client)) = bc_id b"
  "session_board (session_new_with_actor now sid b client) = b"
  "commands (session_new_with_actor now sid b client) = Some []"
  "is_releasing (session_new_with_actor now sid b client) = False"
  "session_ok (session_new_with_actor now sid b client)"
  by (simp_all add: session_new_with_actor_def session_new_inner_def session_new_with_id_def
      is_releasing_def lifecycle_def session_ok_def)

lemma listed_id:
  "lease_ok st \<Longrightarrow> map_of (sessions st) sid = Some r \<Longrightarrow>
     r < length (heap st) \<and> session_id (info (heap st ! r)) = sid \<and> sid \<in> set (session_ids st)"
  by (frule (1) lease_okD(3)) (auto simp: session_entry_ok_def session_ids_def)

lemma create_ok:
  assumes ok: "lease_ok st" and fresh: "sid \<notin> set (session_ids st)"
  shows "lease_ok (snd (create_round busy ty bid required client sid now st))"
proof (rule create_round_cases [OF ok, of busy ty bid required client sid now])
  fix e
  assume "create_round busy ty bid required client sid now st = (Refused e, st)"
  with ok show ?thesis by simp
next
  fix b rt
  assume created: "choose_board busy ty bid required st = Some (Inr b)"
      "map_of (boards st) (bc_id b) = Some b" "eligible ty required b"
      "map_of (board_runtimes st) (bc_id b) = Some rt" "lease_state rt = LeaseIdle"
      "active_session_id rt = None"
      "create_round busy ty bid required client sid now st =
         (Created (session_snapshot (session_new_with_actor now sid b client)),
          insert_session (session_new_with_actor now sid b client)
            (set_runtime (bc_id b) (claimed sid now rt) st))"
  note D = lease_okD [OF ok]
  let ?s = "session_new_with_actor now sid b client"
  let ?rt = "claimed sid now rt"
  let ?st = "insert_session ?s (set_runtime (bc_id b) ?rt st)"
  have rt: "active_session_id ?rt = Some sid" "lease_state ?rt = LeaseUsing"
    by (simp_all add: claimed_def)
  have other: "map_of (sessions st) s = Some r \<Longrightarrow> s \<noteq> sid \<and> r < length (heap st)" for s r
    using listed_id [OF ok, of s r] fresh by auto
  have "lease_ok ?st"
  proof (rule lease_okI)
    show "tables_ok ?st"
      using D(1) created(2,4) fresh by (auto simp: tables_ok_def)
    show "runtime_ok ?st b' r" if "map_of (board_runtimes ?st) b' = Some r" for b' r
    proof (cases "b' = bc_id b")
      case True
      with that rt show ?thesis by (auto simp: runtime_ok_def)
    next
      case False
      with that have "runtime_ok st b' r" by (simp add: D(2))
      then show ?thesis
        using other by (auto simp: runtime_ok_def nth_append split: option.splits)
    qed
    show "session_entry_ok ?st s r" if "map_of (sessions ?st) s = Some r" for s r
    proof (cases "s = sid")
      case True
      with that rt show ?thesis by (auto simp: session_entry_ok_def owned_def)
    next
      case False
      with that have l: "map_of (sessions st) s = Some r" by simp
      have "session_board_id (info (heap st ! r)) \<noteq> bc_id b"
        by (rule owner_of_listed [OF ok l]) (use created(4,6) in auto)
      then show ?thesis
        using D(3) [OF l] other [OF l] by (simp add: session_entry_ok_def owned_def nth_append)
    qed
    show "object_ok ?st r" if "r < length (heap ?st)" for r
    proof (cases "r = length (heap st)")
      case True
      moreover have "pending st r = 0" using D(5) [of r] True by auto
      ultimately show ?thesis by (simp add: object_ok_def)
    next
      case False
      with that have r: "r < length (heap st)" by simp
      then have "session_id (info (heap st ! r)) \<noteq> sid"
        using fresh by (auto simp: session_ids_def)
      with D(4) [OF r] r show ?thesis by (simp add: object_ok_def nth_append Let_def)
    qed
    show "r < length (heap ?st)" if "0 < pending ?st r" for r
      using D(5) [of r] that by simp
  qed
  with created show ?thesis by simp
qed

section \<open>Stopping and releasing\<close>

lemma begin_release_active:
  assumes "session_ok s" "\<not> is_releasing s"
  shows "begin_release s = (True, s\<lparr>lifecycle_state := SESSION_STATE_RELEASING\<rparr>)"
  using assms by (auto simp: session_ok_def is_releasing_def lifecycle_def begin_release_def)

lemma pending_queue:
  "pending (st\<lparr>release_queue := q\<rparr>) r =
     count_list (map fst q) r + count_list (map task_session (release_tasks st)) r"
  "pending (st\<lparr>release_tasks := ts\<rparr>) r =
     count_list (map fst (release_queue st)) r + count_list (map task_session ts) r"
  by (simp_all add: pending_def)

lemma actor_ok:
  assumes ok: "lease_ok st" and r: "r < length (heap st)"
  shows "lease_ok (run_session_actor r now st)"
proof (cases "\<exists>reason rest. commands (heap st ! r) = Some (reason # rest)")
  case False
  then have "run_session_actor r now st = st"
    by (auto simp: run_session_actor_def split: option.splits list.splits)
  with ok show ?thesis by simp
next
  case True
  then obtain reason rest where c: "commands (heap st ! r) = Some (reason # rest)" by blast
  note D = lease_okD [OF ok]
  let ?s = "heap st ! r"
  let ?sid = "session_id (info ?s)" and ?b = "session_board_id (info ?s)"
  from D(4) [OF r] c have act: "\<not> is_releasing ?s" "session_ok ?s" "pending st r = 0"
      "map_of (sessions st) ?sid = Some r" "bc_id (session_board ?s) = ?b"
    by (auto simp: object_ok_def Let_def split: if_splits)
  obtain rt where rt: "map_of (board_runtimes st) ?b = Some rt" "active_session_id rt = Some ?sid"
      "lease_state rt = LeaseUsing"
    by (rule owner_of_listed [OF ok act(4)]) (use act in auto)
  let ?s' = "?s\<lparr>lifecycle_state := SESSION_STATE_RELEASING, commands := None, shutdown := True\<rparr>"
  let ?rt = "rt\<lparr>lease_state := LeaseReleasing, updated_at := now\<rparr>"
  let ?st = "(set_runtime ?b ?rt (st\<lparr>heap := (heap st)[r := ?s']\<rparr>))
      \<lparr>release_queue := release_queue st @ [(r, reason)]\<rparr>"
  have eq: "run_session_actor r now st = ?st"
    using c r rt begin_release_active [OF act(2,1)]
    by (simp add: run_session_actor_def enqueue_release_def Let_def signal_shutdown_def
        session_snapshot_def transition_board_to_releasing_def update_object_def set_runtime_def)
  have rel: "is_releasing ?s'" by (simp add: is_releasing_def lifecycle_def)
  have ok': "session_ok ?s'" using act(2) by (auto simp: session_ok_def)
  have nth: "heap ?st ! r' = (if r' = r then ?s' else heap st ! r')" for r'
    using r by simp
  have info: "info (heap ?st ! r') = info (heap st ! r')" for r'
    by (cases "r' = r") (use r in simp_all)
  have ids: "session_ids ?st = session_ids st"
  proof (rule nth_equalityI)
    show "length (session_ids ?st) = length (session_ids st)" by (simp add: session_ids_def)
    show "session_ids ?st ! i = session_ids st ! i" if "i < length (session_ids ?st)" for i
      using info [of i] that by (simp add: session_ids_def)
  qed
  have pend: "pending ?st r' = pending st r' + of_bool (r' = r)" for r'
    by (simp add: pending_def)
  have "lease_ok ?st"
  proof (rule lease_okI)
    have "map_of (boards st) ?b \<noteq> None"
      using D(1) rt(1) unfolding tables_ok_def by (metis option.distinct(1))
    with D(1) ids show "tables_ok ?st" by (simp add: tables_ok_def)
    show "runtime_ok ?st b' rt'" if "map_of (board_runtimes ?st) b' = Some rt'" for b' rt'
    proof (cases "b' = ?b")
      case True
      with that have "rt' = ?rt" by simp
      moreover have "map_of (sessions ?st) ?sid = Some r" using act(4) by simp
      ultimately show ?thesis
        using rt(2) True info [of r] by (simp add: runtime_ok_def)
    next
      case False
      with that have "runtime_ok st b' rt'" by (simp add: D(2))
      with info show ?thesis by (simp add: runtime_ok_def cong: option.case_cong)
    qed
    show "session_entry_ok ?st sid r'" if "map_of (sessions ?st) sid = Some r'" for sid r'
    proof -
      from that have l: "map_of (sessions st) sid = Some r'" by simp
      show ?thesis
      proof (cases "r' = r")
        case True
        with l D(3) [OF l] rt rel show ?thesis
          by (simp add: session_entry_ok_def owned_def r)
      next
        case False
        have "session_board_id (info (heap st ! r')) \<noteq> ?b"
        proof
          assume eqb: "session_board_id (info (heap st ! r')) = ?b"
          have "sid = ?sid"
            by (rule owner_of_listed [OF ok l]) (use rt eqb in auto)
          with l act(4) False show False by simp
        qed
        with False l D(3) [OF l] show ?thesis
          by (simp add: session_entry_ok_def owned_def)
      qed
    qed
    show "object_ok ?st r'" if "r' < length (heap ?st)" for r'
    proof (cases "r' = r")
      case True
      then show ?thesis
        using act rel ok' nth [of r] pend [of r] by (simp add: object_ok_def)
    next
      case False
      with D(4) [of r'] that nth [of r'] pend [of r'] show ?thesis
        by (simp add: object_ok_def Let_def)
    qed
    show "r' < length (heap ?st)" if "0 < pending ?st r'" for r'
      using D(5) [of r'] that pend [of r'] r by (cases "r' = r") auto
  qed
  with eq show ?thesis by simp
qed

lemma lease_ok_pending:
  assumes "lease_ok st" "\<And>r. pending (st\<lparr>release_queue := q, release_tasks := ts\<rparr>) r = pending st r"
  shows "lease_ok (st\<lparr>release_queue := q, release_tasks := ts\<rparr>)"
proof -
  let ?st = "st\<lparr>release_queue := q, release_tasks := ts\<rparr>"
  have "tables_ok ?st = tables_ok st" by (simp add: tables_ok_def session_ids_def)
  moreover have "runtime_ok ?st = runtime_ok st"
    by (intro ext) (simp add: runtime_ok_def cong: option.case_cong)
  moreover have "session_entry_ok ?st = session_entry_ok st"
    by (intro ext) (simp add: session_entry_ok_def owned_def)
  moreover have "object_ok ?st = object_ok st"
    by (intro ext) (simp add: object_ok_def assms(2) del: of_bool_eq_iff)
  ultimately show ?thesis
    using assms by (simp add: lease_ok_def)
qed

lemma coordinate_ok: "lease_ok st \<Longrightarrow> lease_ok (coordinate st)"
proof (cases "release_queue st")
  case Nil
  then show "lease_ok st \<Longrightarrow> ?thesis" by (simp add: coordinate_def)
next
  case (Cons e rest)
  obtain r reason where e: "e = (r, reason)" by (cases e)
  assume "lease_ok st"
  then have "lease_ok (st\<lparr>release_queue := rest,
      release_tasks := release_tasks st @ [new_release_task r]\<rparr>)"
    by (rule lease_ok_pending) (simp add: pending_def Cons e new_release_task_def)
  with Cons e show ?thesis by (simp add: coordinate_def)
qed

text \<open>What a power action leaves alone.\<close>

definition same_leases :: "app_state \<Rightarrow> app_state \<Rightarrow> bool" where
  "same_leases st st' \<longleftrightarrow>
     (lease_ok st \<longrightarrow> lease_ok st') \<and>
     boards st' = boards st \<and> board_runtimes st' = board_runtimes st \<and> sessions st' = sessions st \<and>
     release_queue st' = release_queue st \<and> release_tasks st' = release_tasks st \<and>
     (\<forall>r. session_id (info (heap st' ! r)) = session_id (info (heap st ! r)) \<and>
        session_board_id (info (heap st' ! r)) = session_board_id (info (heap st ! r)) \<and>
        session_board (heap st' ! r) = session_board (heap st ! r) \<and>
        is_releasing (heap st' ! r) = is_releasing (heap st ! r))"

lemma same_leases_refl [simp]: "same_leases st st"
  by (simp add: same_leases_def)

lemma same_leases_trans: "same_leases st st' \<Longrightarrow> same_leases st' st'' \<Longrightarrow> same_leases st st''"
  by (simp add: same_leases_def)

lemma update_object_same:
  assumes "\<And>s. quiet f s"
  shows "same_leases st (update_object r f st)"
proof -
  have "heap (update_object r f st) ! r' = heap st ! r' \<or>
      heap (update_object r f st) ! r' = f (heap st ! r')" for r'
    by (cases "r' = r \<and> r < length (heap st)") (auto simp: list_update_beyond)
  then have *: "session_id (info (heap (update_object r f st) ! r')) = session_id (info (heap st ! r')) \<and>
      session_board_id (info (heap (update_object r f st) ! r')) = session_board_id (info (heap st ! r')) \<and>
      session_board (heap (update_object r f st) ! r') = session_board (heap st ! r') \<and>
      is_releasing (heap (update_object r f st) ! r') = is_releasing (heap st ! r')" for r'
    using assms unfolding quiet_def by metis
  from update_object_ok [OF _ assms, of st] * show ?thesis
    unfolding same_leases_def by (simp del: update_object_simps(6))
qed

lemma power_action_same: "same_leases st (snd (execute_board_power_action b answer st))"
  by (auto simp: execute_board_power_action_def intro!: update_object_same quiet_ops
      split: option.splits)

lemma retry_same:
  assumes "\<And>a st. same_leases st (snd (operation a st))"
  shows "same_leases st (snd (retry_from n a operation e st))"
proof (induction n arbitrary: a e st)
  case 0
  show ?case by simp
next
  case (Suc n)
  show ?case
    using assms [of st a] Suc same_leases_trans
    by (auto split: prod.splits sum.splits)
qed

lemma stop_stage_session [simp]: "task_session (fst (stop_stage env t)) = task_session t"
  by (simp add: stop_stage_def split: sum.splits)

lemma settle_stage_session [simp]: "task_session (fst (settle_stage env b t)) = task_session t"
  by (simp add: settle_stage_def)

lemma tftp_stage_session [simp]: "task_session (fst (tftp_stage env t)) = task_session t"
  by (auto simp: tftp_stage_def split: prod.splits sum.splits)

lemma power_stage_frame:
  "task_session (fst (power_stage env t st)) = task_session t \<and>
   same_leases st (snd (snd (power_stage env t st)))"
proof -
  let ?op = "\<lambda>attempt. execute_board_power_action (session_board (heap st ! task_session t))
      (power_answer env attempt)"
  have "same_leases st (snd (retry_release_step RELEASE_RETRY_ATTEMPTS ?op st))"
    unfolding retry_release_step_def by (rule retry_same) (rule power_action_same)
  then show ?thesis
    by (auto simp: power_stage_def Let_def split: prod.splits sum.splits)
qed

lemma release_stages_split:
  assumes "release_stages env t st = (t3, es, now, st1)"
  obtains t1 e1 t2 e2 t2' clock e3 where
    "stop_stage env t = (t1, e1)" "power_stage env t1 st = (t2, e2, st1)"
    "settle_stage env (session_board (heap st ! task_session t)) t2 = (t2', clock)"
    "tftp_stage env t2' = (t3, e3)" "es = e1 @ e2 @ e3" "now = clock + int (env_rest env)"
  using assms by (auto simp: release_stages_def Let_def split: prod.splits)

lemma release_stages_frame:
  assumes "release_stages env t st = (t3, es, now, st1)"
  shows "task_session t3 = task_session t \<and> same_leases st st1"
proof -
  from assms obtain t1 e1 t2 e2 t2' clock e3 where s: "stop_stage env t = (t1, e1)"
    "power_stage env t1 st = (t2, e2, st1)"
    "settle_stage env (session_board (heap st ! task_session t)) t2 = (t2', clock)"
    "tftp_stage env t2' = (t3, e3)"
    by (rule release_stages_split)
  then show ?thesis
    using power_stage_frame [of env t1 st] stop_stage_session [of env t] tftp_stage_session [of env t2']
      settle_stage_session [of env "session_board (heap st ! task_session t)" t2]
    by simp
qed

lemma snapshot_ids:
  "session_id (session_snapshot s) = session_id (info s)"
  "session_board_id (session_snapshot s) = session_board_id (info s)"
  by (simp_all add: session_snapshot_def)

lemma release_round_unfold:
  assumes "release_stages env t st = (t3, es, now, st1)"
    and "session_board_id (info (heap st ! task_session t)) = b"
    and "session_id (info (heap st ! task_session t)) = sid"
  shows "release_round env t st =
    (if es = [] \<and> task_finished t3 then
       case complete_session_release b sid now st1 of
         (Inr _, st) \<Rightarrow> (True, t3, st)
       | (Inl e, st) \<Rightarrow> (False, t3, snd (mark_board_error b sid
           (join ''; '' (es @ [''failed to mark board idle: '' @ lease_error_text e])) now st))
     else (False, t3, snd (mark_board_error b sid (join ''; '' es) now st1)))"
  unfolding release_round_def Let_def snapshot_ids assms prod.case by (rule refl)

text \<open>A round either gives up with an error on the board or completes the release.\<close>

lemma release_round_cases:
  fixes st :: app_state
  defines "b \<equiv> \<lambda>t. session_board_id (info (heap st ! task_session t))"
    and "sid \<equiv> \<lambda>t. session_id (info (heap st ! task_session t))"
  obtains (again) t' es now st1 err where "release_stages env t st = (t', es, now, st1)"
      "release_round env t st = (False, t', snd (mark_board_error (b t) (sid t) err now st1))"
      "same_leases st st1" "task_session t' = task_session t"
    | (finish) t' now st1 st2 where "release_stages env t st = (t', [], now, st1)"
      "release_round env t st = (True, t', st2)"
      "complete_session_release (b t) (sid t) now st1 = (Inr (), st2)"
      "same_leases st st1" "task_session t' = task_session t" "task_finished t'"
proof -
  obtain t3 es now st1 where 1: "release_stages env t st = (t3, es, now, st1)"
    by (cases "release_stages env t st") auto
  note same = release_stages_frame [OF 1]
  note unfold = release_round_unfold [OF 1 refl refl]
  obtain c st2 where c: "complete_session_release (b t) (sid t) now st1 = (c, st2)"
    by (cases "complete_session_release (b t) (sid t) now st1")
  have unchanged: "c = Inl x \<Longrightarrow> st2 = st1" for x
    using c by (auto simp: complete_session_release_def Let_def split: option.splits if_splits)
  show thesis
  proof (cases "es = [] \<and> task_finished t3 \<and> is_ok c")
    case True
    with c obtain u where "c = Inr u" by (cases c) auto
    with True c 1 same unfold show thesis
      by (intro finish [of t3 now st1 st2]) (simp_all add: b_def sid_def)
  next
    case False
    with c 1 same unchanged unfold show thesis
      by (cases c; cases "es = [] \<and> task_finished t3") (auto simp: b_def sid_def intro!: again)
  qed
qed

lemma count_task:
  assumes "i < length (release_tasks st)"
  shows "0 < count_list (map task_session (release_tasks st)) (task_session (release_tasks st ! i))"
proof -
  have "task_session (release_tasks st ! i) \<in> set (map task_session (release_tasks st))"
    using assms by simp
  then show ?thesis
    using count_list_0_iff [of "map task_session (release_tasks st)"] by (metis gr0I)
qed

lemma pending_task:
  assumes "i < length (release_tasks st)"
  shows "0 < pending st (task_session (release_tasks st ! i))"
  using count_task [OF assms] by (simp add: pending_def)

text \<open>The session of a pending job is releasing and still in the table.\<close>

lemma pending_session:
  assumes "lease_ok st" "0 < pending st r"
  shows "r < length (heap st) \<and> is_releasing (heap st ! r) \<and> pending st r = 1 \<and>
    map_of (sessions st) (session_id (info (heap st ! r))) = Some r"
proof -
  from lease_okD(5) [OF assms] have r: "r < length (heap st)" .
  with lease_okD(4) [OF assms(1) r] assms(2) show ?thesis
    by (auto simp: object_ok_def split: if_splits)
qed

lemma distinct_ids:
  assumes "lease_ok st" "r < length (heap st)" "r' < length (heap st)"
    and "session_id (info (heap st ! r)) = session_id (info (heap st ! r'))"
  shows "r = r'"
proof -
  have "distinct (session_ids st)" using lease_okD(1) [OF assms(1)] by (simp add: tables_ok_def)
  moreover have "session_ids st ! r = session_ids st ! r'"
    using assms(2-4) by (simp add: session_ids_def)
  ultimately show ?thesis
    using assms(2,3) nth_eq_iff_index_eq [of "session_ids st" r r'] by (simp add: session_ids_def)
qed

definition freed :: "int \<Rightarrow> board_runtime \<Rightarrow> board_runtime" where
  "freed now rt = rt\<lparr>lease_state := LeaseIdle, active_session_id := None,
     last_release_error := None, updated_at := now\<rparr>"

lemma freed_simps [simp]:
  "lease_state (freed now rt) = LeaseIdle" "active_session_id (freed now rt) = None"
  by (simp_all add: freed_def)

lemma complete_ok:
  assumes ok: "lease_ok st" and l: "map_of (sessions st) sid = Some r"
    and b: "session_board_id (info (heap st ! r)) = b"
    and rel: "is_releasing (heap st ! r)"
    and rt: "map_of (board_runtimes st) b = Some rt"
    and pend: "\<And>r'. pending (st\<lparr>release_tasks := ts\<rparr>) r' = pending st r' - of_bool (r' = r)"
  shows "lease_ok ((set_runtime b (freed now rt) st)
    \<lparr>sessions := AList.delete sid (sessions st), release_tasks := ts\<rparr>)"
    (is "lease_ok ?st")
proof (rule lease_okI)
  note D = lease_okD [OF ok]
  from listed_id [OF ok l] have r: "r < length (heap st)" "session_id (info (heap st ! r)) = sid"
    by blast+
  have pend': "pending ?st r' = pending st r' - of_bool (r' = r)" for r'
    using pend [of r'] by (simp add: pending_def)
  have sess: "map_of (sessions ?st) s = (if s = sid then None else map_of (sessions st) s)" for s
    by (simp add: map_of_delete)
  have "map_of (boards st) b \<noteq> None"
    using D(1) rt unfolding tables_ok_def by (metis option.distinct(1))
  with D(1) show "tables_ok ?st"
    by (simp add: tables_ok_def session_ids_def)
  show "runtime_ok ?st b' rt'" if "map_of (board_runtimes ?st) b' = Some rt'" for b' rt'
  proof (cases "b' = b")
    case True
    with that have "rt' = freed now rt" by simp
    then show ?thesis by (simp add: runtime_ok_def)
  next
    case False
    with that have "runtime_ok st b' rt'" by (simp add: D(2))
    moreover have "active_session_id rt' \<noteq> Some sid"
      using calculation l b False by (auto simp: runtime_ok_def)
    ultimately show ?thesis by (auto simp: runtime_ok_def sess split: option.splits)
  qed
  show "session_entry_ok ?st s r'" if "map_of (sessions ?st) s = Some r'" for s r'
  proof -
    from that sess have s: "s \<noteq> sid" "map_of (sessions st) s = Some r'" by (auto split: if_splits)
    obtain rt1 rt2 where "map_of (board_runtimes st) (session_board_id (info (heap st ! r'))) = Some rt1"
        "active_session_id rt1 = Some s" "map_of (board_runtimes st) b = Some rt2"
        "active_session_id rt2 = Some sid"
      by (rule owner_of_listed [OF ok s(2)], rule owner_of_listed [OF ok l]) (simp add: b)
    then have "session_board_id (info (heap st ! r')) \<noteq> b" using s(1) by auto
    with D(3) [OF s(2)] show ?thesis by (simp add: session_entry_ok_def owned_def)
  qed
  show "object_ok ?st r'" if "r' < length (heap ?st)" for r'
  proof (cases "r' = r")
    case True
    with D(4) [OF r(1)] rel r l show ?thesis
      by (simp add: object_ok_def pend' map_of_delete)
  next
    case False
    from that have r': "r' < length (heap st)" by simp
    with False distinct_ids [OF ok r' r(1)] r(2) have "session_id (info (heap st ! r')) \<noteq> sid" by auto
    with D(4) [OF r'] False show ?thesis
      by (simp add: object_ok_def pend' map_of_delete)
  qed
  show "r' < length (heap ?st)" if "0 < pending ?st r'" for r'
    using D(5) [of r'] that pend' [of r'] by simp
qed

lemma count_remove_nth:
  "i < length xs \<Longrightarrow> count_list (take i xs @ drop (Suc i) xs) y = count_list xs y - of_bool (y = xs ! i)"
proof -
  assume i: "i < length xs"
  have "count_list xs y = count_list (take i xs @ xs ! i # drop (Suc i) xs) y"
    by (subst id_take_nth_drop [OF i]) simp
  then show ?thesis by simp
qed

lemma complete_release_Inr:
  assumes "complete_session_release b sid now st = (Inr (), st')"
  obtains rt where "map_of (board_runtimes st) b = Some rt" "active_session_id rt = Some sid"
    "map_of (sessions st) sid \<noteq> None"
    "st' = (set_runtime b (freed now rt) st)\<lparr>sessions := AList.delete sid (sessions st)\<rparr>"
  using assms
  by (auto simp: complete_session_release_def Let_def freed_def split: option.splits if_splits)

lemma run_task_ok:
  assumes ok: "lease_ok st" and i: "i < length (release_tasks st)"
  shows "lease_ok (run_task i env st)"
proof -
  let ?t = "release_tasks st ! i"
  let ?r = "task_session ?t"
  let ?b = "session_board_id (info (heap st ! ?r))" and ?sid = "session_id (info (heap st ! ?r))"
  from pending_session [OF ok pending_task [OF i]] have r: "?r < length (heap st)"
      "is_releasing (heap st ! ?r)" "map_of (sessions st) ?sid = Some ?r"
    by blast+
  show ?thesis
  proof (rule release_round_cases [of env ?t st])
    fix t' now st1 err
    assume c: "release_round env ?t st = (False, t', snd (mark_board_error ?b ?sid err now st1))"
      "same_leases st st1" "task_session t' = ?r"
    let ?st2 = "snd (mark_board_error ?b ?sid err now st1)"
    from c(2) ok r have "lease_ok st1" "map_of (sessions st1) ?sid = Some ?r"
        "is_releasing (heap st1 ! ?r)" "?b = session_board_id (info (heap st1 ! ?r))"
      by (simp_all add: same_leases_def)
    then have ok2: "lease_ok ?st2" by (rule mark_error_ok)
    have tasks: "release_tasks ?st2 = release_tasks st"
      using c(2) by (simp add: mark_board_error_def same_leases_def split: option.splits)
    have "lease_ok (?st2\<lparr>release_queue := release_queue ?st2,
        release_tasks := (release_tasks ?st2)[i := t']\<rparr>)"
    proof (rule lease_ok_pending [OF ok2])
      have "map task_session ((release_tasks st)[i := t']) = map task_session (release_tasks st)"
        using c(3) by (simp add: map_update) (metis list_update_id map_update)
      then show "pending (?st2\<lparr>release_queue := release_queue ?st2,
          release_tasks := (release_tasks ?st2)[i := t']\<rparr>) r' = pending ?st2 r'" for r'
        by (simp add: pending_def tasks)
    qed
    with c(1) show ?thesis by (simp add: run_task_def)
  next
    fix t' now st1 st2
    assume c: "release_round env ?t st = (True, t', st2)"
      "complete_session_release ?b ?sid now st1 = (Inr (), st2)"
      "same_leases st st1" "task_session t' = ?r" "task_finished t'"
    from c(3) ok r have s1: "lease_ok st1" "map_of (sessions st1) ?sid = Some ?r"
        "session_board_id (info (heap st1 ! ?r)) = ?b" "is_releasing (heap st1 ! ?r)"
        "release_tasks st1 = release_tasks st"
      by (simp_all add: same_leases_def)
    obtain rt where rt: "map_of (board_runtimes st1) ?b = Some rt" and
        st2: "st2 = (set_runtime ?b (freed now rt) st1)
          \<lparr>sessions := AList.delete ?sid (sessions st1)\<rparr>"
      by (rule complete_release_Inr [OF c(2)])
    let ?ts = "take i (release_tasks st) @ drop (Suc i) (release_tasks st)"
    have "count_list (map task_session ?ts) r' =
        count_list (map task_session (release_tasks st)) r' - of_bool (r' = ?r)" for r'
      using count_remove_nth [of i "map task_session (release_tasks st)" r'] i
      by (simp add: take_map drop_map)
    moreover have "r' = ?r \<Longrightarrow> 0 < count_list (map task_session (release_tasks st)) r'" for r'
      using count_task [OF i] by simp
    ultimately have "pending (st1\<lparr>release_tasks := ?ts\<rparr>) r' = pending st1 r' - of_bool (r' = ?r)" for r'
      by (cases "r' = ?r") (simp_all add: pending_def s1(5))
    from complete_ok [OF s1(1,2,3,4) rt this, of now]
    have "lease_ok (st2\<lparr>release_tasks := ?ts\<rparr>)" by (simp add: st2)
    moreover have "release_tasks st2 = release_tasks st" by (simp add: st2 s1(5))
    ultimately show ?thesis using c(1) by (simp add: run_task_def)
  qed
qed

section \<open>The other steps, and runs\<close>

lemma sync_runtimes:
  "map_of (board_runtimes (sync_board_runtime_states now st)) b =
     (case map_of (boards st) b of None \<Rightarrow> None
      | Some _ \<Rightarrow> Some (unwrap_or (map_of (board_runtimes st) b) (runtime_default now)))"
proof -
  have "map_of (map (\<lambda>(k, b). (k, f k)) m) k = (case map_of m k of None \<Rightarrow> None | Some _ \<Rightarrow> Some (f k))"
    for f :: "string \<Rightarrow> board_runtime" and m :: "(string, board_config) amap" and k
    by (induction m) auto
  then show ?thesis by (simp add: sync_board_runtime_states_def)
qed

lemma sync_simps [simp]:
  "boards (sync_board_runtime_states now st) = boards st"
  "sessions (sync_board_runtime_states now st) = sessions st"
  "heap (sync_board_runtime_states now st) = heap st"
  "session_ids (sync_board_runtime_states now st) = session_ids st"
  "pending (sync_board_runtime_states now st) r = pending st r"
  by (simp_all add: sync_board_runtime_states_def session_ids_def pending_def)

lemma sync_keys:
  "keys_distinct (boards st) \<Longrightarrow> keys_distinct (board_runtimes (sync_board_runtime_states now st))"
  by (simp add: sync_board_runtime_states_def keys_distinct_def comp_def case_prod_beta)

lemma inventory_ok:
  assumes ok: "lease_ok st" and f: "filed bs"
    and keep: "\<And>b. \<not> idle_board st b \<Longrightarrow> map_of bs b = map_of (boards st) b"
  shows "lease_ok (sync_board_runtime_states now (st\<lparr>boards := bs\<rparr>))" (is "lease_ok ?st")
proof (rule lease_okI)
  note D = lease_okD [OF ok]
  have busy: "map_of (board_runtimes ?st) b = Some rt"
    if rt: "map_of (board_runtimes st) b = Some rt" and n: "lease_state rt \<noteq> LeaseIdle" for b rt
  proof -
    have "map_of bs b = map_of (boards st) b"
      using rt n by (intro keep) (simp add: idle_board_def)
    moreover have "map_of (boards st) b \<noteq> None"
      using D(1) rt unfolding tables_ok_def by (metis option.distinct(1))
    ultimately show ?thesis by (auto simp: sync_runtimes rt)
  qed
  have ids: "session_ids (st\<lparr>boards := bs\<rparr>) = session_ids st" by (simp add: session_ids_def)
  have pend: "pending (st\<lparr>boards := bs\<rparr>) r = pending st r" for r by (simp add: pending_def)
  show "tables_ok ?st"
    using D(1) f by (auto simp: tables_ok_def ids sync_runtimes filed_def intro!: sync_keys split: option.splits)
  show "runtime_ok ?st b rt" if "map_of (board_runtimes ?st) b = Some rt" for b rt
  proof (cases "map_of (board_runtimes st) b")
    case None
    with that have "rt = runtime_default now" by (simp add: sync_runtimes split: option.splits)
    then show ?thesis by (simp add: runtime_ok_def runtime_default_def)
  next
    case (Some rt')
    with that have "runtime_ok st b rt" by (auto simp: sync_runtimes D(2) split: option.splits)
    then show ?thesis by (simp add: runtime_ok_def cong: option.case_cong)
  qed
  show "session_entry_ok ?st sid r" if "map_of (sessions ?st) sid = Some r" for sid r
  proof -
    from that have l: "map_of (sessions st) sid = Some r" by simp
    obtain rt where rt: "map_of (board_runtimes st) (session_board_id (info (heap st ! r))) = Some rt"
        "active_session_id rt = Some sid" "lease_state rt = LeaseUsing \<longleftrightarrow> \<not> is_releasing (heap st ! r)"
      by (rule owner_of_listed [OF ok l])
    from D(2) [OF rt(1)] rt(2) have "lease_state rt \<noteq> LeaseIdle" by (simp add: runtime_ok_def)
    with busy rt have "owned ?st (session_board_id (info (heap st ! r))) sid (is_releasing (heap st ! r))"
      by (auto simp: owned_def)
    with D(3) [OF l] show ?thesis by (simp add: session_entry_ok_def)
  qed
  show "object_ok ?st r" if "r < length (heap ?st)" for r
    using D(4) [of r] that by (simp add: object_ok_def pend del: of_bool_eq_iff)
  show "r < length (heap ?st)" if "0 < pending ?st r" for r
    using D(5) [of r] that by (simp add: pend)
qed

lemma lease_step_ok: "lease_step st st' \<Longrightarrow> lease_ok st \<Longrightarrow> lease_ok st'"
proof (induction rule: lease_step.induct)
  case (inventory bs st now)
  then show ?case by (intro inventory_ok)
qed (auto simp: cleanup_expired_sessions_def intro: create_ok heartbeat_ok stop_ok expire_ok actor_ok
    coordinate_ok run_task_ok update_object_ok quiet_step)

lemma build_ok: "filed bs \<Longrightarrow> lease_ok (build_app_state now bs)"
proof (rule lease_okI)
  assume f: "filed bs"
  have runtimes: "map_of (board_runtimes (build_app_state now bs)) b =
      map_option (\<lambda>_. runtime_default now) (map_of bs b)" for b
    unfolding build_app_state_def initial_board_runtimes_def by (induction bs) auto
  have keys: "keys_distinct (board_runtimes (build_app_state now bs))"
    using f by (simp add: build_app_state_def initial_board_runtimes_def filed_def keys_distinct_def
        comp_def case_prod_beta)
  show "tables_ok (build_app_state now bs)"
    using f keys by (simp add: tables_ok_def runtimes) (simp add: build_app_state_def session_ids_def)
  show "runtime_ok (build_app_state now bs) b rt"
    if "map_of (board_runtimes (build_app_state now bs)) b = Some rt" for b rt
    using that by (auto simp: runtimes runtime_ok_def runtime_default_def)
qed (simp_all add: build_app_state_def pending_def)

lemma lease_reachable_ok: "lease_reachable st \<Longrightarrow> lease_ok st"
  by (induction rule: lease_reachable.induct) (auto intro: build_ok lease_step_ok)

section \<open>Retrying a step\<close>

text \<open>
  An operation whose answer does not depend on the state succeeds within the attempts exactly
  when one of them is answered well, and is called once per attempt up to the first success.
\<close>

lemma retry_from_ok:
  "is_ok (fst (retry_from n a (\<lambda>k s. (answer k, f k s)) e s)) \<longleftrightarrow>
     (\<exists>k. a \<le> k \<and> k < a + n \<and> is_ok (answer k))"
proof (induction n arbitrary: a e s)
  case 0
  show ?case by simp
next
  case (Suc n)
  show ?case
  proof (cases "answer a")
    case (Inl x)
    then have "(\<exists>k. a \<le> k \<and> k < a + Suc n \<and> is_ok (answer k)) \<longleftrightarrow>
        (\<exists>k. a + 1 \<le> k \<and> k < a + 1 + n \<and> is_ok (answer k))"
      by (metis Suc_eq_plus1 Suc_leD add_Suc_right add_Suc_shift is_ok_simps(2) le_antisym not_less_eq_eq)
    with Inl Suc show ?thesis by simp
  next
    case (Inr x)
    then have "\<exists>k. a \<le> k \<and> k < a + Suc n \<and> is_ok (answer k)" by (intro exI [of _ a]) simp
    with Inr show ?thesis by simp
  qed
qed

lemma retry_from_calls:
  "snd (retry_from n a (\<lambda>k c. (answer k, Suc c)) e c) \<le> c + n"
proof (induction n arbitrary: a e c)
  case 0
  show ?case by simp
next
  case (Suc n)
  then show ?case
    using Suc.IH [of "a + 1" _ "Suc c"] by (auto split: sum.splits)
qed

definition answered :: "(nat \<Rightarrow> string + unit) \<Rightarrow> bool" where
  "answered answer \<longleftrightarrow> list_ex (\<lambda>k. is_ok (answer k)) [1..<Suc RELEASE_RETRY_ATTEMPTS]"

lemma answered_iff:
  "answered answer \<longleftrightarrow> (\<exists>k. 1 \<le> k \<and> k < 1 + RELEASE_RETRY_ATTEMPTS \<and> is_ok (answer k))"
  by (auto simp: answered_def list_ex_iff)

lemma power_op: "execute_board_power_action b answer st =
    (answer, snd (execute_board_power_action b answer st))"
  by (simp add: execute_board_power_action_def)

lemma retry_power:
  "is_ok (fst (retry_release_step RELEASE_RETRY_ATTEMPTS
     (\<lambda>k. execute_board_power_action b (answer k)) st)) \<longleftrightarrow> answered answer"
proof -
  have "(\<lambda>k. execute_board_power_action b (answer k)) =
      (\<lambda>k st. (answer k, snd (execute_board_power_action b (answer k) st)))"
    by (intro ext) (rule power_op)
  then show ?thesis
    unfolding retry_release_step_def answered_iff by (simp only: retry_from_ok)
qed

lemma retry_tftp:
  "is_ok (fst (retry_release_step RELEASE_RETRY_ATTEMPTS (\<lambda>k s. (answer k, s)) ())) \<longleftrightarrow> answered answer"
  unfolding retry_release_step_def answered_iff by (rule retry_from_ok)

definition tasks_stopped :: "release_env \<Rightarrow> bool" where
  "tasks_stopped env \<longleftrightarrow> is_ok (wait_for_session_tasks_to_stop (readings env) (owner_released env))"

lemma tasks_stopped_iff:
  "tasks_stopped env \<longleftrightarrow> False \<in> set (readings env) \<and> is_ok (owner_released env)"
proof -
  have "is_ok (wait_for_session_tasks_to_stop rs o') \<longleftrightarrow> False \<in> set rs \<and> is_ok o'" for rs o'
    by (induction rs) auto
  then show ?thesis by (simp add: tasks_stopped_def)
qed

text \<open>The flags after a round.\<close>

lemma stop_stage_flags:
  assumes "stop_stage env t = (t', es)"
  shows "session_tasks_stopped t' \<longleftrightarrow> session_tasks_stopped t \<or> tasks_stopped env"
    and "es = [] \<longleftrightarrow> session_tasks_stopped t'"
    and "board_powered_off t' = board_powered_off t" "release_settled t' = release_settled t"
    and "tftp_cleaned t' = tftp_cleaned t"
  using assms by (auto simp: stop_stage_def tasks_stopped_def split: if_splits sum.splits)

lemma power_stage_flags:
  assumes "power_stage env t st = (t', es, st')"
  shows "board_powered_off t' \<longleftrightarrow> board_powered_off t \<or> answered (power_answer env)"
    and "es = [] \<longleftrightarrow> board_powered_off t'"
    and "session_tasks_stopped t' = session_tasks_stopped t" "release_settled t' = release_settled t"
    and "tftp_cleaned t' = tftp_cleaned t"
  using assms retry_power [of "session_board (heap st ! task_session t)" "power_answer env" st]
  by (auto simp: power_stage_def Let_def split: if_splits sum.splits prod.splits)

lemma tftp_stage_flags:
  assumes "tftp_stage env t = (t', es)"
  shows "tftp_cleaned t' \<longleftrightarrow> tftp_cleaned t \<or> answered (tftp_answer env)"
    and "es = [] \<longleftrightarrow> tftp_cleaned t'"
    and "session_tasks_stopped t' = session_tasks_stopped t" "release_settled t' = release_settled t"
    and "board_powered_off t' = board_powered_off t"
  using assms retry_tftp [of "tftp_answer env"]
  by (auto simp: tftp_stage_def split: if_splits sum.splits prod.splits)

section \<open>A release job\<close>

definition settled_ok :: "release_task \<Rightarrow> bool" where
  "settled_ok t \<longleftrightarrow> (release_settled t \<longleftrightarrow> session_tasks_stopped t \<and> board_powered_off t)"

lemma settled_ok_new [simp]: "settled_ok (new_release_task r)"
  by (simp add: settled_ok_def new_release_task_def)

text \<open>A job's session: releasing and still in the table, so that the board is its own.\<close>

definition releasing_in :: "app_state \<Rightarrow> session_ref \<Rightarrow> string \<Rightarrow> string \<Rightarrow> bool" where
  "releasing_in st r sid b \<longleftrightarrow>
     lease_ok st \<and> map_of (sessions st) sid = Some r \<and> is_releasing (heap st ! r) \<and>
     session_id (info (heap st ! r)) = sid \<and> session_board_id (info (heap st ! r)) = b"

lemma releasing_in_same: "same_leases st st' \<Longrightarrow> releasing_in st r sid b \<Longrightarrow> releasing_in st' r sid b"
  by (simp add: same_leases_def releasing_in_def)

lemma releasing_in_complete:
  assumes "releasing_in st r sid b"
  shows "\<exists>rt. map_of (board_runtimes st) b = Some rt \<and> complete_session_release b sid now st =
    (Inr (), (set_runtime b (freed now rt) st)\<lparr>sessions := AList.delete sid (sessions st)\<rparr>)"
proof -
  from assms have ok: "lease_ok st" and l: "map_of (sessions st) sid = Some r"
    and b: "session_board_id (info (heap st ! r)) = b"
    by (simp_all add: releasing_in_def)
  obtain rt where "map_of (board_runtimes st) b = Some rt" "active_session_id rt = Some sid"
    by (rule owner_of_listed [OF ok l]) (simp add: b)
  with l show ?thesis by (simp add: complete_session_release_def freed_def Let_def)
qed

lemma releasing_in_mark_error:
  assumes "releasing_in st r sid b"
  shows "releasing_in (snd (mark_board_error b sid err now st)) r sid b"
proof -
  have "lease_ok (snd (mark_board_error b sid err now st))"
    using assms by (intro mark_error_ok) (auto simp: releasing_in_def)
  moreover have "sessions (snd (mark_board_error b sid err now st)) = sessions st \<and>
      heap (snd (mark_board_error b sid err now st)) = heap st"
    by (simp add: mark_board_error_def split: option.splits)
  ultimately show ?thesis using assms by (simp add: releasing_in_def)
qed

lemma release_round_spec:
  assumes "releasing_in st r sid b" "task_session t = r" "settled_ok t"
    and "release_round env t st = (d, t', st')"
  shows "task_session t' = r \<and> settled_ok t' \<and>
    (session_tasks_stopped t' \<longleftrightarrow> session_tasks_stopped t \<or> tasks_stopped env) \<and>
    (board_powered_off t' \<longleftrightarrow> board_powered_off t \<or> answered (power_answer env)) \<and>
    (tftp_cleaned t' \<longleftrightarrow> tftp_cleaned t \<or> answered (tftp_answer env)) \<and>
    (d \<longleftrightarrow> session_tasks_stopped t' \<and> board_powered_off t' \<and> tftp_cleaned t') \<and>
    (if d then map_of (sessions st') sid = None \<and>
       (\<exists>rt. map_of (board_runtimes st') b = Some rt \<and> lease_state rt = LeaseIdle \<and>
         active_session_id rt = None)
     else releasing_in st' r sid b)"
proof -
  obtain t3 es now st1 where 0: "release_stages env t st = (t3, es, now, st1)"
    by (cases "release_stages env t st") auto
  from 0 obtain t1 e1 t2 e2 t2' clock e3 where 1: "stop_stage env t = (t1, e1)"
    and 2: "power_stage env t1 st = (t2, e2, st1)"
    and settle: "settle_stage env (session_board (heap st ! task_session t)) t2 = (t2', clock)"
    and 3: "tftp_stage env t2' = (t3, e3)" and es: "es = e1 @ e2 @ e3"
    by (rule release_stages_split)
  note f = stop_stage_flags [OF 1] power_stage_flags [OF 2] tftp_stage_flags [OF 3]
  have same: "same_leases st st1" "task_session t3 = r"
    using release_stages_frame [OF 0] assms(2) by simp_all
  have rel: "releasing_in st1 r sid b" by (rule releasing_in_same [OF same(1) assms(1)])
  have settled: "session_tasks_stopped t2' = session_tasks_stopped t2"
      "board_powered_off t2' = board_powered_off t2" "tftp_cleaned t2' = tftp_cleaned t2"
      "release_settled t2' \<longleftrightarrow> release_settled t2 \<or> session_tasks_stopped t2 \<and> board_powered_off t2"
    using settle by (auto simp: settle_stage_def split: if_splits)
  have flags: "settled_ok t3"
      "session_tasks_stopped t3 \<longleftrightarrow> session_tasks_stopped t \<or> tasks_stopped env"
      "board_powered_off t3 \<longleftrightarrow> board_powered_off t \<or> answered (power_answer env)"
      "tftp_cleaned t3 \<longleftrightarrow> tftp_cleaned t \<or> answered (tftp_answer env)"
    using f settled assms(3) unfolding settled_ok_def by blast+
  let ?all = "session_tasks_stopped t3 \<and> board_powered_off t3 \<and> tftp_cleaned t3"
  have clean: "es = [] \<and> task_finished t3 \<longleftrightarrow> ?all"
  proof -
    have "e1 = [] \<longleftrightarrow> session_tasks_stopped t3" using f(2,8,13) settled(1) by simp
    moreover have "e2 = [] \<longleftrightarrow> board_powered_off t3" using f(7,15) settled(2) by simp
    moreover have "e3 = [] \<longleftrightarrow> tftp_cleaned t3" by (rule f(12))
    ultimately show ?thesis
      using flags(1) unfolding task_finished_def settled_ok_def append_is_Nil_conv es by blast
  qed
  from releasing_in_complete [OF rel] obtain rt where rt: "map_of (board_runtimes st1) b = Some rt"
      "complete_session_release b sid now st1 =
        (Inr (), (set_runtime b (freed now rt) st1)\<lparr>sessions := AList.delete sid (sessions st1)\<rparr>)"
    by blast
  from assms(1,2) have ids: "session_id (info (heap st ! task_session t)) = sid"
      "session_board_id (info (heap st ! task_session t)) = b"
    by (simp_all add: releasing_in_def)
  show ?thesis
  proof (cases ?all)
    case True
    then have "release_round env t st = (True, t3,
        (set_runtime b (freed now rt) st1)\<lparr>sessions := AList.delete sid (sessions st1)\<rparr>)"
      unfolding release_round_unfold [OF 0 ids(2,1)] clean rt(2) by simp
    with True flags same(2) assms(4) show ?thesis by (auto simp: map_of_delete)
  next
    case False
    then have "release_round env t st = (False, t3, snd (mark_board_error b sid
        (join ''; '' es) now st1))"
      unfolding release_round_unfold [OF 0 ids(2,1)] clean by (rule if_not_P)
    with False flags same(2) assms(4) releasing_in_mark_error [OF rel] show ?thesis by auto
  qed
qed

lemma process_release_spec:
  assumes "releasing_in st r sid b" "task_session t = r" "settled_ok t"
    and "process_release_job envs t st = (d, t', st')"
    and "\<not> (session_tasks_stopped t \<and> board_powered_off t \<and> tftp_cleaned t)"
  shows "(d \<longleftrightarrow> (session_tasks_stopped t \<or> list_ex tasks_stopped envs) \<and>
       (board_powered_off t \<or> list_ex (\<lambda>env. answered (power_answer env)) envs) \<and>
       (tftp_cleaned t \<or> list_ex (\<lambda>env. answered (tftp_answer env)) envs)) \<and>
    (if d then map_of (sessions st') sid = None \<and>
       (\<exists>rt. map_of (board_runtimes st') b = Some rt \<and> lease_state rt = LeaseIdle \<and>
         active_session_id rt = None)
     else releasing_in st' r sid b)"
  using assms
proof (induction envs arbitrary: t st)
  case Nil
  then show ?case by auto
next
  case (Cons env envs)
  obtain d1 t1 st1 where round: "release_round env t st = (d1, t1, st1)"
    by (cases "release_round env t st") auto
  note spec = release_round_spec [OF Cons.prems(1-3) round]
  show ?case
  proof (cases d1)
    case True
    with round Cons.prems(4) have "d" "t' = t1" "st' = st1" by simp_all
    with spec True show ?thesis by auto
  next
    case False
    with round Cons.prems(4) have rest: "process_release_job envs t1 st1 = (d, t', st')" by simp
    from spec False have next_round: "releasing_in st1 r sid b" "task_session t1 = r" "settled_ok t1"
        "\<not> (session_tasks_stopped t1 \<and> board_powered_off t1 \<and> tftp_cleaned t1)"
      by auto
    from Cons.IH [OF next_round(1-3) rest next_round(4)] spec show ?thesis by auto
  qed
qed

end
