(* ===== verification/Lease_Theorems.thy ===== *)
theory Lease_Theorems
  imports Lease_Properties
begin

text \<open>
  The claims about the lease manager, each a few steps over the invariant and the job lemmas of
  \<open>Lease_Properties\<close>, with the runs that witness them.
\<close>

section \<open>A run that witnesses the claims\<close>

definition demo_start :: app_state where
  "demo_start = build_app_state 0 demo_boards"

definition no_power :: "power_management \<Rightarrow> bool" where
  "no_power p \<longleftrightarrow> False"

definition demo_leased :: app_state where
  "demo_leased = snd (create_round no_power ''rpi4'' None [''usb''] None ''s1'' 0 demo_start)"

definition demo_releasing :: app_state where
  "demo_releasing = coordinate (run_session_actor 0 6 (snd (request_session_stop ''s1'' ApiDelete demo_leased)))"

definition demo_env :: release_env where
  "demo_env = \<lparr>readings = [True, False], owner_released = Inr (),
     power_answer = (\<lambda>k. if k = 1 then Inl ''relay busy'' else Inr ()),
     tftp_answer = (\<lambda>_. Inr ()), env_now = 9, env_rest = 1\<rparr>"

lemma demo_reachable:
  "lease_reachable demo_start" "lease_reachable demo_leased" "lease_reachable demo_releasing"
proof -
  show s: "lease_reachable demo_start"
    unfolding demo_start_def by (rule lease_reachable.start [OF demo_filed])
  show l: "lease_reachable demo_leased"
    unfolding demo_leased_def
    by (rule lease_reachable.step [OF s], rule lease_step.create)
      (simp add: demo_start_def build_app_state_def session_ids_def)
  have "0 < length (heap (snd (request_session_stop ''s1'' ApiDelete demo_leased)))"
    by code_simp
  then show "lease_reachable demo_releasing"
    unfolding demo_releasing_def
    by (intro lease_reachable.step [OF _ lease_step.coordinator]
        lease_reachable.step [OF _ lease_step.actor] lease_reachable.step [OF l lease_step.stop])
qed

section \<open>Exclusive leases\<close>

text \<open>
  C3: leases are exclusive. In every reachable state a board's runtime names a session exactly
  when that session is in the table and holds that board, so a board has at most one session and
  a session exactly one board; a board is idle exactly when no session holds it, and in use
  exactly while its session is active.
\<close>

theorem lease_exclusive:
  assumes "lease_reachable st"
  shows "((\<exists>rt. map_of (board_runtimes st) b = Some rt \<and> active_session_id rt = Some sid) \<longleftrightarrow>
      (\<exists>r. map_of (sessions st) sid = Some r \<and> session_id (info (heap st ! r)) = sid \<and>
         session_board_id (info (heap st ! r)) = b)) \<and>
    (map_of (board_runtimes st) b = Some rt \<longrightarrow>
       (lease_state rt = LeaseIdle \<longleftrightarrow> active_session_id rt = None) \<and>
       (lease_state rt = LeaseUsing \<longleftrightarrow>
         (\<exists>s. map_option session_board_id (get_session s st) = Some b \<and>
            map_option info_state (get_session s st) = Some Active)))"
proof (intro conjI impI)
  have ok: "lease_ok st" by (rule lease_reachable_ok [OF assms])
  have l: "session_id (info (heap st ! r)) = s \<and>
      (\<exists>rt. map_of (board_runtimes st) (session_board_id (info (heap st ! r))) = Some rt \<and>
        active_session_id rt = Some s \<and> (lease_state rt = LeaseUsing \<longleftrightarrow> \<not> is_releasing (heap st ! r)))"
    if "map_of (sessions st) s = Some r" for s r
    by (rule owner_of_listed [OF ok that]) blast
  have r: "\<exists>r. map_of (sessions st) s = Some r \<and> session_board_id (info (heap st ! r)) = b"
    if "map_of (board_runtimes st) b = Some rt" "active_session_id rt = Some s" for b rt s
    using lease_okD(2) [OF ok that(1)] that(2) by (simp add: runtime_ok_def)
  show "(\<exists>rt. map_of (board_runtimes st) b = Some rt \<and> active_session_id rt = Some sid) \<longleftrightarrow>
      (\<exists>r. map_of (sessions st) sid = Some r \<and> session_id (info (heap st ! r)) = sid \<and>
         session_board_id (info (heap st ! r)) = b)"
    using l r by blast
  assume rt: "map_of (board_runtimes st) b = Some rt"
  have rok: "runtime_ok st b rt" by (rule lease_okD(2) [OF ok rt])
  then show idle: "lease_state rt = LeaseIdle \<longleftrightarrow> active_session_id rt = None"
    by (auto simp: runtime_ok_def split: option.splits)
  have active: "info_state (session_snapshot s) = Active \<longleftrightarrow> \<not> is_releasing s" for s
    by (cases "lifecycle s") (simp_all add: session_snapshot_def is_releasing_def)
  show "lease_state rt = LeaseUsing \<longleftrightarrow>
      (\<exists>s. map_option session_board_id (get_session s st) = Some b \<and>
         map_option info_state (get_session s st) = Some Active)"
    (is "?L \<longleftrightarrow> ?R")
  proof
    assume u: ?L
    with idle obtain s where s: "active_session_id rt = Some s"
      by (cases "active_session_id rt") auto
    from r [OF rt s] obtain r' where "map_of (sessions st) s = Some r'"
        "session_board_id (info (heap st ! r')) = b" by blast
    with l [OF this(1)] rt u show ?R
      by (intro exI [of _ s])
        (auto simp: get_session_def session_state_of_def snapshot_ids active)
  next
    assume ?R
    then obtain s r' where "map_of (sessions st) s = Some r'" "\<not> is_releasing (heap st ! r')"
        "session_board_id (info (heap st ! r')) = b"
      by (auto simp: get_session_def session_state_of_def snapshot_ids active)
    with l [OF this(1)] rt show ?L by auto
  qed
qed

theorem lease_exclusive_witness:
  "\<exists>r. map_of (sessions demo_leased) ''s1'' = Some r \<and>
     session_id (info (heap demo_leased ! r)) = ''s1'' \<and>
     session_board_id (info (heap demo_leased ! r)) = ''a''"
proof -
  have "\<exists>rt. map_of (board_runtimes demo_leased) ''a'' = Some rt \<and> active_session_id rt = Some ''s1''"
    by (rule exI [of _ "the (map_of (board_runtimes demo_leased) ''a'')"]) code_simp
  with lease_exclusive [OF demo_reachable(2), of "''a''" "''s1''"] show ?thesis by blast
qed

section \<open>Creating a session\<close>

text \<open>
  C36: creating a session takes one round and a free board. In a reachable state the first round
  of \<open>create_session_inner\<close> returns: it neither panics nor retries. A refusal changes nothing;
  a created session carries the fresh id, and its board was idle, enabled, of the requested type
  and with the tags, not under an administrative power action, and is now in use by it.
\<close>

theorem create_session_sound:
  assumes "lease_reachable st"
  shows "\<exists>out st'. create_session_inner busy ty bid required client ((sid, now) # rounds) st = Some (out, st') \<and>
    (case out of
       Refused e \<Rightarrow> st' = st
     | Created s \<Rightarrow> \<exists>b rt. session_id s = sid \<and> session_board_id s = bc_id b \<and>
         map_of (boards st) (bc_id b) = Some b \<and> eligible ty required b \<and>
         \<not> busy (power_management b) \<and>
         map_of (board_runtimes st) (bc_id b) = Some rt \<and> lease_state rt = LeaseIdle \<and>
         map_of (board_runtimes st') (bc_id b) = Some (claimed sid now rt) \<and>
         get_session sid st' = Some s
     | _ \<Rightarrow> False)"
proof (rule create_round_cases [OF lease_reachable_ok [OF assms], of busy ty bid required client sid now])
  fix e
  assume "create_round busy ty bid required client sid now st = (Refused e, st)"
  then show ?thesis by simp
next
  fix b rt
  assume c: "choose_board busy ty bid required st = Some (Inr b)"
      "map_of (boards st) (bc_id b) = Some b" "eligible ty required b"
      "map_of (board_runtimes st) (bc_id b) = Some rt" "lease_state rt = LeaseIdle"
      "create_round busy ty bid required client sid now st =
         (Created (session_snapshot (session_new_with_actor now sid b client)),
          insert_session (session_new_with_actor now sid b client)
            (set_runtime (bc_id b) (claimed sid now rt) st))"
  have t: "filed (boards st)"
    using lease_okD(1) [OF lease_reachable_ok [OF assms]] by (simp add: tables_ok_def)
  have "\<not> busy (power_management b)"
    using choose_board_Inr [OF t c(1)] filed_bt_values [OF t]
    by (auto simp: unavailable_board_ids_def)
  with c show ?thesis
    by (simp add: snapshot_ids get_session_def session_state_of_def) (rule exI [of _ b], simp)
qed

theorem create_session_sound_witness:
  "\<exists>out st'. create_session_inner no_power ''rpi4'' None [''usb''] None [(''s2'', 1)] demo_leased =
     Some (out, st')"
  using create_session_sound [OF demo_reachable(2), of no_power "''rpi4''" None "[''usb'']" None "''s2''" 1 "[]"]
  by blast

section \<open>Releasing a session\<close>

text \<open>
  A stopped session is released by exactly one job. In every reachable state a session that
  is not releasing is in the table, its actor still listens and no job has it; a releasing one
  has exactly one job, queued or running, as long as it is in the table and none afterwards, and
  it takes no heartbeat.
\<close>

theorem released_once:
  assumes "lease_reachable st" "r < length (heap st)"
  shows "if is_releasing (heap st ! r)
    then pending st r = of_bool (map_of (sessions st) (session_id (info (heap st ! r))) = Some r) \<and>
      (\<exists>e. heartbeat_session (session_id (info (heap st ! r))) now st = (Inl e, st))
    else pending st r = 0 \<and> commands (heap st ! r) \<noteq> None \<and>
      map_of (sessions st) (session_id (info (heap st ! r))) = Some r"
proof -
  have ok: "lease_ok st" by (rule lease_reachable_ok [OF assms(1)])
  have "\<exists>e. heartbeat_session (session_id (info (heap st ! r))) now st = (Inl e, st)"
    if "is_releasing (heap st ! r)"
  proof (cases "map_of (sessions st) (session_id (info (heap st ! r)))")
    case None
    then show ?thesis by (simp add: heartbeat_session_def)
  next
    case (Some r')
    from listed_id [OF ok Some] distinct_ids [OF ok assms(2), of r'] have "r' = r" by auto
    with Some that show ?thesis by (simp add: heartbeat_session_def)
  qed
  with lease_okD(4) [OF ok assms(2)] show ?thesis
    by (simp add: object_ok_def del: of_bool_eq_iff)
qed

theorem released_once_witness: "pending demo_releasing 0 = 1"
proof -
  have "0 < length (heap demo_releasing)" "is_releasing (heap demo_releasing ! 0)"
      "map_of (sessions demo_releasing) (session_id (info (heap demo_releasing ! 0))) = Some 0"
    by code_simp+
  with released_once [OF demo_reachable(3) this(1)] show ?thesis by simp
qed

text \<open>
  C4: a release returns exactly when the environment allows it. For a job just started in a
  reachable state, \<open>process_release_job\<close> returns after some of the given rounds exactly when in
  one of them the session's tasks had stopped (the serial flag was read as clear and the manager
  had released the owner), in one a power-off was accepted within three attempts and in one the
  TFTP cleanup was, the successes remembered between rounds. Then the session is gone and its
  board idle and owned by nobody; until then the board stays the session's.
\<close>

theorem release_exact:
  assumes "lease_reachable st" "i < length (release_tasks st)"
    and "release_tasks st ! i = new_release_task r"
    and "process_release_job envs (new_release_task r) st = (done, t, st')"
  shows "(done \<longleftrightarrow>
      list_ex (\<lambda>env. False \<in> set (readings env) \<and> is_ok (owner_released env)) envs \<and>
      list_ex (\<lambda>env. answered (power_answer env)) envs \<and>
      list_ex (\<lambda>env. answered (tftp_answer env)) envs) \<and>
    (if done then get_session (session_id (info (heap st ! r))) st' = None \<and>
       (\<exists>rt. map_of (board_runtimes st') (session_board_id (info (heap st ! r))) = Some rt \<and>
         lease_state rt = LeaseIdle \<and> active_session_id rt = None)
     else (\<exists>rt. map_of (board_runtimes st') (session_board_id (info (heap st ! r))) = Some rt \<and>
         lease_state rt \<noteq> LeaseIdle \<and>
         active_session_id rt = Some (session_id (info (heap st ! r)))))"
proof -
  let ?sid = "session_id (info (heap st ! r))" and ?b = "session_board_id (info (heap st ! r))"
  have ok: "lease_ok st" by (rule lease_reachable_ok [OF assms(1)])
  have "task_session (release_tasks st ! i) = r" using assms(3) by (simp add: new_release_task_def)
  with pending_session [OF ok pending_task [OF assms(2)]] ok have rel: "releasing_in st r ?sid ?b"
    by (simp add: releasing_in_def)
  have flags: "task_session (new_release_task r) = r" "\<not> session_tasks_stopped (new_release_task r)"
      "\<not> board_powered_off (new_release_task r)" "\<not> tftp_cleaned (new_release_task r)"
    by (simp_all add: new_release_task_def)
  note spec = process_release_spec [OF rel flags(1) settled_ok_new assms(4)]
  have kept: "\<exists>rt. map_of (board_runtimes st') ?b = Some rt \<and> lease_state rt \<noteq> LeaseIdle \<and>
      active_session_id rt = Some ?sid" if "releasing_in st' r ?sid ?b"
  proof -
    from that have ok': "lease_ok st'" and l: "map_of (sessions st') ?sid = Some r"
        and b: "session_board_id (info (heap st' ! r)) = ?b"
      by (simp_all add: releasing_in_def)
    obtain rt where rt: "map_of (board_runtimes st') ?b = Some rt" "active_session_id rt = Some ?sid"
      by (rule owner_of_listed [OF ok' l]) (simp add: b)
    with lease_okD(2) [OF ok' rt(1)] show ?thesis by (simp add: runtime_ok_def)
  qed
  show ?thesis
    using spec flags kept
    by (simp add: tasks_stopped_iff [abs_def] get_session_def session_state_of_def split: if_splits)
qed

theorem release_exact_witness:
  "\<exists>t st'. process_release_job [demo_env] (new_release_task 0) demo_releasing = (True, t, st') \<and>
     get_session ''s1'' st' = None"
proof -
  obtain d t st' where p: "process_release_job [demo_env] (new_release_task 0) demo_releasing = (d, t, st')"
    by (cases "process_release_job [demo_env] (new_release_task 0) demo_releasing") auto
  have t: "0 < length (release_tasks demo_releasing)"
      "release_tasks demo_releasing ! 0 = new_release_task 0"
      "session_id (info (heap demo_releasing ! 0)) = ''s1''"
    by code_simp+
  have "answered (power_answer demo_env)" "answered (tftp_answer demo_env)"
      "False \<in> set (readings demo_env)" "is_ok (owner_released demo_env)"
    by code_simp+
  note good = this
  note exact = release_exact [OF demo_reachable(3) t(1,2) p]
  from exact [THEN conjunct1] good have d: "d" by simp
  from exact [THEN conjunct2] d t(3) have "get_session ''s1'' st' = None" by simp
  with p d show ?thesis by simp
qed

section \<open>How a board becomes free\<close>

definition in_use :: "app_state \<Rightarrow> string \<Rightarrow> bool" where
  "in_use st b \<longleftrightarrow> (\<exists>rt. map_of (board_runtimes st) b = Some rt \<and> lease_state rt \<noteq> LeaseIdle)"

lemma expire_runtimes: "board_runtimes (snd (expire_sessions now rs st)) = board_runtimes st"
  by (induction now rs st rule: expire_sessions.induct) (simp_all add: Let_def case_prod_beta)

lemma set_runtime_in_use:
  "in_use st b \<Longrightarrow> lease_state rt \<noteq> LeaseIdle \<Longrightarrow> in_use (set_runtime b' rt st) b"
  by (auto simp: in_use_def)

lemma in_use_cong: "board_runtimes st' = board_runtimes st \<Longrightarrow> in_use st' b = in_use st b"
  by (simp add: in_use_def)

lemma transition_in_use:
  "in_use st b \<Longrightarrow> in_use (snd (transition_board_to_releasing b' sid now st)) b"
  by (auto simp: transition_board_to_releasing_def intro: set_runtime_in_use split: option.splits)

lemma mark_error_in_use: "in_use st b \<Longrightarrow> in_use (snd (mark_board_error b' sid err now st)) b"
  by (auto simp: mark_board_error_def intro: set_runtime_in_use split: option.splits)

lemma actor_in_use: "in_use st b \<Longrightarrow> in_use (run_session_actor r now st) b"
proof -
  assume u: "in_use st b"
  then have "in_use (update_object r f st) b" "in_use (update_object r g (update_object r f st)) b" for f g
    by (simp_all add: in_use_def)
  with u show ?thesis
    by (auto simp: run_session_actor_def Let_def enqueue_release_def
        in_use_cong [of "_\<lparr>release_queue := _\<rparr>"] intro: transition_in_use
        split: option.splits list.splits prod.splits)
qed

lemma create_in_use:
  assumes "lease_ok st" "in_use st b"
  shows "in_use (snd (create_round busy ty bid required client sid now st)) b"
proof (rule create_round_cases [OF assms(1), of busy ty bid required client sid now])
  fix c rt
  assume "create_round busy ty bid required client sid now st =
      (Created (session_snapshot (session_new_with_actor now sid c client)),
       insert_session (session_new_with_actor now sid c client)
         (set_runtime (bc_id c) (claimed sid now rt) st))"
  moreover have "in_use (set_runtime (bc_id c) (claimed sid now rt) st) b"
    using assms(2) by (rule set_runtime_in_use) (simp add: claimed_def)
  ultimately show ?thesis by (simp add: in_use_def)
qed (use assms in simp)

lemma sync_in_use:
  assumes "lease_ok st" "in_use st b" "\<And>b. \<not> idle_board st b \<Longrightarrow> map_of bs b = map_of (boards st) b"
  shows "in_use (sync_board_runtime_states now (st\<lparr>boards := bs\<rparr>)) b"
proof -
  from assms(2) obtain rt where rt: "map_of (board_runtimes st) b = Some rt" "lease_state rt \<noteq> LeaseIdle"
    by (auto simp: in_use_def)
  then have "map_of bs b = map_of (boards st) b"
    by (intro assms(3)) (simp add: idle_board_def)
  moreover have "map_of (boards st) b \<noteq> None"
    using lease_okD(1) [OF assms(1)] rt(1) unfolding tables_ok_def by (metis option.distinct(1))
  ultimately show ?thesis using rt by (auto simp: in_use_def sync_runtimes)
qed

lemma run_task_in_use:
  assumes "in_use st b" "\<not> in_use (run_task i env st) b"
  shows "\<exists>t' now st1. release_stages env (release_tasks st ! i) st = (t', [], now, st1) \<and> task_finished t' \<and>
    map_option updated_at (map_of (board_runtimes (run_task i env st)) b) = Some now \<and>
    session_board_id (info (heap st ! task_session (release_tasks st ! i))) = b"
proof (rule release_round_cases [of env "release_tasks st ! i" st])
  fix t' now st1 err
  let ?b = "session_board_id (info (heap st ! task_session (release_tasks st ! i)))"
    and ?sid = "session_id (info (heap st ! task_session (release_tasks st ! i)))"
  assume c: "release_round env (release_tasks st ! i) st =
      (False, t', snd (mark_board_error ?b ?sid err now st1))" "same_leases st st1"
  have "in_use st1 b" using assms(1) c(2) by (simp add: in_use_def same_leases_def)
  then have "in_use (snd (mark_board_error ?b ?sid err now st1)) b"
    by (rule mark_error_in_use)
  moreover have "in_use (run_task i env st) b =
      in_use (snd (mark_board_error ?b ?sid err now st1)) b"
    by (rule in_use_cong) (simp add: run_task_def c(1))
  ultimately show ?thesis using assms(2) by simp
next
  fix t' now st1 st2
  let ?b = "session_board_id (info (heap st ! task_session (release_tasks st ! i)))"
    and ?sid = "session_id (info (heap st ! task_session (release_tasks st ! i)))"
  assume c: "release_round env (release_tasks st ! i) st = (True, t', st2)"
      "complete_session_release ?b ?sid now st1 = (Inr (), st2)" "same_leases st st1"
      "task_finished t'" "release_stages env (release_tasks st ! i) st = (t', [], now, st1)"
  have "in_use st1 b" using assms(1) c(3) by (simp add: in_use_def same_leases_def)
  moreover have "\<not> in_use st2 b" using assms(2) c(1) by (simp add: run_task_def in_use_def)
  moreover obtain rt where st2: "st2 = (set_runtime ?b (freed now rt) st1)
      \<lparr>sessions := AList.delete ?sid (sessions st1)\<rparr>"
    by (rule complete_release_Inr [OF c(2)])
  ultimately have b: "?b = b" by (auto simp: in_use_def split: if_splits)
  have "board_runtimes (run_task i env st) = board_runtimes st2" by (simp add: run_task_def c(1))
  with b st2 have "map_option updated_at (map_of (board_runtimes (run_task i env st)) b) = Some now"
    by (simp add: freed_def)
  with b c show ?thesis by blast
qed

lemma freed_by_task:
  assumes "lease_ok st" "lease_step st st'" "in_use st b" "\<not> in_use st' b"
  shows "\<exists>i env t' now st1. i < length (release_tasks st) \<and> st' = run_task i env st \<and>
    release_stages env (release_tasks st ! i) st = (t', [], now, st1) \<and> task_finished t' \<and>
    map_option updated_at (map_of (board_runtimes st') b) = Some now \<and>
    session_board_id (info (heap st ! task_session (release_tasks st ! i))) = b"
  using assms(2,3,4,1)
proof (induction rule: lease_step.induct)
  case (task i st env)
  with run_task_in_use [of st b i env] show ?case by blast
next
  case (heartbeat st sid now)
  then show ?case by (auto simp: heartbeat_session_def in_use_def split: option.splits if_splits)
next
  case (stop st sid reason)
  then show ?case by (auto simp: request_session_stop_def Let_def in_use_def split: option.splits)
next
  case (cleanup st now)
  then show ?case by (simp add: cleanup_expired_sessions_def in_use_def expire_runtimes)
next
  case (coordinator st)
  then show ?case by (auto simp: coordinate_def in_use_def split: list.splits)
next
  case (inventory bs st now)
  then show ?case using sync_in_use by blast
next
  case (create sid st busy ty board_id required client now)
  then show ?case using create_in_use by blast
next
  case (actor r st now)
  then show ?case using actor_in_use by blast
next
  case (object r st e)
  then show ?case by (simp add: in_use_def)
qed

section \<open>The rounds of a release job\<close>

text \<open>
  A run of the server with the rounds of the release jobs in it: the session of the job, what the
  environment answered in the round, and the clock at its end.
\<close>

type_synonym release_rounds = "(release_env \<times> int) list"

inductive lease_history :: "app_state \<Rightarrow> (session_ref \<times> release_env \<times> int) list \<Rightarrow> bool" where
  begun: "filed bs \<Longrightarrow> lease_history (build_app_state now bs) []"
| round: "lease_history st h \<Longrightarrow> i < length (release_tasks st) \<Longrightarrow>
     release_stages env (release_tasks st ! i) st = (t, es, now, st1) \<Longrightarrow>
     lease_history (run_task i env st) (h @ [(task_session (release_tasks st ! i), env, now)])"
| other: "lease_history st h \<Longrightarrow> lease_step st st' \<Longrightarrow>
     (\<And>i env. i < length (release_tasks st) \<Longrightarrow> st' \<noteq> run_task i env st) \<Longrightarrow> lease_history st' h"

lemma lease_history_reachable: "lease_history st h \<Longrightarrow> lease_reachable st"
  by (induction rule: lease_history.induct) (auto intro: lease_reachable.intros lease_step.task)

text \<open>Every reachable state has such a history, so nothing is lost by asking for one.\<close>

lemma lease_reachable_history: "lease_reachable st \<Longrightarrow> \<exists>h. lease_history st h"
proof (induction rule: lease_reachable.induct)
  case (start bs now)
  then show ?case using lease_history.begun by blast
next
  case (step st st')
  then obtain h where h: "lease_history st h" by blast
  show ?case
  proof (cases "\<exists>i env. i < length (release_tasks st) \<and> st' = run_task i env st")
    case True
    then obtain i env where i: "i < length (release_tasks st)" "st' = run_task i env st" by blast
    obtain t es now st1 where "release_stages env (release_tasks st ! i) st = (t, es, now, st1)"
      by (cases "release_stages env (release_tasks st ! i) st") auto
    with h i show ?thesis using lease_history.round by blast
  next
    case False
    with h step show ?thesis using lease_history.other by blast
  qed
qed

definition rounds_of :: "session_ref \<Rightarrow> (session_ref \<times> release_env \<times> int) list \<Rightarrow> release_rounds" where
  "rounds_of r h = map snd (filter (\<lambda>e. fst e = r) h)"

lemma rounds_of_simps [simp]:
  "rounds_of r [] = []"
  "rounds_of r (h @ [(r', e)]) = rounds_of r h @ (if r' = r then [e] else [])"
  by (simp_all add: rounds_of_def)

text \<open>
  What the rounds of a job have to show before its board may be free: the tasks had stopped, a
  power-off was accepted, then a round lasted as long as the board needs to settle, and the files
  were removed.
\<close>

definition stop_seen :: "release_rounds \<Rightarrow> bool" where
  "stop_seen rs \<longleftrightarrow> list_ex (\<lambda>(env, _). False \<in> set (readings env) \<and> is_ok (owner_released env)) rs"

definition power_off_seen :: "release_rounds \<Rightarrow> bool" where
  "power_off_seen rs \<longleftrightarrow> list_ex (\<lambda>(env, _). answered (power_answer env)) rs"

definition cleanup_seen :: "release_rounds \<Rightarrow> bool" where
  "cleanup_seen rs \<longleftrightarrow> list_ex (\<lambda>(env, _). answered (tftp_answer env)) rs"

definition settle_seen :: "board_config \<Rightarrow> release_rounds \<Rightarrow> bool" where
  "settle_seen b rs \<longleftrightarrow>
     (\<exists>n < length rs. stop_seen (take (Suc n) rs) \<and> power_off_seen (take (Suc n) rs) \<and>
        env_now (fst (rs ! n)) + unwrap_or (release_settle_delay b) 0 \<le> snd (rs ! n))"

definition flags_shown :: "board_config \<Rightarrow> release_task \<Rightarrow> release_rounds \<Rightarrow> bool" where
  "flags_shown b t rs \<longleftrightarrow>
     (session_tasks_stopped t \<longrightarrow> stop_seen rs) \<and> (board_powered_off t \<longrightarrow> power_off_seen rs) \<and>
     (release_settled t \<longrightarrow> settle_seen b rs) \<and> (tftp_cleaned t \<longrightarrow> cleanup_seen rs)"

lemma seen_append:
  "stop_seen (rs @ [x]) \<longleftrightarrow> stop_seen rs \<or> tasks_stopped (fst x)"
  "power_off_seen (rs @ [x]) \<longleftrightarrow> power_off_seen rs \<or> answered (power_answer (fst x))"
  "cleanup_seen (rs @ [x]) \<longleftrightarrow> cleanup_seen rs \<or> answered (tftp_answer (fst x))"
  by (auto simp: stop_seen_def power_off_seen_def cleanup_seen_def tasks_stopped_iff case_prod_beta)

lemma settle_append: "settle_seen b rs \<Longrightarrow> settle_seen b (rs @ [x])"
proof -
  assume "settle_seen b rs"
  then obtain n where "n < length rs" "stop_seen (take (Suc n) rs)" "power_off_seen (take (Suc n) rs)"
    "env_now (fst (rs ! n)) + unwrap_or (release_settle_delay b) 0 \<le> snd (rs ! n)"
    by (auto simp: settle_seen_def)
  then show ?thesis unfolding settle_seen_def by (intro exI [of _ n]) (simp add: nth_append)
qed

lemma settle_last:
  "stop_seen (rs @ [(env, now)]) \<Longrightarrow> power_off_seen (rs @ [(env, now)]) \<Longrightarrow>
     env_now env + unwrap_or (release_settle_delay b) 0 \<le> now \<Longrightarrow> settle_seen b (rs @ [(env, now)])"
  unfolding settle_seen_def by (rule exI [of _ "length rs"]) simp

lemma flags_shown_append: "flags_shown b t rs \<Longrightarrow> flags_shown b t (rs @ [x])"
  by (auto simp: flags_shown_def seen_append intro: settle_append)

lemma stages_shown:
  assumes "release_stages env t st = (t', es, now, st1)"
    and "flags_shown (session_board (heap st ! task_session t)) t rs"
  shows "flags_shown (session_board (heap st ! task_session t)) t' (rs @ [(env, now)])"
proof -
  let ?b = "session_board (heap st ! task_session t)" and ?rs = "rs @ [(env, now)]"
  from assms(1) obtain t1 e1 t2 e2 t2' clock e3 where 1: "stop_stage env t = (t1, e1)"
    and 2: "power_stage env t1 st = (t2, e2, st1)" and settle: "settle_stage env ?b t2 = (t2', clock)"
    and 3: "tftp_stage env t2' = (t', e3)" and now: "now = clock + int (env_rest env)"
    by (rule release_stages_split)
  note f = stop_stage_flags [OF 1] power_stage_flags [OF 2] tftp_stage_flags [OF 3]
  have settled: "session_tasks_stopped t2' = session_tasks_stopped t2"
      "board_powered_off t2' = board_powered_off t2" "tftp_cleaned t2' = tftp_cleaned t2"
    using settle by (auto simp: settle_stage_def split: if_splits)
  have stop: "session_tasks_stopped t2 \<longrightarrow> stop_seen ?rs"
    using assms(2) f(1,8) by (simp add: flags_shown_def seen_append)
  have power: "board_powered_off t2 \<longrightarrow> power_off_seen ?rs"
    using assms(2) f(3,6) by (simp add: flags_shown_def seen_append)
  have clean: "tftp_cleaned t' \<longrightarrow> cleanup_seen ?rs"
    using assms(2) f(5,10,11) settled by (simp add: flags_shown_def seen_append)
  have "settle_seen ?b ?rs" if s: "release_settled t2'"
  proof (cases "release_settled t2")
    case True
    with assms(2) f(4,9) show ?thesis by (simp add: flags_shown_def settle_append)
  next
    case False
    with s settle have "session_tasks_stopped t2" "board_powered_off t2"
      "clock = env_now env + unwrap_or (release_settle_delay ?b) 0"
      by (auto simp: settle_stage_def split: if_splits)
    with stop power now show ?thesis by (intro settle_last) simp_all
  qed
  with stop power clean f(13-15) settled show ?thesis
    by (simp add: flags_shown_def)
qed

text \<open>The board of a session object never changes.\<close>

definition boards_kept :: "app_state \<Rightarrow> app_state \<Rightarrow> bool" where
  "boards_kept st st' \<longleftrightarrow>
     (\<forall>r < length (heap st). session_board (heap st' ! r) = session_board (heap st ! r))"

lemma same_leases_boards: "same_leases st st' \<Longrightarrow> boards_kept st st'"
  by (simp add: same_leases_def boards_kept_def)

lemma heap_boards: "heap st' = heap st \<Longrightarrow> boards_kept st st'"
  by (simp add: boards_kept_def)

lemma expire_same: "same_leases st (snd (expire_sessions now rs st))"
proof (induction now rs st rule: expire_sessions.induct)
  case (2 now r rs st)
  have "same_leases st (update_object r (request_stop Expired) st)"
    by (rule update_object_same) (rule quiet_ops)
  with 2 same_leases_trans show ?case by (auto simp: Let_def case_prod_beta)
qed simp

lemma transition_heap: "heap (snd (transition_board_to_releasing b sid now st)) = heap st"
  by (simp add: transition_board_to_releasing_def split: option.splits)

lemma update_board:
  "session_board x = session_board (xs ! r) \<Longrightarrow> session_board (xs[r := x] ! r') = session_board (xs ! r')"
  by (cases "r' = r \<and> r < length xs") (auto simp: list_update_beyond)

lemma actor_boards: "boards_kept st (run_session_actor r now st)"
  by (auto simp: boards_kept_def run_session_actor_def Let_def enqueue_release_def transition_heap
      begin_release_def signal_shutdown_def update_board split: option.split list.split prod.split if_splits)

lemma mark_error_heap: "heap (snd (mark_board_error b sid err now st)) = heap st"
  by (simp add: mark_board_error_def split: option.splits)

lemma complete_heap: "heap (snd (complete_session_release b sid now st)) = heap st"
  by (simp add: complete_session_release_def Let_def split: option.splits)

lemma task_boards: "boards_kept st (run_task i env st)"
proof (rule release_round_cases [of env "release_tasks st ! i" st])
  fix t' now st1 err b sid
  assume "release_round env (release_tasks st ! i) st = (False, t',
      snd (mark_board_error (session_board_id (info (heap st ! task_session (release_tasks st ! i))))
        (session_id (info (heap st ! task_session (release_tasks st ! i)))) err now st1))"
    "same_leases st st1"
  then show ?thesis
    using mark_error_heap same_leases_boards [of st st1] by (simp add: run_task_def boards_kept_def)
next
  fix t' now st1 st2
  assume "release_round env (release_tasks st ! i) st = (True, t', st2)"
    and c: "complete_session_release (session_board_id (info (heap st ! task_session (release_tasks st ! i))))
      (session_id (info (heap st ! task_session (release_tasks st ! i)))) now st1 = (Inr (), st2)"
    and "same_leases st st1"
  moreover have "heap st2 = heap st1" using complete_heap [of _ _ now st1] c by (metis snd_conv)
  ultimately show ?thesis
    using same_leases_boards [of st st1] by (simp add: run_task_def boards_kept_def)
qed

lemma lease_step_boards: "lease_step st st' \<Longrightarrow> lease_ok st \<Longrightarrow> boards_kept st st'"
proof (induction rule: lease_step.induct)
  case (create sid st busy ty bid required client now)
  show ?case
    by (rule create_round_cases [OF create(2), of busy ty bid required client sid now])
      (simp_all add: boards_kept_def nth_append)
next
  case (heartbeat st sid now)
  then show ?case
    by (auto simp: heartbeat_session_def intro!: heap_boards same_leases_boards update_object_same quiet_ops
        split: option.splits)
next
  case (stop st sid reason)
  then show ?case
    by (auto simp: request_session_stop_def Let_def intro!: heap_boards same_leases_boards update_object_same
        quiet_ops split: option.splits)
next
  case (cleanup st now)
  then show ?case using same_leases_boards [OF expire_same] by (simp add: cleanup_expired_sessions_def)
next
  case (object r st e)
  then show ?case by (intro same_leases_boards update_object_same quiet_step)
next
  case (coordinator st)
  then show ?case by (intro heap_boards) (simp add: coordinate_def split: list.splits)
next
  case (inventory bs st now)
  then show ?case by (intro heap_boards) simp
qed (simp_all add: actor_boards task_boards)

text \<open>The flags of a job say what its rounds have shown.\<close>

definition history_ok :: "app_state \<Rightarrow> (session_ref \<times> release_env \<times> int) list \<Rightarrow> bool" where
  "history_ok st h \<longleftrightarrow>
     (\<forall>t \<in> set (release_tasks st).
        flags_shown (session_board (heap st ! task_session t)) t (rounds_of (task_session t) h))"

lemma other_tasks:
  assumes "lease_step st st'" "\<And>i env. i < length (release_tasks st) \<Longrightarrow> st' \<noteq> run_task i env st"
  shows "set (release_tasks st') \<subseteq> set (release_tasks st) \<union> range new_release_task"
  using assms
proof (induction rule: lease_step.induct)
  case (create sid st busy ty bid required client now)
  then show ?case
    by (auto simp: create_round_def claim_board_for_session_def Let_def set_runtime_def insert_session_def
        split: option.splits sum.splits if_splits prod.splits)
next
  case (heartbeat st sid now)
  then show ?case by (auto simp: heartbeat_session_def split: option.splits if_splits)
next
  case (stop st sid reason)
  then show ?case by (auto simp: request_session_stop_def Let_def split: option.splits)
next
  case (cleanup st now)
  then show ?case using expire_same [of st now] by (simp add: cleanup_expired_sessions_def same_leases_def)
next
  case (actor r st now)
  have "release_tasks (snd (transition_board_to_releasing b sid now s)) = release_tasks s" for b sid s
    by (simp add: transition_board_to_releasing_def set_runtime_def split: option.splits)
  then show ?case
    by (auto simp: run_session_actor_def Let_def enqueue_release_def split: option.splits list.splits prod.splits if_splits)
next
  case (coordinator st)
  then show ?case by (auto simp: coordinate_def split: list.splits)
next
  case (inventory bs st now)
  then show ?case by (simp add: sync_board_runtime_states_def)
qed auto

lemma flags_new: "flags_shown b (new_release_task r) rs"
  by (simp add: flags_shown_def new_release_task_def)

lemma task_history:
  assumes "lease_ok st" "history_ok st h" "i < length (release_tasks st)"
    and stages: "release_stages env (release_tasks st ! i) st = (t, es, now, st1)"
  shows "history_ok (run_task i env st) (h @ [(task_session (release_tasks st ! i), env, now)])"
proof -
  let ?t = "release_tasks st ! i" and ?st = "run_task i env st"
  let ?h = "h @ [(task_session ?t, env, now)]"
  have board: "session_board (heap ?st ! task_session t') = session_board (heap st ! task_session t')"
    if "t' \<in> set (release_tasks st)" for t'
  proof -
    from that obtain j where "j < length (release_tasks st)" "t' = release_tasks st ! j"
      by (auto simp: in_set_conv_nth)
    with pending_session [OF assms(1) pending_task] task_boards [of st i env] show ?thesis
      by (simp add: boards_kept_def)
  qed
  have new: "flags_shown (session_board (heap ?st ! task_session t)) t (rounds_of (task_session t) ?h)"
  proof -
    have "flags_shown (session_board (heap st ! task_session ?t)) ?t (rounds_of (task_session ?t) h)"
      using assms(2,3) by (simp add: history_ok_def)
    from stages_shown [OF stages this] release_stages_frame [OF stages] board [of ?t] assms(3) show ?thesis
      by simp
  qed
  have old: "flags_shown (session_board (heap ?st ! task_session t')) t' (rounds_of (task_session t') ?h)"
    if "t' \<in> set (release_tasks st)" for t'
    using assms(2) that board [OF that] by (auto simp: history_ok_def intro: flags_shown_append)
  have "set (release_tasks ?st) \<subseteq> insert t (set (release_tasks st))"
  proof -
    obtain d t' st2 where r: "release_round env ?t st = (d, t', st2)" by (cases "release_round env ?t st") auto
    then have "t' = t" "release_tasks st2 = release_tasks st1"
      using release_round_unfold [OF stages refl refl]
      by (auto simp: mark_board_error_def complete_session_release_def Let_def
          split: if_splits option.splits)
    moreover have "release_tasks st1 = release_tasks st"
      using release_stages_frame [OF stages] by (simp add: same_leases_def)
    ultimately show ?thesis
      using r by (auto simp: run_task_def dest!: in_set_takeD in_set_dropD set_update_subset_insert [THEN subsetD])
  qed
  with new old show ?thesis unfolding history_ok_def by blast
qed

lemma history_invariant: "lease_history st h \<Longrightarrow> history_ok st h"
proof (induction rule: lease_history.induct)
  case (begun bs now)
  then show ?case by (simp add: history_ok_def build_app_state_def)
next
  case (round st h i env t es now st1)
  with task_history lease_reachable_ok [OF lease_history_reachable] show ?case by blast
next
  case (other st h st')
  have ok: "lease_ok st" using other(1) lease_reachable_ok lease_history_reachable by blast
  note kept = lease_step_boards [OF other(2) ok]
  have "flags_shown (session_board (heap st' ! task_session t)) t (rounds_of (task_session t) h)"
    if "t \<in> set (release_tasks st)" for t
  proof -
    from that obtain j where "j < length (release_tasks st)" "t = release_tasks st ! j"
      by (auto simp: in_set_conv_nth)
    with pending_session [OF ok pending_task] kept other(4) that show ?thesis
      by (simp add: boards_kept_def history_ok_def)
  qed
  with other_tasks [OF other(2,3)] flags_new show ?case
    by (auto simp: history_ok_def)
qed

text \<open>
  C35: a board is freed only by the release of its session. Whatever step the server takes, if a
  board in use is not in use afterwards, the step was a round of a release job of the session
  that held the board, and in the rounds of this job, with this one, the environment had answered
  that the session's tasks had stopped (the serial flag was read as clear and the manager had
  released the owner), a power-off had been accepted within three attempts, a round not before
  either had lasted at least the settle delay of the board, and the session's files had been
  removed; the board's record is of the end of the last round.
\<close>

theorem board_freed_by_release:
  assumes "lease_history st h" "lease_step st st'" "in_use st b" "\<not> in_use st' b"
  shows "\<exists>i env now t rounds. i < length (release_tasks st) \<and> st' = run_task i env st \<and>
    t = release_tasks st ! i \<and> map_option updated_at (map_of (board_runtimes st') b) = Some now \<and>
    session_board_id (info (heap st ! task_session t)) = b \<and>
    rounds = rounds_of (task_session t) h @ [(env, now)] \<and>
    stop_seen rounds \<and> power_off_seen rounds \<and>
    settle_seen (session_board (heap st ! task_session t)) rounds \<and> cleanup_seen rounds"
proof -
  have ok: "lease_ok st" by (rule lease_reachable_ok [OF lease_history_reachable [OF assms(1)]])
  from freed_by_task [OF ok assms(2-4)] obtain i env t' now st1 where i: "i < length (release_tasks st)"
    "st' = run_task i env st" "release_stages env (release_tasks st ! i) st = (t', [], now, st1)"
    "task_finished t'" "session_board_id (info (heap st ! task_session (release_tasks st ! i))) = b"
    "map_option updated_at (map_of (board_runtimes st') b) = Some now"
    by blast
  let ?t = "release_tasks st ! i"
  have "flags_shown (session_board (heap st ! task_session ?t)) ?t (rounds_of (task_session ?t) h)"
    using history_invariant [OF assms(1)] i(1) by (simp add: history_ok_def)
  from stages_shown [OF i(3) this] i(4) have
    "stop_seen (rounds_of (task_session ?t) h @ [(env, now)])"
    "power_off_seen (rounds_of (task_session ?t) h @ [(env, now)])"
    "settle_seen (session_board (heap st ! task_session ?t)) (rounds_of (task_session ?t) h @ [(env, now)])"
    "cleanup_seen (rounds_of (task_session ?t) h @ [(env, now)])"
    by (simp_all add: flags_shown_def task_finished_def)
  with i(1,2,5,6) show ?thesis by blast
qed

theorem board_freed_by_release_witness:
  "\<exists>h i env now. i < length (release_tasks demo_releasing) \<and>
     power_off_seen (rounds_of (task_session (release_tasks demo_releasing ! i)) h @ [(env, now)])"
proof -
  have "in_use demo_releasing ''a''"
    unfolding in_use_def
    by (rule exI [of _ "the (map_of (board_runtimes demo_releasing) ''a'')"]) code_simp
  moreover have "\<not> in_use (run_task 0 demo_env demo_releasing) ''a''"
  proof -
    have "map_option lease_state (map_of (board_runtimes (run_task 0 demo_env demo_releasing)) ''a'') =
        Some LeaseIdle" by code_simp
    then show ?thesis by (auto simp: in_use_def)
  qed
  moreover have "lease_step demo_releasing (run_task 0 demo_env demo_releasing)"
    by (rule lease_step.task) code_simp
  moreover obtain h where "lease_history demo_releasing h"
    using lease_reachable_history [OF demo_reachable(3)] by blast
  ultimately show ?thesis
    using board_freed_by_release [of demo_releasing h] by metis
qed

section \<open>Expired sessions\<close>

lemma expire_spec:
  assumes "distinct rs" "\<And>r. r \<in> set rs \<Longrightarrow> r < length (heap st)"
    and "expire_sessions now rs st = (ids, st')"
  defines "late \<equiv> \<lambda>r. \<not> is_releasing (heap st ! r) \<and> expires_at (info (heap st ! r)) \<le> now"
  shows "ids = map (\<lambda>r. session_id (info (heap st ! r))) (filter late rs) \<and>
    length (heap st') = length (heap st) \<and> sessions st' = sessions st \<and>
    (\<forall>r. heap st' ! r =
      (if r \<in> set rs \<and> late r then request_stop Expired (heap st ! r) else heap st ! r))"
  using assms(1-3) unfolding late_def
proof (induction rs arbitrary: st ids)
  case Nil
  then show ?case by simp
next
  case (Cons r rs)
  have snap: "info_state (session_snapshot s) = LcReleasing \<longleftrightarrow> is_releasing s"
      "expires_at (session_snapshot s) = expires_at (info s)" for s
    by (simp_all add: session_snapshot_def is_releasing_def)
  let ?late = "\<not> is_releasing (heap st ! r) \<and> expires_at (info (heap st ! r)) \<le> now"
  show ?case
  proof (cases ?late)
    case False
    with Cons.prems(3) have "expire_sessions now rs st = (ids, st')"
      by (auto simp: Let_def snap split: if_splits)
    from Cons.IH [OF _ _ this] Cons.prems(1,2) False show ?thesis by auto
  next
    case True
    let ?st = "update_object r (request_stop Expired) st"
    from True Cons.prems(3) obtain js where e: "expire_sessions now rs ?st = (js, st')"
        and ids: "ids = session_id (info (heap st ! r)) # js"
      by (auto simp: Let_def snap snapshot_ids split: prod.splits)
    have other: "heap ?st ! r' = heap st ! r'" if "r' \<noteq> r" for r'
      using that by simp
    have IH: "js = map (\<lambda>r. session_id (info (heap ?st ! r)))
          (filter (\<lambda>r. \<not> is_releasing (heap ?st ! r) \<and> expires_at (info (heap ?st ! r)) \<le> now) rs) \<and>
        length (heap st') = length (heap ?st) \<and> sessions st' = sessions ?st \<and>
        (\<forall>r'. heap st' ! r' = (if r' \<in> set rs \<and> (\<not> is_releasing (heap ?st ! r') \<and>
            expires_at (info (heap ?st ! r')) \<le> now)
          then request_stop Expired (heap ?st ! r') else heap ?st ! r'))"
      using Cons.prems(1,2) by (intro Cons.IH e) auto
    have r: "r \<notin> set rs" "r < length (heap st)" using Cons.prems by simp_all
    have other': "x \<in> set rs \<Longrightarrow> heap ?st ! x = heap st ! x" for x
      using r(1) by (intro other) auto
    have f: "filter (\<lambda>r. \<not> is_releasing (heap ?st ! r) \<and> expires_at (info (heap ?st ! r)) \<le> now) rs =
        filter (\<lambda>r. \<not> is_releasing (heap st ! r) \<and> expires_at (info (heap st ! r)) \<le> now) rs"
      by (rule filter_cong [OF refl]) (simp only: other')
    have m: "map (\<lambda>r. session_id (info (heap ?st ! r))) xs = map (\<lambda>r. session_id (info (heap st ! r))) xs"
      if "set xs \<subseteq> set rs" for xs
      by (rule map_cong [OF refl]) (use that other' in \<open>metis subsetD\<close>)
    have "js = map (\<lambda>r. session_id (info (heap st ! r)))
        (filter (\<lambda>r. \<not> is_releasing (heap st ! r) \<and> expires_at (info (heap st ! r)) \<le> now) rs)"
      using IH unfolding f by (simp only: m [OF filter_is_subset])
    moreover have "heap st' ! r' = (if r' \<in> set (r # rs) \<and> (\<not> is_releasing (heap st ! r') \<and>
        expires_at (info (heap st ! r')) \<le> now) then request_stop Expired (heap st ! r') else heap st ! r')" for r'
      using IH r True by (cases "r' = r") auto
    ultimately show ?thesis using IH ids True by simp
  qed
qed

lemma table_refs_distinct:
  assumes "lease_ok st"
  shows "distinct (bt_values (sessions st))"
    and "r \<in> set (bt_values (sessions st)) \<longleftrightarrow> (\<exists>sid. map_of (sessions st) sid = Some r)"
proof -
  have k: "keys_distinct (sessions st)" using lease_okD(1) [OF assms] by (simp add: tables_ok_def)
  then show "r \<in> set (bt_values (sessions st)) \<longleftrightarrow> (\<exists>sid. map_of (sessions st) sid = Some r)"
    by (force simp: bt_values_set keys_distinct_def)
  have "inj_on snd (set (sessions st))"
  proof (rule inj_onI)
    fix p q
    assume a: "p \<in> set (sessions st)" "q \<in> set (sessions st)" "snd p = snd q"
    then have "map_of (sessions st) (fst p) = Some (snd p)" "map_of (sessions st) (fst q) = Some (snd p)"
      using k by (metis keys_distinct_def map_of_is_SomeI prod.collapse)+
    then have "fst p = fst q" using listed_id [OF assms] by metis
    with a(3) show "p = q" by (simp add: prod_eq_iff)
  qed
  moreover have "distinct (sort_key fst (sessions st))"
    using k by (simp add: keys_distinct_def distinct_map)
  ultimately show "distinct (bt_values (sessions st))"
    by (simp add: bt_values_def distinct_map)
qed

text \<open>
  Exactly the expired sessions are stopped. In a reachable state \<open>cleanup_expired_sessions\<close>
  names the active sessions of the table whose expiry has passed, requests their stop and touches
  no other session; a session whose heartbeat is younger than the time to live is not among them.
\<close>

theorem expired_sessions_stopped:
  assumes "lease_reachable st" "cleanup_expired_sessions now st = (ids, st')"
  shows "(sid \<in> set ids \<longleftrightarrow> (\<exists>s. session_state_of sid st = Some s \<and> \<not> is_releasing s \<and>
      expires_at (info s) \<le> now)) \<and>
    session_state_of sid st' = map_option (\<lambda>s. if sid \<in> set ids then request_stop Expired s else s)
      (session_state_of sid st) \<and>
    (\<forall>st0 t r. heartbeat_session sid t st0 = (Inr r, st) \<longrightarrow> now < t + SESSION_TTL \<longrightarrow> sid \<notin> set ids)"
proof -
  have ok: "lease_ok st" by (rule lease_reachable_ok [OF assms(1)])
  let ?rs = "bt_values (sessions st)"
  let ?late = "\<lambda>r. \<not> is_releasing (heap st ! r) \<and> expires_at (info (heap st ! r)) \<le> now"
  note t = table_refs_distinct [OF ok]
  have len: "r \<in> set ?rs \<Longrightarrow> r < length (heap st)" for r
    using t(2) listed_id [OF ok] by blast
  from expire_spec [OF t(1) len assms(2) [unfolded cleanup_expired_sessions_def]]
  have spec: "ids = map (\<lambda>r. session_id (info (heap st ! r))) (filter ?late ?rs)"
      "sessions st' = sessions st"
      "heap st' ! r = (if r \<in> set ?rs \<and> ?late r then request_stop Expired (heap st ! r) else heap st ! r)"
      for r
    by blast+
  have named: "sid \<in> set ids \<longleftrightarrow> (\<exists>r. map_of (sessions st) sid = Some r \<and> ?late r)"
  proof
    assume "sid \<in> set ids"
    then obtain r where "r \<in> set ?rs" "?late r" "sid = session_id (info (heap st ! r))"
      unfolding spec(1) by auto
    with t(2) listed_id [OF ok] show "\<exists>r. map_of (sessions st) sid = Some r \<and> ?late r" by metis
  next
    assume "\<exists>r. map_of (sessions st) sid = Some r \<and> ?late r"
    with t(2) listed_id [OF ok] show "sid \<in> set ids" unfolding spec(1) by fastforce
  qed
  have beat: "sid \<notin> set ids" if h: "heartbeat_session sid u st0 = (Inr x, st)" "now < u + SESSION_TTL"
    for st0 u x
  proof -
    from h(1) obtain r where l: "map_of (sessions st0) sid = Some r"
        and st: "st = update_object r (\<lambda>s. snd (session_heartbeat u s)) st0"
      by (auto simp: heartbeat_session_def split: option.splits if_splits)
    then have l': "map_of (sessions st) sid = Some r" by simp
    with st listed_id [OF ok l'] have "heap st ! r = snd (session_heartbeat u (heap st0 ! r))" by simp
    then have "expires_at (info (heap st ! r)) = u + SESSION_TTL"
      by (simp add: session_heartbeat_def touch_def Let_def)
    with l' h(2) show ?thesis unfolding named by auto
  qed
  have "session_state_of sid st' = map_option (\<lambda>s. if sid \<in> set ids then request_stop Expired s else s)
      (session_state_of sid st)"
  proof (cases "map_of (sessions st) sid")
    case None
    then show ?thesis by (simp add: session_state_of_def spec(2))
  next
    case (Some r)
    then have "r \<in> set ?rs" using t(2) by blast
    with Some named show ?thesis by (simp add: session_state_of_def spec(2,3))
  qed
  with named beat show ?thesis by (auto simp: session_state_of_def)
qed

theorem expired_sessions_stopped_witness:
  "''s1'' \<in> set (fst (cleanup_expired_sessions (20 * 10 ^ 9) demo_leased))"
proof -
  have "session_state_of ''s1'' demo_leased = Some (heap demo_leased ! 0)"
      "\<not> is_releasing (heap demo_leased ! 0)" "expires_at (info (heap demo_leased ! 0)) \<le> 20 * 10 ^ 9"
    by code_simp+
  with expired_sessions_stopped [OF demo_reachable(2), of "20 * 10 ^ 9"
      "fst (cleanup_expired_sessions (20 * 10 ^ 9) demo_leased)"
      "snd (cleanup_expired_sessions (20 * 10 ^ 9) demo_leased)" "''s1''"]
  show ?thesis by auto
qed

end
