(* ===== verification/Shell_Steps.thy ===== *)
theory Shell_Steps
  imports Rust_Text
begin

text \<open>
  The \<open>shell_check_steps\<close> of a run configuration (\<open>ostool/src/run/shell_check.rs\<close>): the steps as
  the configuration file has them, and their resolution, which trims the prompt and the patterns,
  lets a step inherit the prompt of an earlier one, and rejects a step the matcher could not run.
  Whether a pattern compiles is the regex crate's decision, the parameter \<open>compiles\<close>.
\<close>

section \<open>Steps\<close>

record shell_check_step =
  shell_prefix :: "string option"
  shell_cmd :: "string option"
  success_regex :: "string list option"
  fail_regex :: "string list option"
  step_timeout :: "u64 option"

record resolved_step =
  r_prefix :: "string option"
  r_cmd :: "string option"
  r_success :: "string list option"
  r_fail :: "string list option"
  r_timeout :: "u64 option"

datatype pattern_field = SuccessRegex | FailRegex

datatype step_error =
    PrefixEmpty nat
  | CmdEmpty nat
  | PrefixRequired nat
  | PatternEmpty nat pattern_field
  | PatternsEmpty nat pattern_field
  | NoCondition nat
  | FailWithoutSuccess nat
  | TimeoutZero nat
  | PassiveTimeout nat
  | InvalidRegex nat pattern_field

definition is_blank :: "string \<Rightarrow> bool" where
  "is_blank s \<longleftrightarrow> trim s = []"

definition normalize_optional_field :: "string option \<Rightarrow> string option" where
  "normalize_optional_field v =
     (case v of
        None \<Rightarrow> None
      | Some raw \<Rightarrow>
          if is_blank raw then None
          else if length (trim raw) \<noteq> length raw then Some (trim raw)
          else Some raw)"

definition crlf :: "char list" where
  "crlf = [char_of (13 :: nat), char_of (10 :: nat)]"

definition prepare_shell_cmd :: "string \<Rightarrow> bytes" where
  "prepare_shell_cmd command =
     str_bytes (rev (dropWhile (\<lambda>c. c \<in> set crlf) (rev command))) @ [10]"

section \<open>Patterns\<close>

fun trim_patterns :: "pattern_field \<Rightarrow> nat \<Rightarrow> string list \<Rightarrow> step_error + string list" where
  "trim_patterns field index [] = Inr []"
| "trim_patterns field index (p # ps) =
     (if is_blank p then Inl (PatternEmpty index field)
      else rbind (trim_patterns field index ps) (\<lambda>qs. Inr (trim p # qs)))"

definition normalize_patterns ::
  "pattern_field \<Rightarrow> nat \<Rightarrow> string list option \<Rightarrow> step_error + string list option" where
  "normalize_patterns field index patterns =
     (case patterns of
        None \<Rightarrow> Inr None
      | Some ps \<Rightarrow>
          rbind (trim_patterns field index ps) (\<lambda>qs.
            if qs = [] then Inl (PatternsEmpty index field) else Inr (Some qs)))"

definition compile_step_patterns ::
  "(string \<Rightarrow> bool) \<Rightarrow> nat \<Rightarrow> shell_check_step \<Rightarrow> step_error + unit" where
  "compile_step_patterns compiles index step =
     (if \<not> list_all compiles (unwrap_or (success_regex step) []) then Inl (InvalidRegex index SuccessRegex)
      else if \<not> list_all compiles (unwrap_or (fail_regex step) []) then Inl (InvalidRegex index FailRegex)
      else Inr ())"

section \<open>Resolution\<close>

text \<open>
  One round of the loop: the step with its fields normalized, the prompt the later steps inherit,
  and the resolved step.
\<close>

definition resolve_step ::
  "(string \<Rightarrow> bool) \<Rightarrow> nat \<Rightarrow> string option \<Rightarrow> shell_check_step \<Rightarrow>
     step_error + (shell_check_step \<times> string option \<times> resolved_step)" where
  "resolve_step compiles index inherited step0 =
     (if is_some_and (shell_prefix step0) is_blank then Inl (PrefixEmpty index)
      else let step1 = step0 \<lparr>shell_prefix := normalize_optional_field (shell_prefix step0)\<rparr> in
      if is_some_and (shell_cmd step1) is_blank then Inl (CmdEmpty index)
      else let (inherited', prefix) =
          (case shell_prefix step1 of Some p \<Rightarrow> (Some p, Some p) | None \<Rightarrow> (inherited, inherited)) in
      if shell_cmd step1 \<noteq> None \<and> prefix = None then Inl (PrefixRequired index)
      else rbind (normalize_patterns SuccessRegex index (success_regex step1)) (\<lambda>succ.
      let step2 = step1 \<lparr>success_regex := succ\<rparr> in
      rbind (normalize_patterns FailRegex index (fail_regex step2)) (\<lambda>fail.
      let step3 = step2 \<lparr>fail_regex := fail\<rparr> in
      if shell_cmd step3 = None \<and> success_regex step3 = None \<and> fail_regex step3 = None
      then Inl (NoCondition index)
      else if success_regex step3 = None \<and> fail_regex step3 \<noteq> None then Inl (FailWithoutSuccess index)
      else if step_timeout step3 = Some 0 then Inl (TimeoutZero index)
      else if shell_cmd step3 = None \<and> step_timeout step3 \<noteq> None then Inl (PassiveTimeout index)
      else rbind (compile_step_patterns compiles index step3) (\<lambda>_.
      Inr (step3, inherited',
        \<lparr>r_prefix = prefix, r_cmd = shell_cmd step3, r_success = success_regex step3,
         r_fail = fail_regex step3, r_timeout = step_timeout step3\<rparr>)))))"

fun resolve_from ::
  "(string \<Rightarrow> bool) \<Rightarrow> nat \<Rightarrow> string option \<Rightarrow> shell_check_step list \<Rightarrow>
     step_error + (shell_check_step list \<times> resolved_step list)" where
  "resolve_from compiles index inherited [] = Inr ([], [])"
| "resolve_from compiles index inherited (step # steps) =
     rbind (resolve_step compiles index inherited step) (\<lambda>(step', inherited', r).
     rbind (resolve_from compiles (index + 1) inherited' steps) (\<lambda>(steps', rs).
     Inr (step' # steps', r # rs)))"

definition resolve_shell_check_steps ::
  "(string \<Rightarrow> bool) \<Rightarrow> shell_check_step list \<Rightarrow> step_error + (shell_check_step list \<times> resolved_step list)"
  where "resolve_shell_check_steps compiles steps = resolve_from compiles 0 None steps"

section \<open>What resolution accepts\<close>

text \<open>
  The specification: a prompt and a command are not blank, a pattern list is neither empty nor
  holds a blank or an invalid pattern, a failure condition comes with a success condition, and a
  step without a command has a success condition and no timeout. A step with a command has a
  prompt of its own or one an earlier step gave.
\<close>

definition patterns_valid :: "(string \<Rightarrow> bool) \<Rightarrow> string list option \<Rightarrow> bool" where
  "patterns_valid compiles ps \<longleftrightarrow>
     is_none_or ps (\<lambda>l. l \<noteq> [] \<and> list_all (\<lambda>p. \<not> is_blank p \<and> compiles (trim p)) l)"

definition step_valid :: "(string \<Rightarrow> bool) \<Rightarrow> shell_check_step \<Rightarrow> bool" where
  "step_valid compiles s \<longleftrightarrow>
     is_none_or (shell_prefix s) (\<lambda>p. \<not> is_blank p) \<and>
     is_none_or (shell_cmd s) (\<lambda>c. \<not> is_blank c) \<and>
     patterns_valid compiles (success_regex s) \<and>
     patterns_valid compiles (fail_regex s) \<and>
     (success_regex s = None \<longrightarrow> shell_cmd s \<noteq> None \<and> fail_regex s = None) \<and>
     step_timeout s \<noteq> Some 0 \<and>
     (shell_cmd s = None \<longrightarrow> step_timeout s = None)"

text \<open>The prompt of step \<open>i\<close>: the last one given up to and including it.\<close>

definition last_prefix :: "shell_check_step list \<Rightarrow> string option" where
  "last_prefix ss =
     (case filter (\<lambda>s. shell_prefix s \<noteq> None) (rev ss) of
        [] \<Rightarrow> None | s # _ \<Rightarrow> map_option trim (shell_prefix s))"

definition resolved_spec :: "shell_check_step list \<Rightarrow> nat \<Rightarrow> resolved_step" where
  "resolved_spec ss i =
     (let s = ss ! i in
      \<lparr>r_prefix = last_prefix (take (i + 1) ss), r_cmd = shell_cmd s,
       r_success = map_option (map trim) (success_regex s),
       r_fail = map_option (map trim) (fail_regex s), r_timeout = step_timeout s\<rparr>)"

definition steps_valid :: "(string \<Rightarrow> bool) \<Rightarrow> shell_check_step list \<Rightarrow> bool" where
  "steps_valid compiles ss \<longleftrightarrow>
     (\<forall>i < length ss. step_valid compiles (ss ! i) \<and>
        (shell_cmd (ss ! i) \<noteq> None \<longrightarrow> last_prefix (take (i + 1) ss) \<noteq> None))"

section \<open>Trimming\<close>

lemma trim_with_drop: "\<exists>k. trim_with ws s = drop k s"
proof (induction ws s rule: trim_with.induct)
  case (1 ws s)
  show ?case
  proof (cases "leading ws s")
    case None
    then show ?thesis by (intro exI [of _ 0]) (simp add: trim_with.simps)
  next
    case (Some n)
    show ?thesis
    proof (cases "n = 0 \<or> length s < n")
      case True
      with Some show ?thesis by (intro exI [of _ 0]) (simp add: trim_with.simps)
    next
      case False
      with "1.IH" [OF Some False] Some obtain k where "trim_with ws s = drop k (drop n s)"
        by (auto simp: trim_with.simps [of ws s])
      then show ?thesis by auto
    qed
  qed
qed

lemma trim_slice: "\<exists>i j. trim s = take j (drop i s)"
proof -
  obtain i where i: "trim_with white_space s = drop i s" using trim_with_drop by blast
  obtain k where k: "trim_with (map rev white_space) (rev (drop i s)) = drop k (rev (drop i s))"
    using trim_with_drop by blast
  have "trim s = rev (drop k (rev (drop i s)))" by (simp add: trim_def trim_start_def trim_end_def i k)
  also have "\<dots> = take (length (drop i s) - k) (drop i s)" by (simp only: drop_rev rev_rev_ident)
  finally show ?thesis by blast
qed

lemma trim_same: "length (trim s) = length s \<Longrightarrow> trim s = s"
proof -
  assume l: "length (trim s) = length s"
  obtain i j where s: "trim s = take j (drop i s)" using trim_slice by blast
  with l have "min j (length s - i) = length s" by simp
  then have "s = [] \<or> i = 0 \<and> length s \<le> j" by (cases s) auto
  with s show ?thesis by auto
qed

lemma normalize_optional_field_iff:
  "is_none_or v (\<lambda>p. \<not> is_blank p) \<Longrightarrow> normalize_optional_field v = map_option trim v"
  by (cases v) (auto simp: normalize_optional_field_def trim_same)

section \<open>One step\<close>

lemma bail_iff: "(if c then Inl e else x) = Inr y \<longleftrightarrow> \<not> c \<and> x = Inr y"
  by simp


lemma trim_patterns_iff:
  "trim_patterns f i ps = Inr qs \<longleftrightarrow> list_all (\<lambda>p. \<not> is_blank p) ps \<and> qs = map trim ps"
  by (induction ps arbitrary: qs) (auto simp: rbind_Inr_iff)

lemma normalize_patterns_iff:
  "normalize_patterns f i ps = Inr qs \<longleftrightarrow>
     is_none_or ps (\<lambda>l. l \<noteq> [] \<and> list_all (\<lambda>p. \<not> is_blank p) l) \<and> qs = map_option (map trim) ps"
  by (cases ps) (auto simp: normalize_patterns_def rbind_Inr_iff trim_patterns_iff)

lemma compile_step_patterns_iff:
  "compile_step_patterns compiles i s = Inr u \<longleftrightarrow>
     is_none_or (success_regex s) (list_all compiles) \<and> is_none_or (fail_regex s) (list_all compiles)"
  by (cases "success_regex s"; cases "fail_regex s") (auto simp: compile_step_patterns_def)

lemma patterns_valid_iff:
  "patterns_valid compiles ps \<longleftrightarrow>
     is_none_or ps (\<lambda>l. l \<noteq> [] \<and> list_all (\<lambda>p. \<not> is_blank p) l) \<and>
     is_none_or (map_option (map trim) ps) (list_all compiles)"
  by (cases ps) (auto simp: patterns_valid_def list_all_iff)

definition own_or :: "string option \<Rightarrow> shell_check_step \<Rightarrow> string option" where
  "own_or inherited s =
     (case shell_prefix s of None \<Rightarrow> inherited | Some p \<Rightarrow> Some (trim p))"

lemma resolve_step_iff:
  "(\<exists>s'. resolve_step compiles i inh s = Inr (s', inh', r)) \<longleftrightarrow>
     step_valid compiles s \<and> (shell_cmd s \<noteq> None \<longrightarrow> own_or inh s \<noteq> None) \<and> inh' = own_or inh s \<and>
     r = \<lparr>r_prefix = own_or inh s, r_cmd = shell_cmd s,
          r_success = map_option (map trim) (success_regex s),
          r_fail = map_option (map trim) (fail_regex s), r_timeout = step_timeout s\<rparr>"
proof (cases "is_none_or (shell_prefix s) (\<lambda>p. \<not> is_blank p)")
  case False
  then show ?thesis
    by (cases "shell_prefix s") (auto simp: resolve_step_def step_valid_def)
next
  case True
  note field = normalize_optional_field_iff [OF True]
  have cmd: "is_some_and (shell_cmd s) is_blank \<longleftrightarrow> \<not> is_none_or (shell_cmd s) (\<lambda>c. \<not> is_blank c)"
    by (cases "shell_cmd s") auto
  show ?thesis
    unfolding resolve_step_def step_valid_def field
    using True
    by (cases "shell_prefix s")
      (simp_all add: cmd own_or_def Let_def bail_iff rbind_Inr_iff normalize_patterns_iff
        compile_step_patterns_iff patterns_valid_iff, auto)
qed

section \<open>The list\<close>

lemma last_prefix_Nil [simp]: "last_prefix [] = None"
  by (simp add: last_prefix_def)

lemma last_prefix_snoc: "last_prefix (pre @ [s]) = own_or (last_prefix pre) s"
  by (cases "shell_prefix s") (auto simp: last_prefix_def own_or_def)

lemma resolve_from_iff:
  "(\<exists>ss'. resolve_from compiles k (last_prefix pre) ss = Inr (ss', rs)) \<longleftrightarrow>
     (\<forall>i < length ss. step_valid compiles (ss ! i) \<and>
        (shell_cmd (ss ! i) \<noteq> None \<longrightarrow> last_prefix (pre @ take (i + 1) ss) \<noteq> None)) \<and>
     rs = map (\<lambda>i. resolved_spec (pre @ ss) (length pre + i)) [0..<length ss]"
proof (induction ss arbitrary: k pre rs)
  case Nil
  then show ?case by auto
next
  case (Cons s ss)
  have split: "(\<exists>ss'. resolve_from compiles k (last_prefix pre) (s # ss) = Inr (ss', rs)) \<longleftrightarrow>
      (\<exists>inh r rs'. (\<exists>s'. resolve_step compiles k (last_prefix pre) s = Inr (s', inh, r)) \<and>
         (\<exists>ss'. resolve_from compiles (k + 1) inh ss = Inr (ss', rs')) \<and> rs = r # rs')"
    by (auto simp: rbind_Inr_iff)
  have r: "resolved_spec (pre @ s # ss) (length pre) =
      \<lparr>r_prefix = own_or (last_prefix pre) s, r_cmd = shell_cmd s,
       r_success = map_option (map trim) (success_regex s),
       r_fail = map_option (map trim) (fail_regex s), r_timeout = step_timeout s\<rparr>"
    by (simp add: resolved_spec_def last_prefix_snoc)
  have rs: "map (\<lambda>i. resolved_spec (pre @ s # ss) (length pre + i)) [0..<length (s # ss)] =
      resolved_spec (pre @ s # ss) (length pre) #
      map (\<lambda>i. resolved_spec ((pre @ [s]) @ ss) (length (pre @ [s]) + i)) [0..<length ss]"
    by (simp add: map_upt_Suc del: upt_Suc)
  show ?case
    unfolding split resolve_step_iff rs r
    using Cons.IH [of "k + 1" "pre @ [s]"]
    by (auto simp: last_prefix_snoc All_less_Suc2)
qed

text \<open>
  The steps of a run configuration resolve exactly when each of them is one the matcher can
  run: no blank prompt, command or pattern, no empty pattern list, every pattern compiles, a
  failure condition only beside a success condition, a passive step (no command) has a success
  condition and no timeout, a timeout is not zero, and a step with a command has a prompt, its own
  or one an earlier step gave. The resolved list then has one entry per step, in order: the
  command and the timeout as given, the patterns trimmed, and the trimmed prompt that was given
  last.
\<close>

theorem shell_steps_resolved:
  "(\<exists>ss'. resolve_shell_check_steps compiles ss = Inr (ss', rs)) \<longleftrightarrow>
     steps_valid compiles ss \<and> rs = map (resolved_spec ss) [0..<length ss]"
  using resolve_from_iff [of compiles 0 "[]" ss rs]
  by (simp add: resolve_shell_check_steps_def steps_valid_def)

end
