(* ===== verification/Text_Utf8.thy ===== *)
theory Text_Utf8
  imports Rust_Text Utf8
begin

text \<open>
  Texts as UTF-8: trimming and substring search keep a text valid, and the interface of the regex
  crate, which the output matchers take as a parameter.
\<close>

section \<open>Bytes as texts\<close>

definition to_text :: "bytes \<Rightarrow> string" where
  "to_text bs = map (\<lambda>b. char_of (unat b)) bs"

lemma unat_byte: "unat (b :: u8) < 256"
  using unsigned_less [of b] by simp

lemma of_char_byte: "(of_char (char_of (unat (b :: u8))) :: u8) = b"
  using unat_byte [of b] by (simp add: word_unat_eq_iff of_char_of take_bit_eq_mod)

lemma str_bytes_to_text [simp]: "str_bytes (to_text bs) = bs"
  by (induction bs) (simp_all add: to_text_def of_char_byte)

section \<open>Trimming\<close>

lemma str_bytes_parts:
  "str_bytes (a @ b) = str_bytes a @ str_bytes b" "str_bytes (take k s) = take k (str_bytes s)"
  "str_bytes (drop k s) = drop k (str_bytes s)"
  by (simp_all add: str_bytes_def take_map drop_map)

lemma white_space_utf8: "list_all (\<lambda>w. utf8_ok (str_bytes w) \<and> w \<noteq> []) white_space"
  by code_simp

lemma leading_Some:
  "leading ws s = Some n \<Longrightarrow> \<exists>w \<in> set ws. s = w @ drop n s \<and> n = length w"
  by (auto simp: leading_def dest!: find_SomeD) (metis append_take_drop_id)

lemma trim_start_utf8: "utf8_ok (str_bytes s) \<Longrightarrow> utf8_ok (str_bytes (trim_start s))"
  unfolding trim_start_def
proof (induction white_space s rule: trim_with.induct)
  case (1 s)
  show ?case
  proof (cases "leading white_space s")
    case (Some n)
    from leading_Some [OF this] obtain w where w: "w \<in> set white_space" "s = w @ drop n s" "n = length w" by blast
    have "utf8_ok (str_bytes w)" using w(1) white_space_utf8 by (simp add: list_all_iff)
    with "1.prems" w(2) have "utf8_ok (str_bytes (drop n s))"
      using utf8_ok_append str_bytes_parts(1) by metis
    with "1.hyps" [OF Some] "1.prems" show ?thesis
      by (subst trim_with.simps) (simp add: Some)
  qed (simp add: "1.prems" trim_with.simps)
qed

lemma trim_end_utf8:
  "utf8_ok (str_bytes (rev t)) \<Longrightarrow> utf8_ok (str_bytes (rev (trim_with (map rev white_space) t)))"
proof (induction "map rev white_space" t rule: trim_with.induct)
  case (1 t)
  let ?ws = "map rev white_space"
  show ?case
  proof (cases "leading ?ws t")
    case (Some n)
    from leading_Some [OF this] obtain w where w: "w \<in> set white_space" "t = rev w @ drop n t" by auto
    then have t: "rev t = rev (drop n t) @ w" by (metis rev_append rev_rev_ident)
    have "w \<noteq> []" "utf8_ok (str_bytes w)" using w(1) white_space_utf8 by (auto simp: list_all_iff)
    then obtain c r where c: "w = c # r" "\<not> utf8_cont (of_char c)"
      using utf8_ok_first by (metis neq_Nil_conv str_bytes_simps(2))
    have "utf8_ok (str_bytes (rev (drop n t)))"
      using "1.prems" c utf8_ok_cut by (simp add: t str_bytes_def)
    with "1.hyps" [OF Some] "1.prems" show ?thesis
      by (subst trim_with.simps) (simp add: Some)
  qed (simp add: "1.prems" trim_with.simps)
qed

lemma trim_utf8: "utf8_ok (str_bytes s) \<Longrightarrow> utf8_ok (str_bytes (trim s))"
  using trim_end_utf8 [of "rev (trim_start s)"] trim_start_utf8 by (simp add: trim_def trim_end_def)

section \<open>Substrings\<close>

lemma occurrence_ok:
  assumes "utf8_ok t" "utf8_ok p" "p \<noteq> []" "str_find p t = Some i"
  shows "i + length p \<le> length t" "utf8_ok (drop (i + length p) t)"
proof -
  from str_find_Some [OF assms(4)] have o: "i + length p \<le> length t" "take (length p) (drop i t) = p"
    by (simp_all add: occurs_at_def)
  then show "i + length p \<le> length t" by blast
  show "utf8_ok (drop (i + length p) t)" using utf8_ok_occurrence(2) [OF assms(1-3) o(2)] .
qed

section \<open>Regular expressions\<close>

text \<open>
  \<open>Regex::find\<close> of the regex crate: the start and the end of the leftmost match of a pattern in a
  text. The documented behaviour the code relies on: a match lies in the text, and it starts and
  ends at character boundaries.
\<close>

type_synonym regex_find = "string \<Rightarrow> bytes \<Rightarrow> (nat \<times> nat) option"

definition regex_api :: "regex_find \<Rightarrow> bool" where
  "regex_api rx \<longleftrightarrow>
     (\<forall>p t s e. utf8_ok t \<longrightarrow> rx p t = Some (s, e) \<longrightarrow>
        s \<le> e \<and> e \<le> length t \<and> is_char_boundary t s \<and> is_char_boundary t e)"

text \<open>An engine for patterns without metacharacters: \<open>find\<close> is the substring search.\<close>

definition literal_find :: regex_find where
  "literal_find p t =
     (if p \<noteq> [] \<and> utf8_ok (str_bytes p)
      then map_option (\<lambda>i. (i, i + length p)) (str_find (str_bytes p) t) else None)"

lemma boundary_if_ok: "i \<le> length t \<Longrightarrow> utf8_ok (drop i t) \<Longrightarrow> is_char_boundary t i"
proof (cases "drop i t")
  case Nil
  then show "i \<le> length t \<Longrightarrow> is_char_boundary t i" by (simp add: is_char_boundary_def)
next
  case (Cons c r)
  assume "utf8_ok (drop i t)"
  with Cons have "\<not> utf8_cont c" using utf8_ok_first [of c r] by simp
  moreover have "i < length t" "t ! i = c"
    using Cons nth_via_drop [OF Cons] by (metis drop_eq_Nil2 list.distinct(1) not_le, simp)
  ultimately show ?thesis by (simp add: is_char_boundary_def)
qed

lemma literal_find_api: "regex_api literal_find"
  unfolding regex_api_def
proof (intro allI impI)
  fix p t s e
  assume t: "utf8_ok t" and f: "literal_find p t = Some (s, e)"
  let ?p = "str_bytes p"
  from f have p: "?p \<noteq> []" "utf8_ok ?p" "str_find ?p t = Some s" "e = s + length ?p"
    by (auto simp: literal_find_def str_bytes_def split: if_splits)
  have o: "s + length ?p \<le> length t" "take (length ?p) (drop s t) = ?p"
    using str_find_Some [OF p(3)] by (simp_all add: occurs_at_def)
  note cut = utf8_ok_occurrence [OF t p(2,1) o(2)]
  have "utf8_ok (take s t @ drop s t)" using t by simp
  then have "utf8_ok (drop s t)" unfolding utf8_ok_append [OF cut(1)] .
  with cut(2) o(1) p(4) show "s \<le> e \<and> e \<le> length t \<and> is_char_boundary t s \<and> is_char_boundary t e"
    by (simp add: boundary_if_ok)
qed

end
