(* ===== verification/Shell_Check.thy ===== *)
theory Shell_Check
  imports Shell_Steps Text_Utf8
begin

text \<open>
  The shell-check matcher (\<open>ostool/src/run/shell_check.rs\<close>): it watches the output of a terminal,
  waits for the prompt of a step, hands out the step's command, and then waits for one of the
  step's result patterns, step after step. A panic of the code (an index out of range, a slice
  off a character, an \<open>expect\<close>) is the result \<open>None\<close> of a definition.

  A compiled regex is its pattern; the parameter \<open>rx\<close> is \<open>Regex::find\<close> of the regex crate: the start and the
  end of the leftmost match in a text.
\<close>

section \<open>State\<close>

datatype shell_check_event =
    EvNone
  | Send bytes
  | StepCompleted nat
  | SequenceCompleted
  | Failed nat string
  | PendingOutputLimitExceeded nat nat nat

datatype shell_check_phase = WaitingForPrefix | Sending | WaitingForResult | Completed

record runtime_step =
  config :: resolved_step
  success_rx :: "string list"
  fail_rx :: "string list"

record shell_matcher =
  steps :: "runtime_step list"
  current_step :: nat
  phase :: shell_check_phase
  history :: bytes
  incomplete_utf8 :: bytes
  pending_output :: bytes
  completion_is_success :: bool

definition usize_max :: nat where
  "usize_max = 2 ^ 64 - 1"

definition saturating_add :: "nat \<Rightarrow> nat \<Rightarrow> nat" where
  "saturating_add a b = min usize_max (a + b)"

definition saturating_mul :: "nat \<Rightarrow> nat \<Rightarrow> nat" where
  "saturating_mul a b = min usize_max (a * b)"

definition PENDING_OUTPUT_LIMIT :: nat where
  "PENDING_OUTPUT_LIMIT = 16 * 1024 * 1024"

section \<open>Construction\<close>

datatype build_error = NoSteps | BadRegex string

fun compile_list :: "(string \<Rightarrow> bool) \<Rightarrow> string list \<Rightarrow> build_error + string list" where
  "compile_list compiles [] = Inr []"
| "compile_list compiles (p # ps) =
     (if compiles p then rbind (compile_list compiles ps) (\<lambda>qs. Inr (p # qs)) else Inl (BadRegex p))"

definition compile_patterns :: "(string \<Rightarrow> bool) \<Rightarrow> string list option \<Rightarrow> build_error + string list" where
  "compile_patterns compiles patterns = compile_list compiles (unwrap_or patterns [])"

fun runtime_steps :: "(string \<Rightarrow> bool) \<Rightarrow> resolved_step list \<Rightarrow> build_error + runtime_step list" where
  "runtime_steps compiles [] = Inr []"
| "runtime_steps compiles (c # cs) =
     rbind (compile_patterns compiles (r_success c)) (\<lambda>succ.
     rbind (compile_patterns compiles (r_fail c)) (\<lambda>fail.
     rbind (runtime_steps compiles cs) (\<lambda>rs.
     Inr (\<lparr>config = c, success_rx = succ, fail_rx = fail\<rparr> # rs))))"

definition entry_phase :: "runtime_step \<Rightarrow> shell_check_phase" where
  "entry_phase s = (if r_cmd (config s) \<noteq> None then WaitingForPrefix else WaitingForResult)"

definition from_steps :: "(string \<Rightarrow> bool) \<Rightarrow> resolved_step list \<Rightarrow> build_error + shell_matcher" where
  "from_steps compiles ss =
     (if ss = [] then Inl NoSteps
      else rbind (runtime_steps compiles ss) (\<lambda>rs.
        Inr \<lparr>steps = rs, current_step = 0, phase = entry_phase (hd rs), history = [],
             incomplete_utf8 = [], pending_output = [], completion_is_success = True\<rparr>))"

section \<open>Parts of the matcher\<close>

definition append_pending_output :: "bytes \<Rightarrow> shell_matcher \<Rightarrow> shell_check_event \<times> shell_matcher" where
  "append_pending_output output m =
     (let buffered = saturating_add (length (pending_output m)) (length output) in
      if PENDING_OUTPUT_LIMIT < buffered then
        (PendingOutputLimitExceeded (current_step m) buffered PENDING_OUTPUT_LIMIT,
         m \<lparr>phase := Completed\<rparr>)
      else (EvNone, m \<lparr>pending_output := pending_output m @ output\<rparr>))"

definition normalize_utf8_block :: "bytes \<Rightarrow> shell_matcher \<Rightarrow> bytes \<times> shell_matcher" where
  "normalize_utf8_block block m =
     (let (normalized, incomplete) = utf8_normalize (incomplete_utf8 m @ block)
      in (normalized, m \<lparr>incomplete_utf8 := incomplete\<rparr>))"

definition advance :: "shell_matcher \<Rightarrow> shell_check_event \<times> shell_matcher" where
  "advance m =
     (let completed = current_step m; m = m \<lparr>history := []\<rparr> in
      if current_step m + 1 = length (steps m) then
        (if completion_is_success m then SequenceCompleted else EvNone, m \<lparr>phase := Completed\<rparr>)
      else
        let m = m \<lparr>current_step := current_step m + 1\<rparr> in
        (StepCompleted completed, m \<lparr>phase := entry_phase (steps m ! current_step m)\<rparr>))"

function next_boundary :: "bytes \<Rightarrow> nat \<Rightarrow> nat" where
  "next_boundary text i =
     (if is_char_boundary text i \<or> length text \<le> i then i else next_boundary text (i + 1))"
  by pat_completeness auto
termination by (relation "measure (\<lambda>(text, i). length text - i)") auto

declare next_boundary.simps [simp del]

definition history_limit :: "resolved_step \<Rightarrow> nat" where
  "history_limit c = saturating_mul (max (case r_prefix c of None \<Rightarrow> 0 | Some p \<Rightarrow> length p) 64) 32"

definition retain_boundary_history :: "bytes \<Rightarrow> shell_matcher \<Rightarrow> shell_matcher option" where
  "retain_boundary_history output m =
     (if length (steps m) \<le> current_step m \<or> \<not> utf8_ok output then None
      else
        let start = next_boundary output
          (length output - history_limit (config (steps m ! current_step m)))
        in Some (m \<lparr>history := drop start output\<rparr>))"

text \<open>\<open>min_by_key (Match::end)\<close> over the success patterns: the earliest end.\<close>

fun earliest_end :: "regex_find \<Rightarrow> string list \<Rightarrow> bytes \<Rightarrow> nat option" where
  "earliest_end rx [] text = None"
| "earliest_end rx (p # ps) text =
     (case (rx p text, earliest_end rx ps text) of
        (None, e) \<Rightarrow> e
      | (Some (_, e), None) \<Rightarrow> Some e
      | (Some (_, e), Some e') \<Rightarrow> Some (if e' < e then e' else e))"

section \<open>The loop over a block\<close>

text \<open>
  One round at a position of the block either ends with an event or moves on: to the next phase
  of the step, or past a success match to the next step.
\<close>

datatype round_result =
    Panic
  | Return shell_check_event shell_matcher
  | Continue nat shell_check_event shell_matcher

definition prefix_round ::
  "bytes \<Rightarrow> nat \<Rightarrow> shell_check_event \<Rightarrow> shell_matcher \<Rightarrow> round_result" where
  "prefix_round block cursor transition m =
     (if length block < cursor \<or> \<not> utf8_ok (drop cursor block) then Panic
      else if length (steps m) \<le> current_step m then Panic
      else case r_prefix (config (steps m ! current_step m)) of
        None \<Rightarrow> Continue cursor transition (m \<lparr>phase := WaitingForResult\<rparr>)
      | Some prefix \<Rightarrow>
        (case str_find (str_bytes prefix) (drop cursor block) of
           None \<Rightarrow>
             (case retain_boundary_history (drop cursor block) m of
                None \<Rightarrow> Panic | Some m \<Rightarrow> Return transition m)
         | Some prefix_start \<Rightarrow>
             let cursor = cursor + prefix_start + length prefix in
             case r_cmd (config (steps m ! current_step m)) of
               None \<Rightarrow> Continue cursor transition (m \<lparr>phase := WaitingForResult\<rparr>)
             | Some command \<Rightarrow>
                 let m = m \<lparr>phase := Sending, pending_output := []\<rparr> in
                 if cursor < length block then
                   let (pending_event, m) = append_pending_output (drop cursor block) m in
                   if pending_event \<noteq> EvNone then Return pending_event m
                   else Return (Send (prepare_shell_cmd command)) m
                 else Return (Send (prepare_shell_cmd command)) m))"

definition result_round ::
  "regex_find \<Rightarrow> bytes \<Rightarrow> nat \<Rightarrow> shell_check_event \<Rightarrow> shell_matcher \<Rightarrow> round_result" where
  "result_round rx block cursor transition m =
     (if length block < cursor \<or> \<not> utf8_ok (drop cursor block) then Panic
      else if length (steps m) \<le> current_step m then Panic
      else
        let text = drop cursor block; step = steps m ! current_step m in
        case find (\<lambda>p. rx p text \<noteq> None) (fail_rx step) of
          Some pattern \<Rightarrow> Return (Failed (current_step m) pattern) (m \<lparr>phase := Completed\<rparr>)
        | None \<Rightarrow>
          (case earliest_end rx (success_rx step) text of
             None \<Rightarrow>
               (case retain_boundary_history text m of
                  None \<Rightarrow> Panic | Some m \<Rightarrow> Return transition m)
           | Some e \<Rightarrow> let (event, m) = advance m in Continue (cursor + e) event m))"

definition block_round ::
  "regex_find \<Rightarrow> bytes \<Rightarrow> nat \<Rightarrow> shell_check_event \<Rightarrow> shell_matcher \<Rightarrow> round_result" where
  "block_round rx block cursor transition m =
     (if phase m = Completed \<or> cursor = length block then Return transition m
      else case phase m of
        WaitingForPrefix \<Rightarrow> prefix_round block cursor transition m
      | Sending \<Rightarrow>
          if length block < cursor then Panic
          else let (event, m) = append_pending_output (drop cursor block) m in Return event m
      | WaitingForResult \<Rightarrow> result_round rx block cursor transition m
      | Completed \<Rightarrow> Return transition m)"

fun phase_rank :: "shell_check_phase \<Rightarrow> nat" where
  "phase_rank WaitingForPrefix = 2"
| "phase_rank WaitingForResult = 1"
| "phase_rank Sending = 0"
| "phase_rank Completed = 0"

definition rounds_left :: "shell_matcher \<Rightarrow> nat" where
  "rounds_left m = 3 * (length (steps m) - current_step m) + phase_rank (phase m)"

lemma advance_rounds_left:
  "current_step m < length (steps m) \<Longrightarrow> phase m = WaitingForResult \<Longrightarrow> advance m = (e, m') \<Longrightarrow>
     rounds_left m' < rounds_left m"
  by (auto simp: advance_def rounds_left_def entry_phase_def Let_def split: if_splits)

lemma block_round_decreases:
  "block_round rx block cursor e m = Continue cursor' e' m' \<Longrightarrow> rounds_left m' < rounds_left m"
  using advance_rounds_left [of m "fst (advance m)" "snd (advance m)"]
  by (auto simp: block_round_def prefix_round_def result_round_def Let_def case_prod_beta
      rounds_left_def [of "phase_update _ _"] rounds_left_def [of m]
      split: if_splits shell_check_phase.splits option.splits)

function block_loop ::
  "regex_find \<Rightarrow> bytes \<Rightarrow> nat \<Rightarrow> shell_check_event \<Rightarrow> shell_matcher \<Rightarrow>
     (shell_check_event \<times> shell_matcher) option" where
  "block_loop rx block cursor transition m =
     (case block_round rx block cursor transition m of
        Panic \<Rightarrow> None
      | Return event m' \<Rightarrow> Some (event, m')
      | Continue cursor' event m' \<Rightarrow> block_loop rx block cursor' event m')"
  by pat_completeness auto
termination
  by (relation "measure (\<lambda>(rx, block, cursor, transition, m). rounds_left m)")
    (auto dest: block_round_decreases)

declare block_loop.simps [simp del]

section \<open>Operations\<close>

definition process_block ::
  "regex_find \<Rightarrow> bytes \<Rightarrow> shell_matcher \<Rightarrow> (shell_check_event \<times> shell_matcher) option" where
  "process_block rx block m =
     (let (block, m) = normalize_utf8_block block m;
          (block, m) = (if history m \<noteq> [] then (history m @ block, m \<lparr>history := []\<rparr>) else (block, m))
      in block_loop rx block 0 EvNone m)"

definition observe_chunk ::
  "regex_find \<Rightarrow> bytes \<Rightarrow> shell_matcher \<Rightarrow> (shell_check_event \<times> shell_matcher) option" where
  "observe_chunk rx chunk m =
     (if phase m = Completed then Some (EvNone, m)
      else if phase m = Sending then Some (append_pending_output chunk m)
      else process_block rx chunk m)"

definition command_flushed ::
  "regex_find \<Rightarrow> shell_matcher \<Rightarrow> (shell_check_event \<times> shell_matcher) option" where
  "command_flushed rx m =
     (if phase m \<noteq> Sending then Some (EvNone, m)
      else if length (steps m) \<le> current_step m then None
      else
        let pending = pending_output m;
            m = m \<lparr>pending_output := []\<rparr>;
            step = steps m ! current_step m;
            (event, m) = (if success_rx step = [] \<and> fail_rx step = [] then advance m
                          else (EvNone, m \<lparr>phase := WaitingForResult\<rparr>))
        in case process_block rx pending m of
             None \<Rightarrow> None
           | Some (queued_event, m) \<Rightarrow> Some (if queued_event = EvNone then event else queued_event, m))"

definition pending_result :: "shell_matcher \<Rightarrow> (nat \<times> u64 option) option option" where
  "pending_result m =
     (if phase m \<noteq> WaitingForResult then Some None
      else if length (steps m) \<le> current_step m then None
      else Some (Some (current_step m, r_timeout (config (steps m ! current_step m)))))"

definition timeout_step :: "nat \<Rightarrow> shell_matcher \<Rightarrow> bool \<times> shell_matcher" where
  "timeout_step step m =
     (if current_step m = step \<and> phase m = WaitingForResult then (True, m \<lparr>phase := Completed\<rparr>)
      else (False, m))"

section \<open>The driver\<close>

text \<open>
  \<open>ShellCheckDriver\<close> runs the matcher for a terminal: it has a command written, tells the matcher
  when the write was flushed, arms the timeout of the step, and records the outcome. What it asks
  of the terminal and of the timer is the list of actions; a failure message is its cause.
\<close>

datatype shell_failure =
    MatchedFail nat string
  | PendingLimit nat nat nat
  | SendFailed string
  | StepTimedOut nat u64

record shell_outcome =
  completed :: bool
  failure :: "shell_failure option"

record shell_driver =
  matcher :: shell_matcher
  outcome :: shell_outcome

datatype driver_action =
    SendChunks bytes
  | StopAfterDrain
  | StartTimeout nat u64

definition new_driver :: "shell_matcher \<Rightarrow> shell_driver" where
  "new_driver m = \<lparr>matcher = m, outcome = \<lparr>completed = False, failure = None\<rparr>\<rparr>"

definition record_failure :: "shell_failure \<Rightarrow> shell_driver \<Rightarrow> bool \<times> shell_driver" where
  "record_failure message d =
     (if failure (outcome d) = None
      then (True, d \<lparr>outcome := outcome d \<lparr>failure := Some message\<rparr>\<rparr>)
      else (False, d))"

definition fail_with :: "shell_failure \<Rightarrow> shell_driver \<Rightarrow> driver_action list \<times> shell_driver" where
  "fail_with message d =
     (let (first, d) = record_failure message d in (if first then [StopAfterDrain] else [], d))"

definition handle_event :: "shell_check_event \<Rightarrow> shell_driver \<Rightarrow> driver_action list \<times> shell_driver" where
  "handle_event event d =
     (case event of
        EvNone \<Rightarrow> ([], d)
      | StepCompleted _ \<Rightarrow> ([], d)
      | Send command \<Rightarrow> ([SendChunks command], d)
      | SequenceCompleted \<Rightarrow> ([StopAfterDrain], d \<lparr>outcome := outcome d \<lparr>completed := True\<rparr>\<rparr>)
      | Failed step pattern \<Rightarrow> fail_with (MatchedFail step pattern) d
      | PendingOutputLimitExceeded step buffered limit \<Rightarrow> fail_with (PendingLimit step buffered limit) d)"

definition driver_observe ::
  "regex_find \<Rightarrow> bytes \<Rightarrow> shell_driver \<Rightarrow> (driver_action list \<times> shell_driver) option" where
  "driver_observe rx chunk d =
     (case observe_chunk rx chunk (matcher d) of
        None \<Rightarrow> None
      | Some (event, m) \<Rightarrow> Some (handle_event event (d \<lparr>matcher := m\<rparr>)))"

definition driver_flushed ::
  "regex_find \<Rightarrow> shell_driver \<Rightarrow> (driver_action list \<times> shell_driver) option" where
  "driver_flushed rx d =
     (case command_flushed rx (matcher d) of
        None \<Rightarrow> None
      | Some (event, m) \<Rightarrow>
          (case pending_result m of
             None \<Rightarrow> None
           | Some pending \<Rightarrow>
               let (acts, d) = handle_event event (d \<lparr>matcher := m\<rparr>) in
               Some (acts @ (case pending of
                   Some (step, Some timeout) \<Rightarrow> [StartTimeout step timeout]
                 | _ \<Rightarrow> []), d)))"

definition driver_send_failed :: "string \<Rightarrow> shell_driver \<Rightarrow> driver_action list \<times> shell_driver" where
  "driver_send_failed error d = fail_with (SendFailed error) d"

definition complete_step_timeout :: "nat \<Rightarrow> u64 \<Rightarrow> shell_driver \<Rightarrow> bool \<times> shell_driver" where
  "complete_step_timeout step timeout d =
     (let (won, m) = timeout_step step (matcher d); d = d \<lparr>matcher := m\<rparr> in
      if won then (True, snd (record_failure (StepTimedOut step timeout) d)) else (False, d))"

definition timer_fires :: "nat \<Rightarrow> u64 \<Rightarrow> shell_driver \<Rightarrow> driver_action list \<times> shell_driver" where
  "timer_fires step timeout d =
     (let (won, d) = complete_step_timeout step timeout d in
      (if won then [StopAfterDrain] else [], d))"

definition take_failure :: "shell_driver \<Rightarrow> shell_failure option \<times> shell_driver" where
  "take_failure d = (failure (outcome d), d \<lparr>outcome := outcome d \<lparr>failure := None\<rparr>\<rparr>)"

datatype completion_failure = Recorded shell_failure | EndedBefore nat

definition completion_error :: "shell_driver \<Rightarrow> completion_failure option \<times> shell_driver" where
  "completion_error d =
     (let (taken, d) = take_failure d in
      case taken of
        Some f \<Rightarrow> (Some (Recorded f), d)
      | None \<Rightarrow>
          if completion_is_success (matcher d) \<and> \<not> completed (outcome d)
          then (Some (EndedBefore (current_step (matcher d))), d)
          else (None, d))"

end
