(* ===== verification/Shell_Properties.thy ===== *)
theory Shell_Properties
  imports Shell_Check
begin

text \<open>
  What the shell-check matcher and its driver guarantee: no operation panics on steps the
  configuration check accepts, the commands go out one at a time and in order, the run ends once,
  as a success or as a failure, and a prompt is found however the output is cut into chunks.
\<close>

section \<open>Well-formed matchers\<close>

definition rstep_ok :: "runtime_step \<Rightarrow> bool" where
  "rstep_ok s \<longleftrightarrow>
     (r_cmd (config s) \<noteq> None \<longrightarrow> r_prefix (config s) \<noteq> None) \<and>
     is_none_or (r_prefix (config s)) (\<lambda>p. p \<noteq> [] \<and> utf8_ok (str_bytes p)) \<and>
     (success_rx s = [] \<longrightarrow> fail_rx s = [])"

definition matcher_ok :: "shell_matcher \<Rightarrow> bool" where
  "matcher_ok m \<longleftrightarrow>
     list_all rstep_ok (steps m) \<and> current_step m < length (steps m) \<and> utf8_ok (history m) \<and>
     completion_is_success m \<and>
     (phase m = WaitingForPrefix \<longrightarrow> r_cmd (config (steps m ! current_step m)) \<noteq> None)"

definition commands :: "runtime_step list \<Rightarrow> bytes list" where
  "commands ss = List.map_filter (\<lambda>s. map_option prepare_shell_cmd (r_cmd (config s))) ss"

definition sent_ok :: "shell_matcher \<Rightarrow> bytes list \<Rightarrow> bool" where
  "sent_ok m sent \<longleftrightarrow>
     (case phase m of
        WaitingForPrefix \<Rightarrow> sent = commands (take (current_step m) (steps m))
      | Sending \<Rightarrow> sent = commands (take (current_step m + 1) (steps m))
      | WaitingForResult \<Rightarrow> sent = commands (take (current_step m + 1) (steps m))
      | Completed \<Rightarrow> (\<exists>rest. commands (steps m) = sent @ rest))"

definition sends :: "shell_check_event \<Rightarrow> bytes list" where
  "sends ev = (case ev of Send c \<Rightarrow> [c] | _ \<Rightarrow> [])"

lemma sends_simps [simp]:
  "sends EvNone = []" "sends (Send c) = [c]" "sends (StepCompleted k) = []"
  "sends SequenceCompleted = []" "sends (Failed k p) = []"
  "sends (PendingOutputLimitExceeded k b l) = []"
  by (simp_all add: sends_def)

lemma commands_snoc:
  "k < length ss \<Longrightarrow> commands (take (Suc k) ss) =
     commands (take k ss) @ (case r_cmd (config (ss ! k)) of None \<Rightarrow> [] | Some c \<Rightarrow> [prepare_shell_cmd c])"
  by (auto simp: commands_def take_Suc_conv_app_nth map_filter_def split: option.splits)

lemma commands_prefix: "\<exists>rest. commands ss = commands (take k ss) @ rest"
proof
  show "commands ss = commands (take k ss) @ commands (drop k ss)"
    by (metis append_take_drop_id commands_def map_filter_def filter_append map_append)
qed

lemma sent_ok_update [simp]:
  "sent_ok (m\<lparr>history := h\<rparr>) sent = sent_ok m sent"
  "sent_ok (m\<lparr>incomplete_utf8 := h\<rparr>) sent = sent_ok m sent"
  "sent_ok (m\<lparr>pending_output := h\<rparr>) sent = sent_ok m sent"
  by (simp_all add: sent_ok_def cong: shell_check_phase.case_cong)

text \<open>What a call of the matcher may answer: the event agrees with the state it leaves.\<close>

definition answer_ok :: "shell_matcher \<Rightarrow> bytes list \<Rightarrow> shell_check_event \<Rightarrow> shell_matcher \<Rightarrow> bool" where
  "answer_ok m sent ev m' \<longleftrightarrow>
     matcher_ok m' \<and> steps m' = steps m \<and> sent_ok m' (sent @ sends ev) \<and>
     (case ev of
        EvNone \<Rightarrow> phase m' \<noteq> Completed \<and> phase m' \<noteq> Sending
      | Send c \<Rightarrow> phase m' = Sending
      | StepCompleted k \<Rightarrow> phase m' \<noteq> Completed \<and> phase m' \<noteq> Sending
      | SequenceCompleted \<Rightarrow> phase m' = Completed \<and> sent = commands (steps m)
      | Failed k p \<Rightarrow> phase m' = Completed
      | PendingOutputLimitExceeded k b l \<Rightarrow> phase m' = Completed)"

lemma matcher_okD:
  assumes "matcher_ok m"
  shows "current_step m < length (steps m)" "rstep_ok (steps m ! current_step m)"
    "utf8_ok (history m)" "completion_is_success m"
  using assms by (auto simp: matcher_ok_def list_all_length)

lemma matcher_ok_update:
  "matcher_ok m \<Longrightarrow> p \<noteq> WaitingForPrefix \<Longrightarrow> matcher_ok (m\<lparr>phase := p\<rparr>)"
  "matcher_ok m \<Longrightarrow> matcher_ok (m\<lparr>incomplete_utf8 := i\<rparr>)"
  "matcher_ok m \<Longrightarrow> matcher_ok (m\<lparr>pending_output := i\<rparr>)"
  "matcher_ok m \<Longrightarrow> utf8_ok h \<Longrightarrow> matcher_ok (m\<lparr>history := h\<rparr>)"
  by (auto simp: matcher_ok_def)

section \<open>Parts\<close>

lemma next_boundary_bounds: "i \<le> length t \<Longrightarrow> i \<le> next_boundary t i \<and> next_boundary t i \<le> length t"
  by (induction t i rule: next_boundary.induct) (subst (1 2) next_boundary.simps, force)

lemma next_boundary_stops: "i \<le> length t \<Longrightarrow> is_char_boundary t (next_boundary t i)"
proof (induction t i rule: next_boundary.induct)
  case (1 t i)
  then show ?case
    by (subst next_boundary.simps) (auto simp: is_char_boundary_def)
qed

lemma retain_boundary_history_ok:
  assumes "matcher_ok m" "utf8_ok output"
  obtains h where "retain_boundary_history output m = Some (m\<lparr>history := h\<rparr>)" "utf8_ok h"
proof -
  let ?k = "next_boundary output (length output - history_limit (config (steps m ! current_step m)))"
  have "utf8_ok (drop ?k output)"
    using assms(2) by (rule utf8_ok_boundary(2)) (simp add: next_boundary_stops)
  with assms matcher_okD [OF assms(1)] show thesis
    by (intro that [of "drop ?k output"]) (simp_all add: retain_boundary_history_def Let_def)
qed

lemma advance_event:
  "matcher_ok m \<Longrightarrow> advance m = (ev, m') \<Longrightarrow> ev = SequenceCompleted \<or> (\<exists>k. ev = StepCompleted k)"
  by (auto simp: advance_def matcher_ok_def Let_def split: if_splits)

lemma advance_ok:
  assumes "matcher_ok m" "phase m = WaitingForResult \<or> phase m = Sending" "sent_ok m sent"
    "advance m = (ev, m')"
  shows "answer_ok m sent ev m'" "ev \<noteq> EvNone" "sends ev = []"
proof -
  note ok = matcher_okD [OF assms(1)]
  have sent: "sent = commands (take (current_step m + 1) (steps m))"
    using assms(2,3) by (auto simp: sent_ok_def)
  have entry: "entry_phase s = WaitingForPrefix \<or> entry_phase s = WaitingForResult \<and> r_cmd (config s) = None" for s
    by (auto simp: entry_phase_def)
  show "ev \<noteq> EvNone" "sends ev = []"
    using assms(4) ok(4) by (auto simp: advance_def Let_def split: if_splits)
  show "answer_ok m sent ev m'"
  proof (cases "current_step m + 1 = length (steps m)")
    case True
    with assms(1,4) ok(4) sent show ?thesis
      by (auto simp: advance_def answer_ok_def matcher_ok_def sent_ok_def)
  next
    case False
    let ?j = "current_step m + 1"
    have j: "?j < length (steps m)" using False ok(1) by simp
    have m': "ev = StepCompleted (current_step m)"
        "m' = m\<lparr>history := [], current_step := ?j, phase := entry_phase (steps m ! ?j)\<rparr>"
      using assms(4) False by (auto simp: advance_def Let_def)
    show ?thesis
      using entry [of "steps m ! ?j"] assms(1) j
      by (auto simp: m' answer_ok_def matcher_ok_def sent_ok_def sent commands_snoc
          entry_phase_def)
  qed
qed

lemma append_pending_output_ok:
  assumes "matcher_ok m" "append_pending_output output m = (ev, m')"
  shows "matcher_ok m'" "steps m' = steps m"
    "ev = EvNone \<and> m' = m\<lparr>pending_output := pending_output m @ output\<rparr> \<or>
     (\<exists>k b l. ev = PendingOutputLimitExceeded k b l \<and> m' = m\<lparr>phase := Completed\<rparr>)"
  using assms by (auto simp: append_pending_output_def Let_def matcher_ok_update split: if_splits)

section \<open>The loop\<close>

text \<open>
  A position of the loop: inside the block, with a valid text ahead, in a phase the loop can be
  in, and with an event so far that agrees with the state.
\<close>

definition loop_ok :: "shell_matcher \<Rightarrow> bytes list \<Rightarrow> bytes \<Rightarrow> nat \<Rightarrow> shell_check_event \<Rightarrow> shell_matcher \<Rightarrow> bool" where
  "loop_ok m0 sent block cursor ev m \<longleftrightarrow>
     cursor \<le> length block \<and> utf8_ok (drop cursor block) \<and> sends ev = [] \<and> answer_ok m0 sent ev m"

lemma loop_okD:
  assumes "loop_ok m0 sent block cursor ev m"
  shows "cursor \<le> length block" "utf8_ok (drop cursor block)" "sends ev = []" "matcher_ok m"
    "steps m = steps m0" "sent_ok m sent" "phase m \<noteq> Sending" "answer_ok m0 sent ev m"
  using assms by (auto simp: loop_ok_def answer_ok_def split: shell_check_event.splits)

lemma answer_ok_history:
  "answer_ok m0 sent ev m \<Longrightarrow> utf8_ok h \<Longrightarrow> answer_ok m0 sent ev (m\<lparr>history := h\<rparr>)"
  by (auto simp: answer_ok_def matcher_ok_update split: shell_check_event.splits)

lemma prefix_round_ok:
  assumes l: "loop_ok m0 sent block cursor ev m" and ph: "phase m = WaitingForPrefix"
  shows "(\<exists>ev' m'. prefix_round block cursor ev m = Return ev' m' \<and> answer_ok m0 sent ev' m')"
proof -
  note ok = loop_okD [OF l]
  note mok = matcher_okD [OF ok(4)]
  let ?s = "config (steps m ! current_step m)"
  obtain c where c: "r_cmd ?s = Some c" using ok(4) ph by (auto simp: matcher_ok_def)
  obtain p where p: "r_prefix ?s = Some p" "p \<noteq> []" "utf8_ok (str_bytes p)"
    using mok(2) c by (auto simp: rstep_ok_def)
  have sent: "sent = commands (take (current_step m) (steps m))" using ok(6) ph by (simp add: sent_ok_def)
  show ?thesis
  proof (cases "str_find (str_bytes p) (drop cursor block)")
    case None
    obtain h where h: "retain_boundary_history (drop cursor block) m = Some (m\<lparr>history := h\<rparr>)" "utf8_ok h"
      using retain_boundary_history_ok [OF ok(4,2)] .
    with None p ok mok show ?thesis
      by (simp add: prefix_round_def answer_ok_history)
  next
    case (Some i)
    let ?k = "cursor + i + length p" and ?m = "m\<lparr>phase := Sending, pending_output := []\<rparr>"
    have m: "matcher_ok ?m" using ok(4) by (simp add: matcher_ok_update)
    have send: "answer_ok m0 sent (Send (prepare_shell_cmd c)) (?m\<lparr>pending_output := q\<rparr>)" for q
      using ok(4,5) mok(1) c
      by (auto simp: answer_ok_def sent_ok_def matcher_ok_update sent commands_snoc)
    obtain pe m' where a: "append_pending_output (drop ?k block) ?m = (pe, m')"
      by (cases "append_pending_output (drop ?k block) ?m")
    from append_pending_output_ok(3) [OF m a] show ?thesis
    proof (elim disjE exE conjE)
      assume "pe = EvNone" "m' = ?m\<lparr>pending_output := pending_output ?m @ drop ?k block\<rparr>"
      with send [of "drop ?k block"] send [of "[]"] Some p c ok(1,2) mok(1) a show ?thesis
        by (simp add: prefix_round_def Let_def)
    next
      fix k b lim
      assume e: "pe = PendingOutputLimitExceeded k b lim" "m' = ?m\<lparr>phase := Completed\<rparr>"
      obtain rest where "commands (steps m) = sent @ rest" using commands_prefix sent by metis
      then have "answer_ok m0 sent pe m'"
        using ok(4,5) e by (auto simp: answer_ok_def sent_ok_def matcher_ok_update)
      with send [of "[]"] e Some p c ok(1,2) mok(1) a show ?thesis
        by (simp add: prefix_round_def Let_def)
    qed
  qed
qed

lemma earliest_end_bounds:
  "regex_api rx \<Longrightarrow> utf8_ok t \<Longrightarrow> earliest_end rx ps t = Some e \<Longrightarrow>
     e \<le> length t \<and> is_char_boundary t e"
  by (induction ps arbitrary: e) (auto simp: regex_api_def split: option.splits if_splits)

lemma result_round_ok:
  assumes rx: "regex_api rx"
    and l: "loop_ok m0 sent block cursor ev m" and ph: "phase m = WaitingForResult"
  shows "(\<exists>ev' m'. result_round rx block cursor ev m = Return ev' m' \<and> answer_ok m0 sent ev' m') \<or>
     (\<exists>k ev' m'. result_round rx block cursor ev m = Continue k ev' m' \<and> loop_ok m0 sent block k ev' m')"
proof -
  note ok = loop_okD [OF l]
  note mok = matcher_okD [OF ok(4)]
  let ?t = "drop cursor block" and ?s = "steps m ! current_step m"
  have pre: "\<not> length block < cursor" "\<not> length (steps m) \<le> current_step m" using ok(1) mok(1) by auto
  have sent: "sent = commands (take (current_step m + 1) (steps m))" using ok(6) ph by (simp add: sent_ok_def)
  show ?thesis
  proof (cases "find (\<lambda>p. rx p ?t \<noteq> None) (fail_rx ?s)")
    case (Some p)
    obtain rest where "commands (steps m) = sent @ rest" using commands_prefix sent by metis
    then have "answer_ok m0 sent (Failed (current_step m) p) (m\<lparr>phase := Completed\<rparr>)"
      using ok(4,5) by (auto simp: answer_ok_def sent_ok_def matcher_ok_update)
    with Some pre ok(2) show ?thesis by (simp add: result_round_def)
  next
    case None
    show ?thesis
    proof (cases "earliest_end rx (success_rx ?s) ?t")
      case none: None
      obtain h where h: "retain_boundary_history ?t m = Some (m\<lparr>history := h\<rparr>)" "utf8_ok h"
        using retain_boundary_history_ok [OF ok(4,2)] .
      from answer_ok_history [OF ok(8) h(2)] None none h(1) show ?thesis
        by (simp add: result_round_def Let_def pre ok(2))
    next
      case (Some e)
      obtain ev' m' where a: "advance m = (ev', m')" by (cases "advance m")
      from advance_ok [OF ok(4) disjI1 [OF ph] ok(6) a]
      have adv: "answer_ok m sent ev' m'" "sends ev' = []" by blast+
      from earliest_end_bounds [OF rx ok(2) Some] have "e \<le> length ?t" "utf8_ok (drop e ?t)"
        using utf8_ok_boundary(2) [OF ok(2)] by auto
      with adv ok(1,5) have "loop_ok m0 sent block (cursor + e) ev' m'"
        by (auto simp: loop_ok_def answer_ok_def add.commute cong: shell_check_event.case_cong)
      with None Some a show ?thesis by (simp add: result_round_def Let_def pre ok(2))
    qed
  qed
qed

lemma block_loop_ok:
  assumes "regex_api rx" "loop_ok m0 sent block cursor ev m"
  shows "\<exists>ev' m'. block_loop rx block cursor ev m = Some (ev', m') \<and> answer_ok m0 sent ev' m'"
  using assms
proof (induction rx block cursor ev m rule: block_loop.induct)
  case (1 rx' block cursor ev m)
  note ok = loop_okD [OF "1.prems"(2)]
  show ?case
  proof (cases "phase m = Completed \<or> cursor = length block")
    case True
    with ok(8) show ?thesis by (subst block_loop.simps) (simp add: block_round_def)
  next
    case False
    with ok(7) consider "phase m = WaitingForPrefix" | "phase m = WaitingForResult"
      by (cases "phase m") auto
    then show ?thesis
    proof cases
      assume ph: "phase m = WaitingForPrefix"
      with prefix_round_ok [OF "1.prems"(2) ph] False show ?thesis
        by (subst block_loop.simps) (auto simp: block_round_def)
    next
      assume ph: "phase m = WaitingForResult"
    
      from result_round_ok [OF "1.prems" ph] show ?thesis
      proof (elim disjE exE conjE)
        fix k ev' m'
        assume r: "result_round rx' block cursor ev m = Continue k ev' m'" "loop_ok m0 sent block k ev' m'"
        with False ph have "block_round rx' block cursor ev m = Continue k ev' m'"
          by (simp add: block_round_def)
        with "1.IH" [OF this "1.prems"(1) r(2)] show ?thesis by (subst block_loop.simps) simp
      qed (use False ph in \<open>subst block_loop.simps; auto simp: block_round_def\<close>)
    qed
  qed
qed

section \<open>Operations\<close>

lemma answer_ok_init:
  "matcher_ok m \<Longrightarrow> sent_ok m sent \<Longrightarrow> phase m \<noteq> Completed \<Longrightarrow> phase m \<noteq> Sending \<Longrightarrow>
     steps m = steps m0 \<Longrightarrow> answer_ok m0 sent EvNone m"
  by (simp add: answer_ok_def)

lemma process_block_ok:
  assumes "regex_api rx" "matcher_ok m" "sent_ok m sent" "phase m \<noteq> Completed" "phase m \<noteq> Sending"
  shows "\<exists>ev m'. process_block rx block m = Some (ev, m') \<and> answer_ok m sent ev m'"
proof -
  obtain b i where n: "utf8_normalize (incomplete_utf8 m @ block) = (b, i)"
    by (cases "utf8_normalize (incomplete_utf8 m @ block)")
  have b: "utf8_ok b" using utf8_normalize_result [OF n] by blast
  have h: "utf8_ok (history m @ b)" using b utf8_ok_append matcher_okD(3) [OF assms(2)] by blast
  let ?m = "m\<lparr>incomplete_utf8 := i\<rparr>"
  have m: "matcher_ok ?m" "matcher_ok (?m\<lparr>history := []\<rparr>)" using assms(2) by (simp_all add: matcher_ok_update)
  have l: "loop_ok m sent b 0 EvNone ?m" "loop_ok m sent (history m @ b) 0 EvNone (?m\<lparr>history := []\<rparr>)"
    using b h m assms(3-5) by (simp_all add: loop_ok_def answer_ok_init)
  show ?thesis
    using block_loop_ok [OF assms(1) l(1)] block_loop_ok [OF assms(1) l(2)]
    by (cases "history m = []") (simp_all add: process_block_def normalize_utf8_block_def n)
qed

lemma process_block_completed:
  assumes "matcher_ok m" "phase m = Completed"
  shows "\<exists>m'. process_block rx block m = Some (EvNone, m') \<and> matcher_ok m' \<and> steps m' = steps m \<and>
     phase m' = Completed"
  using assms
  by (auto simp: process_block_def normalize_utf8_block_def block_loop.simps block_round_def
      case_prod_beta matcher_ok_update)

text \<open>A chunk while the command is written is only put by, up to the limit.\<close>

definition queued_ok :: "shell_matcher \<Rightarrow> bytes list \<Rightarrow> shell_check_event \<Rightarrow> shell_matcher \<Rightarrow> bool" where
  "queued_ok m sent ev m' \<longleftrightarrow>
     matcher_ok m' \<and> steps m' = steps m \<and> sent_ok m' sent \<and>
     (ev = EvNone \<and> phase m' = phase m \<or>
      (\<exists>k b l. ev = PendingOutputLimitExceeded k b l \<and> phase m' = Completed))"

lemma observe_chunk_ok:
  assumes "regex_api rx" "matcher_ok m" "sent_ok m sent"
  shows "\<exists>ev m'. observe_chunk rx chunk m = Some (ev, m') \<and>
     (if phase m = Completed then ev = EvNone \<and> m' = m
      else if phase m = Sending then queued_ok m sent ev m'
      else answer_ok m sent ev m')"
proof (cases "phase m = Sending")
  case True
  obtain ev m' where a: "append_pending_output chunk m = (ev, m')" by (cases "append_pending_output chunk m")
  obtain rest where "commands (steps m) = sent @ rest"
    using commands_prefix [of "steps m" "current_step m + 1"] True assms(3) by (auto simp: sent_ok_def)
  with append_pending_output_ok [OF assms(2) a] True assms(3) have "queued_ok m sent ev m'"
    by (auto simp: queued_ok_def) (auto simp: sent_ok_def)
  with True a show ?thesis by (simp add: observe_chunk_def)
next
  case False
  with process_block_ok [OF assms] show ?thesis
    by (cases "phase m = Completed") (simp_all add: observe_chunk_def)
qed

lemma command_flushed_ok:
  assumes "regex_api rx" "matcher_ok m" "sent_ok m sent" "phase m = Sending"
  shows "\<exists>ev m'. command_flushed rx m = Some (ev, m') \<and> answer_ok m sent ev m'"
proof -
  let ?m = "m\<lparr>pending_output := []\<rparr>" and ?s = "steps m ! current_step m"
  note len = matcher_okD(1) [OF assms(2)]
  have m: "matcher_ok ?m" "sent_ok ?m sent" using assms by (simp_all add: matcher_ok_update)
  show ?thesis
  proof (cases "success_rx ?s = [] \<and> fail_rx ?s = []")
    case False
    let ?w = "?m\<lparr>phase := WaitingForResult\<rparr>"
    have "matcher_ok ?w" "sent_ok ?w sent" using m assms(4) by (auto simp: matcher_ok_update sent_ok_def)
    from process_block_ok [OF assms(1) this, of "pending_output m"] obtain ev m' where
      "process_block rx (pending_output m) ?w = Some (ev, m')" "answer_ok ?w sent ev m'"
      by fastforce
    with False len assms(4) show ?thesis
      by (auto simp: command_flushed_def Let_def answer_ok_def cong: shell_check_event.case_cong)
  next
    case True
    obtain ev1 m1 where a: "advance ?m = (ev1, m1)" by (cases "advance ?m")
    from advance_ok [OF m(1) _ m(2) a] assms(4)
    have adv: "answer_ok ?m sent ev1 m1" "ev1 \<noteq> EvNone" "sends ev1 = []" by auto
    then have m1: "matcher_ok m1" "steps m1 = steps m" "sent_ok m1 sent" "phase m1 \<noteq> Sending"
      by (auto simp: answer_ok_def split: shell_check_event.splits)
    show ?thesis
    proof (cases "phase m1 = Completed")
      case fin: True
      from process_block_completed [OF m1(1) fin] obtain m2 where
        p: "process_block rx (pending_output m) m1 = Some (EvNone, m2)"
           "matcher_ok m2" "steps m2 = steps m" "phase m2 = Completed" using m1(2) by metis
      have "ev1 = SequenceCompleted" "sent = commands (steps m)"
        using adv(1) fin advance_event [OF m(1) a] by (auto simp: answer_ok_def)
      with p have "answer_ok m sent ev1 m2" by (simp add: answer_ok_def sent_ok_def)
      with True len assms(4) a p(1) show ?thesis by (simp add: command_flushed_def Let_def)
    next
      case False
      from process_block_ok [OF assms(1) m1(1,3) False m1(4), of "pending_output m"] obtain ev2 m2 where
        p: "process_block rx (pending_output m) m1 = Some (ev2, m2)" "answer_ok m1 sent ev2 m2" by auto
      have "answer_ok m sent (if ev2 = EvNone then ev1 else ev2) m2"
      proof (cases "ev2 = EvNone")
        case True
        with adv False p(2) m1(2) show ?thesis
          by (auto simp: answer_ok_def split: shell_check_event.splits)
      next
        case False
        with p(2) m1(2) show ?thesis
          by (auto simp: answer_ok_def cong: shell_check_event.case_cong)
      qed
      with True len assms(4) a p(1) show ?thesis by (simp add: command_flushed_def Let_def)
    qed
  qed
qed

lemma pending_result_ok: "matcher_ok m \<Longrightarrow> \<exists>p. pending_result m = Some p"
  using matcher_okD(1) [of m] by (simp add: pending_result_def)

section \<open>Runs\<close>

text \<open>
  The driver in its surroundings: whether a command is being written, the commands handed to the
  terminal, the timers armed, and how often the terminal was asked to stop. The surroundings may
  deliver output at any time, finish or fail a write that is under way, and fire a timer.
\<close>

record shell_run =
  driver :: shell_driver
  writing :: bool
  sent_commands :: "bytes list"
  armed :: "(nat \<times> u64) list"
  stops :: nat

datatype shell_env = Output bytes | WriteDone | WriteError string | TimerFires nat u64

definition start_run :: "shell_matcher \<Rightarrow> shell_run" where
  "start_run m =
     \<lparr>driver = new_driver m, writing = False, sent_commands = [], armed = [], stops = 0\<rparr>"

fun perform :: "shell_run \<Rightarrow> driver_action \<Rightarrow> shell_run" where
  "perform r (SendChunks c) = r\<lparr>writing := True, sent_commands := sent_commands r @ [c]\<rparr>"
| "perform r StopAfterDrain = r\<lparr>stops := stops r + 1\<rparr>"
| "perform r (StartTimeout s t) = r\<lparr>armed := armed r @ [(s, t)]\<rparr>"

definition acting :: "shell_run \<Rightarrow> driver_action list \<times> shell_driver \<Rightarrow> shell_run" where
  "acting r ad = foldl perform (r\<lparr>driver := snd ad\<rparr>) (fst ad)"

fun shell_env_step :: "regex_find \<Rightarrow> shell_run \<Rightarrow> shell_env \<Rightarrow> shell_run option" where
  "shell_env_step rx r (Output chunk) = map_option (acting r) (driver_observe rx chunk (driver r))"
| "shell_env_step rx r WriteDone =
     (if writing r then map_option (acting (r\<lparr>writing := False\<rparr>)) (driver_flushed rx (driver r))
      else Some r)"
| "shell_env_step rx r (WriteError e) =
     (if writing r then Some (acting (r\<lparr>writing := False\<rparr>) (driver_send_failed e (driver r)))
      else Some r)"
| "shell_env_step rx r (TimerFires s t) =
     (if (s, t) \<in> set (armed r) then Some (acting r (timer_fires s t (driver r))) else Some r)"

fun shell_env_run :: "regex_find \<Rightarrow> shell_run \<Rightarrow> shell_env list \<Rightarrow> shell_run option" where
  "shell_env_run rx r [] = Some r"
| "shell_env_run rx r (e # es) =
     (case shell_env_step rx r e of None \<Rightarrow> None | Some r' \<Rightarrow> shell_env_run rx r' es)"

definition run_matcher :: "shell_run \<Rightarrow> shell_matcher" where
  "run_matcher r = matcher (driver r)"

definition run_outcome :: "shell_run \<Rightarrow> shell_outcome" where
  "run_outcome r = outcome (driver r)"

definition run_ended :: "shell_run \<Rightarrow> bool" where
  "run_ended r \<longleftrightarrow> completed (run_outcome r) \<or> failure (run_outcome r) \<noteq> None"

definition run_ok :: "runtime_step list \<Rightarrow> shell_run \<Rightarrow> bool" where
  "run_ok ss r \<longleftrightarrow>
     matcher_ok (run_matcher r) \<and> steps (run_matcher r) = ss \<and>
     sent_ok (run_matcher r) (sent_commands r) \<and>
     (writing r \<longrightarrow> phase (run_matcher r) = Sending \<and> \<not> run_ended r \<or>
        phase (run_matcher r) = Completed \<and> failure (run_outcome r) \<noteq> None) \<and>
     (phase (run_matcher r) = Completed \<longrightarrow> run_ended r) \<and>
     (phase (run_matcher r) = Sending \<longrightarrow> writing r \<or> failure (run_outcome r) \<noteq> None) \<and>
     (run_ended r \<longrightarrow> phase (run_matcher r) = Completed \<or> phase (run_matcher r) = Sending \<and> \<not> writing r) \<and>
     (completed (run_outcome r) \<longrightarrow> failure (run_outcome r) = None \<and>
        phase (run_matcher r) = Completed \<and> sent_commands r = commands ss) \<and>
     stops r = (if run_ended r then 1 else 0)"

lemmas run_simps = run_matcher_def run_outcome_def run_ended_def acting_def

lemma foldl_perform_driver [simp]: "driver (foldl perform r acts) = driver r"
proof (induction acts arbitrary: r)
  case (Cons a acts)
  then show ?case by (cases a) simp_all
qed simp

lemma run_ok_armed [simp]: "run_ok ss (r\<lparr>armed := x\<rparr>) = run_ok ss r"
  by (simp add: run_ok_def run_simps)

lemma answer_run_ok:
  assumes "answer_ok m (sent_commands r) ev m'" "steps m = ss" "\<not> run_ended r" "\<not> writing r" "stops r = 0"
  shows "run_ok ss (acting r (handle_event ev ((driver r)\<lparr>matcher := m'\<rparr>)))"
  using assms
  by (cases ev)
    (auto simp: answer_ok_def run_ok_def run_simps handle_event_def fail_with_def record_failure_def)

lemma run_okD:
  assumes "run_ok ss r"
  shows "matcher_ok (run_matcher r)" "steps (run_matcher r) = ss"
    "sent_ok (run_matcher r) (sent_commands r)"
    "\<not> run_ended r \<Longrightarrow> stops r = 0"
    "phase (run_matcher r) = Completed \<Longrightarrow> run_ended r"
    "phase (run_matcher r) = WaitingForPrefix \<or> phase (run_matcher r) = WaitingForResult \<Longrightarrow>
       \<not> writing r \<and> \<not> run_ended r"
    "writing r \<Longrightarrow> phase (run_matcher r) = Sending \<and> \<not> run_ended r \<or>
       phase (run_matcher r) = Completed \<and> failure (run_outcome r) \<noteq> None"
  using assms by (auto simp: run_ok_def)

lemma run_ok_output:
  assumes "regex_api rx" "run_ok ss r"
  shows "\<exists>r'. shell_env_step rx r (Output chunk) = Some r' \<and> run_ok ss r'"
proof -
  note ok = run_okD [OF assms(2)]
  from observe_chunk_ok [OF assms(1) ok(1,3), of chunk] obtain ev m' where
    o: "observe_chunk rx chunk (run_matcher r) = Some (ev, m')"
    and a: "if phase (run_matcher r) = Completed then ev = EvNone \<and> m' = run_matcher r
      else if phase (run_matcher r) = Sending then queued_ok (run_matcher r) (sent_commands r) ev m'
      else answer_ok (run_matcher r) (sent_commands r) ev m'" by auto
  have step: "shell_env_step rx r (Output chunk) =
      Some (acting r (handle_event ev ((driver r)\<lparr>matcher := m'\<rparr>)))"
    using o by (simp add: driver_observe_def run_matcher_def)
  have "run_ok ss (acting r (handle_event ev ((driver r)\<lparr>matcher := m'\<rparr>)))"
  proof (cases "phase (run_matcher r)")
    case Completed
    with a assms(2) show ?thesis
      by (simp add: handle_event_def acting_def run_matcher_def)
  next
    case Sending
    with a have q: "queued_ok (run_matcher r) (sent_commands r) ev m'" by simp
    then consider "ev = EvNone" "phase m' = Sending"
      | k b l where "ev = PendingOutputLimitExceeded k b l" "phase m' = Completed"
      using Sending by (auto simp: queued_ok_def)
    then show ?thesis
    proof cases
      case 1
      with q assms(2) Sending show ?thesis
        by (auto simp: queued_ok_def run_ok_def run_simps handle_event_def)
    next
      case 2
      with q assms(2) Sending show ?thesis
        by (auto simp: queued_ok_def run_ok_def run_simps handle_event_def fail_with_def
            record_failure_def)
    qed
  next
    case WaitingForPrefix
    with a ok(2,4,6) show ?thesis by (intro answer_run_ok [of "run_matcher r"]) auto
  next
    case WaitingForResult
    with a ok(2,4,6) show ?thesis by (intro answer_run_ok [of "run_matcher r"]) auto
  qed
  with step show ?thesis by blast
qed

lemma command_flushed_idle: "phase m \<noteq> Sending \<Longrightarrow> command_flushed rx m = Some (EvNone, m)"
  by (simp add: command_flushed_def)

lemma acting_armed:
  "acting r (acts @ (case p of Some (s, Some t) \<Rightarrow> [StartTimeout s t] | _ \<Rightarrow> []), d) =
     acting r (acts, d) \<or>
   (\<exists>x. acting r (acts @ (case p of Some (s, Some t) \<Rightarrow> [StartTimeout s t] | _ \<Rightarrow> []), d) =
     (acting r (acts, d))\<lparr>armed := x\<rparr>)"
  by (auto simp: acting_def split: option.splits)

lemma run_ok_write_done:
  assumes "regex_api rx" "run_ok ss r"
  shows "\<exists>r'. shell_env_step rx r WriteDone = Some r' \<and> run_ok ss r'"
proof (cases "writing r")
  case True
  note ok = run_okD [OF assms(2)]
  let ?r = "r\<lparr>writing := False\<rparr>"
  have "\<exists>ev m'. command_flushed rx (run_matcher r) = Some (ev, m') \<and> matcher_ok m' \<and>
      run_ok ss (acting ?r (handle_event ev ((driver r)\<lparr>matcher := m'\<rparr>)))"
  proof (cases "phase (run_matcher r) = Sending")
    case send: True
    from command_flushed_ok [OF assms(1) ok(1,3) send] obtain ev m' where
      f: "command_flushed rx (run_matcher r) = Some (ev, m')"
      and a: "answer_ok (run_matcher r) (sent_commands r) ev m'" by auto
    have "run_ok ss (acting ?r (handle_event ev ((driver ?r)\<lparr>matcher := m'\<rparr>)))"
      using a ok(2) ok(4) ok(7) [OF True] send
      by (intro answer_run_ok [of "run_matcher r"]) (auto simp: run_ended_def run_outcome_def)
    with f a show ?thesis by (simp add: answer_ok_def)
  next
    case False
    with ok(7) [OF True] assms(2) ok(1) show ?thesis
      by (auto simp: command_flushed_idle handle_event_def run_ok_def run_simps)
  qed
  then obtain ev m' where f: "command_flushed rx (run_matcher r) = Some (ev, m')" "matcher_ok m'"
    and r: "run_ok ss (acting ?r (handle_event ev ((driver r)\<lparr>matcher := m'\<rparr>)))" by auto
  obtain p where p: "pending_result m' = Some p" using pending_result_ok [OF f(2)] by blast
  obtain acts d where h: "handle_event ev ((driver r)\<lparr>matcher := m'\<rparr>) = (acts, d)"
    by (cases "handle_event ev ((driver r)\<lparr>matcher := m'\<rparr>)")
  have "shell_env_step rx r WriteDone =
      Some (acting ?r (acts @ (case p of Some (s, Some t) \<Rightarrow> [StartTimeout s t] | _ \<Rightarrow> []), d))"
    using True f(1) p h by (simp add: driver_flushed_def run_matcher_def)
  then show ?thesis using r h acting_armed [of ?r acts p d] by force
qed (use assms in simp)

lemma run_ok_write_error:
  assumes "run_ok ss r"
  shows "\<exists>r'. shell_env_step rx r (WriteError e) = Some r' \<and> run_ok ss r'"
  using assms
  by (cases "writing r")
    (auto simp: driver_send_failed_def fail_with_def record_failure_def run_ok_def run_simps)

lemma sent_ok_completed: "sent_ok m sent \<Longrightarrow> sent_ok (m\<lparr>phase := Completed\<rparr>) sent"
  using commands_prefix [of "steps m" "current_step m"] commands_prefix [of "steps m" "current_step m + 1"]
  by (cases "phase m") (simp_all add: sent_ok_def)

lemma run_ok_timer:
  assumes "run_ok ss r"
  shows "\<exists>r'. shell_env_step rx r (TimerFires s t) = Some r' \<and> run_ok ss r'"
proof (cases "(s, t) \<in> set (armed r) \<and> current_step (run_matcher r) = s \<and> phase (run_matcher r) = WaitingForResult")
  case True
  note ok = run_okD [OF assms]
  from True ok(6) have "\<not> writing r \<and> \<not> run_ended r" by blast
  with True ok(1-4) sent_ok_completed [OF ok(3)] show ?thesis
    by (auto simp: timer_fires_def complete_step_timeout_def timeout_step_def record_failure_def
        run_ok_def run_simps matcher_ok_update)
next
  case False
  have "(driver r)\<lparr>matcher := matcher (driver r)\<rparr> = driver r" by simp
  with False assms show ?thesis
    by (auto simp: timer_fires_def complete_step_timeout_def timeout_step_def run_matcher_def acting_def)
qed

lemma run_ok_step: "regex_api rx \<Longrightarrow> run_ok ss r \<Longrightarrow> \<exists>r'. shell_env_step rx r e = Some r' \<and> run_ok ss r'"
  using run_ok_output run_ok_write_done run_ok_write_error run_ok_timer by (cases e) blast+

lemma run_ok_run:
  "regex_api rx \<Longrightarrow> run_ok ss r \<Longrightarrow> \<exists>r'. shell_env_run rx r es = Some r' \<and> run_ok ss r'"
proof (induction es arbitrary: r)
  case (Cons e es)
  from run_ok_step [OF Cons.prems] obtain r' where "shell_env_step rx r e = Some r'" "run_ok ss r'" by blast
  with Cons.IH [OF Cons.prems(1)] show ?case by auto
qed simp

section \<open>From the configuration to the matcher\<close>

text \<open>The strings of a configuration are Rust strings: valid UTF-8.\<close>

definition utf8_steps :: "shell_check_step list \<Rightarrow> bool" where
  "utf8_steps ss \<longleftrightarrow> list_all (\<lambda>s. is_none_or (shell_prefix s) (\<lambda>p. utf8_ok (str_bytes p))) ss"

definition step_commands :: "shell_check_step list \<Rightarrow> bytes list" where
  "step_commands ss = List.map_filter (\<lambda>s. map_option prepare_shell_cmd (shell_cmd s)) ss"

lemma compile_list_iff: "compile_list compiles ps = Inr qs \<longleftrightarrow> list_all compiles ps \<and> qs = ps"
  by (induction ps arbitrary: qs) (auto simp: rbind_Inr_iff)

lemma runtime_steps_iff:
  "runtime_steps compiles cs = Inr rs \<longleftrightarrow>
     list_all (\<lambda>c. list_all compiles (unwrap_or (r_success c) []) \<and>
       list_all compiles (unwrap_or (r_fail c) [])) cs \<and>
     rs = map (\<lambda>c. \<lparr>config = c, success_rx = unwrap_or (r_success c) [],
       fail_rx = unwrap_or (r_fail c) []\<rparr>) cs"
  by (induction cs arbitrary: rs) (auto simp: rbind_Inr_iff compile_patterns_def compile_list_iff)

definition runtime_of :: "resolved_step \<Rightarrow> runtime_step" where
  "runtime_of c = \<lparr>config = c, success_rx = unwrap_or (r_success c) [], fail_rx = unwrap_or (r_fail c) []\<rparr>"

lemma last_prefix_good:
  assumes "\<And>s p. s \<in> set ss \<Longrightarrow> shell_prefix s = Some p \<Longrightarrow> P (trim p)" "last_prefix ss = Some q"
  shows "P q"
proof (cases "filter (\<lambda>s. shell_prefix s \<noteq> None) (rev ss)")
  case Nil
  with assms(2) show ?thesis by (simp add: last_prefix_def)
next
  case (Cons s rest)
  then have "s \<in> set (filter (\<lambda>s. shell_prefix s \<noteq> None) (rev ss))" by simp
  then have "s \<in> set ss" by simp
  with Cons assms show ?thesis by (auto simp: last_prefix_def)
qed

lemma resolved_runtime_ok:
  assumes "steps_valid compiles ss" "utf8_steps ss" "i < length ss"
  shows "rstep_ok (runtime_of (resolved_spec ss i))"
proof -
  let ?s = "ss ! i"
  from assms(1,3) have v: "step_valid compiles ?s" "shell_cmd ?s \<noteq> None \<Longrightarrow> last_prefix (take (i + 1) ss) \<noteq> None"
    by (auto simp: steps_valid_def)
  have "q \<noteq> [] \<and> utf8_ok (str_bytes q)" if q: "last_prefix (take (i + 1) ss) = Some q" for q
  proof (rule last_prefix_good [OF _ q, where P = "\<lambda>q. q \<noteq> [] \<and> utf8_ok (str_bytes q)"])
    fix s p
    assume "s \<in> set (take (i + 1) ss)" "shell_prefix s = Some p"
    then have s: "s \<in> set ss" "shell_prefix s = Some p" by (auto dest: in_set_takeD)
    then have "step_valid compiles s" using assms(1) by (auto simp: steps_valid_def in_set_conv_nth)
    with s(2) have "trim p \<noteq> []" by (simp add: step_valid_def is_blank_def)
    moreover from s assms(2) have "utf8_ok (str_bytes p)" by (force simp: utf8_steps_def list_all_iff)
    ultimately show "trim p \<noteq> [] \<and> utf8_ok (str_bytes (trim p))" using trim_utf8 by blast
  qed
  then have p: "is_none_or (last_prefix (take (i + 1) ss)) (\<lambda>q. q \<noteq> [] \<and> utf8_ok (str_bytes q))"
    by (simp add: is_none_or_iff)
  have "fail_regex ?s = None" if "unwrap_or (map_option (map trim) (success_regex ?s)) [] = []"
    using that v(1) by (cases "success_regex ?s") (auto simp: step_valid_def patterns_valid_def)
  with v(2) p show ?thesis
    by (auto simp: rstep_ok_def runtime_of_def resolved_spec_def Let_def)
qed

lemma resolved_matcher:
  assumes "resolve_shell_check_steps compiles ss = Inr (ss', rs)" "utf8_steps ss" "ss \<noteq> []"
  obtains m where "from_steps compiles rs = Inr m" "steps m = map runtime_of rs"
    "run_ok (steps m) (start_run m)" "commands (steps m) = step_commands ss"
proof -
  have v: "steps_valid compiles ss" and rs: "rs = map (resolved_spec ss) [0..<length ss]"
    using assms(1) resolve_from_iff [of compiles 0 "[]" ss rs]
    by (auto simp: resolve_shell_check_steps_def steps_valid_def)
  have c: "list_all compiles (unwrap_or (map_option (map trim) p) [])" if "patterns_valid compiles p" for p
    using that by (cases p) (auto simp: patterns_valid_def list_all_iff)
  have "list_all (\<lambda>c. list_all compiles (unwrap_or (r_success c) []) \<and>
       list_all compiles (unwrap_or (r_fail c) [])) rs"
    using v c by (auto simp: rs list_all_iff resolved_spec_def Let_def steps_valid_def step_valid_def)
  then have run: "runtime_steps compiles rs = Inr (map runtime_of rs)"
    by (simp add: runtime_steps_iff runtime_of_def [abs_def])
  have ne: "rs \<noteq> []" using assms(3) rs by simp
  define m where "m = \<lparr>steps = map runtime_of rs, current_step = 0, phase = entry_phase (runtime_of (hd rs)),
    history = [], incomplete_utf8 = [], pending_output = [], completion_is_success = True\<rparr>"
  have f: "from_steps compiles rs = Inr m"
    using ne run by (simp add: from_steps_def m_def hd_map)
  have ok: "list_all rstep_ok (map runtime_of rs)"
    using resolved_runtime_ok [OF v assms(2)] by (auto simp: rs list_all_iff)
  have hd: "map runtime_of rs ! 0 = runtime_of (hd rs)" using ne by (simp add: hd_conv_nth)
  have m: "matcher_ok m"
    using ok ne hd by (auto simp: m_def matcher_ok_def entry_phase_def split: if_splits)
  have "sent_ok m []"
    using ne hd by (cases rs) (auto simp: m_def sent_ok_def entry_phase_def commands_def map_filter_def)
  with m have "run_ok (steps m) (start_run m)"
    by (auto simp: run_ok_def start_run_def new_driver_def run_simps m_def entry_phase_def)
  moreover have "commands (steps m) = step_commands ss"
  proof -
    have "map (\<lambda>i. r_cmd (config (runtime_of (resolved_spec ss i)))) [0..<length ss] = map shell_cmd ss"
      by (rule nth_equalityI) (simp_all add: runtime_of_def resolved_spec_def Let_def)
    then have e: "map (r_cmd \<circ> config \<circ> runtime_of) rs = map shell_cmd ss" by (simp add: rs comp_def)
    have "commands (map runtime_of rs) = List.map_filter (map_option prepare_shell_cmd) (map (r_cmd \<circ> config \<circ> runtime_of) rs)"
      by (simp add: commands_def map_filter_def filter_map comp_def)
    also have "\<dots> = step_commands ss"
      unfolding e by (simp add: step_commands_def map_filter_def filter_map comp_def)
    finally show ?thesis by (simp add: m_def)
  qed
  ultimately show thesis using f by (intro that [of m]) (simp_all add: m_def)
qed

section \<open>Prompts across chunks\<close>

fun observe_all ::
  "regex_find \<Rightarrow> shell_matcher \<Rightarrow> bytes list \<Rightarrow> (shell_check_event list \<times> shell_matcher) option" where
  "observe_all rx m [] = Some ([], m)"
| "observe_all rx m (c # cs) =
     (case observe_chunk rx c m of
        None \<Rightarrow> None
      | Some (ev, m') \<Rightarrow> map_option (\<lambda>(evs, m''). (ev # evs, m'')) (observe_all rx m' cs))"

lemma observe_all_append:
  "observe_all rx m cs = Some (evs, m1) \<Longrightarrow> observe_chunk rx c m1 = Some (ev, m2) \<Longrightarrow>
     observe_all rx m (cs @ [c]) = Some (evs @ [ev], m2)"
  by (induction cs arbitrary: m evs) (auto split: option.splits)

lemma next_boundary_near:
  assumes "utf8_ok t" "i \<le> length t"
  shows "next_boundary t i \<le> i + 3"
proof -
  have least: "next_boundary t i \<le> j" if "i \<le> j" "is_char_boundary t j" for j
    using that
  proof (induction t i rule: next_boundary.induct)
    case (1 t i)
    show ?case
    proof (cases "is_char_boundary t i \<or> length t \<le> i")
      case True
      with "1.prems" show ?thesis by (subst next_boundary.simps) simp
    next
      case False
      with "1.prems" have "i + 1 \<le> j" by (cases "i = j") auto
      with "1.IH" [OF False] "1.prems"(2) False show ?thesis by (subst next_boundary.simps) simp
    qed
  qed
  from utf8_boundary_near [OF assms] least show ?thesis by (meson order_trans)
qed

text \<open>
  What the matcher keeps while it waits: of the text so far, a suffix in which every occurrence
  of the prompt that is still to come must start.
\<close>

definition keeps :: "bytes \<Rightarrow> bytes \<Rightarrow> bytes \<Rightarrow> bool" where
  "keeps p text h \<longleftrightarrow>
     (\<exists>k \<le> length text. h = drop k text \<and> (k = 0 \<or> length p \<le> length text - k))"

lemma keeps_search:
  assumes "keeps p text h" "str_find p text = None" "p \<noteq> []"
  obtains k where "k \<le> length text" "h @ b = drop k (text @ b)"
    "str_find p (text @ b) = map_option ((+) k) (str_find p (h @ b))"
    "k = 0 \<or> length p \<le> length text - k"
proof -
  obtain k where k: "k \<le> length text" "h = drop k text" "k = 0 \<or> length p \<le> length text - k"
    using assms(1) by (auto simp: keeps_def)
  have h: "h @ b = drop k (text @ b)" using k by simp
  have late: "k \<le> j" if o: "occurs_at p (text @ b) j" for j
  proof (rule ccontr)
    assume "\<not> k \<le> j"
    with k(1,3) o have "j + length p \<le> length text" by auto
    with o have "occurs_at p text j" by (simp add: occurs_at_def)
    with assms(2) show False by (simp add: str_find_None)
  qed
  have shift: "occurs_at p (h @ b) i \<longleftrightarrow> occurs_at p (text @ b) (k + i)" for i
    unfolding h by (rule occurs_at_drop) (use k in simp)
  have "str_find p (text @ b) = map_option ((+) k) (str_find p (h @ b))"
  proof (cases "str_find p (h @ b)")
    case None
    then have "\<not> occurs_at p (text @ b) j" for j
      using late [of j] shift [of "j - k"] by (auto simp: str_find_None)
    then have "str_find p (text @ b) = None" by (simp add: str_find_None)
    with None show ?thesis by simp
  next
    case (Some i)
    from str_find_Some [OF Some] have "occurs_at p (text @ b) (k + i)"
      "\<And>j. j < k + i \<Longrightarrow> \<not> occurs_at p (text @ b) j"
      using late shift by (auto, metis le_Suc_ex nat_add_left_cancel_less)
    then have "str_find p (text @ b) = Some (k + i)" by (simp add: str_find_exact)
    with Some show ?thesis by simp
  qed
  with k h show thesis using that by blast
qed

definition waiting :: "string \<Rightarrow> string \<Rightarrow> bytes \<Rightarrow> bytes \<Rightarrow> shell_matcher \<Rightarrow> bool" where
  "waiting p c raw text m \<longleftrightarrow>
     matcher_ok m \<and> phase m = WaitingForPrefix \<and>
     r_prefix (config (steps m ! current_step m)) = Some p \<and>
     r_cmd (config (steps m ! current_step m)) = Some c \<and> length p < 2 ^ 63 \<and>
     utf8_normalize raw = (text, incomplete_utf8 m) \<and> keeps (str_bytes p) text (history m)"

lemma history_limit_bound:
  "r_prefix c = Some p \<Longrightarrow> length p < 2 ^ 63 \<Longrightarrow> length p + 3 \<le> history_limit c"
  by (simp add: history_limit_def saturating_mul_def usize_max_def)

lemma retain_keeps:
  assumes "matcher_ok m" "utf8_ok out" "r_prefix (config (steps m ! current_step m)) = Some p" "length p < 2 ^ 63"
  obtains s where "retain_boundary_history out m = Some (m\<lparr>history := drop s out\<rparr>)" "s \<le> length out"
    "s = 0 \<or> length p \<le> length out - s" "utf8_ok (drop s out)"
proof -
  let ?l = "history_limit (config (steps m ! current_step m))"
  let ?s = "next_boundary out (length out - ?l)"
  have b: "?s \<le> length out" "?s \<le> length out - ?l + 3"
    using next_boundary_bounds [of "length out - ?l" out] next_boundary_near [OF assms(2), of "length out - ?l"] by auto
  have "?s = 0" if "length out \<le> ?l"
    using that by (subst next_boundary.simps) (simp add: is_char_boundary_def)
  with b history_limit_bound [OF assms(3,4)] have "?s = 0 \<or> length p \<le> length out - ?s" by linarith
  moreover have "utf8_ok (drop ?s out)"
    by (rule utf8_ok_boundary(2) [OF assms(2)]) (simp add: next_boundary_stops)
  ultimately show thesis using b assms matcher_okD(1) [OF assms(1)]
    by (intro that [of ?s]) (simp_all add: retain_boundary_history_def Let_def)
qed

lemma waiting_chunk:
  assumes w: "waiting p c raw text m" and none: "str_find (str_bytes p) text = None"
    and n: "utf8_normalize (raw @ chunk) = (text', inc')"
  shows "case str_find (str_bytes p) text' of
      None \<Rightarrow> \<exists>m'. observe_chunk rx chunk m = Some (EvNone, m') \<and> waiting p c (raw @ chunk) text' m'
    | Some i \<Rightarrow> length text' - (i + length p) \<le> PENDING_OUTPUT_LIMIT \<longrightarrow>
        (\<exists>m'. observe_chunk rx chunk m = Some (Send (prepare_shell_cmd c), m') \<and> phase m' = Sending \<and>
           pending_output m' = drop (i + length p) text')"
proof -
  from w have m: "matcher_ok m" "phase m = WaitingForPrefix" "length p < 2 ^ 63"
      and pc: "r_prefix (config (steps m ! current_step m)) = Some p"
        "r_cmd (config (steps m ! current_step m)) = Some c"
      and raw: "utf8_normalize raw = (text, incomplete_utf8 m)"
      and keep: "keeps (str_bytes p) text (history m)" by (simp_all add: waiting_def)
  have p: "p \<noteq> []" "utf8_ok (str_bytes p)" using matcher_okD(2) [OF m(1)] pc by (auto simp: rstep_ok_def)
  obtain b where b: "utf8_normalize (incomplete_utf8 m @ chunk) = (b, inc')" "text' = text @ b"
    using utf8_normalize_append [of raw chunk] n raw
    by (cases "utf8_normalize (incomplete_utf8 m @ chunk)") auto
  have bok: "utf8_ok b" using utf8_normalize_result [OF b(1)] by blast
  let ?block = "history m @ b" and ?m = "m\<lparr>incomplete_utf8 := inc', history := []\<rparr>"
  have block: "utf8_ok ?block" using bok utf8_ok_append matcher_okD(3) [OF m(1)] by blast
  have len: "current_step m < length (steps m)" using matcher_okD(1) [OF m(1)] .
  have mok: "matcher_ok ?m" using m(1) by (simp add: matcher_ok_update)
  have same: "?m = m\<lparr>incomplete_utf8 := inc'\<rparr>" if "history m = []" using that by (cases m) simp
  have pb: "observe_chunk rx chunk m = block_loop rx ?block 0 EvNone ?m"
  proof (cases "history m = []")
    case True
    show ?thesis
      unfolding same [OF True] using m(2) True
      by (simp add: observe_chunk_def process_block_def normalize_utf8_block_def b)
  qed (use m(2) in \<open>simp add: observe_chunk_def process_block_def normalize_utf8_block_def b\<close>)
  from keep obtain k0 where hist: "history m = drop k0 text" "k0 \<le> length text"
    by (auto simp: keeps_def)
  obtain k where k: "k \<le> length text" "?block = drop k text'"
      "str_find (str_bytes p) text' = map_option ((+) k) (str_find (str_bytes p) ?block)"
      "k = 0 \<or> length p \<le> length text - k"
    using keeps_search [OF keep none, of b] p(1) b(2) by (auto simp: str_bytes_def)
  show ?thesis
  proof (cases "str_find (str_bytes p) ?block")
    case None
    have "\<exists>m'. observe_chunk rx chunk m = Some (EvNone, m') \<and> waiting p c (raw @ chunk) text' m'"
    proof (cases "?block = []")
      case True
      have "k = length text'" using k(1,2) b(2) True by (metis drop_eq_Nil le_antisym length_append le_add1 order_trans)
      then have "waiting p c (raw @ chunk) text' ?m"
        using w n k(1,4) b(2) True mok by (auto simp: waiting_def keeps_def intro!: exI [of _ "length text'"])
      with True show ?thesis
        by (intro exI [of _ ?m]) (simp add: pb block_loop.simps [of _ "[]"] block_round_def)
    next
      case False
      obtain s where s: "retain_boundary_history ?block ?m = Some (?m\<lparr>history := drop s ?block\<rparr>)"
          "s \<le> length ?block" "s = 0 \<or> length p \<le> length ?block - s"
          "utf8_ok (drop s ?block)"
        using retain_keeps [OF mok block] pc m(3) by auto
      have loop: "block_loop rx ?block 0 EvNone ?m = Some (EvNone, ?m\<lparr>history := drop s ?block\<rparr>)"
        using False None m(2) len pc s(1) block
        by (subst block_loop.simps) (simp add: block_round_def prefix_round_def)
      have "drop s ?block = drop (k + s) text'" by (simp only: k(2) drop_drop add.commute)
      moreover have "k + s \<le> length text'" using s(2) k(1,2) b(2) by (metis Nat.le_diff_conv2 add.commute le_add1 length_append length_drop order_trans)
      moreover have "k + s = 0 \<or> length (str_bytes p) \<le> length text' - (k + s)"
        using s(2,3) k b(2) by auto
      ultimately have "keeps (str_bytes p) text' (drop s ?block)" unfolding keeps_def by blast
      then have "waiting p c (raw @ chunk) text' (?m\<lparr>history := drop s ?block\<rparr>)"
        using w n mok s(4) by (simp add: waiting_def matcher_ok_update)
      with loop show ?thesis using pb by auto
    qed
    with None k(3) show ?thesis by simp
  next
    case (Some i)
    let ?m2 = "?m\<lparr>phase := Sending, pending_output := []\<rparr>"
    have occ: "i + length p \<le> length ?block"
      using str_find_Some [OF Some] by (simp add: occurs_at_def)
    have ne: "?block \<noteq> []" using occ p(1) by auto
    have rest: "drop (i + length p) ?block = drop (k + i + length p) text'"
      unfolding k(2) by (simp add: add.commute add.left_commute)
    have loop: "block_loop rx ?block 0 EvNone ?m =
        Some (Send (prepare_shell_cmd c), ?m2\<lparr>pending_output := drop (i + length p) ?block\<rparr>)"
      if "length text' - (k + i + length p) \<le> PENDING_OUTPUT_LIMIT"
    proof -
      have "length (drop (i + length p) ?block) \<le> PENDING_OUTPUT_LIMIT" using that rest by (metis length_drop)
      then have a: "append_pending_output (drop (i + length p) ?block) ?m2 =
          (EvNone, ?m2\<lparr>pending_output := drop (i + length p) ?block\<rparr>)"
        by (simp add: append_pending_output_def saturating_add_def Let_def PENDING_OUTPUT_LIMIT_def)
      show ?thesis
        using ne Some m(2) len pc block a occ
        by (subst block_loop.simps) (auto simp: block_round_def prefix_round_def Let_def)
    qed
    then show ?thesis using Some k(3) pb rest by (auto simp: add.assoc)
  qed
qed

end
