(* ===== verification/Shell_Theorems.thy ===== *)
theory Shell_Theorems
  imports Shell_Properties
begin

text \<open>
  The properties of the shell-check matcher and driver, stated from the configuration: the steps
  as the file gives them, the matcher built from their resolution, and any sequence of what the
  surroundings do.
\<close>

section \<open>A configuration for the witnesses\<close>

text \<open>The limits as binary integers, for evaluation.\<close>

lemma append_pending_output_eval [code]:
  "append_pending_output output m =
     (if 16777216 < int (length (pending_output m) + length output) then
        (PendingOutputLimitExceeded (current_step m)
           (saturating_add (length (pending_output m)) (length output)) PENDING_OUTPUT_LIMIT,
         m \<lparr>phase := Completed\<rparr>)
      else (EvNone, m \<lparr>pending_output := pending_output m @ output\<rparr>))"
  by (simp add: append_pending_output_def Let_def saturating_add_def PENDING_OUTPUT_LIMIT_def usize_max_def)

lemma retain_boundary_history_eval [code]:
  "retain_boundary_history output m =
     (if length (steps m) \<le> current_step m \<or> \<not> utf8_ok output then None
      else
        let start = next_boundary output
          (if int (length output) \<le> 2048 then 0
           else length output - history_limit (config (steps m ! current_step m)))
        in Some (m \<lparr>history := drop start output\<rparr>))"
proof -
  have "2048 \<le> history_limit c" for c
    by (simp add: history_limit_def saturating_mul_def usize_max_def)
  then have "length output - history_limit c = 0" if "length output \<le> 2048" for c
    using that by (meson diff_is_0_eq order_trans)
  then show ?thesis by (simp add: retain_boundary_history_def Let_def)
qed

definition demo_steps :: "shell_check_step list" where
  "demo_steps =
     [\<lparr>shell_prefix = Some ''$'', shell_cmd = Some ''ls'', success_regex = Some [''ok''],
       fail_regex = Some [''no''], step_timeout = Some 5\<rparr>,
      \<lparr>shell_prefix = None, shell_cmd = Some ''id'', success_regex = None, fail_regex = None,
       step_timeout = None\<rparr>]"

definition demo_resolved :: "resolved_step list" where
  "demo_resolved =
     [\<lparr>r_prefix = Some ''$'', r_cmd = Some ''ls'', r_success = Some [''ok''], r_fail = Some [''no''],
       r_timeout = Some 5\<rparr>,
      \<lparr>r_prefix = Some ''$'', r_cmd = Some ''id'', r_success = None, r_fail = None, r_timeout = None\<rparr>]"

definition demo_matcher :: shell_matcher where
  "demo_matcher =
     \<lparr>steps = map runtime_of demo_resolved, current_step = 0, phase = WaitingForPrefix, history = [],
      incomplete_utf8 = [], pending_output = [], completion_is_success = True\<rparr>"

lemmas demo_trims = trim_printable [of "''$''", simplified printable_def, simplified]
  trim_printable [of "''ls''", simplified printable_def, simplified]
  trim_printable [of "''id''", simplified printable_def, simplified]
  trim_printable [of "''ok''", simplified printable_def, simplified]
  trim_printable [of "''no''", simplified printable_def, simplified]

lemma demo_resolves: "resolve_shell_check_steps (\<lambda>_. True) demo_steps = Inr (demo_steps, demo_resolved)"
  by (simp add: resolve_shell_check_steps_def demo_steps_def demo_resolved_def resolve_step_def is_blank_def
      normalize_optional_field_def normalize_patterns_def compile_step_patterns_def demo_trims)

lemma demo_utf8: "utf8_steps demo_steps" "demo_steps \<noteq> []"
  by code_simp+

lemma demo_built: "from_steps (\<lambda>_. True) demo_resolved = Inr demo_matcher"
  by (simp add: from_steps_def demo_resolved_def demo_matcher_def compile_patterns_def runtime_of_def
      entry_phase_def)

section \<open>Runs\<close>

text \<open>
  C15: On steps the configuration check accepts, nothing the surroundings do makes the matcher
  panic: output in any chunks, valid UTF-8 or not, finished and failed writes, timers at any
  time. The run ends at most once, either completed or with a failure and never both, the
  terminal is asked to stop exactly when it has ended, and the matcher never goes quiet without
  an outcome.
\<close>

theorem shell_run_total:
  assumes "regex_api rx" "resolve_shell_check_steps compiles ss = Inr (ss', rs)" "utf8_steps ss" "ss \<noteq> []"
  shows "\<exists>m. from_steps compiles rs = Inr m \<and>
    (\<forall>es. \<exists>r. shell_env_run rx (start_run m) es = Some r \<and>
       \<not> (completed (run_outcome r) \<and> failure (run_outcome r) \<noteq> None) \<and>
       stops r = (if run_ended r then 1 else 0) \<and>
       (phase (run_matcher r) = Completed \<longrightarrow> run_ended r))"
proof -
  obtain m where m: "from_steps compiles rs = Inr m" "run_ok (steps m) (start_run m)"
    using resolved_matcher [OF assms(2-4)] by metis
  have "\<exists>r. shell_env_run rx (start_run m) es = Some r \<and>
       \<not> (completed (run_outcome r) \<and> failure (run_outcome r) \<noteq> None) \<and>
       stops r = (if run_ended r then 1 else 0) \<and>
       (phase (run_matcher r) = Completed \<longrightarrow> run_ended r)" for es
  proof -
    obtain r where r: "shell_env_run rx (start_run m) es = Some r" "run_ok (steps m) r"
      using run_ok_run [OF assms(1) m(2)] by blast
    from r(2) have "\<not> (completed (run_outcome r) \<and> failure (run_outcome r) \<noteq> None)"
      "stops r = (if run_ended r then 1 else 0)" "phase (run_matcher r) = Completed \<longrightarrow> run_ended r"
      by (simp_all add: run_ok_def)
    with r(1) show ?thesis by blast
  qed
  with m(1) show ?thesis by blast
qed

theorem shell_run_total_witness:
  "\<exists>m. from_steps (\<lambda>_. True) demo_resolved = Inr m \<and>
    (\<forall>es. \<exists>r. shell_env_run literal_find (start_run m) es = Some r \<and>
       \<not> (completed (run_outcome r) \<and> failure (run_outcome r) \<noteq> None) \<and>
       stops r = (if run_ended r then 1 else 0) \<and>
       (phase (run_matcher r) = Completed \<longrightarrow> run_ended r))"
proof -
  from shell_run_total [OF literal_find_api demo_resolves demo_utf8] show ?thesis .
qed

text \<open>
  C16: The commands handed to the terminal are those of the steps, in order, each followed by one
  newline: at any point of a run the ones sent so far are the first ones of the configuration,
  and the run completes only when every command has been sent.
\<close>

theorem shell_commands_in_order:
  assumes "regex_api rx" "resolve_shell_check_steps compiles ss = Inr (ss', rs)" "utf8_steps ss" "ss \<noteq> []"
    and "from_steps compiles rs = Inr m" "shell_env_run rx (start_run m) es = Some r"
  shows "(\<exists>rest. step_commands ss = sent_commands r @ rest) \<and>
    (completed (run_outcome r) \<longrightarrow> sent_commands r = step_commands ss)"
proof -
  have m: "run_ok (steps m) (start_run m)" "commands (steps m) = step_commands ss"
    using resolved_matcher [OF assms(2-4)] assms(5) by (metis sum.inject(2))+
  with run_ok_run [OF assms(1) m(1), of es] assms(6) have r: "run_ok (steps m) r" by auto
  have "\<exists>rest. commands (steps m) = sent_commands r @ rest"
    using sent_ok_completed [OF run_okD(3) [OF r]] run_okD(2) [OF r] by (simp add: sent_ok_def)
  with r m(2) show ?thesis by (auto simp: run_ok_def)
qed

definition demo_events :: "shell_env list" where
  "demo_events =
     [Output (str_bytes ''boot$''), Output (str_bytes '' ''), WriteDone, Output (str_bytes ''o''),
      TimerFires 0 9, Output (str_bytes ''k $ ''), WriteDone]"

theorem shell_commands_in_order_witness:
  "\<exists>r. shell_env_run literal_find (start_run demo_matcher) demo_events = Some r \<and>
    (\<exists>rest. step_commands demo_steps = sent_commands r @ rest) \<and>
    completed (run_outcome r) \<and> sent_commands r = [str_bytes ''ls'' @ [10], str_bytes ''id'' @ [10]]"
proof -
  obtain r where r: "shell_env_run literal_find (start_run demo_matcher) demo_events = Some r"
    using run_ok_run [OF literal_find_api, of _ "start_run demo_matcher"] resolved_matcher [OF demo_resolves demo_utf8] demo_built
    by (metis sum.inject(2))
  have "map_option (\<lambda>r. completed (run_outcome r))
      (shell_env_run literal_find (start_run demo_matcher) demo_events) = Some True"
    by code_simp
  with r have c: "completed (run_outcome r)" by simp
  have "step_commands demo_steps = [str_bytes ''ls'' @ [10], str_bytes ''id'' @ [10]]" by code_simp
  with shell_commands_in_order [OF literal_find_api demo_resolves demo_utf8 demo_built r] c r show ?thesis by metis
qed

section \<open>Prompts\<close>

lemma str_find_shorter: "str_find p (a @ b) = None \<Longrightarrow> str_find p a = None"
  using occurs_at_append [of p a _ b] by (auto simp: str_find_None)

lemma waiting_chunks:
  assumes "waiting p c raw before m" "utf8_normalize (raw @ concat cs) = (after, inc)"
    "str_find (str_bytes p) after = None"
  shows "\<exists>m'. observe_all rx m cs = Some (replicate (length cs) EvNone, m') \<and>
    waiting p c (raw @ concat cs) after m'"
  using assms
proof (induction cs arbitrary: raw before m)
  case Nil
  then show ?case by (auto simp: waiting_def)
next
  case (Cons d cs)
  obtain t i where t: "utf8_normalize (raw @ d) = (t, i)" by (cases "utf8_normalize (raw @ d)")
  obtain u where "after = t @ u"
    using Cons.prems(2) utf8_normalize_append [of "raw @ d" "concat cs"] t by (auto simp: case_prod_beta)
  then have tn: "str_find (str_bytes p) t = None" using Cons.prems(3) str_find_shorter by blast
  obtain u0 where "t = before @ u0"
    using Cons.prems(1) utf8_normalize_append [of raw d] t by (auto simp: waiting_def case_prod_beta)
  then have "str_find (str_bytes p) before = None" using tn str_find_shorter by blast
  from waiting_chunk [OF Cons.prems(1) this t, of rx] tn obtain m' where
    m': "observe_chunk rx d m = Some (EvNone, m')" "waiting p c (raw @ d) t m'" by auto
  from Cons.IH [OF m'(2) _ Cons.prems(3)] Cons.prems(2) m'(1) show ?case by auto
qed

lemma waiting_start:
  assumes "resolve_shell_check_steps compiles ss = Inr (ss', rs)" "utf8_steps ss" "ss = s # ts"
    "from_steps compiles rs = Inr m" "shell_prefix s = Some p" "shell_cmd s = Some c" "length (trim p) < 2 ^ 63"
  shows "waiting (trim p) c [] [] m"
proof -
  have m: "steps m = map runtime_of rs" "run_ok (steps m) (start_run m)"
    using resolved_matcher [OF assms(1,2)] assms(3,4) by (metis list.distinct(1) sum.inject(2))+
  have "rs = map (resolved_spec ss) [0..<length ss]"
    using assms(1) resolve_from_iff [of compiles 0 "[]" ss rs]
    by (auto simp: resolve_shell_check_steps_def)
  then obtain rest where rs: "rs = resolved_spec ss 0 # rest"
    using assms(3) by (auto simp: upt_conv_Cons simp del: upt_Suc)
  have r0: "r_prefix (resolved_spec ss 0) = Some (trim p)" "r_cmd (resolved_spec ss 0) = Some c"
    using assms(3,5,6) by (simp_all add: resolved_spec_def last_prefix_def)
  have "matcher_ok m" using m(2) by (simp add: run_ok_def start_run_def new_driver_def run_matcher_def)
  moreover have "current_step m = 0" "history m = []" "incomplete_utf8 m = []" "phase m = WaitingForPrefix"
    using assms(4) rs r0(2) m(1)
    by (auto simp: from_steps_def rbind_Inr_iff runtime_of_def entry_phase_def)
  ultimately show ?thesis
    using m(1) rs r0 assms(7) by (simp add: waiting_def runtime_of_def keeps_def)
qed

text \<open>
  C17: The prompt of the first step is found however the output is cut into chunks. While the text
  of the chunks so far does not contain it, every chunk is observed without an event; the first
  chunk after which the text contains it yields the step's command, and what the text has after
  the prompt is kept for the result patterns. The text is the output with malformed UTF-8
  replaced, and the bound is the matcher's own limit on buffered output. For the prompts of later
  steps this is not claimed: output that arrives while a command is written is buffered raw, and
  a character cut there is lost (\<open>shell_split_character\<close>).
\<close>

theorem shell_prompt_found:
  assumes "resolve_shell_check_steps compiles ss = Inr (ss', rs)" "utf8_steps ss" "ss = s # ts"
    and "from_steps compiles rs = Inr m"
    and "shell_prefix s = Some p" "shell_cmd s = Some c" "length (trim p) < 2 ^ 63"
    and "utf8_normalize (concat cs) = (before, i)" "utf8_normalize (concat cs @ chunk) = (text, j)"
    and "str_find (str_bytes (trim p)) before = None" "length text \<le> PENDING_OUTPUT_LIMIT"
  shows "\<exists>m1 ev m2. observe_all rx m cs = Some (replicate (length cs) EvNone, m1) \<and>
    observe_chunk rx chunk m1 = Some (ev, m2) \<and>
    (case str_find (str_bytes (trim p)) text of
       None \<Rightarrow> ev = EvNone
     | Some k \<Rightarrow> ev = Send (prepare_shell_cmd c) \<and> phase m2 = Sending \<and>
         pending_output m2 = drop (k + length (trim p)) text)"
proof -
  have n: "utf8_normalize ([] @ concat cs) = (before, i)" using assms(8) by simp
  obtain m1 where m1: "observe_all rx m cs = Some (replicate (length cs) EvNone, m1)"
      "waiting (trim p) c (concat cs) before m1"
    using waiting_chunks [OF waiting_start [OF assms(1-7)] n assms(10), of rx] by auto
  from waiting_chunk [OF m1(2) assms(10,9), of rx] m1(1) assms(11) show ?thesis
    by (cases "str_find (str_bytes (trim p)) text") auto
qed

theorem shell_prompt_found_witness:
  "\<exists>m1 ev m2. observe_all literal_find demo_matcher [str_bytes ''boot''] = Some ([EvNone], m1) \<and>
    observe_chunk literal_find (str_bytes ''$ x'') m1 = Some (ev, m2) \<and>
    ev = Send (str_bytes ''ls'' @ [10]) \<and> phase m2 = Sending \<and> pending_output m2 = str_bytes '' x''"
proof -
  have split: "demo_steps = hd demo_steps # tl demo_steps"
    and fields: "shell_prefix (hd demo_steps) = Some ''$''" "shell_cmd (hd demo_steps) = Some ''ls''"
    by (simp_all add: demo_steps_def)
  have cmd: "prepare_shell_cmd ''ls'' = str_bytes ''ls'' @ [10]" by code_simp
  have n: "utf8_normalize (concat [str_bytes ''boot'']) = (str_bytes ''boot'', [])"
      "utf8_normalize (concat [str_bytes ''boot''] @ str_bytes ''$ x'') = (str_bytes ''boot$ x'', [])"
      "str_find (str_bytes ''$'') (str_bytes ''boot'') = None"
      "str_find (str_bytes ''$'') (str_bytes ''boot$ x'') = Some 4"
      "drop 5 (str_bytes ''boot$ x'') = str_bytes '' x''"
    by code_simp+
  have lim: "length (str_bytes ''boot$ x'') \<le> PENDING_OUTPUT_LIMIT"
    by (simp add: PENDING_OUTPUT_LIMIT_def)
  show ?thesis
    using shell_prompt_found [OF demo_resolves demo_utf8(1) split demo_built fields, of "[str_bytes ''boot'']"
        "str_bytes ''boot''" "[]" "str_bytes ''$ x''" "str_bytes ''boot$ x''" "[]" literal_find]
      n lim cmd by (simp add: demo_trims)
qed

section \<open>A character cut while the command is sent\<close>

text \<open>
  The event and the next one, when the flush follows the given chunks: what the matcher says of a
  success pattern (here the Euro sign, three bytes) in the output that follows the prompt.
\<close>

definition euro :: string where
  "euro = map char_of [0xE2, 0x82, 0xAC :: nat]"

definition euro_matcher :: shell_matcher where
  "euro_matcher =
     \<lparr>steps = [\<lparr>config = \<lparr>r_prefix = Some ''$'', r_cmd = Some ''ls'', r_success = Some [euro],
        r_fail = None, r_timeout = None\<rparr>, success_rx = [euro], fail_rx = []\<rparr>],
      current_step = 0, phase = WaitingForPrefix, history = [], incomplete_utf8 = [],
      pending_output = [], completion_is_success = True\<rparr>"

definition flush_after :: "shell_matcher \<Rightarrow> bytes list \<Rightarrow> shell_check_event option" where
  "flush_after m cs =
     (case observe_all literal_find m cs of
        None \<Rightarrow> None
      | Some (_, m') \<Rightarrow> map_option fst (command_flushed literal_find m'))"

text \<open>
  The output that arrives while a command is written is not treated as one stream: when a
  chunk ends inside a character, the bytes kept back are put before all that was buffered since,
  not before the bytes that complete the character. The same output, a prompt followed by the
  text \<open>x\<close> and a Euro sign, completes the step when it arrives as one chunk and does not when the
  chunk is cut after the first byte of the sign.
\<close>

theorem shell_split_character:
  "flush_after euro_matcher [str_bytes ''$x'' @ [0xE2, 0x82, 0xAC]] = Some SequenceCompleted \<and>
   flush_after euro_matcher [str_bytes ''$x'' @ [0xE2], [0x82, 0xAC]] = Some EvNone"
  by (rule conjI; code_simp)

end
