(* ===== verification/Output_Matcher.thy ===== *)
theory Output_Matcher
  imports Text_Utf8
begin

text \<open>
  The failure matcher of a run (\<open>ostool/src/run/output_matcher.rs\<close>): a window of the last 2048
  bytes of the output, in which the failure patterns are searched after terminal colours are
  stripped, and the excerpt of the text that is printed for a match.

  The regex crate and the clock are parameters: \<open>rx\<close> is \<open>Regex::find\<close> (the start and the end of
  the leftmost match), \<open>compiles\<close> is whether \<open>Regex::new\<close> accepts a pattern, and the time of a
  call is an argument in milliseconds.
\<close>

section \<open>Escape sequences\<close>

definition ESC :: u8 where
  "ESC = 0x1b"

definition LBRACKET :: u8 where
  "LBRACKET = 0x5b"

text \<open>The inner loop: everything up to and including the final byte of the sequence.\<close>

fun skip_csi :: "bytes \<Rightarrow> bytes" where
  "skip_csi [] = []"
| "skip_csi (b # bs) = (if 0x40 \<le> b \<and> b \<le> 0x7e then bs else skip_csi bs)"

lemma skip_csi_length [simp]: "length (skip_csi bs) \<le> length bs"
  by (induction bs) auto

function strip_csi :: "bytes \<Rightarrow> bytes" where
  "strip_csi bs =
     (case bs of
        [] \<Rightarrow> []
      | b # rest \<Rightarrow>
          (case rest of
             c # tail \<Rightarrow> if b = ESC \<and> c = LBRACKET then strip_csi (skip_csi tail) else b # strip_csi rest
           | [] \<Rightarrow> b # strip_csi rest))"
  by pat_completeness auto
termination
  by (relation "measure length") (auto simp: less_Suc_eq_le intro: le_trans [OF skip_csi_length])

declare strip_csi.simps [simp del]

definition strip_ansi_escape_sequences :: "bytes \<Rightarrow> bytes" where
  "strip_ansi_escape_sequences input = from_utf8_lossy (strip_csi input)"

section \<open>The matcher\<close>

record fail_match =
  matched_regex :: string
  matched_text :: bytes
  deadline :: nat

datatype stream_match_state = Pending | Matched fail_match

record fail_stream_matcher =
  fail_regex :: "string list"
  match_buf :: bytes
  match_state :: stream_match_state

definition MATCH_DRAIN_MS :: nat where
  "MATCH_DRAIN_MS = 500"

definition MAX_MATCH_WINDOW_BYTES :: nat where
  "MAX_MATCH_WINDOW_BYTES = 2048"

fun compile_fail_regexes :: "(string \<Rightarrow> bool) \<Rightarrow> string list \<Rightarrow> string + string list" where
  "compile_fail_regexes compiles [] = Inr []"
| "compile_fail_regexes compiles (p # ps) =
     (if compiles p then rbind (compile_fail_regexes compiles ps) (\<lambda>qs. Inr (p # qs)) else Inl p)"

definition matcher_new :: "string list \<Rightarrow> fail_stream_matcher" where
  "matcher_new patterns = \<lparr>fail_regex = patterns, match_buf = [], match_state = Pending\<rparr>"

definition push_window :: "u8 \<Rightarrow> bytes \<Rightarrow> bytes" where
  "push_window byte buf =
     (let buf = buf @ [byte] in
      if MAX_MATCH_WINDOW_BYTES < length buf
      then drop (length buf - MAX_MATCH_WINDOW_BYTES) buf else buf)"

definition observe_byte ::
  "regex_find \<Rightarrow> nat \<Rightarrow> u8 \<Rightarrow> fail_stream_matcher \<Rightarrow> fail_match option \<times> fail_stream_matcher" where
  "observe_byte rx now byte m =
     (let m = m\<lparr>match_buf := push_window byte (match_buf m)\<rparr> in
      case match_state m of
        Pending \<Rightarrow>
          let text = strip_ansi_escape_sequences (from_utf8_lossy (match_buf m)) in
          (case find (\<lambda>p. rx p text \<noteq> None) (fail_regex m) of
             Some p \<Rightarrow>
               let f = \<lparr>matched_regex = p, matched_text = text, deadline = now + MATCH_DRAIN_MS\<rparr> in
               (Some f, m\<lparr>match_state := Matched f\<rparr>)
           | None \<Rightarrow> (None, m))
      | Matched _ \<Rightarrow> (None, m))"

definition matched :: "fail_stream_matcher \<Rightarrow> fail_match option" where
  "matched m = (case match_state m of Pending \<Rightarrow> None | Matched f \<Rightarrow> Some f)"

definition should_stop :: "nat \<Rightarrow> fail_stream_matcher \<Rightarrow> bool" where
  "should_stop now m = is_some_and (matched m) (\<lambda>f. deadline f \<le> now)"

section \<open>Excerpts\<close>

text \<open>
  The offsets of \<open>char_indices\<close> in a valid text: the positions of the bytes that do not continue a
  character. A slice off a character boundary panics: \<open>None\<close>.
\<close>

definition char_indices :: "bytes \<Rightarrow> nat list" where
  "char_indices text = filter (\<lambda>i. \<not> utf8_cont (text ! i)) [0..<length text]"

definition char_boundary_before :: "bytes \<Rightarrow> nat \<Rightarrow> nat \<Rightarrow> nat option" where
  "char_boundary_before text byte_index chars =
     (if is_char_boundary text byte_index then
        let indices = rev (char_indices (take byte_index text)) in
        Some (if chars < length indices then indices ! chars else 0)
      else None)"

definition char_boundary_after :: "bytes \<Rightarrow> nat \<Rightarrow> nat \<Rightarrow> nat option" where
  "char_boundary_after text byte_index chars =
     (if is_char_boundary text byte_index then
        let indices = char_indices (drop byte_index text) in
        Some (if chars < length indices then byte_index + indices ! chars else length text)
      else None)"

definition str_slice :: "bytes \<Rightarrow> nat \<Rightarrow> nat \<Rightarrow> bytes option" where
  "str_slice text i j =
     (if i \<le> j \<and> is_char_boundary text i \<and> is_char_boundary text j
      then Some (drop i (take j text)) else None)"

definition dots :: bytes where
  "dots = [0x2e, 0x2e, 0x2e]"

definition truncate_chars :: "bytes \<Rightarrow> nat \<Rightarrow> bytes" where
  "truncate_chars text max_chars =
     (let indices = char_indices text in
      if max_chars < length indices then take (indices ! max_chars) text @ dots else text)"

definition MATCH_EXCERPT_CONTEXT_CHARS :: nat where
  "MATCH_EXCERPT_CONTEXT_CHARS = 120"

definition MATCH_EXCERPT_MAX_CHARS :: nat where
  "MATCH_EXCERPT_MAX_CHARS = 240"

text \<open>
  \<open>split_whitespace\<close> and \<open>join\<close>: maximal runs of white space become one space, none is left at the
  ends. Line breaks have become spaces before.
\<close>

function split_whitespace :: "string \<Rightarrow> string \<Rightarrow> string list" where
  "split_whitespace word s =
     (case s of
        [] \<Rightarrow> (if word = [] then [] else [word])
      | c # cs \<Rightarrow>
          (case leading white_space s of
             Some n \<Rightarrow>
               (if word = [] then [] else [word]) @ split_whitespace [] (drop (max 1 n) s)
           | None \<Rightarrow> split_whitespace (word @ [c]) cs))"
  by pat_completeness auto
termination by (relation "measure (length \<circ> snd)") auto

declare split_whitespace.simps [simp del]

fun join_spaces :: "string list \<Rightarrow> string" where
  "join_spaces [] = []"
| "join_spaces [w] = w"
| "join_spaces (w # ws) = w @ '' '' @ join_spaces ws"

definition compact_text :: "bytes \<Rightarrow> bytes" where
  "compact_text text =
     str_bytes (join_spaces (split_whitespace []
       (map (\<lambda>c. if of_char c \<in> {13, 10 :: nat} then CHR '' '' else c) (to_text text))))"

definition match_excerpt :: "(string \<Rightarrow> bool) \<Rightarrow> regex_find \<Rightarrow> bytes \<Rightarrow> string \<Rightarrow> bytes option" where
  "match_excerpt compiles rx text pattern =
     (let compact = compact_text text in
      if \<not> compiles pattern then Some (truncate_chars compact MATCH_EXCERPT_MAX_CHARS)
      else case rx pattern compact of
        None \<Rightarrow> Some (truncate_chars compact MATCH_EXCERPT_MAX_CHARS)
      | Some (s, e) \<Rightarrow>
          (case char_boundary_before compact s MATCH_EXCERPT_CONTEXT_CHARS of
             None \<Rightarrow> None
           | Some i \<Rightarrow>
          (case char_boundary_after compact e MATCH_EXCERPT_CONTEXT_CHARS of
             None \<Rightarrow> None
           | Some j \<Rightarrow>
          (case str_slice compact i j of
             None \<Rightarrow> None
           | Some part \<Rightarrow>
               let excerpt = str_bytes (trim (to_text part));
                   rendered = (if 0 < i then dots else []) @ excerpt;
                   rendered = rendered @ (if j < length compact then dots else [])
               in Some (truncate_chars rendered MATCH_EXCERPT_MAX_CHARS)))))"

section \<open>The matcher against its specification\<close>

text \<open>
  What the matcher should do with a sequence of bytes: search the visible text of the last 2048
  of them after each byte, and report the first match there is, once.
\<close>

definition window :: "bytes \<Rightarrow> bytes" where
  "window bs = drop (length bs - MAX_MATCH_WINDOW_BYTES) bs"

definition visible :: "bytes \<Rightarrow> bytes" where
  "visible bs = strip_ansi_escape_sequences (from_utf8_lossy (window bs))"

definition hit :: "regex_find \<Rightarrow> string list \<Rightarrow> bytes \<Rightarrow> string option" where
  "hit rx ps bs = find (\<lambda>p. rx p (visible bs) \<noteq> None) ps"

definition first_hit :: "regex_find \<Rightarrow> string list \<Rightarrow> bytes \<Rightarrow> nat option" where
  "first_hit rx ps bs = find (\<lambda>k. hit rx ps (take (Suc k) bs) \<noteq> None) [0..<length bs]"

definition match_at :: "regex_find \<Rightarrow> string list \<Rightarrow> (nat \<times> u8) list \<Rightarrow> nat \<Rightarrow> fail_match" where
  "match_at rx ps es k =
     (let seen = take (Suc k) (map snd es) in
      \<lparr>matched_regex = the (hit rx ps seen), matched_text = visible seen,
       deadline = fst (es ! k) + MATCH_DRAIN_MS\<rparr>)"

fun observe_bytes ::
  "regex_find \<Rightarrow> fail_stream_matcher \<Rightarrow> (nat \<times> u8) list \<Rightarrow> fail_match option list \<times> fail_stream_matcher"
  where
  "observe_bytes rx m [] = ([], m)"
| "observe_bytes rx m ((now, b) # es) =
     (let (r, m) = observe_byte rx now b m; (rs, m) = observe_bytes rx m es in (r # rs, m))"

lemma observe_bytes_snoc:
  "observe_bytes rx m (es @ [(now, b)]) =
     (let (rs, m') = observe_bytes rx m es; (r, m'') = observe_byte rx now b m' in (rs @ [r], m''))"
proof (induction es arbitrary: m)
  case (Cons e es)
  then show ?case by (cases e) (simp add: case_prod_beta Let_def)
qed (simp add: case_prod_beta Let_def)

lemma push_window_window: "push_window b (window bs) = window (bs @ [b])"
proof (cases "length bs < 2048")
  case False
  then have "Suc (length bs - 2048) = length bs - 2047" by arith
  then show ?thesis by (simp add: push_window_def window_def MAX_MATCH_WINDOW_BYTES_def Let_def)
qed (simp add: push_window_def window_def MAX_MATCH_WINDOW_BYTES_def Let_def)

lemma observe_pending:
  "observe_byte rx now b \<lparr>fail_regex = ps, match_buf = window bs, match_state = Pending\<rparr> =
     (case hit rx ps (bs @ [b]) of
        None \<Rightarrow> (None, \<lparr>fail_regex = ps, match_buf = window (bs @ [b]), match_state = Pending\<rparr>)
      | Some p \<Rightarrow>
          let f = \<lparr>matched_regex = p, matched_text = visible (bs @ [b]), deadline = now + MATCH_DRAIN_MS\<rparr> in
          (Some f, \<lparr>fail_regex = ps, match_buf = window (bs @ [b]), match_state = Matched f\<rparr>))"
  by (simp add: observe_byte_def push_window_window hit_def visible_def Let_def cong: option.case_cong)

lemma find_append: "find P (xs @ ys) = (case find P xs of None \<Rightarrow> find P ys | Some x \<Rightarrow> Some x)"
  by (induction xs) simp_all

lemma find_cong_all: "(\<And>x. x \<in> set xs \<Longrightarrow> P x = Q x) \<Longrightarrow> find P xs = find Q xs"
  by (induction xs) auto

lemma first_hit_snoc:
  "first_hit rx ps (bs @ [b]) =
     (case first_hit rx ps bs of
        Some k \<Rightarrow> Some k
      | None \<Rightarrow> if hit rx ps (bs @ [b]) \<noteq> None then Some (length bs) else None)"
proof -
  let ?P = "\<lambda>k. hit rx ps (take (Suc k) (bs @ [b])) \<noteq> None"
  have "first_hit rx ps (bs @ [b]) =
      (case find ?P [0..<length bs] of None \<Rightarrow> find ?P [length bs] | Some x \<Rightarrow> Some x)"
    unfolding first_hit_def by (subst find_append [symmetric]) simp
  moreover have "find ?P [0..<length bs] = first_hit rx ps bs"
    unfolding first_hit_def by (intro find_cong_all) simp
  ultimately show ?thesis
    by (cases "first_hit rx ps bs"; cases "hit rx ps (bs @ [b])") simp_all
qed

lemma first_hit_bound: "first_hit rx ps bs = Some k \<Longrightarrow> k < length bs"
  by (auto simp: first_hit_def find_Some_iff)

lemma match_at_snoc: "k < length es \<Longrightarrow> match_at rx ps (es @ [e]) k = match_at rx ps es k"
  by (simp add: match_at_def nth_append)

text \<open>
  C32: The failure matcher reports the first failure of the output and only that one. After any
  bytes its window holds the last 2048 of them; the call for byte \<open>k\<close> returns a match exactly when
  \<open>k\<close> is the first byte after which one of the patterns matches the visible text of the window,
  namely the first such pattern of the list with that text and a deadline half a second later; it
  keeps that match, and every other call returns nothing.
\<close>

theorem fail_matcher_first:
  "observe_bytes rx (matcher_new ps) es =
     (let hit_at = first_hit rx ps (map snd es) in
      (map (\<lambda>k. if hit_at = Some k then Some (match_at rx ps es k) else None) [0..<length es],
       \<lparr>fail_regex = ps, match_buf = window (map snd es),
        match_state = (case hit_at of None \<Rightarrow> Pending | Some k \<Rightarrow> Matched (match_at rx ps es k))\<rparr>))"
proof (induction es rule: rev_induct)
  case Nil
  show ?case by (simp add: matcher_new_def first_hit_def window_def)
next
  case (snoc e es)
  obtain now b where e: "e = (now, b)" by (cases e)
  let ?bs = "map snd es" and ?h = "first_hit rx ps (map snd es)"
  have rest: "map (\<lambda>k. if ?h = Some k then Some (match_at rx ps (es @ [e]) k) else None) [0..<length es] =
      map (\<lambda>k. if ?h = Some k then Some (match_at rx ps es k) else None) [0..<length es]"
    by (simp add: match_at_snoc)
  show ?case
  proof (cases ?h)
    case (Some k)
    have k: "k < length es" using first_hit_bound [OF Some] by simp
    with Some rest show ?thesis
      by (simp add: e observe_bytes_snoc snoc.IH observe_byte_def push_window_window first_hit_snoc
          match_at_snoc Let_def)
  next
    case None
    have at: "match_at rx ps (es @ [e]) (length es) =
        \<lparr>matched_regex = the (hit rx ps (?bs @ [b])), matched_text = visible (?bs @ [b]),
         deadline = now + MATCH_DRAIN_MS\<rparr>"
      by (simp add: match_at_def e Let_def)
    show ?thesis
    proof (cases "hit rx ps (?bs @ [b])")
      case none: None
      with None show ?thesis
        by (simp add: e observe_bytes_snoc snoc.IH first_hit_snoc observe_pending)
    next
      case (Some p)
      with None at show ?thesis
        by (simp add: e observe_bytes_snoc snoc.IH first_hit_snoc observe_pending Let_def cong: map_cong)
    qed
  qed
qed

section \<open>Stripping keeps a text valid\<close>

lemma skip_csi_split:
  "skip_csi bs = [] \<or> (\<exists>a b. bs = a @ b # skip_csi bs \<and> 0x40 \<le> b \<and> b \<le> 0x7e)"
  by (induction bs) (auto, (metis append_Cons)+)

lemma ascii_not_cont: "b < 0x80 \<Longrightarrow> \<not> utf8_cont b"
  by (simp add: utf8_cont_def word_le_nat_alt word_less_nat_alt)

lemma utf8_ok_ascii_Cons: "b < 0x80 \<Longrightarrow> utf8_ok (b # bs) \<longleftrightarrow> utf8_ok bs"
  by (subst utf8_ok_scan) (auto simp: utf8_scan.simps(2))

lemma skip_csi_ok: "utf8_ok bs \<Longrightarrow> utf8_ok (skip_csi bs)"
proof -
  assume ok: "utf8_ok bs"
  consider "skip_csi bs = []" | a b where "bs = a @ b # skip_csi bs" "0x40 \<le> b" "b \<le> 0x7e"
    using skip_csi_split by blast
  then show ?thesis
  proof cases
    case 2
    then have "b < 0x80" by (simp add: word_le_nat_alt word_less_nat_alt)
    moreover have "utf8_ok a" using ok 2(1) ascii_not_cont [OF \<open>b < 0x80\<close>] utf8_ok_cut by metis
    ultimately show ?thesis
      using ok 2(1) utf8_ok_append utf8_ok_ascii_Cons by metis
  qed simp
qed

lemma strip_csi_Cons: "b \<noteq> ESC \<Longrightarrow> strip_csi (b # bs) = b # strip_csi bs"
  by (subst strip_csi.simps) (simp split: list.split)

lemma strip_csi_plain: "ESC \<notin> set a \<Longrightarrow> strip_csi (a @ bs) = a @ strip_csi bs"
  by (induction a) (auto simp: strip_csi_Cons)

lemma utf8_char_no_esc:
  assumes "utf8_scan (b # bs) = ValidChar n" "b \<noteq> ESC"
  shows "ESC \<notin> set (take n (b # bs))"
proof -
  have "list_all utf8_cont (take (n - 1) bs)" "0 < n" using utf8_scan_char [OF assms(1)] by auto
  moreover have "\<not> utf8_cont ESC" by (simp add: ESC_def utf8_cont_def)
  ultimately have "ESC \<notin> set (take (n - 1) bs)" by (auto simp: list_all_iff)
  with assms(2) \<open>0 < n\<close> show ?thesis by (cases n) auto
qed

lemma strip_csi_ok: "utf8_ok bs \<Longrightarrow> utf8_ok (strip_csi bs)"
proof (induction bs rule: length_induct)
  case (1 bs)
  show ?case
  proof (cases bs)
    case Nil
    then show ?thesis by (simp add: strip_csi.simps)
  next
    case (Cons b rest)
    show ?thesis
    proof (cases "b = ESC")
      case False
      obtain n where n: "utf8_scan bs = ValidChar n" "utf8_ok (drop n bs)"
        using "1.prems" Cons by (auto simp: utf8_ok_scan)
      have "strip_csi bs = take n bs @ strip_csi (drop n bs)"
        using strip_csi_plain [of "take n bs" "drop n bs"] utf8_char_no_esc [of b rest n] n(1) Cons False by simp
      moreover have "length (drop n bs) < length bs" using utf8_scan_char [OF n(1)] Cons by auto
      then have "utf8_ok (strip_csi (drop n bs))" using "1.IH" n(2) by blast
      ultimately show ?thesis using utf8_ok_append [OF utf8_ok_drop_char [OF n(1)]] by simp
    next
      case True
      then have rest: "utf8_ok rest"
        using "1.prems" Cons utf8_ok_ascii_Cons [of b rest] by (simp add: ESC_def)
      show ?thesis
      proof (cases "\<exists>tail. rest = LBRACKET # tail")
        case True
        then obtain tail where t: "rest = LBRACKET # tail" by blast
        with rest have "utf8_ok (skip_csi tail)"
          using utf8_ok_ascii_Cons [of LBRACKET tail] by (simp add: LBRACKET_def skip_csi_ok)
        moreover have "length (skip_csi tail) < length bs"
          using skip_csi_length [of tail] Cons t by (simp del: skip_csi_length)
        ultimately have "utf8_ok (strip_csi (skip_csi tail))" using "1.IH" by blast
        with Cons t \<open>b = ESC\<close> show ?thesis
          by (simp add: strip_csi.simps [of "ESC # LBRACKET # tail"])
      next
        case False
        then have "strip_csi bs = b # strip_csi rest"
          using Cons by (subst strip_csi.simps) (auto split: list.split)
        moreover have "utf8_ok (strip_csi rest)" using "1.IH" rest Cons by simp
        ultimately show ?thesis using utf8_ok_ascii_Cons [of b] \<open>b = ESC\<close> by (simp add: ESC_def)
      qed
    qed
  qed
qed

lemma strip_ansi_exact: "utf8_ok t \<Longrightarrow> strip_ansi_escape_sequences t = strip_csi t"
  by (simp add: strip_ansi_escape_sequences_def from_utf8_lossy_def utf8_normalize_ok strip_csi_ok)

section \<open>Excerpts\<close>

lemma char_indices_append:
  "char_indices (a @ b) = char_indices a @ map ((+) (length a)) (char_indices b)"
proof -
  have c: "(+) (length a) = (\<lambda>i. i + length a)" by (simp add: fun_eq_iff)
  have "[0..<length a + length b] = [0..<length a] @ map ((+) (length a)) [0..<length b]"
    using map_add_upt [of "length a" "length b"] upt_add_eq_append [of 0 "length a" "length b"]
    by (simp add: c)
  moreover have "filter (\<lambda>i. \<not> utf8_cont ((a @ b) ! i)) [0..<length a] = char_indices a"
    unfolding char_indices_def by (intro filter_cong) (auto simp: nth_append)
  ultimately show ?thesis by (simp add: char_indices_def filter_map comp_def)
qed

lemma char_indices_cut:
  assumes "k < length (char_indices t)"
  shows "char_indices t ! k < length t" "\<not> utf8_cont (t ! (char_indices t ! k))"
    "length (char_indices (take (char_indices t ! k) t)) = k"
proof -
  have m: "char_indices t ! k \<in> set (char_indices t)" using assms by simp
  then show "char_indices t ! k < length t" "\<not> utf8_cont (t ! (char_indices t ! k))"
    by (auto simp: char_indices_def)
  let ?i = "char_indices t ! k"
  have i: "?i < length t" using m by (auto simp: char_indices_def)
  have sorted: "sorted_wrt (<) (char_indices t)"
    by (simp add: char_indices_def sorted_wrt_filter)
  have "char_indices (take ?i t) = filter (\<lambda>j. j < ?i) (char_indices t)"
  proof -
    have "filter (\<lambda>j. j < ?i) (char_indices t) = filter (\<lambda>j. j < ?i \<and> \<not> utf8_cont (t ! j)) [0..<length t]"
      by (simp add: char_indices_def conj_commute)
    also have "[0..<length t] = [0..<?i] @ [?i..<length t]" using i by (metis le0 less_imp_le upt_add_eq_append le_add_diff_inverse)
    finally show ?thesis using i by (auto simp: char_indices_def intro!: filter_cong)
  qed
  also have "\<dots> = take k (char_indices t)"
  proof -
    have "char_indices t = take k (char_indices t) @ drop k (char_indices t)" by simp
    moreover have "filter (\<lambda>j. j < ?i) (take k (char_indices t)) = take k (char_indices t)"
      using sorted assms by (auto simp: filter_id_conv in_set_conv_nth sorted_wrt_iff_nth_less)
    moreover have "filter (\<lambda>j. j < ?i) (drop k (char_indices t)) = []"
      using sorted assms
      by (auto simp: filter_empty_conv in_set_conv_nth sorted_wrt_iff_nth_less)
        (metis add.commute le_add1 le_neq_implies_less less_diff_conv less_imp_not_less nat_neq_iff)
    ultimately show ?thesis by (metis append_Nil2 filter_append)
  qed
  finally show "length (char_indices (take ?i t)) = k" using assms by simp
qed

lemma truncate_chars_ok:
  assumes "utf8_ok t"
  shows "utf8_ok (truncate_chars t n)" "length (char_indices (truncate_chars t n)) \<le> n + 3"
proof -
  have d: "utf8_ok dots" "char_indices dots = [0, 1, 2]" by code_simp+
  show "utf8_ok (truncate_chars t n)" "length (char_indices (truncate_chars t n)) \<le> n + 3"
  proof (atomize (full), cases "n < length (char_indices t)")
    case True
    note cut = char_indices_cut [OF True]
    have "is_char_boundary t (char_indices t ! n)" using cut by (simp add: is_char_boundary_def)
    then have "utf8_ok (take (char_indices t ! n) t)" using assms by (rule utf8_ok_boundary(1) [rotated])
    with d True cut(3) show "utf8_ok (truncate_chars t n) \<and> length (char_indices (truncate_chars t n)) \<le> n + 3"
      by (simp add: truncate_chars_def utf8_ok_append char_indices_append)
  qed (use assms in \<open>simp add: truncate_chars_def\<close>)
qed

lemma char_boundary_before_ok:
  assumes "is_char_boundary t s" "s \<le> length t"
  obtains i where "char_boundary_before t s n = Some i" "i \<le> s" "is_char_boundary t i"
proof -
  let ?ix = "rev (char_indices (take s t))"
  have "?ix ! n \<le> s \<and> is_char_boundary t (?ix ! n)" if "n < length ?ix"
  proof -
    have "?ix ! n \<in> set (char_indices (take s t))" using that by (metis nth_mem set_rev)
    then show ?thesis using assms(2) by (auto simp: char_indices_def is_char_boundary_def)
  qed
  with assms(1) show thesis
    by (intro that [of "if n < length ?ix then ?ix ! n else 0"])
      (simp_all add: char_boundary_before_def Let_def is_char_boundary_def)
qed

lemma char_boundary_after_ok:
  assumes "is_char_boundary t e" "e \<le> length t"
  obtains j where "char_boundary_after t e n = Some j" "e \<le> j" "j \<le> length t" "is_char_boundary t j"
proof -
  let ?ix = "char_indices (drop e t)"
  have "e + ?ix ! n \<le> length t \<and> is_char_boundary t (e + ?ix ! n)" if "n < length ?ix"
  proof -
    have "?ix ! n \<in> set ?ix" using that by simp
    then show ?thesis using assms(2) by (auto simp: char_indices_def is_char_boundary_def)
  qed
  with assms show thesis
    by (intro that [of "if n < length ?ix then e + ?ix ! n else length t"])
      (simp_all add: char_boundary_after_def Let_def is_char_boundary_def)
qed

lemma str_slice_ok:
  assumes "utf8_ok t" "i \<le> j" "j \<le> length t" "is_char_boundary t i" "is_char_boundary t j"
  shows "str_slice t i j = Some (drop i (take j t))" "utf8_ok (drop i (take j t))"
proof -
  show "str_slice t i j = Some (drop i (take j t))" using assms by (simp add: str_slice_def)
  have "utf8_ok (take j t)" using assms by (simp add: utf8_ok_boundary(1))
  moreover have "is_char_boundary (take j t) i" using assms by (auto simp: is_char_boundary_def)
  ultimately show "utf8_ok (drop i (take j t))" by (rule utf8_ok_boundary(2))
qed

lemma join_spaces_ok:
  "list_all (\<lambda>w. utf8_ok (str_bytes w)) ws \<Longrightarrow> utf8_ok (str_bytes (join_spaces ws))"
proof (induction ws rule: join_spaces.induct)
  case (3 w v ws)
  then show ?case by (simp add: utf8_ok_append utf8_ok_ascii_Cons)
qed auto

lemma split_whitespace_ok:
  "utf8_ok (str_bytes (word @ s)) \<Longrightarrow> list_all (\<lambda>w. utf8_ok (str_bytes w)) (split_whitespace word s)"
proof (induction word s rule: split_whitespace.induct)
  case (1 word s)
  show ?case
  proof (cases s)
    case Nil
    with "1.prems" show ?thesis by (simp add: split_whitespace.simps)
  next
    case (Cons c cs)
    show ?thesis
    proof (cases "leading white_space s")
      case None
      with "1.IH"(1) [OF Cons None] "1.prems" Cons show ?thesis
        by (simp add: split_whitespace.simps [of word "c # cs"])
    next
      case (Some n)
      from leading_Some [OF Some] obtain w where w: "w \<in> set white_space" "s = w @ drop n s" "n = length w"
        by blast
      have ws: "w \<noteq> []" "utf8_ok (str_bytes w)" using w(1) white_space_utf8 by (auto simp: list_all_iff)
      then obtain d r where d: "w = d # r" "\<not> utf8_cont (of_char d)"
        using utf8_ok_first by (metis neq_Nil_conv str_bytes_simps(2))
      have "str_bytes (word @ s) = str_bytes word @ of_char d # str_bytes (r @ drop n s)"
        using w(2) d(1) by (metis append_Cons str_bytes_simps(2,3))
      then have word: "utf8_ok (str_bytes word)" using "1.prems" d(2) utf8_ok_cut by metis
      have "str_bytes (word @ s) = str_bytes word @ str_bytes w @ str_bytes (drop n s)"
        using w(2) by (metis str_bytes_simps(3))
      then have rest: "utf8_ok (str_bytes (drop n s))"
        using "1.prems" utf8_ok_append word ws(2) by metis
      have "max 1 n = n" using ws(1) w(3) by (cases w) simp_all
      with "1.IH"(2) [OF Cons Some] rest word Some Cons show ?thesis
        by (simp add: split_whitespace.simps [of word "c # cs"])
    qed
  qed
qed

lemma line_breaks_bytes: "utf8_ok bs \<Longrightarrow> utf8_ok (map (\<lambda>b. if b \<in> {13, 10} then 32 else b) bs)"
proof (induction bs rule: length_induct)
  case (1 bs)
  let ?f = "\<lambda>b::u8. if b \<in> {13, 10} then 32 else b"
  show ?case
  proof (cases bs)
    case (Cons b rest)
    show ?thesis
    proof (cases "b < 0x80")
      case True
      with Cons "1.prems" have "utf8_ok rest" by (simp add: utf8_ok_ascii_Cons)
      with "1.IH" Cons have "utf8_ok (map ?f rest)" by simp
      moreover have "?f b < 0x80" using True by simp
      ultimately have "utf8_ok (?f b # map ?f rest)" by (simp only: utf8_ok_ascii_Cons)
      with Cons show ?thesis by simp
    next
      case False
      obtain n where n: "utf8_scan bs = ValidChar n" "utf8_ok (drop n bs)"
        using "1.prems" Cons by (auto simp: utf8_ok_scan)
      note ch = utf8_scan_char [OF n(1)]
      have "length (drop n bs) < length bs" using ch Cons by auto
      then have rest: "utf8_ok (map ?f (drop n bs))" using "1.IH" n(2) by blast
      have "\<not> utf8_cont 13" "\<not> utf8_cont 10" by (simp_all add: utf8_cont_def)
      then have "13 \<notin> set (take (n - 1) rest)" "10 \<notin> set (take (n - 1) rest)"
        using ch Cons by (auto simp: list_all_iff)
      moreover have "take n bs = b # take (n - 1) rest" using ch Cons by (cases n) auto
      ultimately have same: "map ?f (take n bs) = take n bs"
        using False by (auto intro!: map_idI)
      have "map ?f bs = map ?f (take n bs) @ map ?f (drop n bs)"
        by (simp only: map_append [symmetric] append_take_drop_id)
      then have "map ?f bs = take n bs @ map ?f (drop n bs)" by (simp only: same)
      with rest show ?thesis using utf8_ok_append [OF utf8_ok_drop_char [OF n(1)]] by simp
    qed
  qed simp
qed

lemma line_breaks_ok:
  "utf8_ok bs \<Longrightarrow>
     utf8_ok (str_bytes (map (\<lambda>c. if of_char c \<in> {13, 10 :: nat} then CHR '' '' else c) (to_text bs)))"
proof -
  assume "utf8_ok bs"
  have byte: "(if of_char (char_of (unat b)) \<in> {13, 10 :: nat} then of_char CHR '' '' else b) =
      (if b \<in> {13, 10} then 32 else b)" for b :: u8
    using unat_byte [of b] by (auto simp: word_unat_eq_iff of_char_of take_bit_eq_mod)
  have "str_bytes (map (\<lambda>c. if of_char c \<in> {13, 10 :: nat} then CHR '' '' else c) (to_text bs)) =
      map (\<lambda>b. if b \<in> {13, 10} then 32 else b) bs"
    unfolding byte [symmetric] by (simp add: str_bytes_def to_text_def of_char_byte cong: map_cong)
  with line_breaks_bytes [OF \<open>utf8_ok bs\<close>] show ?thesis by simp
qed

text \<open>
  Printing a failure match never panics, whatever the pattern: every slice the excerpt takes is
  at character boundaries in order. The excerpt is valid UTF-8 and has at most 243 characters, 240
  and the dots of the truncation.
\<close>

theorem match_excerpt_total:
  assumes "regex_api rx" "utf8_ok output"
  shows "\<exists>ex. match_excerpt compiles rx output pattern = Some ex \<and> utf8_ok ex \<and>
    length (char_indices ex) \<le> 243"
proof -
  let ?c = "compact_text output"
  have c: "utf8_ok ?c"
    unfolding compact_text_def
    using line_breaks_ok [OF assms(2)] by (intro join_spaces_ok split_whitespace_ok) simp
  note plain = truncate_chars_ok [OF c, of MATCH_EXCERPT_MAX_CHARS]
  show ?thesis
  proof (cases "compiles pattern \<and> rx pattern ?c \<noteq> None")
    case False
    then have "match_excerpt compiles rx output pattern = Some (truncate_chars ?c MATCH_EXCERPT_MAX_CHARS)"
      by (cases "compiles pattern"; cases "rx pattern ?c") (auto simp: match_excerpt_def Let_def)
    with plain show ?thesis by (simp add: MATCH_EXCERPT_MAX_CHARS_def)
  next
    case True
    then obtain s e where f: "compiles pattern" "rx pattern ?c = Some (s, e)" by auto
    with assms(1) c have b: "s \<le> e" "e \<le> length ?c" "is_char_boundary ?c s" "is_char_boundary ?c e"
      unfolding regex_api_def by blast+
    obtain i where i: "char_boundary_before ?c s MATCH_EXCERPT_CONTEXT_CHARS = Some i" "i \<le> s"
        "is_char_boundary ?c i"
      using char_boundary_before_ok b by (metis le_trans)
    obtain j where j: "char_boundary_after ?c e MATCH_EXCERPT_CONTEXT_CHARS = Some j" "e \<le> j"
        "j \<le> length ?c" "is_char_boundary ?c j"
      using char_boundary_after_ok b by metis
    have ij: "i \<le> j" using i(2) b(1) j(2) by simp
    note slice = str_slice_ok [OF c ij j(3) i(3) j(4)]
    let ?x = "str_bytes (trim (to_text (drop i (take j ?c))))"
    let ?r = "((if 0 < i then dots else []) @ ?x) @ (if j < length ?c then dots else [])"
    have x: "utf8_ok ?x" using trim_utf8 [of "to_text (drop i (take j ?c))"] slice(2) by simp
    have "utf8_ok dots" by code_simp
    with x have "utf8_ok ?r" by (simp add: utf8_ok_append)
    from truncate_chars_ok [OF this, of MATCH_EXCERPT_MAX_CHARS]
    have r: "utf8_ok (truncate_chars ?r MATCH_EXCERPT_MAX_CHARS)"
      "length (char_indices (truncate_chars ?r MATCH_EXCERPT_MAX_CHARS)) \<le> 243"
      by (simp_all add: MATCH_EXCERPT_MAX_CHARS_def)
    have "match_excerpt compiles rx output pattern = Some (truncate_chars ?r MATCH_EXCERPT_MAX_CHARS)"
      by (simp add: match_excerpt_def Let_def f i(1) j(1) slice(1))
    with r show ?thesis by blast
  qed
qed

theorem match_excerpt_total_witness:
  "\<exists>ex. match_excerpt (\<lambda>_. True) literal_find (str_bytes ''vm panic here'') ''panic'' = Some ex \<and>
    utf8_ok ex \<and> length (char_indices ex) \<le> 243"
proof -
  have "utf8_ok (str_bytes ''vm panic here'')" by code_simp
  from match_excerpt_total [OF literal_find_api this] show ?thesis .
qed

end
