(* ===== verification/Serial_Manager.thy ===== *)
theory Serial_Manager
  imports Assoc_Map Rust_Text Httpboot_Protocol Serial_Protocol
begin

text \<open>
  The serial discovery actor (\<open>ostool-serial/src/manager.rs\<close>, with the types of
  \<open>ostool-serial/src/lib.rs\<close>): it opens the ports of the host one after the other to find the one
  a device identifies itself on, and hands the open port to the request that waits for it.

  The actor handles one command, one event or one tick at a time and then reconciles; it shares no
  state, so one such round is one step. Reply channels are numbers, and \<open>gone\<close> tells which
  receivers have been dropped; what is sent and what is spawned is a list of outputs. An open
  stream is known by the generation of the task that opened it. Instants are nanoseconds, and the clock is read once in a round. A panic
  (the sequence number running out) is \<open>None\<close>. \<open>canonical\<close> is \<open>std::fs::canonicalize\<close>; \<open>alive\<close> is
  whether the weak sender of the commands can be upgraded.
\<close>

section \<open>Types\<close>

record port_locator =
  port_name :: string
  aliases :: "string list"
  serial_number :: "string option"

datatype port_selector = PathSel string | SerialNumberSel string

definition matches :: "(string \<Rightarrow> string option) \<Rightarrow> port_locator \<Rightarrow> port_selector \<Rightarrow> bool" where
  "matches canonical l sel =
     (case sel of
        SerialNumberSel sn \<Rightarrow> serial_number l = Some sn
      | PathSel path \<Rightarrow>
          port_name l = path \<or> path \<in> set (aliases l) \<or> canonical path = Some (port_name l))"

record bind_request =
  br_owner :: string
  br_generation :: u64
  br_mac :: mac_address
  br_epoch :: string
  br_serial_id :: string
  br_parameters :: serial_parameters
  br_deadline :: nat

datatype bind_error =
    Stopped
  | Timeout
  | DiscoveryFailed string
  | Busy
  | InvalidRequest
  | Io string

record serial_lease =
  lease_stream :: u64
  lease_prefix :: bytes
  lease_locator :: port_locator
  lease_token :: u64
  lease_mac :: mac_address

record port_reservation =
  res_port :: string
  res_token :: u64

record pending_bind =
  request :: bind_request
  reply :: nat
  started :: nat
  scanning :: bool
  scan_deadline :: nat

record candidate =
  generation :: u64
  cand_locator :: port_locator
  closing :: bool

record owner =
  token :: u64
  owner_name :: string
  owner_locator :: port_locator

record manager_snapshot =
  snap_pending :: nat
  snap_candidates :: nat
  snap_leased :: nat

datatype command =
    Bind bind_request nat
  | Exclude "port_selector list" nat
  | Reserve port_locator nat
  | Release string u64
  | Confirm mac_address port_locator u64
  | Invalidate mac_address
  | WaitOwner string nat

datatype event =
    Found port_locator u64 string bytes
  | Closed string u64
  | Inventory "string + port_locator list"
  | Fault string string

record discovery =
  pending :: "pending_bind list"
  candidates :: "(string, candidate) amap"
  leased :: "(string, owner) amap"
  locations :: "(mac_address, port_locator) amap"
  exclusions :: "port_selector list"
  excluded_replies :: "nat list"
  reservations :: "(port_locator \<times> nat) list"
  release_waiters :: "(string \<times> nat) list"
  failed :: "string list"
  errors :: "(string, string) amap"
  sequence :: u64
  ports :: "port_locator list"
  enumerating :: bool
  next_enumeration :: nat
  expected :: "(string \<times> serial_parameters) list"

datatype action =
    BindReply nat "bind_error + serial_lease"
  | ExcludeReply nat "bind_error + unit"
  | ReserveReply nat "bind_error + port_reservation"
  | OwnerReply nat
  | StopCandidate string
  | SpawnScan port_locator u64
  | SpawnClose port_locator u64
  | SpawnInventory

definition secs :: "nat \<Rightarrow> nat" where
  "secs n = n * 1000000000"

definition millis :: "nat \<Rightarrow> nat" where
  "millis n = n * 1000000"

definition discovery_new :: "nat \<Rightarrow> discovery" where
  "discovery_new now =
     \<lparr>pending = [], candidates = [], leased = [], locations = [], exclusions = [],
      excluded_replies = [], reservations = [], release_waiters = [], failed = [], errors = [],
      sequence = 0, ports = [], enumerating = False, next_enumeration = now, expected = []\<rparr>"

text \<open>What the client checks before it sends a request to the actor.\<close>

definition client_bind :: "bind_request \<Rightarrow> bind_error option" where
  "client_bind r =
     (if br_epoch r = [] \<or> \<not> valid_serial_id (br_serial_id r) \<or>
         \<not> is_ok (serial_parameters_validate (br_parameters r))
      then Some InvalidRequest else None)"

section \<open>Commands\<close>

definition superseded_by :: "bind_request \<Rightarrow> pending_bind \<Rightarrow> bool" where
  "superseded_by r p \<longleftrightarrow>
     br_owner (request p) = br_owner r \<and> br_mac (request p) = br_mac r \<and>
     br_generation (request p) < br_generation r"

definition handle_bind ::
  "nat list \<Rightarrow> nat \<Rightarrow> bind_request \<Rightarrow> nat \<Rightarrow> discovery \<Rightarrow> action list \<times> discovery" where
  "handle_bind gone now r rep d =
     (if rep \<in> set gone then ([], d)
      else
        let d = d\<lparr>pending := filter (\<lambda>p. \<not> superseded_by r p) (pending d)\<rparr> in
        if list_ex (\<lambda>p. br_mac (request p) = br_mac r \<or> br_serial_id (request p) = br_serial_id r)
             (pending d)
        then ([BindReply rep (Inl Busy)], d)
        else
          let d = (if pending d = [] then d\<lparr>errors := []\<rparr> else d);
              d = (if list_ex (\<lambda>p. br_parameters (request p) = br_parameters r) (pending d) then d
                   else d\<lparr>failed := []\<rparr>);
              p = \<lparr>request = r, reply = rep, started = now,
                   scanning = (map_of (locations d) (br_mac r) = None),
                   scan_deadline = min (br_deadline r) (now + secs 5)\<rparr>
          in ([], d\<lparr>pending := pending d @ [p]\<rparr>))"

definition handle_exclude ::
  "(string \<Rightarrow> string option) \<Rightarrow> port_selector list \<Rightarrow> nat \<Rightarrow> discovery \<Rightarrow> action list \<times> discovery" where
  "handle_exclude canonical sels rep d =
     (if list_ex (\<lambda>sel. sel \<notin> set (exclusions d) \<and>
           any_value (leased d) (\<lambda>ow. matches canonical (owner_locator ow) sel)) sels
      then ([ExcludeReply rep (Inl Busy)], d)
      else ([], d\<lparr>exclusions := sels, excluded_replies := excluded_replies d @ [rep]\<rparr>))"

definition handle_reserve :: "port_locator \<Rightarrow> nat \<Rightarrow> discovery \<Rightarrow> action list \<times> discovery" where
  "handle_reserve port rep d =
     (if map_of (leased d) (port_name port) \<noteq> None \<or>
         list_ex (\<lambda>(p, _). port_name p = port_name port) (reservations d)
      then ([ReserveReply rep (Inl Busy)], d)
      else ([], d\<lparr>reservations := reservations d @ [(port, rep)]\<rparr>))"

definition handle_release :: "string \<Rightarrow> u64 \<Rightarrow> discovery \<Rightarrow> discovery" where
  "handle_release port tok d =
     (if is_some_and (map_of (leased d) port) (\<lambda>ow. token ow = tok)
      then d\<lparr>leased := AList.delete port (leased d)\<rparr> else d)"

definition handle_confirm :: "mac_address \<Rightarrow> port_locator \<Rightarrow> u64 \<Rightarrow> discovery \<Rightarrow> discovery" where
  "handle_confirm mac l tok d =
     (if is_some_and (map_of (leased d) (port_name l)) (\<lambda>ow. token ow = tok)
      then d\<lparr>locations := AList.update mac l (locations d)\<rparr> else d)"

fun handle_command ::
  "(string \<Rightarrow> string option) \<Rightarrow> nat list \<Rightarrow> nat \<Rightarrow> command \<Rightarrow> discovery \<Rightarrow> action list \<times> discovery"
  where
  "handle_command canonical gone now (Bind r rep) d = handle_bind gone now r rep d"
| "handle_command canonical gone now (Exclude sels rep) d = handle_exclude canonical sels rep d"
| "handle_command canonical gone now (Reserve port rep) d = handle_reserve port rep d"
| "handle_command canonical gone now (Release port tok) d = ([], handle_release port tok d)"
| "handle_command canonical gone now (Confirm mac l tok) d = ([], handle_confirm mac l tok d)"
| "handle_command canonical gone now (Invalidate mac) d =
     ([], d\<lparr>locations := AList.delete mac (locations d)\<rparr>)"
| "handle_command canonical gone now (WaitOwner name rep) d =
     ([], d\<lparr>release_waiters := release_waiters d @ [(name, rep)]\<rparr>)"

definition next_token :: "discovery \<Rightarrow> (u64 \<times> discovery) option" where
  "next_token d =
     (if sequence d = - 1 then None
      else let s = sequence d + 1 in Some (s, d\<lparr>sequence := s\<rparr>))"

section \<open>Events\<close>

definition waits_for :: "nat list \<Rightarrow> nat \<Rightarrow> string \<Rightarrow> pending_bind \<Rightarrow> bool" where
  "waits_for gone now i p \<longleftrightarrow>
     br_serial_id (request p) = i \<and> reply p \<notin> set gone \<and> now < br_deadline (request p)"

fun remove_first :: "('a \<Rightarrow> bool) \<Rightarrow> 'a list \<Rightarrow> 'a list" where
  "remove_first P [] = []"
| "remove_first P (x # xs) = (if P x then xs else x # remove_first P xs)"

definition handle_found ::
  "nat list \<Rightarrow> bool \<Rightarrow> nat \<Rightarrow> port_locator \<Rightarrow> u64 \<Rightarrow> string \<Rightarrow> bytes \<Rightarrow> discovery \<Rightarrow>
     (action list \<times> discovery) option" where
  "handle_found gone alive now l gen i prefix d =
     (let name = port_name l;
          current = is_some_and (map_of (candidates d) name) (\<lambda>c. generation c = gen \<and> \<not> closing c);
          d = (if is_some_and (map_of (candidates d) name) (\<lambda>c. generation c = gen)
               then d\<lparr>candidates := AList.delete name (candidates d)\<rparr> else d)
      in case find (waits_for gone now i) (pending d) of
           Some p \<Rightarrow>
             if current \<and> alive then
               (case next_token (d\<lparr>pending := remove_first (waits_for gone now i) (pending d)\<rparr>) of
                  None \<Rightarrow> None
                | Some (tok, d) \<Rightarrow>
                    let d = d\<lparr>leased := AList.update name
                          \<lparr>token = tok, owner_name = br_owner (request p), owner_locator = l\<rparr> (leased d)\<rparr>;
                        lease = \<lparr>lease_stream = gen, lease_prefix = prefix, lease_locator = l,
                                 lease_token = tok, lease_mac = br_mac (request p)\<rparr>
                    in Some ([BindReply (reply p) (Inr lease)], d))
             else Some ([SpawnClose l gen], d\<lparr>candidates := AList.update name
                    \<lparr>generation = gen, cand_locator = l, closing = True\<rparr> (candidates d)\<rparr>)
         | None \<Rightarrow> Some ([SpawnClose l gen], d\<lparr>candidates := AList.update name
                    \<lparr>generation = gen, cand_locator = l, closing = True\<rparr> (candidates d)\<rparr>))"

definition handle_closed :: "string \<Rightarrow> u64 \<Rightarrow> discovery \<Rightarrow> discovery" where
  "handle_closed name gen d =
     (case map_of (candidates d) name of
        None \<Rightarrow> d
      | Some c \<Rightarrow>
          if generation c = gen then
            let d = d\<lparr>candidates := AList.delete name (candidates d)\<rparr> in
            if closing c then d else d\<lparr>failed := List.insert name (failed d)\<rparr>
          else d)"

fun handle_event ::
  "nat list \<Rightarrow> bool \<Rightarrow> nat \<Rightarrow> event \<Rightarrow> discovery \<Rightarrow> (action list \<times> discovery) option" where
  "handle_event gone alive now (Fault port err) d =
     Some ([], d\<lparr>errors := AList.update port err (errors d)\<rparr>)"
| "handle_event gone alive now (Inventory res) d =
     Some ([], (case res of
        Inr ps \<Rightarrow> d\<lparr>enumerating := False, ports := ps\<rparr>
      | Inl _ \<Rightarrow> d\<lparr>enumerating := False\<rparr>))"
| "handle_event gone alive now (Closed name gen) d = Some ([], handle_closed name gen d)"
| "handle_event gone alive now (Found l gen i prefix) d = handle_found gone alive now l gen i prefix d"

section \<open>Reconciliation\<close>

text \<open>The requests that have waited too long are answered; the others may start a full scan.\<close>

definition scan_window :: "pending_bind list \<Rightarrow> nat" where
  "scan_window ps = secs (max 5 (2 * length (remdups (map (br_parameters \<circ> request) ps))))"

definition age_pending :: "nat \<Rightarrow> nat \<Rightarrow> pending_bind \<Rightarrow> pending_bind" where
  "age_pending now win p =
     (let p = (if \<not> scanning p \<and> secs 1 \<le> now - started p
               then p\<lparr>scanning := True, scan_deadline := min (br_deadline (request p)) (now + win)\<rparr>
               else p)
      in if scanning p
         then p\<lparr>scan_deadline := max (scan_deadline p) (min (started p + win) (br_deadline (request p)))\<rparr>
         else p)"

definition overdue :: "nat \<Rightarrow> pending_bind \<Rightarrow> bool" where
  "overdue now p \<longleftrightarrow> br_deadline (request p) \<le> now \<or> scanning p \<and> scan_deadline p \<le> now"

definition bind_failure :: "(string, string) amap \<Rightarrow> bind_error" where
  "bind_failure errs = (if errs = [] then Timeout
     else DiscoveryFailed (str_join ''; '' (map (\<lambda>(port, err). port @ '': '' @ err) (sort_key fst errs))))"

fun expire_pending ::
  "nat list \<Rightarrow> nat \<Rightarrow> nat \<Rightarrow> pending_bind list \<Rightarrow> discovery \<Rightarrow> action list \<times> pending_bind list \<times> discovery"
  where
  "expire_pending gone now win [] d = ([], [], d)"
| "expire_pending gone now win (p # ps) d =
     (if reply p \<in> set gone then expire_pending gone now win ps d
      else
        let d = (if \<not> scanning p \<and> secs 1 \<le> now - started p
                 then d\<lparr>locations := AList.delete (br_mac (request p)) (locations d)\<rparr> else d);
            p = age_pending now win p
        in if overdue now p then
             let d = d\<lparr>locations := AList.delete (br_mac (request p)) (locations d)\<rparr>;
                 (outs, rest, d) = expire_pending gone now win ps d
             in (BindReply (reply p) (Inl (bind_failure (errors d))) # outs, rest, d)
           else
             let (outs, rest, d) = expire_pending gone now win ps d in (outs, p # rest, d))"

definition reconcile_pending :: "nat list \<Rightarrow> nat \<Rightarrow> discovery \<Rightarrow> action list \<times> discovery" where
  "reconcile_pending gone now d =
     (let (outs, rest, d) = expire_pending gone now (scan_window (pending d)) (pending d) (d\<lparr>pending := []\<rparr>);
          d = d\<lparr>pending := rest\<rparr>
      in (outs, d\<lparr>expected := map (\<lambda>p. (br_serial_id (request p), br_parameters (request p))) rest\<rparr>))"

text \<open>Scans nobody may want any more are told to stop.\<close>

definition excluded :: "(string \<Rightarrow> string option) \<Rightarrow> discovery \<Rightarrow> port_locator \<Rightarrow> bool" where
  "excluded canonical d l \<longleftrightarrow> list_ex (matches canonical l) (exclusions d)"

definition reserved :: "discovery \<Rightarrow> string \<Rightarrow> bool" where
  "reserved d name \<longleftrightarrow> list_ex (\<lambda>(p, _). port_name p = name) (reservations d)"

definition must_close :: "(string \<Rightarrow> string option) \<Rightarrow> discovery \<Rightarrow> candidate \<Rightarrow> bool" where
  "must_close canonical d c \<longleftrightarrow>
     pending d = [] \<or> excluded canonical d (cand_locator c) \<or> reserved d (port_name (cand_locator c))"

definition reconcile_candidates :: "(string \<Rightarrow> string option) \<Rightarrow> discovery \<Rightarrow> action list \<times> discovery" where
  "reconcile_candidates canonical d =
     (map (StopCandidate \<circ> port_name \<circ> cand_locator)
        (filter (must_close canonical d) (bt_values (candidates d))),
      d\<lparr>candidates := map (\<lambda>(name, c).
          (name, if must_close canonical d c then c\<lparr>closing := True\<rparr> else c)) (candidates d)\<rparr>)"

definition reconcile_exclusions :: "(string \<Rightarrow> string option) \<Rightarrow> discovery \<Rightarrow> action list \<times> discovery" where
  "reconcile_exclusions canonical d =
     (if any_value (candidates d) (\<lambda>c. excluded canonical d (cand_locator c)) then ([], d)
      else (map (\<lambda>rep. ExcludeReply rep (Inr ())) (excluded_replies d), d\<lparr>excluded_replies := []\<rparr>))"

text \<open>A reservation is granted once no scan holds its port.\<close>

fun grant_reservations ::
  "nat list \<Rightarrow> bool \<Rightarrow> (port_locator \<times> nat) list \<Rightarrow> discovery \<Rightarrow>
     (action list \<times> (port_locator \<times> nat) list \<times> discovery) option" where
  "grant_reservations gone alive [] d = Some ([], [], d)"
| "grant_reservations gone alive ((port, rep) # rs) d =
     (if rep \<in> set gone then grant_reservations gone alive rs d
      else if map_of (candidates d) (port_name port) \<noteq> None then
        map_option (\<lambda>(outs, waiting, d). (outs, (port, rep) # waiting, d)) (grant_reservations gone alive rs d)
      else if alive then
        (case next_token d of
           None \<Rightarrow> None
         | Some (tok, d) \<Rightarrow>
             let d = d\<lparr>leased := AList.update (port_name port)
                   \<lparr>token = tok, owner_name = ''manual'', owner_locator = port\<rparr> (leased d)\<rparr>
             in map_option (\<lambda>(outs, waiting, d).
                  (ReserveReply rep (Inr \<lparr>res_port = port_name port, res_token = tok\<rparr>) # outs, waiting, d))
                (grant_reservations gone alive rs d))
      else grant_reservations gone alive rs d)"

definition reconcile_reservations ::
  "nat list \<Rightarrow> bool \<Rightarrow> discovery \<Rightarrow> (action list \<times> discovery) option" where
  "reconcile_reservations gone alive d =
     map_option (\<lambda>(outs, waiting, d). (outs, d\<lparr>reservations := waiting\<rparr>))
       (grant_reservations gone alive (reservations d) (d\<lparr>reservations := []\<rparr>))"

definition owner_busy :: "discovery \<Rightarrow> string \<Rightarrow> bool" where
  "owner_busy d name \<longleftrightarrow>
     any_value (leased d) (\<lambda>ow. owner_name ow = name) \<or>
     list_ex (\<lambda>p. br_owner (request p) = name) (pending d) \<or>
     pending d = [] \<and> candidates d \<noteq> []"

definition reconcile_waiters :: "nat list \<Rightarrow> discovery \<Rightarrow> action list \<times> discovery" where
  "reconcile_waiters gone d =
     (let live = filter (\<lambda>(_, rep). rep \<notin> set gone) (release_waiters d) in
      (map (OwnerReply \<circ> snd) (filter (\<lambda>(name, _). \<not> owner_busy d name) live),
       d\<lparr>release_waiters := filter (\<lambda>(name, _). owner_busy d name) live\<rparr>))"

text \<open>New scans, of the ports that nobody uses.\<close>

definition location_hit :: "port_locator list \<Rightarrow> port_locator \<Rightarrow> port_locator \<Rightarrow> bool" where
  "location_hit all old l \<longleftrightarrow>
     port_name old = port_name l \<or>
     list_ex (\<lambda>al. al \<in> set (aliases l)) (aliases old) \<or>
     serial_number old \<noteq> None \<and> serial_number old = serial_number l \<and>
       length (filter (\<lambda>q. serial_number q = serial_number l) all) = 1"

definition cached :: "discovery \<Rightarrow> port_locator list \<Rightarrow> port_locator \<Rightarrow> bool" where
  "cached d all l \<longleftrightarrow>
     list_ex (\<lambda>p. is_some_and (map_of (locations d) (br_mac (request p))) (\<lambda>old. location_hit all old l))
       (pending d)"

definition port_taken :: "(string \<Rightarrow> string option) \<Rightarrow> discovery \<Rightarrow> port_locator \<Rightarrow> bool" where
  "port_taken canonical d l \<longleftrightarrow>
     map_of (candidates d) (port_name l) \<noteq> None \<or> map_of (leased d) (port_name l) \<noteq> None \<or>
     port_name l \<in> set (failed d) \<or> excluded canonical d l \<or> reserved d (port_name l)"

fun start_scans ::
  "(string \<Rightarrow> string option) \<Rightarrow> bool \<Rightarrow> port_locator list \<Rightarrow> port_locator list \<Rightarrow> discovery \<Rightarrow>
     (action list \<times> discovery) option" where
  "start_scans canonical full all [] d = Some ([], d)"
| "start_scans canonical full all (l # ls) d =
     (if port_taken canonical d l \<or> \<not> full \<and> \<not> cached d all l then start_scans canonical full all ls d
      else
        case next_token d of
          None \<Rightarrow> None
        | Some (gen, d) \<Rightarrow>
            let d = d\<lparr>candidates := AList.update (port_name l)
                  \<lparr>generation = gen, cand_locator = l, closing = False\<rparr> (candidates d)\<rparr>
            in map_option (\<lambda>(outs, d). (SpawnScan l gen # outs, d)) (start_scans canonical full all ls d))"

definition reconcile_scans ::
  "(string \<Rightarrow> string option) \<Rightarrow> nat \<Rightarrow> discovery \<Rightarrow> (action list \<times> discovery) option" where
  "reconcile_scans canonical now d =
     (if pending d = [] then Some ([], d)
      else
        let (outs, d) =
          (if \<not> enumerating d \<and> next_enumeration d \<le> now
           then ([SpawnInventory], d\<lparr>enumerating := True, next_enumeration := now + millis 250\<rparr>)
           else ([], d))
        in map_option (\<lambda>(outs', d). (outs @ outs', d))
             (start_scans canonical (list_ex scanning (pending d)) (ports d) (ports d) d))"

definition snapshot :: "discovery \<Rightarrow> manager_snapshot" where
  "snapshot d =
     \<lparr>snap_pending = length (pending d), snap_candidates = length (candidates d),
      snap_leased = length (leased d)\<rparr>"

definition reconcile ::
  "(string \<Rightarrow> string option) \<Rightarrow> nat list \<Rightarrow> bool \<Rightarrow> nat \<Rightarrow> discovery \<Rightarrow> (action list \<times> discovery) option"
  where
  "reconcile canonical gone alive now d =
     (let (o1, d) = reconcile_pending gone now d;
          (o2, d) = reconcile_candidates canonical d;
          (o3, d) = reconcile_exclusions canonical d
      in case reconcile_reservations gone alive d of
           None \<Rightarrow> None
         | Some (o4, d) \<Rightarrow>
             let (o5, d) = reconcile_waiters gone d in
             map_option (\<lambda>(o6, d). (o1 @ o2 @ o3 @ o4 @ o5 @ o6, d)) (reconcile_scans canonical now d))"

text \<open>One round of the actor's loop.\<close>

datatype actor_input = Command command | Event event | Tick

definition actor_round ::
  "(string \<Rightarrow> string option) \<Rightarrow> nat list \<Rightarrow> bool \<Rightarrow> nat \<Rightarrow> actor_input \<Rightarrow> discovery \<Rightarrow>
     (action list \<times> discovery) option" where
  "actor_round canonical gone alive now i d =
     (case (case i of
              Command c \<Rightarrow> Some (handle_command canonical gone now c d)
            | Event e \<Rightarrow> handle_event gone alive now e d
            | Tick \<Rightarrow> Some ([], d)) of
        None \<Rightarrow> None
      | Some (outs, d) \<Rightarrow>
          map_option (\<lambda>(outs', d). (outs @ outs', d)) (reconcile canonical gone alive now d))"

end
