(* ===== verification/Serial_Manager_Properties.thy ===== *)
theory Serial_Manager_Properties
  imports Serial_Manager "HOL-Library.Multiset" "HOL-Library.Code_Target_Nat"
begin

text \<open>
  What the serial discovery actor guarantees: a port is open for one scan or one lease at a time,
  an acknowledged exclusion means that no scan touches the excluded ports, a binding is granted
  only to a request that waits for the identity read, and every request is answered in time.
\<close>

section \<open>Maps as multisets\<close>

definition entries :: "('v \<Rightarrow> 'b) \<Rightarrow> ('k, 'v) amap \<Rightarrow> ('k \<times> 'b) multiset" where
  "entries f m = mset (map (\<lambda>(k, v). (k, f v)) m)"

lemma update_fresh: "map_of m k = None \<Longrightarrow> AList.update k v m = m @ [(k, v)]"
  by (induction m) (auto split: if_splits)

lemma entries_update_fresh:
  "map_of m k = None \<Longrightarrow> entries f (AList.update k v m) = add_mset (k, f v) (entries f m)"
  by (simp add: entries_def update_fresh)

lemma entries_delete:
  "keys_distinct m \<Longrightarrow> map_of m k = Some v \<Longrightarrow>
     entries f m = add_mset (k, f v) (entries f (AList.delete k m))"
proof (induction m)
  case (Cons a m)
  obtain k' v' where a: "a = (k', v')" by (cases a)
  show ?case
  proof (cases "k' = k")
    case True
    with Cons.prems a have "k \<notin> fst ` set m" "v' = v" by (auto simp: keys_distinct_def)
    then have "AList.delete k m = m" by (simp add: delete_id)
    with True a \<open>v' = v\<close> show ?thesis by (simp add: entries_def)
  next
    case False
    with Cons.prems a Cons.IH show ?thesis by (simp add: entries_def keys_distinct_def)
  qed
qed simp

lemma entries_mem: "keys_distinct m \<Longrightarrow> (k, x) \<in># entries f m \<longleftrightarrow> (\<exists>v. map_of m k = Some v \<and> f v = x)"
  by (force simp: entries_def keys_distinct_def)

lemma entries_keys: "image_mset fst (entries f m) = mset (map fst m)"
  by (simp add: entries_def comp_def case_prod_beta flip: mset_map)

section \<open>Well-formed states\<close>

definition gens :: "discovery \<Rightarrow> (string \<times> u64) multiset" where
  "gens d = entries generation (candidates d)"

definition toks :: "discovery \<Rightarrow> (string \<times> u64) multiset" where
  "toks d = entries token (leased d)"

definition disc_ok :: "discovery \<Rightarrow> bool" where
  "disc_ok d \<longleftrightarrow>
     keys_distinct (candidates d) \<and> keys_distinct (leased d) \<and>
     (\<forall>n. map_of (candidates d) n \<noteq> None \<longrightarrow> map_of (leased d) n = None) \<and>
     (\<forall>n c. map_of (candidates d) n = Some c \<longrightarrow> port_name (cand_locator c) = n) \<and>
     distinct (map (port_name \<circ> fst) (reservations d)) \<and>
     (\<forall>n. reserved d n \<longrightarrow> map_of (leased d) n = None) \<and>
     (\<forall>n ow. map_of (leased d) n = Some ow \<longrightarrow> token ow \<le> sequence d)"

text \<open>After reconciliation every scan of a reserved port has been told to stop.\<close>

definition scans_told :: "discovery \<Rightarrow> bool" where
  "scans_told d \<longleftrightarrow>
     (\<forall>n c. map_of (candidates d) n = Some c \<longrightarrow>
reserved d n \<longrightarrow> closing c)"

definition spawned :: "action list \<Rightarrow> (string \<times> u64) multiset" where
  "spawned outs = mset (concat (map (\<lambda>a. case a of
     SpawnScan l g \<Rightarrow> [(port_name l, g)] | SpawnClose l g \<Rightarrow> [(port_name l, g)] | _ \<Rightarrow> []) outs))"

definition granted :: "action list \<Rightarrow> (string \<times> u64) multiset" where
  "granted outs = mset (concat (map (\<lambda>a. case a of
     BindReply _ (Inr l) \<Rightarrow> [(port_name (lease_locator l), lease_token l)]
   | ReserveReply _ (Inr r) \<Rightarrow> [(res_port r, res_token r)] | _ \<Rightarrow> []) outs))"

lemma spawned_simps [simp]:
  "spawned [] = {#}" "spawned (a @ b) = spawned a + spawned b"
  "spawned (BindReply r x # a) = spawned a" "spawned (ExcludeReply r y # a) = spawned a"
  "spawned (ReserveReply r z # a) = spawned a" "spawned (OwnerReply r # a) = spawned a"
  "spawned (StopCandidate n # a) = spawned a" "spawned (SpawnInventory # a) = spawned a"
  "spawned (SpawnScan l g # a) = add_mset (port_name l, g) (spawned a)"
  "spawned (SpawnClose l g # a) = add_mset (port_name l, g) (spawned a)"
  by (simp_all add: spawned_def)

lemma granted_simps [simp]:
  "granted [] = {#}" "granted (a @ b) = granted a + granted b"
  "granted (BindReply r (Inl e) # a) = granted a" "granted (ExcludeReply r y # a) = granted a"
  "granted (ReserveReply r (Inl e) # a) = granted a" "granted (OwnerReply r # a) = granted a"
  "granted (StopCandidate n # a) = granted a" "granted (SpawnInventory # a) = granted a"
  "granted (SpawnScan l g # a) = granted a" "granted (SpawnClose l g # a) = granted a"
  "granted (BindReply r (Inr lease) # a) =
     add_mset (port_name (lease_locator lease), lease_token lease) (granted a)"
  "granted (ReserveReply r (Inr res) # a) = add_mset (res_port res, res_token res) (granted a)"
  by (simp_all add: granted_def)

text \<open>The parts of the state the invariant is about.\<close>

definition same_core :: "discovery \<Rightarrow> discovery \<Rightarrow> bool" where
  "same_core d d' \<longleftrightarrow>
     candidates d' = candidates d \<and> leased d' = leased d \<and> reservations d' = reservations d \<and>
     exclusions d' = exclusions d \<and> sequence d' = sequence d"

lemma same_core_ok:
  assumes "same_core d d'"
  shows "disc_ok d' = disc_ok d" "gens d' = gens d" "toks d' = toks d"
    "scans_told d' = scans_told d"
  using assms by (simp_all add: same_core_def disc_ok_def gens_def toks_def scans_told_def reserved_def excluded_def)

lemma same_core_trans: "same_core a b \<Longrightarrow> same_core b c \<Longrightarrow> same_core a c"
  by (simp add: same_core_def)

section \<open>Commands\<close>

lemma bind_core:
  "handle_bind gone now r rep d = (outs, d') \<Longrightarrow> same_core d d' \<and> spawned outs = {#} \<and> granted outs = {#}"
  by (auto simp: handle_bind_def same_core_def Let_def split: if_splits)

lemma exclude_ok:
  "handle_exclude canonical sels rep d = (outs, d') \<Longrightarrow> disc_ok d' = disc_ok d \<and> gens d' = gens d \<and>
     toks d' = toks d \<and> spawned outs = {#} \<and> granted outs = {#}"
  by (auto simp: handle_exclude_def disc_ok_def gens_def toks_def reserved_def split: if_splits)

lemma reserve_ok:
  assumes "handle_reserve port rep d = (outs, d')" "disc_ok d"
  shows "disc_ok d' \<and> gens d' = gens d \<and> toks d' = toks d \<and> spawned outs = {#} \<and> granted outs = {#}"
proof (cases "map_of (leased d) (port_name port) \<noteq> None \<or> reserved d (port_name port)")
  case True
  with assms show ?thesis by (auto simp: handle_reserve_def reserved_def)
next
  case False
  with assms(1) have d': "d' = d\<lparr>reservations := reservations d @ [(port, rep)]\<rparr>" "outs = []"
    by (auto simp: handle_reserve_def reserved_def)
  from False have "port_name port \<notin> set (map (port_name \<circ> fst) (reservations d))"
    by (auto simp: reserved_def list_ex_iff)
  with False assms(2) show ?thesis
    by (auto simp: d' disc_ok_def gens_def toks_def reserved_def)
qed

lemma release_ok:
  assumes "disc_ok d" "(port, tok) \<in># toks d"
  shows "disc_ok (handle_release port tok d)" "gens (handle_release port tok d) = gens d"
    "toks d = add_mset (port, tok) (toks (handle_release port tok d))"
proof -
  from assms obtain ow where ow: "map_of (leased d) port = Some ow" "token ow = tok"
    by (auto simp: toks_def disc_ok_def entries_mem)
  then have r: "handle_release port tok d = d\<lparr>leased := AList.delete port (leased d)\<rparr>"
    by (simp add: handle_release_def)
  show "disc_ok (handle_release port tok d)"
    using assms(1) by (auto simp: r disc_ok_def map_of_delete reserved_def split: if_splits)
  show "gens (handle_release port tok d) = gens d" by (simp add: r gens_def)
  show "toks d = add_mset (port, tok) (toks (handle_release port tok d))"
    using assms(1) ow entries_delete [of "leased d" port ow token]
    by (simp add: r toks_def disc_ok_def)
qed

lemma command_ok:
  assumes "handle_command canonical gone now c d = (outs, d')" "disc_ok d" "\<And>p t. c \<noteq> Release p t"
  shows "disc_ok d' \<and> gens d' = gens d \<and> toks d' = toks d \<and> spawned outs = {#} \<and> granted outs = {#}"
proof (cases c)
  case (Bind r rep)
  with assms bind_core [of gone now r rep d outs d'] same_core_ok [of d d'] show ?thesis by simp
next
  case (Exclude sels rep)
  with assms exclude_ok [of canonical sels rep d outs d'] show ?thesis by simp
next
  case (Reserve port rep)
  with assms reserve_ok [of port rep d outs d'] show ?thesis by simp
next
  case (Confirm mac l tok)
  with assms same_core_ok [of d d'] show ?thesis
    by (auto simp: handle_confirm_def same_core_def split: if_splits)
next
  case (Invalidate mac)
  with assms same_core_ok [of d d'] show ?thesis by (auto simp: same_core_def)
next
  case (WaitOwner n rep)
  with assms same_core_ok [of d d'] show ?thesis by (auto simp: same_core_def)
qed (use assms(3) in blast)

section \<open>Events\<close>

lemma next_token_Some:
  assumes "next_token d = Some (tok, d')"
  shows "d' = d\<lparr>sequence := tok\<rparr>" "sequence d < tok" "\<And>x. x \<le> sequence d \<Longrightarrow> x \<le> tok"
proof -
  from assms have t: "sequence d \<noteq> - 1" "tok = sequence d + 1" "d' = d\<lparr>sequence := tok\<rparr>"
    by (auto simp: next_token_def Let_def split: if_splits)
  have "1 + sequence d \<noteq> 0" using t(1) by (metis add.commute add_eq_0_iff)
  then have "unat (sequence d + 1) = Suc (unat (sequence d))" by (metis unatSuc add.commute)
  then show "sequence d < tok" by (simp add: t(2) word_less_nat_alt)
  then show "\<And>x. x \<le> sequence d \<Longrightarrow> x \<le> tok" by simp
  show "d' = d\<lparr>sequence := tok\<rparr>" using t(3) .
qed

text \<open>Taking a scan off the table, and putting the closing of its stream back.\<close>

lemma take_scan:
  assumes "disc_ok d" "(name, gen) \<in># gens d"
  obtains c where "map_of (candidates d) name = Some c" "generation c = gen"
    "disc_ok (d\<lparr>candidates := AList.delete name (candidates d)\<rparr>)"
    "gens d = add_mset (name, gen) (gens (d\<lparr>candidates := AList.delete name (candidates d)\<rparr>))"
proof -
  from assms obtain c where c: "map_of (candidates d) name = Some c" "generation c = gen"
    by (auto simp: gens_def disc_ok_def entries_mem)
  have "disc_ok (d\<lparr>candidates := AList.delete name (candidates d)\<rparr>)"
    using assms(1) by (auto simp: disc_ok_def map_of_delete reserved_def split: if_splits)
  with c assms(1) entries_delete [of "candidates d" name c generation] show thesis
    by (intro that) (simp_all add: gens_def disc_ok_def)
qed

lemma put_scan:
  assumes "disc_ok d" "map_of (candidates d) (port_name l) = None" "map_of (leased d) (port_name l) = None"
  shows "disc_ok (d\<lparr>candidates := AList.update (port_name l)
      \<lparr>generation = gen, cand_locator = l, closing = cl\<rparr> (candidates d)\<rparr>)"
    "gens (d\<lparr>candidates := AList.update (port_name l)
      \<lparr>generation = gen, cand_locator = l, closing = cl\<rparr> (candidates d)\<rparr>) = add_mset (port_name l, gen) (gens d)"
  using assms
  by (auto simp: disc_ok_def gens_def map_of_update reserved_def entries_update_fresh split: if_splits)

lemma put_lease:
  assumes "disc_ok d" "map_of (candidates d) name = None" "map_of (leased d) name = None"
    "\<not> reserved d name" "sequence d < tok"
  shows "disc_ok (d\<lparr>sequence := tok, leased := AList.update name
      \<lparr>token = tok, owner_name = o1, owner_locator = l\<rparr> (leased d)\<rparr>)"
    "toks (d\<lparr>sequence := tok, leased := AList.update name
      \<lparr>token = tok, owner_name = o1, owner_locator = l\<rparr> (leased d)\<rparr>) = add_mset (name, tok) (toks d)"
proof -
  have "token ow \<le> tok" if "map_of (leased d) n = Some ow" for n ow
  proof -
    have "token ow \<le> sequence d" using that assms(1) by (simp add: disc_ok_def)
    with assms(5) show ?thesis by simp
  qed
  with assms show "disc_ok (d\<lparr>sequence := tok, leased := AList.update name
      \<lparr>token = tok, owner_name = o1, owner_locator = l\<rparr> (leased d)\<rparr>)"
    by (auto simp: disc_ok_def map_of_update reserved_def split: if_splits)
  show "toks (d\<lparr>sequence := tok, leased := AList.update name
      \<lparr>token = tok, owner_name = o1, owner_locator = l\<rparr> (leased d)\<rparr>) = add_mset (name, tok) (toks d)"
    using assms by (simp add: toks_def entries_update_fresh)
qed

definition delta :: "discovery \<Rightarrow> (string \<times> u64) multiset \<Rightarrow> action list \<Rightarrow> discovery \<Rightarrow> bool" where
  "delta d taken outs d' \<longleftrightarrow>
     disc_ok d' \<and> gens d' + taken = gens d + spawned outs \<and> toks d' = toks d + granted outs"

lemma delta_trans:
  "delta d t o1 d1 \<Longrightarrow> delta d1 {#} o2 d2 \<Longrightarrow> delta d t (o1 @ o2) d2"
  by (auto simp: delta_def ac_simps)

lemma delta_core: "disc_ok d \<Longrightarrow> same_core d d' \<Longrightarrow> spawned outs = {#} \<Longrightarrow> granted outs = {#} \<Longrightarrow> delta d {#} outs d'"
  using same_core_ok [of d d'] by (simp add: delta_def)

lemma closed_ok:
  assumes "disc_ok d" "(name, gen) \<in># gens d"
  shows "delta d {#(name, gen)#} [] (handle_closed name gen d)"
proof -
  obtain c where c: "map_of (candidates d) name = Some c" "generation c = gen"
    "disc_ok (d\<lparr>candidates := AList.delete name (candidates d)\<rparr>)"
    "gens d = add_mset (name, gen) (gens (d\<lparr>candidates := AList.delete name (candidates d)\<rparr>))"
    using take_scan [OF assms] .
  let ?d = "d\<lparr>candidates := AList.delete name (candidates d)\<rparr>"
  have "same_core ?d (handle_closed name gen d)"
    using c(1,2) by (auto simp: handle_closed_def same_core_def Let_def)
  with c(3,4) same_core_ok [of ?d] show ?thesis
    by (simp add: delta_def) (simp add: toks_def)
qed

lemma found_ok:
  assumes f: "handle_found gone alive now l gen i prefix d = Some (outs, d')"
    and d: "disc_ok d" "scans_told d" and g: "(port_name l, gen) \<in># gens d"
  shows "delta d {#(port_name l, gen)#} outs d'"
proof -
  let ?n = "port_name l"
  let ?d = "d\<lparr>candidates := AList.delete ?n (candidates d)\<rparr>"
  obtain c where c: "map_of (candidates d) ?n = Some c" "generation c = gen" "disc_ok ?d"
      "gens d = add_mset (?n, gen) (gens ?d)"
    using take_scan [OF d(1) g] .
  have free: "map_of (candidates ?d) ?n = None" "map_of (leased ?d) ?n = None"
    using d(1) c(1) by (auto simp: disc_ok_def map_of_delete)
  have toks: "toks ?d = toks d" by (simp add: toks_def)
  have cur: "is_some_and (map_of (candidates d) ?n) (\<lambda>c. generation c = gen \<and> \<not> closing c) \<longleftrightarrow> \<not> closing c"
    "is_some_and (map_of (candidates d) ?n) (\<lambda>c. generation c = gen)"
    using c(1,2) by simp_all
  let ?again = "?d\<lparr>candidates := AList.update ?n \<lparr>generation = gen, cand_locator = l, closing = True\<rparr> (candidates ?d)\<rparr>"
  have kept: "delta d {#(?n, gen)#} [SpawnClose l gen] ?again"
    using put_scan [OF c(3) free] c(4) toks by (simp add: delta_def) (simp add: toks_def)
  show ?thesis
  proof (cases "find (waits_for gone now i) (pending d)")
    case None
    with f cur have "outs = [SpawnClose l gen]" "d' = ?again"
      by (simp_all add: handle_found_def Let_def)
    with kept show ?thesis by simp
  next
    case (Some p)
    show ?thesis
    proof (cases "\<not> closing c \<and> alive")
      case False
      with f cur Some have "outs = [SpawnClose l gen]" "d' = ?again"
        by (auto simp: handle_found_def Let_def)
      with kept show ?thesis by simp
    next
      case True
      let ?p = "?d\<lparr>pending := remove_first (waits_for gone now i) (pending d)\<rparr>"
      from f cur Some True obtain tok d2 where n: "next_token ?p = Some (tok, d2)"
        and o: "d' = d2\<lparr>leased := AList.update ?n
            \<lparr>token = tok, owner_name = br_owner (request p), owner_locator = l\<rparr> (leased d2)\<rparr>"
          "outs = [BindReply (reply p) (Inr \<lparr>lease_stream = gen, lease_prefix = prefix, lease_locator = l,
            lease_token = tok, lease_mac = br_mac (request p)\<rparr>)]"
        by (auto simp: handle_found_def Let_def split: option.splits)
      note nt = next_token_Some [OF n]
      have core: "same_core ?d ?p" by (simp add: same_core_def)
      have nr: "\<not> reserved ?p ?n" using d(2) c(1) True by (auto simp: scans_told_def reserved_def)
      have "disc_ok ?p" "gens ?p = gens ?d" "toks ?p = toks ?d" using same_core_ok [OF core] c(3) by simp_all
      with put_lease [of ?p ?n tok] free nr nt(2) c(4) toks show ?thesis
        by (simp add: delta_def o nt(1)) (simp add: gens_def)
    qed
  qed
qed

section \<open>Reconciliation\<close>

lemma expire_core:
  "case expire_pending gone now win ps d of (outs, rest, d') \<Rightarrow>
     same_core d d' \<and> spawned outs = {#} \<and> granted outs = {#}"
proof (induction ps arbitrary: d)
  case (Cons p ps)
  have step: "same_core d x \<Longrightarrow> (case expire_pending gone now win ps x of (outs, rest, d') \<Rightarrow>
      same_core d d' \<and> spawned outs = {#} \<and> granted outs = {#})" for x
    using Cons.IH [of x] same_core_trans by (auto split: prod.splits)
  show ?case
    using step [of d] step [of "d\<lparr>locations := AList.delete (br_mac (request p)) (locations d)\<rparr>"]
      step [of "d\<lparr>locations := AList.delete (br_mac (request p)) (AList.delete (br_mac (request p)) (locations d))\<rparr>"]
    by (auto simp: Let_def same_core_def age_pending_def split: prod.splits)
qed (simp add: same_core_def)

lemma reconcile_pending_core:
  assumes "reconcile_pending gone now d = (outs, d')"
  shows "same_core d d'" "spawned outs = {#}" "granted outs = {#}"
  using expire_core [where gone = gone and now = now and win = "scan_window (pending d)" and
      ps = "pending d" and d = "d\<lparr>pending := []\<rparr>"] assms
  by (auto simp: reconcile_pending_def same_core_def split: prod.splits)

lemma map_of_told:
  "map_of (map (\<lambda>(n, c). (n, f c)) m) k = map_option f (map_of m k)"
  by (induction m) auto

lemma spawned_stops [simp]: "spawned (map (StopCandidate \<circ> f) xs) = {#}" "granted (map (StopCandidate \<circ> f) xs) = {#}"
  by (induction xs) simp_all

lemma candidates_told:
  assumes "disc_ok d" "reconcile_candidates canonical d = (outs, d')"
  shows "delta d {#} outs d'" "scans_told d'"
proof -
  let ?f = "\<lambda>c. if must_close canonical d c then c\<lparr>closing := True\<rparr> else c"
  have d': "d' = d\<lparr>candidates := map (\<lambda>(n, c). (n, ?f c)) (candidates d)\<rparr>"
    and outs: "spawned outs = {#}" "granted outs = {#}"
    using assms(2) by (auto simp: reconcile_candidates_def comp_assoc)
  have keys: "map fst (candidates d') = map fst (candidates d)" by (simp add: d' comp_def case_prod_beta)
  have "map (\<lambda>(k, c). (k, generation c)) (candidates d') = map (\<lambda>(k, c). (k, generation c)) (candidates d)"
    by (auto simp: d')
  then have gens: "gens d' = gens d" by (simp add: gens_def entries_def)
  have look: "map_of (candidates d') n = map_option ?f (map_of (candidates d) n)" for n
    by (simp add: d' map_of_told del: if_split)
  have same: "leased d' = leased d" "reservations d' = reservations d" "sequence d' = sequence d"
    by (simp_all add: d')
  have "keys_distinct (candidates d')"
    unfolding keys_distinct_def keys using assms(1) by (simp add: disc_ok_def keys_distinct_def)
  with assms(1) have "disc_ok d'"
    by (auto simp: disc_ok_def same look reserved_def)
  with gens outs show "delta d {#} outs d'" by (simp add: delta_def) (simp add: d' toks_def)
  show "scans_told d'"
    unfolding scans_told_def
  proof (intro allI impI)
    fix n c
    assume "map_of (candidates d') n = Some c" and r: "reserved d' n"
    then obtain c0 where c0: "map_of (candidates d) n = Some c0" "c = ?f c0" by (auto simp: look)
    have "cand_locator c = cand_locator c0" "port_name (cand_locator c0) = n"
      using c0 assms(1) by (auto simp: disc_ok_def)
    with r have "must_close canonical d c0" by (auto simp: must_close_def d' reserved_def excluded_def)
    with c0(2) show "closing c" by simp
  qed
qed

lemma spawned_replies [simp]:
  "spawned (map (\<lambda>r. ExcludeReply r x) rs) = {#}" "granted (map (\<lambda>r. ExcludeReply r x) rs) = {#}"
  by (induction rs) simp_all

lemma spawned_owners [simp]:
  "spawned (map (OwnerReply \<circ> g) ys) = {#}" "granted (map (OwnerReply \<circ> g) ys) = {#}"
  by (induction ys) simp_all

lemma exclusions_core:
  "reconcile_exclusions canonical d = (outs, d') \<Longrightarrow>
     same_core d d' \<and> spawned outs = {#} \<and> granted outs = {#}"
  by (auto simp: reconcile_exclusions_def same_core_def split: if_splits)

lemma waiters_core:
  "reconcile_waiters gone d = (outs, d') \<Longrightarrow> same_core d d' \<and> spawned outs = {#} \<and> granted outs = {#}"
  by (auto simp: reconcile_waiters_def same_core_def Let_def)

text \<open>
  Granting reservations: the list still to do and the list that waits are distinct names that are
  not leased, and no granted name is among them.
\<close>

lemma grant_ok:
  assumes "grant_reservations gone alive rs d = Some (outs, waiting, d')" "disc_ok (d\<lparr>reservations := rs\<rparr>)"
  shows "disc_ok (d'\<lparr>reservations := waiting\<rparr>) \<and> gens d' = gens d \<and> toks d' = toks d + granted outs \<and>
    spawned outs = {#} \<and> candidates d' = candidates d \<and> exclusions d' = exclusions d \<and>
    set waiting \<subseteq> set rs \<and>
    (\<forall>n. (\<forall>p r. (p, r) \<in> set rs \<longrightarrow> port_name p \<noteq> n) \<longrightarrow> map_of (leased d') n = map_of (leased d) n)"
  using assms
proof (induction rs arbitrary: d outs waiting)
  case Nil
  then show ?case by auto
next
  case (Cons e rs)
  obtain port rep where e: "e = (port, rep)" by (cases e)
  let ?n = "port_name port"
  have rest: "disc_ok (d\<lparr>reservations := rs\<rparr>)"
    using Cons.prems(2) by (auto simp: disc_ok_def reserved_def)
  have "?n \<notin> set (map (port_name \<circ> fst) rs)" "map_of (leased d) ?n = None"
    using Cons.prems(2) e by (simp_all add: disc_ok_def reserved_def)
  then have fresh: "map_of (leased d) ?n = None" "\<forall>p r. (p, r) \<in> set rs \<longrightarrow> port_name p \<noteq> ?n"
    by force+
  consider (skip) "rep \<in> set gone \<or> map_of (candidates d) ?n = None \<and> \<not> alive"
    | (wait) "rep \<notin> set gone" "map_of (candidates d) ?n \<noteq> None"
    | (grant) "rep \<notin> set gone" "map_of (candidates d) ?n = None" "alive" by blast
  then show ?case
  proof cases
    case skip
    then have "grant_reservations gone alive rs d = Some (outs, waiting, d')"
      using Cons.prems(1) e by (auto split: if_splits)
    from Cons.IH [OF this rest] e show ?thesis by auto
  next
    case wait
    then obtain w where w: "grant_reservations gone alive rs d = Some (outs, w, d')" "waiting = (port, rep) # w"
      using Cons.prems(1) e by auto
    note ih = Cons.IH [OF w(1) rest]
    have "map_of (leased d') ?n = None" using ih fresh by metis
    moreover have "?n \<notin> port_name ` fst ` set w" using ih fresh(2) by force
    ultimately have "disc_ok (d'\<lparr>reservations := waiting\<rparr>)"
      using ih by (auto simp: disc_ok_def w(2) reserved_def)
    with ih w(2) e show ?thesis by auto
  next
    case grant
    then obtain tok d1 where n: "next_token d = Some (tok, d1)"
      using Cons.prems(1) e by (auto split: option.splits)
    note nt = next_token_Some [OF n]
    let ?o = "\<lparr>token = tok, owner_name = ''manual'', owner_locator = port\<rparr>"
    let ?d = "d\<lparr>sequence := tok, leased := AList.update ?n ?o (leased d)\<rparr>"
    from grant Cons.prems(1) e n nt(1) obtain o1 where
      g: "grant_reservations gone alive rs ?d = Some (o1, waiting, d')"
      "outs = ReserveReply rep (Inr \<lparr>res_port = ?n, res_token = tok\<rparr>) # o1" by auto
    have nr: "\<not> reserved (d\<lparr>reservations := rs\<rparr>) ?n"
      using fresh(2) by (auto simp: reserved_def list_ex_iff)
    have ok: "disc_ok (?d\<lparr>reservations := rs\<rparr>)" "toks ?d = add_mset (?n, tok) (toks d)"
      using put_lease [OF rest _ _ nr, of tok "''manual''" port] grant(2) fresh(1) nt(2)
      by (simp_all add: toks_def disc_ok_def reserved_def)
    note ih = Cons.IH [OF g(1) ok(1)]
    have gens: "gens d' = gens d" using ih by (simp add: gens_def)
    have others: "map_of (leased d') m = map_of (leased d) m"
      if m: "\<forall>p r. (p, r) \<in> set (e # rs) \<longrightarrow> port_name p \<noteq> m" for m
    proof -
      have "m \<noteq> ?n" using m e by auto
      then have "map_of (leased ?d) m = map_of (leased d) m" by (simp add: map_of_update)
      moreover have "\<forall>p r. (p, r) \<in> set rs \<longrightarrow> port_name p \<noteq> m" using m by simp
      with ih have "map_of (leased d') m = map_of (leased ?d) m" by blast
      ultimately show ?thesis by simp
    qed
    have "toks d' = toks d + granted outs" "spawned outs = {#}" "candidates d' = candidates d"
      "exclusions d' = exclusions d" "set waiting \<subseteq> set (e # rs)" using ih ok(2) by (auto simp: g(2))
    with gens ih others show ?thesis by blast
  qed
qed

lemma reservations_ok:
  assumes "reconcile_reservations gone alive d = Some (outs, d')" "disc_ok d" "scans_told d"
  shows "delta d {#} outs d'" "scans_told d'"
proof -
  from assms(1) obtain w d1 where g:
    "grant_reservations gone alive (reservations d) (d\<lparr>reservations := []\<rparr>) = Some (outs, w, d1)"
    "d' = d1\<lparr>reservations := w\<rparr>" by (auto simp: reconcile_reservations_def)
  have "disc_ok ((d\<lparr>reservations := []\<rparr>)\<lparr>reservations := reservations d\<rparr>)" using assms(2) by simp
  note ok = grant_ok [OF g(1) this]
  then show "delta d {#} outs d'" by (simp add: delta_def g(2)) (simp add: gens_def toks_def)
  show "scans_told d'"
    unfolding scans_told_def
  proof (intro allI impI)
    fix n c
    assume c: "map_of (candidates d') n = Some c" and r: "reserved d' n"
    have "map_of (candidates d) n = Some c" using c ok g(2) by simp
    moreover have "reserved d n" using r ok g(2) by (auto simp: reserved_def list_ex_iff)
    ultimately show "closing c" using assms(3) by (auto simp: scans_told_def)
  qed
qed

lemma start_scans_ok:
  assumes "start_scans canonical full all ls d = Some (outs, d')" "disc_ok d" "scans_told d"
  shows "delta d {#} outs d' \<and> scans_told d' \<and> exclusions d' = exclusions d \<and> pending d' = pending d \<and>
    (\<forall>n c. map_of (candidates d') n = Some c \<longrightarrow>
       map_of (candidates d) n = Some c \<or> \<not> excluded canonical d (cand_locator c))"
  using assms
proof (induction ls arbitrary: d outs)
  case Nil
  then show ?case by (simp add: delta_def)
next
  case (Cons l ls)
  show ?case
  proof (cases "port_taken canonical d l \<or> \<not> full \<and> \<not> cached d all l")
    case True
    with Cons show ?thesis by (auto split: if_splits)
  next
    case False
    let ?n = "port_name l"
    from False Cons.prems(1) obtain gen d1 where n: "next_token d = Some (gen, d1)"
      by (auto split: option.splits if_splits)
    note nt = next_token_Some [OF n]
    let ?c = "\<lparr>generation = gen, cand_locator = l, closing = False\<rparr>"
    let ?d1 = "d\<lparr>sequence := gen\<rparr>"
    let ?d = "?d1\<lparr>candidates := AList.update ?n ?c (candidates d)\<rparr>"
    from False Cons.prems(1) n nt(1) obtain o1 where
      g: "start_scans canonical full all ls ?d = Some (o1, d')" "outs = SpawnScan l gen # o1"
      by (auto split: if_splits)
    have free: "map_of (candidates ?d1) ?n = None" "map_of (leased ?d1) ?n = None"
      "\<not> excluded canonical d l" "\<not> reserved d ?n"
      using False by (auto simp: port_taken_def)
    have "token ow \<le> gen" if "map_of (leased d) m = Some ow" for m ow
      using that Cons.prems(2) nt(3) by (simp add: disc_ok_def)
    with Cons.prems(2) have d1: "disc_ok ?d1" by (simp add: disc_ok_def reserved_def)
    from put_scan [OF d1 free(1,2), of gen False]
    have ok: "disc_ok ?d" "gens ?d = add_mset (?n, gen) (gens d)" by (simp_all add: gens_def)
    have told: "scans_told ?d"
      using Cons.prems(3) free(3,4)
      by (auto simp: scans_told_def map_of_update reserved_def excluded_def)
    from Cons.IH [OF g(1) ok(1) told]
    have ih: "delta ?d {#} o1 d'" "scans_told d'" "exclusions d' = exclusions d" "pending d' = pending d"
      "\<forall>n c. map_of (candidates d') n = Some c \<longrightarrow>
         map_of (candidates ?d) n = Some c \<or> \<not> excluded canonical ?d (cand_locator c)" by simp_all
    have "delta d {#} outs d'" using ih(1) ok(2) by (simp add: delta_def g(2)) (simp add: toks_def)
    moreover have "map_of (candidates d) m = Some c \<or> \<not> excluded canonical d (cand_locator c)"
      if "map_of (candidates d') m = Some c" for m c
    proof -
      from that ih(5) have "map_of (candidates ?d) m = Some c \<or> \<not> excluded canonical ?d (cand_locator c)" by blast
      with free(3) show ?thesis by (cases "m = ?n") (auto simp: map_of_update excluded_def)
    qed
    ultimately show ?thesis using ih(2-4) by simp
  qed
qed

lemma scans_ok:
  assumes "reconcile_scans canonical now d = Some (outs, d')" "disc_ok d" "scans_told d"
  shows "delta d {#} outs d' \<and> scans_told d' \<and> exclusions d' = exclusions d \<and> pending d' = pending d \<and>
    (\<forall>n c. map_of (candidates d') n = Some c \<longrightarrow>
       map_of (candidates d) n = Some c \<or> \<not> excluded canonical d (cand_locator c))"
proof (cases "pending d = []")
  case True
  with assms show ?thesis by (auto simp: reconcile_scans_def delta_def)
next
  case False
  define dd where "dd = (if \<not> enumerating d \<and> next_enumeration d \<le> now
    then d\<lparr>enumerating := True, next_enumeration := now + millis 250\<rparr> else d)"
  have core: "same_core d dd" "pending dd = pending d" by (simp_all add: dd_def same_core_def)
  from assms(1) False obtain o2 pre where
    s: "start_scans canonical (list_ex scanning (pending dd)) (ports dd) (ports dd) dd = Some (o2, d')"
    and o: "outs = pre @ o2" "spawned pre = {#}" "granted pre = {#}"
    by (auto simp: reconcile_scans_def dd_def Let_def split: if_splits)
  have ok: "disc_ok dd" "scans_told dd" using same_core_ok [OF core(1)] assms(2,3) by auto
  from start_scans_ok [OF s ok] same_core_ok [OF core(1)] core o show ?thesis
    by (auto simp: delta_def same_core_def excluded_def)
qed

text \<open>Acknowledged exclusions and granted bindings among the outputs.\<close>

fun is_ack :: "action \<Rightarrow> bool" where
  "is_ack (ExcludeReply rep (Inr u)) = True"
| "is_ack a = False"

fun is_lease :: "action \<Rightarrow> bool" where
  "is_lease (BindReply rep (Inr l)) = True"
| "is_lease a = False"

definition plain :: "action list \<Rightarrow> bool" where
  "plain outs \<longleftrightarrow> list_all (\<lambda>a. \<not> is_ack a \<and> \<not> is_lease a) outs"

lemma plain_simps [simp]:
  "plain []" "plain (a @ b) \<longleftrightarrow> plain a \<and> plain b"
  "plain (x # a) \<longleftrightarrow> \<not> is_ack x \<and> \<not> is_lease x \<and> plain a"
  by (auto simp: plain_def)

lemma expire_plain: "plain (fst (expire_pending gone now win ps d))"
  by (induction ps arbitrary: d) (simp_all add: Let_def case_prod_beta)

lemma pending_plain: "reconcile_pending gone now d = (outs, d') \<Longrightarrow> plain outs"
  using expire_plain [of gone now "scan_window (pending d)" "pending d" "d\<lparr>pending := []\<rparr>"]
  by (auto simp: reconcile_pending_def Let_def case_prod_beta)

lemma candidates_plain: "reconcile_candidates canonical d = (outs, d') \<Longrightarrow> plain outs"
  by (auto simp: reconcile_candidates_def plain_def list_all_iff)

lemma waiters_plain: "reconcile_waiters gone d = (outs, d') \<Longrightarrow> plain outs"
  by (auto simp: reconcile_waiters_def Let_def plain_def list_all_iff)

lemma grant_plain: "grant_reservations gone alive rs d = Some (outs, w, d') \<Longrightarrow> plain outs"
  by (induction rs arbitrary: d outs w) (auto simp: Let_def split: if_splits option.splits)

lemma start_plain: "start_scans canonical full all ls d = Some (outs, d') \<Longrightarrow> plain outs"
  by (induction ls arbitrary: d outs) (auto simp: Let_def split: if_splits option.splits)

lemma scans_plain: "reconcile_scans canonical now d = Some (outs, d') \<Longrightarrow> plain outs"
  by (auto simp: reconcile_scans_def Let_def dest: start_plain split: if_splits)

text \<open>One reconciliation, and one round of the actor.\<close>

lemma reconcile_ok:
  assumes r: "reconcile canonical gone alive now d = Some (outs, d')" and d: "disc_ok d"
  shows "delta d {#} outs d'" "scans_told d'" "list_all (\<lambda>a. \<not> is_lease a) outs"
    "\<not> plain outs \<Longrightarrow> map_of (candidates d') n = Some c \<Longrightarrow> \<not> excluded canonical d' (cand_locator c)"
proof -
  obtain o1 d1 where r1: "reconcile_pending gone now d = (o1, d1)" by (cases "reconcile_pending gone now d")
  obtain o2 d2 where r2: "reconcile_candidates canonical d1 = (o2, d2)" by (cases "reconcile_candidates canonical d1")
  obtain o3 d3 where r3: "reconcile_exclusions canonical d2 = (o3, d3)" by (cases "reconcile_exclusions canonical d2")
  from r r1 r2 r3 obtain o4 d4 where r4: "reconcile_reservations gone alive d3 = Some (o4, d4)"
    by (auto simp: reconcile_def split: option.splits)
  obtain o5 d5 where r5: "reconcile_waiters gone d4 = (o5, d5)" by (cases "reconcile_waiters gone d4")
  from r r1 r2 r3 r4 r5 obtain o6 where r6: "reconcile_scans canonical now d5 = Some (o6, d')"
    and outs: "outs = o1 @ o2 @ o3 @ o4 @ o5 @ o6" by (auto simp: reconcile_def)
  have p1: "delta d {#} o1 d1" "disc_ok d1"
    using reconcile_pending_core [OF r1] same_core_ok(1) [of d d1] d delta_core [OF d] by auto
  have p2: "delta d1 {#} o2 d2" "scans_told d2" "disc_ok d2"
    using candidates_told [OF p1(2) r2] by (auto simp: delta_def)
  have p3: "delta d2 {#} o3 d3" "scans_told d3" "disc_ok d3" "same_core d2 d3"
    using exclusions_core [OF r3] same_core_ok [of d2 d3] p2 delta_core [OF p2(3)] by auto
  have p4: "delta d3 {#} o4 d4" "scans_told d4" "disc_ok d4"
    using reservations_ok [OF r4 p3(3,2)] by (auto simp: delta_def)
  have p5: "delta d4 {#} o5 d5" "scans_told d5" "disc_ok d5" "same_core d4 d5"
    using waiters_core [OF r5] same_core_ok [of d4 d5] p4 delta_core [OF p4(3)] by auto
  note p6 = scans_ok [OF r6 p5(3,2)]
  show "delta d {#} outs d'"
    using delta_trans [OF delta_trans [OF delta_trans [OF delta_trans [OF delta_trans [OF p1(1) p2(1)] p3(1)]
      p4(1)] p5(1)] conjunct1 [OF p6]] by (simp add: outs)
  show "scans_told d'" using p6 by blast
  from r4 obtain w d4' where g: "grant_reservations gone alive (reservations d3) (d3\<lparr>reservations := []\<rparr>) = Some (o4, w, d4')"
    "d4 = d4'\<lparr>reservations := w\<rparr>" by (auto simp: reconcile_reservations_def)
  have plains: "plain o1" "plain o2" "plain o4" "plain o5" "plain o6"
    using pending_plain [OF r1] candidates_plain [OF r2] grant_plain [OF g(1)] waiters_plain [OF r5]
      scans_plain [OF r6] by simp_all
  have ack3: "list_all (\<lambda>a. \<not> is_lease a) o3"
    "\<not> plain o3 \<Longrightarrow> \<not> any_value (candidates d2) (\<lambda>c. excluded canonical d2 (cand_locator c))"
    using r3 by (auto simp: reconcile_exclusions_def list_all_iff split: if_splits)
  with plains show "list_all (\<lambda>a. \<not> is_lease a) outs"
    by (auto simp: outs plain_def list_all_iff)
  assume np: "\<not> plain outs" and c: "map_of (candidates d') n = Some c"
  from np plains have "\<not> plain o3" by (auto simp: outs)
  with ack3(2) p2(3) have none: "map_of (candidates d2) m = Some x \<Longrightarrow> \<not> excluded canonical d2 (cand_locator x)" for m x
    by (auto simp: any_value_iff disc_ok_def)
  have "disc_ok ((d3\<lparr>reservations := []\<rparr>)\<lparr>reservations := reservations d3\<rparr>)" using p3(3) by simp
  from grant_ok [OF g(1) this] g(2) p3(4) p5(4)
  have keep: "candidates d5 = candidates d2" "exclusions d5 = exclusions d2" by (simp_all add: same_core_def)
  from p6 c have "map_of (candidates d5) n = Some c \<or> \<not> excluded canonical d5 (cand_locator c)" by blast
  then have "\<not> excluded canonical d5 (cand_locator c)" using none keep by (auto simp: excluded_def)
  then show "\<not> excluded canonical d' (cand_locator c)" using p6 by (simp add: excluded_def)
qed

text \<open>The part of a round before reconciliation.\<close>

definition actor_input_step ::
  "(string \<Rightarrow> string option) \<Rightarrow> nat list \<Rightarrow> bool \<Rightarrow> nat \<Rightarrow> actor_input \<Rightarrow> discovery \<Rightarrow>
     (action list \<times> discovery) option" where
  "actor_input_step canonical gone alive now i d =
     (case i of
        Command c \<Rightarrow> Some (handle_command canonical gone now c d)
      | Event e \<Rightarrow> handle_event gone alive now e d
      | Tick \<Rightarrow> Some ([], d))"

lemma actor_round_split:
  assumes "actor_round canonical gone alive now i d = Some (outs, d')"
  obtains o1 d1 o2 where "actor_input_step canonical gone alive now i d = Some (o1, d1)"
    "reconcile canonical gone alive now d1 = Some (o2, d')" "outs = o1 @ o2"
  using assms by (auto simp: actor_round_def actor_input_step_def split: option.splits)

section \<open>The actor and its surroundings\<close>

text \<open>
  The system around the actor: the scan and closing tasks that have not yet sent their last event,
  and the leases and reservations that have not yet been released. A task sends one last event, a
  lease is released by its drop; commands, faults, inventories and ticks come at any time.
\<close>

record serial_system =
  disc :: discovery
  tasks :: "(string \<times> u64) list"
  held :: "(string \<times> u64) list"

fun effect :: "serial_system \<Rightarrow> action \<Rightarrow> serial_system" where
  "effect s (SpawnScan l g) = s\<lparr>tasks := tasks s @ [(port_name l, g)]\<rparr>"
| "effect s (SpawnClose l g) = s\<lparr>tasks := tasks s @ [(port_name l, g)]\<rparr>"
| "effect s (BindReply rep (Inr l)) = s\<lparr>held := held s @ [(port_name (lease_locator l), lease_token l)]\<rparr>"
| "effect s (ReserveReply rep (Inr r)) = s\<lparr>held := held s @ [(res_port r, res_token r)]\<rparr>"
| "effect s a = s"

definition after :: "serial_system \<Rightarrow> action list \<times> discovery \<Rightarrow> serial_system" where
  "after s od = foldl effect (s\<lparr>disc := snd od\<rparr>) (fst od)"

text \<open>Which inputs the surroundings can produce, and what they give up with it.\<close>

fun enabled :: "serial_system \<Rightarrow> actor_input \<Rightarrow> bool" where
  "enabled s (Command (Release p t)) \<longleftrightarrow> (p, t) \<in> set (held s)"
| "enabled s (Event (Found l g i prefix)) \<longleftrightarrow> (port_name l, g) \<in> set (tasks s)"
| "enabled s (Event (Closed n g)) \<longleftrightarrow> (n, g) \<in> set (tasks s)"
| "enabled s i \<longleftrightarrow> True"

fun consume :: "serial_system \<Rightarrow> actor_input \<Rightarrow> serial_system" where
  "consume s (Command (Release p t)) = s\<lparr>held := remove1 (p, t) (held s)\<rparr>"
| "consume s (Event (Found l g i prefix)) = s\<lparr>tasks := remove1 (port_name l, g) (tasks s)\<rparr>"
| "consume s (Event (Closed n g)) = s\<lparr>tasks := remove1 (n, g) (tasks s)\<rparr>"
| "consume s i = s"

inductive system_step :: "serial_system \<Rightarrow> serial_system \<Rightarrow> bool" where
  round: "enabled s i \<Longrightarrow> actor_round canonical gone alive now i (disc s) = Some od \<Longrightarrow>
     system_step s (after (consume s i) od)"

definition serial_start :: "nat \<Rightarrow> serial_system" where
  "serial_start now = \<lparr>disc = discovery_new now, tasks = [], held = []\<rparr>"

inductive serial_reachable :: "serial_system \<Rightarrow> bool"
  where
  start: "serial_reachable (serial_start now)"
| step: "serial_reachable s \<Longrightarrow> system_step s s' \<Longrightarrow> serial_reachable s'"

definition system_ok :: "serial_system \<Rightarrow> bool" where
  "system_ok s \<longleftrightarrow>
     disc_ok (disc s) \<and> scans_told (disc s) \<and>
     mset (tasks s) = gens (disc s) \<and> mset (held s) = toks (disc s)"

lemma effects:
  "disc (foldl effect s outs) = disc s \<and> mset (tasks (foldl effect s outs)) = mset (tasks s) + spawned outs \<and>
     mset (held (foldl effect s outs)) = mset (held s) + granted outs"
proof (induction outs arbitrary: s)
  case (Cons a outs)
  show ?case
  proof (cases a)
    case (BindReply r x)
    then show ?thesis using Cons [of "effect s a"] by (cases x) simp_all
  next
    case (ReserveReply r x)
    then show ?thesis using Cons [of "effect s a"] by (cases x) simp_all
  qed (use Cons [of "effect s a"] in simp_all)
qed simp

lemma after_ok:
  assumes "delta d0 taken outs d'" "scans_told d'"
    "mset (tasks s) + taken = gens d0" "mset (held s) = toks d0"
  shows "system_ok (after s (outs, d'))"
proof -
  have "mset (tasks s) + spawned outs + taken = gens d' + taken"
    using assms(1,3) by (simp add: delta_def ac_simps)
  then have "mset (tasks s) + spawned outs = gens d'" by simp
  with assms(1,2,4) show ?thesis
    by (simp add: system_ok_def after_def effects delta_def)
qed

lemma mset_remove: "x \<in> set xs \<Longrightarrow> add_mset x (mset (remove1 x xs)) = mset xs"
  by simp

lemma input_ok:
  assumes s: "system_ok s" and e: "enabled s i"
    and st: "actor_input_step canonical gone alive now i (disc s) = Some (o1, d1)"
  obtains (result) d0 taken where "delta d0 taken o1 d1"
    "mset (tasks (consume s i)) + taken = gens d0" "mset (held (consume s i)) = toks d0"
proof -
  note ok = s [unfolded system_ok_def]
  have quiet: thesis if "delta (disc s) {#} o1 d1" "consume s i = s"
    using that(1) by (rule result [of "disc s" "{#}"]) (use ok that(2) in simp_all)
  show thesis
  proof (cases i)
    case (Command c)
    show thesis
    proof (cases "\<exists>p t. c = Release p t")
      case True
      then obtain p t where c: "c = Release p t" by blast
      with e ok Command have t: "(p, t) \<in># toks (disc s)" by (metis set_mset_mset enabled.simps(1))
      note rel = release_ok [OF _ t]
      from st Command c have "delta (handle_release p t (disc s)) {#} o1 d1"
        using rel(1) ok by (auto simp: actor_input_step_def delta_def)
      then show thesis by (rule result) (use rel(2,3) ok Command c in simp_all)
    next
      case False
      with st Command have "delta (disc s) {#} o1 d1"
        using command_ok [of canonical gone now c "disc s" o1 d1] ok
        by (simp add: actor_input_step_def delta_def)
      moreover have "consume s i = s" using False Command by (cases c) auto
      ultimately show thesis by (rule quiet)
    qed
  next
    case (Event ev)
    show thesis
    proof (cases ev)
      case (Found l g n prefix)
      with e ok Event have t: "(port_name l, g) \<in># gens (disc s)" by (metis set_mset_mset enabled.simps(2))
      with st Event Found have "delta (disc s) {#(port_name l, g)#} o1 d1"
        using found_ok [OF _ _ _ t, of gone alive now n prefix o1 d1] ok by (simp add: actor_input_step_def)
      then show thesis by (rule result) (use ok e t Event Found in simp_all)
    next
      case (Closed n g)
      with e ok Event have t: "(n, g) \<in># gens (disc s)" by (metis set_mset_mset enabled.simps(3))
      with st Event Closed have "delta (disc s) {#(n, g)#} o1 d1"
        using closed_ok [OF _ t] ok by (simp add: actor_input_step_def)
      then show thesis by (rule result) (use ok e t Event Closed in simp_all)
    next
      case (Inventory res)
      with st Event have "delta (disc s) {#} o1 d1"
        using ok by (intro delta_core) (auto simp: actor_input_step_def same_core_def split: sum.splits)
      then show thesis by (rule quiet) (simp add: Event Inventory)
    next
      case (Fault n err)
      with st Event have "delta (disc s) {#} o1 d1"
        using ok by (intro delta_core) (auto simp: actor_input_step_def same_core_def)
      then show thesis by (rule quiet) (simp add: Event Fault)
    qed
  next
    case Tick
    with st have "delta (disc s) {#} o1 d1"
      using ok by (intro delta_core) (auto simp: actor_input_step_def same_core_def)
    then show thesis by (rule quiet) (simp add: Tick)
  qed
qed

lemma system_step_ok:
  assumes "system_step s s'" "system_ok s"
  shows "system_ok s'"
  using assms(1)
proof cases
  case (round i canonical gone alive now od)
  obtain outs d' where od: "od = (outs, d')" by (cases od)
  obtain o1 d1 o2 where st: "actor_input_step canonical gone alive now i (disc s) = Some (o1, d1)"
    "reconcile canonical gone alive now d1 = Some (o2, d')" "outs = o1 @ o2"
    using actor_round_split round(3) od by blast
  obtain d0 taken where i: "delta d0 taken o1 d1"
    "mset (tasks (consume s i)) + taken = gens d0" "mset (held (consume s i)) = toks d0"
    using input_ok [OF assms(2) round(2) st(1)] .
  have "disc_ok d1" using i(1) by (simp add: delta_def)
  note rec = reconcile_ok [OF st(2) this]
  have "delta d0 taken outs d'" using delta_trans [OF i(1) rec(1)] st(3) by simp
  from after_ok [OF this rec(2) i(2,3)] show ?thesis by (simp add: round(1) od)
qed

lemma serial_reachable_ok: "serial_reachable s \<Longrightarrow> system_ok s"
proof (induction rule: serial_reachable.induct)
  case (start now)
  show ?case
    by (simp add: system_ok_def serial_start_def discovery_new_def disc_ok_def scans_told_def gens_def
        toks_def entries_def reserved_def)
qed (rule system_step_ok)

section \<open>A port is open once\<close>

lemma system_ok_exclusive:
  assumes "system_ok s"
  shows "distinct (map fst (tasks s) @ map fst (held s))"
proof -
  note ok = assms [unfolded system_ok_def disc_ok_def]
  have "image_mset fst (mset (tasks s)) = mset (map fst (candidates (disc s)))"
    "image_mset fst (mset (held s)) = mset (map fst (leased (disc s)))"
    using ok entries_keys by (simp_all add: gens_def toks_def)
  then have t: "mset (map fst (tasks s)) = mset (map fst (candidates (disc s)))"
    and h: "mset (map fst (held s)) = mset (map fst (leased (disc s)))" by simp_all
  have "distinct (map fst (candidates (disc s)) @ map fst (leased (disc s)))"
    using ok by (auto simp: keys_distinct_def) (metis map_of_eq_None_iff fst_conv image_eqI option.distinct(1))
  then show ?thesis
    using t h by (metis mset_append mset_eq_imp_distinct_iff)
qed

text \<open>
  C18: At every moment at most one scan, closing stream, lease or reservation holds a port, whatever
  commands, device answers, exclusions, reservations, releases and ticks arrive and in whatever
  order: the names of the ports of the running scan and closing tasks and of the leases and
  reservations that have not been given back are all different.
\<close>

theorem serial_port_exclusive:
  assumes "serial_reachable s"
  shows "distinct (map fst (tasks s) @ map fst (held s))"
  using system_ok_exclusive [OF serial_reachable_ok [OF assms]] .

definition demo_port :: "string \<Rightarrow> port_locator" where
  "demo_port n = \<lparr>port_name = n, aliases = [], serial_number = None\<rparr>"

definition demo_request :: bind_request where
  "demo_request = \<lparr>br_owner = ''lab'', br_generation = 1, br_mac = MacAddress 2 0 0 0 0 1, br_epoch = ''e'',
     br_serial_id = ''AB'', br_parameters = serial_parameters_default, br_deadline = secs 60\<rparr>"

definition demo_round :: "nat \<Rightarrow> actor_input \<Rightarrow> serial_system \<Rightarrow> serial_system" where
  "demo_round now i s =
     (case actor_round (\<lambda>_. None) [] True now i (disc s) of Some od \<Rightarrow> after (consume s i) od | None \<Rightarrow> s)"

lemma demo_round_reachable: "serial_reachable s \<Longrightarrow> enabled s i \<Longrightarrow> serial_reachable (demo_round now i s)"
  unfolding demo_round_def by (auto split: option.splits intro: serial_reachable.step system_step.round)

definition demo_started :: serial_system where
  "demo_started = demo_round 1 (Command (Bind demo_request 7)) (serial_start 0)"

definition demo_scanning :: serial_system where
  "demo_scanning = demo_round 2 (Event (Inventory (Inr [demo_port ''a'', demo_port ''b'']))) demo_started"

definition demo_bound :: serial_system where
  "demo_bound = demo_round 3 (Event (Found (demo_port ''a'') 1 ''AB'' [])) demo_scanning"

lemma demo_bound_reachable: "serial_reachable demo_scanning" "serial_reachable demo_bound"
proof -
  have "(''a'', 1) \<in> set (tasks demo_scanning)" by code_simp
  moreover show *: "serial_reachable demo_scanning"
    unfolding demo_scanning_def demo_started_def by (intro demo_round_reachable serial_reachable.start) simp_all
  ultimately show "serial_reachable demo_bound"
    unfolding demo_bound_def by (intro demo_round_reachable) (simp_all add: demo_port_def)
qed

lemma demo_bound_eval: "tasks demo_bound = [(''b'', 2)] \<and> held demo_bound = [(''a'', 3)]"
  by code_simp

theorem serial_port_exclusive_witness:
  "serial_reachable demo_bound \<and> held demo_bound \<noteq> [] \<and> tasks demo_bound \<noteq> [] \<and>
   distinct (map fst (tasks demo_bound) @ map fst (held demo_bound))"
  using serial_port_exclusive [OF demo_bound_reachable(2)] demo_bound_reachable demo_bound_eval by simp

section \<open>Exclusions\<close>

lemma input_plain:
  "actor_input_step canonical gone alive now i d = Some (o1, d1) \<Longrightarrow> list_all (\<lambda>a. \<not> is_ack a) o1"
  by (cases i) (auto simp: actor_input_step_def handle_bind_def handle_exclude_def handle_reserve_def
      handle_found_def Let_def elim!: handle_command.elims handle_event.elims split: if_splits option.splits)

lemma input_disc_ok:
  assumes "serial_reachable s" "enabled s i"
    "actor_input_step canonical gone alive now i (disc s) = Some (o1, d1)"
  shows "disc_ok d1"
  using input_ok [OF serial_reachable_ok [OF assms(1)] assms(2,3)] by (metis delta_def)

text \<open>
  When the actor tells the configuration that a new set of excluded ports is in force, no scan
  holds one of those ports any more and no stream of one is still being closed: an excluded port is
  free for its other user from that answer on.
\<close>

theorem exclusion_acknowledged:
  assumes s: "serial_reachable s" and e: "enabled s i"
    and r: "actor_round canonical gone alive now i (disc s) = Some (outs, d')"
    and a: "ExcludeReply rep (Inr ()) \<in> set outs"
    and c: "map_of (candidates d') n = Some c"
  shows "\<not> excluded canonical d' (cand_locator c)"
proof -
  obtain o1 d1 o2 where st: "actor_input_step canonical gone alive now i (disc s) = Some (o1, d1)"
    "reconcile canonical gone alive now d1 = Some (o2, d')" "outs = o1 @ o2"
    using actor_round_split [OF r] .
  have "ExcludeReply rep (Inr ()) \<in> set o2"
    using a st(3) input_plain [OF st(1)] by (auto simp: list_all_iff)
  then have "\<not> plain o2" by (force simp: plain_def list_all_iff)
  from reconcile_ok(4) [OF st(2) input_disc_ok [OF s e st(1)] this c] show ?thesis .
qed

definition demo_excluding :: serial_system where
  "demo_excluding = demo_round 3 (Command (Exclude [PathSel ''a''] 9)) demo_scanning"

lemma demo_excluding_reachable: "serial_reachable demo_excluding" "enabled demo_excluding (Event (Closed ''a'' 1))"
proof -
  show "serial_reachable demo_excluding"
    unfolding demo_excluding_def by (intro demo_round_reachable demo_bound_reachable) simp
  show "enabled demo_excluding (Event (Closed ''a'' 1))" by code_simp
qed

definition demo_excluded :: "action list \<times> discovery" where
  "demo_excluded = the (actor_round (\<lambda>_. None) [] True 4 (Event (Closed ''a'' 1)) (disc demo_excluding))"

lemma demo_excluded_eval:
  "actor_round (\<lambda>_. None) [] True 4 (Event (Closed ''a'' 1)) (disc demo_excluding) \<noteq> None"
  "ExcludeReply 9 (Inr ()) \<in> set (fst demo_excluded)"
  "map_option cand_locator (map_of (candidates (snd demo_excluded)) ''b'') = Some (demo_port ''b'')"
  by code_simp+

theorem exclusion_acknowledged_witness:
  "\<exists>c. map_of (candidates (snd demo_excluded)) ''b'' = Some c \<and>
       \<not> excluded (\<lambda>_. None) (snd demo_excluded) (cand_locator c)"
proof -
  from demo_excluded_eval(3) obtain c where c: "map_of (candidates (snd demo_excluded)) ''b'' = Some c" by auto
  have "actor_round (\<lambda>_. None) [] True 4 (Event (Closed ''a'' 1)) (disc demo_excluding) =
      Some (fst demo_excluded, snd demo_excluded)"
    using demo_excluded_eval(1) by (auto simp: demo_excluded_def)
  from exclusion_acknowledged [OF demo_excluding_reachable this demo_excluded_eval(2) c] c show ?thesis by blast
qed

section \<open>Bindings\<close>

lemma without_scan:
  "pending (if b then d\<lparr>candidates := x\<rparr> else d) = pending d"
  "sequence (if b then d\<lparr>candidates := x\<rparr> else d) = sequence d"
  by simp_all

lemma found_lease:
  assumes "handle_found gone alive now l gen i prefix d = Some (outs, d')"
    and "BindReply rep (Inr lease) \<in> set outs"
  shows "\<exists>p c. p \<in> set (pending d) \<and> reply p = rep \<and> waits_for gone now i p \<and>
     map_of (candidates d) (port_name l) = Some c \<and> generation c = gen \<and> \<not> closing c \<and>
     lease = \<lparr>lease_stream = gen, lease_prefix = prefix, lease_locator = l,
       lease_token = sequence d + 1, lease_mac = br_mac (request p)\<rparr>"
proof (cases "find (waits_for gone now i) (pending d)")
  case None
  with assms show ?thesis by (auto simp: handle_found_def Let_def without_scan)
next
  case (Some p)
  have p: "p \<in> set (pending d)" "waits_for gone now i p"
    using find_SomeD [OF Some] by simp_all
  from assms Some obtain c where c: "map_of (candidates d) (port_name l) = Some c" "generation c = gen" "\<not> closing c"
    "alive"
    by (cases "map_of (candidates d) (port_name l)") (auto simp: handle_found_def Let_def without_scan split: if_splits)
  with assms Some have "reply p = rep \<and> lease = \<lparr>lease_stream = gen, lease_prefix = prefix, lease_locator = l,
      lease_token = sequence d + 1, lease_mac = br_mac (request p)\<rparr>"
    by (auto simp: handle_found_def Let_def next_token_def without_scan split: if_splits)
  with p c show ?thesis by blast
qed

lemma input_lease:
  assumes "actor_input_step canonical gone alive now i d = Some (o1, d1)"
    and "BindReply rep (Inr lease) \<in> set o1"
  obtains l gen n prefix where "i = Event (Found l gen n prefix)"
    "handle_found gone alive now l gen n prefix d = Some (o1, d1)"
  using assms
  by (cases i) (auto simp: actor_input_step_def handle_bind_def handle_exclude_def handle_reserve_def
      Let_def elim!: handle_command.elims handle_event.elims split: if_splits)

text \<open>
  C20: A lease is handed out only when a scan reports the serial id that a pending request asks for,
  to that request, before its deadline and while its receiver listens; the scan is the one running
  on that port and has not been told to stop. The lease carries the stream the scan opened, the
  bytes it read and a fresh token, and the table records the port under that token.
\<close>

theorem bind_granted_sound:
  assumes s: "serial_reachable s" and e: "enabled s i"
    and r: "actor_round canonical gone alive now i (disc s) = Some (outs, d')"
    and b: "BindReply rep (Inr lease) \<in> set outs"
  shows "\<exists>l gen n prefix p c.
    i = Event (Found l gen n prefix) \<and> p \<in> set (pending (disc s)) \<and> reply p = rep \<and> rep \<notin> set gone \<and>
    br_serial_id (request p) = n \<and> now < br_deadline (request p) \<and>
    map_of (candidates (disc s)) (port_name l) = Some c \<and> generation c = gen \<and> \<not> closing c \<and>
    lease = \<lparr>lease_stream = gen, lease_prefix = prefix, lease_locator = l,
      lease_token = sequence (disc s) + 1, lease_mac = br_mac (request p)\<rparr> \<and>
    map_option token (map_of (leased d') (port_name l)) = Some (lease_token lease)"
proof -
  obtain o1 d1 o2 where st: "actor_input_step canonical gone alive now i (disc s) = Some (o1, d1)"
    "reconcile canonical gone alive now d1 = Some (o2, d')" "outs = o1 @ o2"
    using actor_round_split [OF r] .
  have d1: "disc_ok d1" using input_disc_ok [OF s e st(1)] .
  note rec = reconcile_ok [OF st(2) d1]
  from rec(3) b st(3) have b1: "BindReply rep (Inr lease) \<in> set o1" by (force simp: list_all_iff)
  obtain l gen n prefix where f: "i = Event (Found l gen n prefix)"
    "handle_found gone alive now l gen n prefix (disc s) = Some (o1, d1)"
    using input_lease [OF st(1) b1] .
  from found_lease [OF f(2) b1] obtain p c where p: "p \<in> set (pending (disc s))" "reply p = rep"
    "waits_for gone now n p" "map_of (candidates (disc s)) (port_name l) = Some c" "generation c = gen"
    "\<not> closing c" "lease = \<lparr>lease_stream = gen, lease_prefix = prefix, lease_locator = l,
       lease_token = sequence (disc s) + 1, lease_mac = br_mac (request p)\<rparr>" by blast
  have "(port_name l, lease_token lease) \<in># granted o1"
    using b1 p(7) unfolding granted_def by force
  moreover have "toks d1 = toks (disc s) + granted o1"
    using found_ok [OF f(2)] s e f(1) serial_reachable_ok [OF s]
    by (simp add: delta_def system_ok_def) (metis set_mset_mset)
  moreover have "toks d' = toks d1 + granted o2" using rec(1) by (simp add: delta_def)
  ultimately have "(port_name l, lease_token lease) \<in># toks d'" by simp
  then have "map_option token (map_of (leased d') (port_name l)) = Some (lease_token lease)"
    using rec(1) entries_mem [of "leased d'" "port_name l" "lease_token lease" token]
    by (auto simp: toks_def delta_def disc_ok_def)
  with f(1) p show ?thesis unfolding waits_for_def by blast
qed

definition demo_found :: "action list \<times> discovery" where
  "demo_found = the (actor_round (\<lambda>_. None) [] True 3 (Event (Found (demo_port ''a'') 1 ''AB'' [65]))
     (disc demo_scanning))"

definition demo_lease :: serial_lease where
  "demo_lease = \<lparr>lease_stream = 1, lease_prefix = [65], lease_locator = demo_port ''a'', lease_token = 3,
     lease_mac = MacAddress 2 0 0 0 0 1\<rparr>"

lemma demo_found_eval:
  "actor_round (\<lambda>_. None) [] True 3 (Event (Found (demo_port ''a'') 1 ''AB'' [65])) (disc demo_scanning) \<noteq> None"
  "BindReply 7 (Inr demo_lease) \<in> set (fst demo_found)"
  "enabled demo_scanning (Event (Found (demo_port ''a'') 1 ''AB'' [65]))"
  by code_simp+

theorem bind_granted_sound_witness:
  "\<exists>p. p \<in> set (pending (disc demo_scanning)) \<and> reply p = 7 \<and> br_serial_id (request p) = ''AB''"
proof -
  have r: "actor_round (\<lambda>_. None) [] True 3 (Event (Found (demo_port ''a'') 1 ''AB'' [65])) (disc demo_scanning) =
      Some (fst demo_found, snd demo_found)"
    using demo_found_eval(1) by (auto simp: demo_found_def)
  from bind_granted_sound [OF demo_bound_reachable(1) demo_found_eval(3) r demo_found_eval(2)]
  show ?thesis by auto
qed

section \<open>Every request is answered in time\<close>

fun answers :: "nat \<Rightarrow> action \<Rightarrow> bool" where
  "answers rep (BindReply r x) \<longleftrightarrow> r = rep"
| "answers rep a \<longleftrightarrow> False"

lemma expire_result:
  assumes "expire_pending gone now win ps d = (outs, rest, d')"
  shows "rest = filter (\<lambda>p. \<not> overdue now p) (map (age_pending now win) (filter (\<lambda>p. reply p \<notin> set gone) ps))"
    "p \<in> set ps \<Longrightarrow> reply p \<notin> set gone \<Longrightarrow> overdue now (age_pending now win p) \<Longrightarrow>
       list_ex (answers (reply p)) outs"
  using assms
proof (induction ps arbitrary: d outs rest d')
  case Nil
  { case 1 then show ?case by simp next case 2 then show ?case by simp }
next
  case (Cons q ps)
  have same: "reply (age_pending now win q) = reply q" by (simp add: age_pending_def Let_def)
  { case 1
    then show ?case using Cons.IH(1) by (auto simp: Let_def split: if_splits prod.splits)
  next
    case 2
    then show ?case using Cons.IH(2) same by (auto simp: Let_def split: if_splits prod.splits) }
qed

definition survivors :: "nat list \<Rightarrow> nat \<Rightarrow> pending_bind list \<Rightarrow> pending_bind list" where
  "survivors gone now ps =
     filter (\<lambda>p. \<not> overdue now p) (map (age_pending now (scan_window ps)) (filter (\<lambda>p. reply p \<notin> set gone) ps))"

lemma start_pending: "start_scans canonical full all ls d = Some (outs, d') \<Longrightarrow> pending d' = pending d"
  by (induction ls arbitrary: d outs) (auto simp: Let_def next_token_def split: if_splits option.splits)

lemma grant_pending: "grant_reservations gone alive rs d = Some (outs, w, d') \<Longrightarrow> pending d' = pending d"
  by (induction rs arbitrary: d outs w) (auto simp: Let_def next_token_def split: if_splits option.splits)

lemma reconcile_pending_result:
  assumes r: "reconcile canonical gone alive now d = Some (outs, d')"
  shows "pending d' = survivors gone now (pending d)"
    "p \<in> set (pending d) \<Longrightarrow> reply p \<notin> set gone \<Longrightarrow> overdue now (age_pending now (scan_window (pending d)) p) \<Longrightarrow>
       list_ex (answers (reply p)) outs"
proof -
  obtain o1 d1 where r1: "reconcile_pending gone now d = (o1, d1)" by (cases "reconcile_pending gone now d")
  obtain o2 d2 where r2: "reconcile_candidates canonical d1 = (o2, d2)" by (cases "reconcile_candidates canonical d1")
  obtain o3 d3 where r3: "reconcile_exclusions canonical d2 = (o3, d3)" by (cases "reconcile_exclusions canonical d2")
  from r r1 r2 r3 obtain o4 d4 where r4: "reconcile_reservations gone alive d3 = Some (o4, d4)"
    by (auto simp: reconcile_def split: option.splits)
  obtain o5 d5 where r5: "reconcile_waiters gone d4 = (o5, d5)" by (cases "reconcile_waiters gone d4")
  from r r1 r2 r3 r4 r5 obtain o6 where r6: "reconcile_scans canonical now d5 = Some (o6, d')"
    and outs: "outs = o1 @ o2 @ o3 @ o4 @ o5 @ o6" by (auto simp: reconcile_def)
  have "pending d' = pending d5"
    using r6 start_pending by (fastforce simp: reconcile_scans_def Let_def split: if_splits)
  also have "\<dots> = pending d4" using r5 by (auto simp: reconcile_waiters_def Let_def)
  also have "\<dots> = pending d3" using r4 grant_pending by (fastforce simp: reconcile_reservations_def)
  also have "\<dots> = pending d2" using r3 by (auto simp: reconcile_exclusions_def split: if_splits)
  also have "\<dots> = pending d1" using r2 by (auto simp: reconcile_candidates_def)
  finally have p: "pending d' = pending d1" .
  obtain rest e where x: "expire_pending gone now (scan_window (pending d)) (pending d) (d\<lparr>pending := []\<rparr>) = (o1, rest, e)"
    "pending d1 = rest"
    using r1 by (auto simp: reconcile_pending_def Let_def split: prod.splits)
  show "pending d' = survivors gone now (pending d)"
    using expire_result(1) [OF x(1)] x(2) p by (simp add: survivors_def)
  show "list_ex (answers (reply p)) outs"
    if "p \<in> set (pending d)" "reply p \<notin> set gone" "overdue now (age_pending now (scan_window (pending d)) p)"
    using expire_result(2) [OF x(1) that] outs by auto
qed

lemma remove_first_mem: "p \<in> set ps \<Longrightarrow> p \<in> set (remove_first P ps) \<or> find P ps = Some p"
  by (induction ps) auto

lemma input_pending:
  assumes "actor_input_step canonical gone alive now i d = Some (o1, d1)" "p \<in> set (pending d)"
  shows "p \<in> set (pending d1) \<or> list_ex (answers (reply p)) o1 \<or>
    (\<exists>r rep. i = Command (Bind r rep) \<and> rep \<notin> set gone \<and> superseded_by r p)"
proof (cases i)
  case (Command c)
  with assms show ?thesis
    by (cases c) (auto simp: actor_input_step_def handle_bind_def handle_exclude_def handle_reserve_def
      handle_release_def handle_confirm_def Let_def filter_empty_conv split: if_splits)
next
  case (Event ev)
  show ?thesis
  proof (cases ev)
    case (Found l gen n prefix)
    with assms Event have f: "handle_found gone alive now l gen n prefix d = Some (o1, d1)"
      by (simp add: actor_input_step_def)
    then show ?thesis
      using assms(2) remove_first_mem [OF assms(2), of "waits_for gone now n"]
      by (auto simp: handle_found_def Let_def without_scan next_token_def split: option.splits if_splits)
  qed (use assms Event in \<open>auto simp: actor_input_step_def handle_closed_def Let_def split: option.splits sum.splits\<close>)
qed (use assms in \<open>simp add: actor_input_step_def\<close>)

lemma round_pending:
  assumes r: "actor_round canonical gone alive now i d = Some (outs, d')"
  shows "\<forall>p\<in>set (pending d).
      (\<exists>q\<in>set (pending d'). request q = request p \<and> reply q = reply p \<and> started q = started p) \<or>
      list_ex (answers (reply p)) outs \<or> reply p \<in> set gone \<or>
      (\<exists>r rep. i = Command (Bind r rep) \<and> rep \<notin> set gone \<and> superseded_by r p)"
    and "\<forall>q\<in>set (pending d'). reply q \<notin> set gone \<and> now < br_deadline (request q) \<and>
      (scanning q \<longrightarrow> now < scan_deadline q)"
proof -
  obtain o1 d1 o2 where st: "actor_input_step canonical gone alive now i d = Some (o1, d1)"
    "reconcile canonical gone alive now d1 = Some (o2, d')" "outs = o1 @ o2"
    using actor_round_split [OF r] .
  note res = reconcile_pending_result [OF st(2)]
  have same: "request (age_pending now win p) = request p" "reply (age_pending now win p) = reply p"
    "started (age_pending now win p) = started p" for win p
    by (simp_all add: age_pending_def Let_def)
  show "\<forall>q\<in>set (pending d'). reply q \<notin> set gone \<and> now < br_deadline (request q) \<and>
      (scanning q \<longrightarrow> now < scan_deadline q)"
    by (auto simp: res(1) survivors_def overdue_def same)
  show "\<forall>p\<in>set (pending d).
      (\<exists>q\<in>set (pending d'). request q = request p \<and> reply q = reply p \<and> started q = started p) \<or>
      list_ex (answers (reply p)) outs \<or> reply p \<in> set gone \<or>
      (\<exists>r rep. i = Command (Bind r rep) \<and> rep \<notin> set gone \<and> superseded_by r p)"
  proof
    fix p
    assume p: "p \<in> set (pending d)"
    let ?q = "age_pending now (scan_window (pending d1)) p"
    have "\<exists>q\<in>set (pending d'). request q = request p \<and> reply q = reply p \<and> started q = started p"
      if "p \<in> set (pending d1)" "reply p \<notin> set gone" "\<not> overdue now ?q"
    proof -
      have "?q \<in> set (pending d')" using that by (auto simp: res(1) survivors_def)
      with same show ?thesis by blast
    qed
    with input_pending [OF st(1) p] res(2) [of p] st(3)
    show "(\<exists>q\<in>set (pending d'). request q = request p \<and> reply q = reply p \<and> started q = started p) \<or>
      list_ex (answers (reply p)) outs \<or> reply p \<in> set gone \<or>
      (\<exists>r rep. i = Command (Bind r rep) \<and> rep \<notin> set gone \<and> superseded_by r p)"
      by auto
  qed
qed

text \<open>
  C19: No bind request is forgotten. After every round of the actor each request that was pending
  is either still pending (the same request on the same channel, with its start unchanged), or has
  been answered, or has been superseded by a later boot of the same owner and device, or nobody
  listens for the answer any more; and whatever is still pending has its deadline in the future,
  for a full scan also the deadline of the scan, so that a request is answered by the first round
  after its deadline.
\<close>

theorem bind_answered:
  assumes r: "actor_round canonical gone alive now i d = Some (outs, d')"
  shows "(\<forall>p\<in>set (pending d).
      (\<exists>q\<in>set (pending d'). request q = request p \<and> reply q = reply p \<and> started q = started p) \<or>
      list_ex (answers (reply p)) outs \<or> reply p \<in> set gone \<or>
      (\<exists>r rep. i = Command (Bind r rep) \<and> rep \<notin> set gone \<and> superseded_by r p)) \<and>
    (\<forall>q\<in>set (pending d'). reply q \<notin> set gone \<and> now < br_deadline (request q) \<and>
      (scanning q \<longrightarrow> now < scan_deadline q))"
  using round_pending [OF r] by (rule conjI)

definition demo_expired :: "action list \<times> discovery" where
  "demo_expired = the (actor_round (\<lambda>_. None) [] True (secs 6) Tick (disc demo_scanning))"

lemma demo_expired_eval:
  "actor_round (\<lambda>_. None) [] True (secs 6) Tick (disc demo_scanning) \<noteq> None"
  "map reply (pending (disc demo_scanning)) = [7]" "pending (snd demo_expired) = []"
  by code_simp+

theorem bind_answered_witness:
  "list_ex (answers 7) (fst demo_expired)"
proof -
  have r: "actor_round (\<lambda>_. None) [] True (secs 6) Tick (disc demo_scanning) =
      Some (fst demo_expired, snd demo_expired)"
    using demo_expired_eval(1) by (auto simp: demo_expired_def)
  from demo_expired_eval(2) obtain p where "p \<in> set (pending (disc demo_scanning))" "reply p = 7"
    by (metis list.set_intros(1) in_set_conv_nth length_map nth_map)
  with bind_answered [OF r] demo_expired_eval(3) show ?thesis by auto
qed

end
