(* ===== verification/Serial_Scan.thy ===== *)
theory Serial_Scan
  imports Serial_Manager "HOL-Library.Code_Target_Nat"
begin

text \<open>
  The task that scans one port (\<open>scan\<close> in \<open>ostool-serial/src/manager.rs\<close>): it opens the port with
  the first set of parameters that works, then listens for the identity of a device some pending
  request asks for, trying the parameters of the requests in turn.

  What the task observes is given: the flag \<open>stop\<close> and the list \<open>expected\<close> whenever it reads them,
  the results of opening, configuring and reading, and which branch of its \<open>select!\<close> is ready. One
  iteration of the loop is one turn. A panic is \<open>None\<close>.
\<close>

section \<open>The parameters to try\<close>

fun parity_rank :: "serial_parity \<Rightarrow> nat" where
  "parity_rank ParityNone = 0"
| "parity_rank Odd = 1"
| "parity_rank Even = 2"
| "parity_rank Mark = 3"
| "parity_rank Space = 4"

fun stop_rank :: "serial_stop_bits \<Rightarrow> nat" where
  "stop_rank One = 0"
| "stop_rank OnePointFive = 1"
| "stop_rank Two = 2"

fun flow_rank :: "serial_flow_control \<Rightarrow> nat" where
  "flow_rank FlowNone = 0"
| "flow_rank RtsCts = 1"

text \<open>The derived order of \<open>SerialParameters\<close>, and its derived \<open>Debug\<close> text.\<close>

definition parameters_rank :: "serial_parameters \<Rightarrow> nat list" where
  "parameters_rank p =
     [unat (baud_rate p), unat (data_bits p), parity_rank (parity p), stop_rank (stop_bits p),
      flow_rank (flow_control p)]"

fun parity_text :: "serial_parity \<Rightarrow> string" where
  "parity_text ParityNone = ''None''"
| "parity_text Odd = ''Odd''"
| "parity_text Even = ''Even''"
| "parity_text Mark = ''Mark''"
| "parity_text Space = ''Space''"

fun stop_text :: "serial_stop_bits \<Rightarrow> string" where
  "stop_text One = ''One''"
| "stop_text OnePointFive = ''OnePointFive''"
| "stop_text Two = ''Two''"

fun flow_text :: "serial_flow_control \<Rightarrow> string" where
  "flow_text FlowNone = ''None''"
| "flow_text RtsCts = ''RtsCts''"

definition parameters_text :: "serial_parameters \<Rightarrow> string" where
  "parameters_text p =
     ''SerialParameters { baud_rate: '' @ dec_str (unat (baud_rate p)) @ '', data_bits: '' @
     dec_str (unat (data_bits p)) @ '', parity: '' @ parity_text (parity p) @ '', stop_bits: '' @
     stop_text (stop_bits p) @ '', flow_control: '' @ flow_text (flow_control p) @ '' }''"

type_synonym expectation = "(string \<times> serial_parameters) list"

definition wanted_parameters :: "expectation \<Rightarrow> serial_parameters list" where
  "wanted_parameters e = sort_key parameters_rank (remdups (map snd e))"

section \<open>Opening\<close>

datatype io_kind = WouldBlock | PermissionDenied | OtherKind

record port_error =
  io_kind :: io_kind
  io_message :: string

text \<open>
  \<open>stopped p\<close> is the flag as read before the attempt with the parameters \<open>p\<close>, \<open>open_with p\<close> the
  result of that attempt.
\<close>

fun scan_open ::
  "string \<Rightarrow> (serial_parameters \<Rightarrow> bool) \<Rightarrow> (serial_parameters \<Rightarrow> port_error option) \<Rightarrow>
     serial_parameters list \<Rightarrow> event list \<times> serial_parameters option" where
  "scan_open name stopped open_with [] = ([], None)"
| "scan_open name stopped open_with (p # ps) =
     (if stopped p then ([], None)
      else
        case open_with p of
          None \<Rightarrow> ([], Some p)
        | Some e \<Rightarrow>
            let fault = Fault name (''open/configure '' @ parameters_text p @ '': '' @ io_message e) in
            if io_kind e = WouldBlock \<or> io_kind e = PermissionDenied then ([fault], None)
            else let (evs, r) = scan_open name stopped open_with ps in (fault # evs, r))"

section \<open>Listening\<close>

record scan_state =
  sc_decoder :: frame_decoder
  history :: bytes
  parameter_index :: nat
  active :: "serial_parameters option"

definition scan_started :: "serial_parameters \<Rightarrow> scan_state" where
  "scan_started p =
     \<lparr>sc_decoder = decoder_default, history = [], parameter_index = 0, active = Some p\<rparr>"

definition HISTORY_LIMIT :: nat where
  "HISTORY_LIMIT = 64 * 1024"

definition remember :: "bytes \<Rightarrow> bytes \<Rightarrow> bytes" where
  "remember h bs = drop (length (h @ bs) - HISTORY_LIMIT) (h @ bs)"

definition expects :: "expectation \<Rightarrow> serial_parameters option \<Rightarrow> string \<Rightarrow> bool" where
  "expects e act i \<longleftrightarrow> list_ex (\<lambda>(n, p). n = i \<and> Some p = act) e"

text \<open>Feeding the decoder until an expected identity is complete.\<close>

fun scan_bytes ::
  "expectation \<Rightarrow> serial_parameters option \<Rightarrow> frame_decoder \<Rightarrow> bytes \<Rightarrow> (string option \<times> frame_decoder) option"
  where
  "scan_bytes e act d [] = Some (None, d)"
| "scan_bytes e act d (b # bs) =
     (let (r, d') = decoder_push d b in
      case r of
        None \<Rightarrow> scan_bytes e act d' bs
      | Some i \<Rightarrow>
          (case from_utf8 i of
             None \<Rightarrow> None
           | Some i \<Rightarrow> if expects e act i then Some (Some i, d') else scan_bytes e act d' bs))"

datatype wake =
    StopChanged bool
  | ExpectedChanged bool
  | Rotation "serial_parameters \<Rightarrow> string option"
  | ReadDone "port_error + bytes"

text \<open>
  A turn: the flag at the top of the loop, the branch that is ready (for the two watch channels
  whether the sender is gone, for the rotation what configuring the port gives, for a read its
  result), and the flag and the expectations as the branch sees them.
\<close>

record scan_turn =
  stop_before :: bool
  wake_up :: wake
  stop_now :: bool
  expected_now :: expectation

datatype outcome = Listening scan_state | Broken | Identified string bytes

text \<open>\<open>xs[i % xs.len()]\<close>: the remainder by zero and an index out of range panic.\<close>

definition checked_rem :: "nat \<Rightarrow> nat \<Rightarrow> nat option" where
  "checked_rem i n = (if n = 0 then None else Some (i mod n))"

definition list_index :: "'a list \<Rightarrow> nat \<Rightarrow> 'a option" where
  "list_index xs i = (if i < length xs then Some (xs ! i) else None)"

definition rotate_parameters ::
  "string \<Rightarrow> (serial_parameters \<Rightarrow> string option) \<Rightarrow> expectation \<Rightarrow> scan_state \<Rightarrow>
     (event list \<times> outcome) option" where
  "rotate_parameters name configure e st =
     (let ps = wanted_parameters e in
      if ps = [] then Some ([], Broken)
      else
        map_option (\<lambda>next.
          let (evs, st) =
              (if Some next \<noteq> active st then
                 let (evs, act) = (case configure next of
                     None \<Rightarrow> ([], Some next)
                   | Some err \<Rightarrow>
                       ([Fault name (''configure '' @ parameters_text next @ '': '' @ err)], None))
                 in (evs, st\<lparr>active := act, sc_decoder := decoder_default\<rparr>)
               else ([], st))
          in (evs, Listening (st\<lparr>parameter_index := parameter_index st + 1\<rparr>)))
          (Option.bind (checked_rem (parameter_index st) (length ps)) (list_index ps)))"

definition handle_read ::
  "string \<Rightarrow> port_error + bytes \<Rightarrow> expectation \<Rightarrow> scan_state \<Rightarrow> (event list \<times> outcome) option" where
  "handle_read name res e st =
     (case res of
        Inl err \<Rightarrow> Some ([Fault name (io_message err)], Broken)
      | Inr bs \<Rightarrow>
          if bs = [] then Some ([Fault name ''serial reader closed''], Broken)
          else
            let h = remember (history st) bs in
            map_option (\<lambda>(r, d). ([], case r of
                Some i \<Rightarrow> Identified i h
              | None \<Rightarrow> Listening (st\<lparr>history := h, sc_decoder := d\<rparr>)))
              (scan_bytes e (active st) (sc_decoder st) bs))"

definition take_turn :: "string \<Rightarrow> scan_turn \<Rightarrow> scan_state \<Rightarrow> (event list \<times> outcome) option" where
  "take_turn name t st =
     (if stop_before t then Some ([], Broken)
      else
        case wake_up t of
          StopChanged closed \<Rightarrow> Some ([], if closed \<or> stop_now t then Broken else Listening st)
        | ExpectedChanged closed \<Rightarrow>
            Some ([], if closed \<or> expected_now t = [] then Broken else Listening st)
        | Rotation configure \<Rightarrow> rotate_parameters name configure (expected_now t) st
        | ReadDone res \<Rightarrow> handle_read name res (expected_now t) st)"

text \<open>The loop over given turns; the flag of the result is whether the task has ended.\<close>

fun scan_loop :: "port_locator \<Rightarrow> u64 \<Rightarrow> scan_turn list \<Rightarrow> scan_state \<Rightarrow> (event list \<times> bool) option" where
  "scan_loop l gen [] st = Some ([], False)"
| "scan_loop l gen (t # ts) st =
     (case take_turn (port_name l) t st of
        None \<Rightarrow> None
      | Some (evs, Broken) \<Rightarrow> Some (evs @ [Closed (port_name l) gen], True)
      | Some (evs, Identified i h) \<Rightarrow> Some (evs @ [Found l gen i h], True)
      | Some (evs, Listening st') \<Rightarrow>
          map_option (\<lambda>(evs', over). (evs @ evs', over)) (scan_loop l gen ts st'))"

definition scan ::
  "port_locator \<Rightarrow> u64 \<Rightarrow> expectation \<Rightarrow> (serial_parameters \<Rightarrow> bool) \<Rightarrow>
     (serial_parameters \<Rightarrow> port_error option) \<Rightarrow> scan_turn list \<Rightarrow> (event list \<times> bool) option" where
  "scan l gen e stopped open_with ts =
     (case scan_open (port_name l) stopped open_with (wanted_parameters e) of
        (evs, None) \<Rightarrow> Some (evs @ [Closed (port_name l) gen], True)
      | (evs, Some p) \<Rightarrow>
          map_option (\<lambda>(evs', over). (evs @ evs', over)) (scan_loop l gen ts (scan_started p)))"

section \<open>What a scan reports\<close>

fun final_of :: "event \<Rightarrow> (string \<times> u64) option" where
  "final_of (Found l g i prefix) = Some (port_name l, g)"
| "final_of (Closed n g) = Some (n, g)"
| "final_of e = None"

definition faults :: "event list \<Rightarrow> bool" where
  "faults evs \<longleftrightarrow> list_all (\<lambda>e. final_of e = None) evs"

lemma faults_simps [simp]:
  "faults []" "faults (Fault n x # evs) = faults evs" "faults (a @ b) \<longleftrightarrow> faults a \<and> faults b"
  by (simp_all add: faults_def)

lemma map_filter_append: "List.map_filter f (xs @ ys) = List.map_filter f xs @ List.map_filter f ys"
  by (simp add: List.map_filter_def)

lemma faults_finals: "faults evs \<Longrightarrow> List.map_filter final_of evs = []"
  by (simp add: faults_def List.map_filter_def list_all_iff)

lemma faults_found: "faults evs \<Longrightarrow> Found l g i prefix \<notin> set evs"
  by (auto simp: faults_def list_all_iff)

lemma pushed_id:
  assumes "decoder_push d b = (Some i, d')"
  obtains s where "from_utf8 i = Some s" "valid_serial_id s"
  using assms by (auto simp: decoder_push_def Let_def beacon_id_def bind_eq_Some_conv split: if_splits)

lemma scan_bytes_total: "\<exists>r d'. scan_bytes e act d bs = Some (r, d') \<and>
   (\<forall>i. r = Some i \<longrightarrow> valid_serial_id i \<and> expects e act i)"
proof (induction bs arbitrary: d)
  case (Cons b bs)
  show ?case
  proof (cases "decoder_push d b")
    case (Pair r d')
    show ?thesis
    proof (cases r)
      case (Some i)
      with Pair obtain s where "from_utf8 i = Some s" "valid_serial_id s" using pushed_id by metis
      with Some Pair Cons [of d'] show ?thesis by auto
    qed (use Pair Cons [of d'] in simp)
  qed
qed simp

definition turn_bytes :: "scan_turn \<Rightarrow> bytes" where
  "turn_bytes t = (case wake_up t of ReadDone (Inr bs) \<Rightarrow> (if stop_before t then [] else bs) | _ \<Rightarrow> [])"

lemma remember_rev: "remember h bs = rev (take HISTORY_LIMIT (rev bs @ rev h))"
  by (cases "length bs \<le> HISTORY_LIMIT") (simp_all add: remember_def rev_take)

lemma remember_remember: "remember (remember h a) b = remember h (a @ b)"
  by (simp add: remember_rev min_def)

lemma remember_Nil: "length h \<le> HISTORY_LIMIT \<Longrightarrow> remember h [] = h"
  by (simp add: remember_def)

lemma remember_length: "length (remember h bs) \<le> HISTORY_LIMIT"
  by (simp add: remember_def)

lemma index_rem:
  "xs \<noteq> [] \<Longrightarrow> Option.bind (checked_rem i (length xs)) (list_index xs) = Some (xs ! (i mod length xs))"
  by (simp add: checked_rem_def list_index_def)

text \<open>One turn never panics; it reports faults, and the history stays the end of what was read.\<close>

lemma take_turn_ok:
  "\<exists>evs r. take_turn name t st = Some (evs, r) \<and> faults evs \<and>
     (\<forall>st'. r = Listening st' \<longrightarrow> length (history st) \<le> HISTORY_LIMIT \<longrightarrow>
        history st' = remember (history st) (turn_bytes t)) \<and>
     (\<forall>i h. r = Identified i h \<longrightarrow> valid_serial_id i \<and> expects (expected_now t) (active st) i \<and>
        h = remember (history st) (turn_bytes t))"
proof (cases "stop_before t")
  case True
  then show ?thesis by (simp add: take_turn_def)
next
  case False
  show ?thesis
  proof (cases "wake_up t")
    case (Rotation configure)
    with False show ?thesis
      by (auto simp: take_turn_def rotate_parameters_def index_rem turn_bytes_def remember_Nil Let_def
          split: option.splits)
  next
    case (ReadDone res)
    show ?thesis
    proof (cases res)
      case (Inr bs)
      obtain r d' where "scan_bytes (expected_now t) (active st) (sc_decoder st) bs = Some (r, d')"
        "\<forall>i. r = Some i \<longrightarrow> valid_serial_id i \<and> expects (expected_now t) (active st) i"
        using scan_bytes_total by blast
      with Inr ReadDone False show ?thesis
        by (auto simp: take_turn_def handle_read_def turn_bytes_def Let_def split: option.splits)
    qed (use ReadDone False in \<open>simp add: take_turn_def handle_read_def\<close>)
  qed (use False in \<open>auto simp: take_turn_def turn_bytes_def remember_Nil\<close>)
qed

lemma scan_loop_ok:
  assumes "length (history st) \<le> HISTORY_LIMIT"
  shows "\<exists>evs over. scan_loop l gen ts st = Some (evs, over) \<and>
     List.map_filter final_of evs = (if over then [(port_name l, gen)] else []) \<and>
     (over \<longrightarrow> evs \<noteq> [] \<and> final_of (last evs) \<noteq> None) \<and>
     (\<forall>l' g i prefix. Found l' g i prefix \<in> set evs \<longrightarrow> l' = l \<and> g = gen \<and> valid_serial_id i \<and>
        (\<exists>k < length ts. (\<exists>p. (i, p) \<in> set (expected_now (ts ! k))) \<and>
           prefix = remember (history st) (concat (map turn_bytes (take (Suc k) ts)))))"
  using assms
proof (induction ts arbitrary: st)
  case Nil
  show ?case by (intro exI [of _ "[]"] exI [of _ False]) (simp add: List.map_filter_def)
next
  case (Cons t ts)
  obtain evs r where t: "take_turn (port_name l) t st = Some (evs, r)" "faults evs"
    "\<And>st'. r = Listening st' \<Longrightarrow> history st' = remember (history st) (turn_bytes t)"
    "\<And>i h. r = Identified i h \<Longrightarrow> valid_serial_id i \<and> expects (expected_now t) (active st) i \<and>
        h = remember (history st) (turn_bytes t)"
    using take_turn_ok [of "port_name l" t st] Cons.prems by blast
  show ?case
  proof (cases r)
    case (Listening st')
    with t(3) have h: "history st' = remember (history st) (turn_bytes t)" by simp
    then have "length (history st') \<le> HISTORY_LIMIT" by (simp add: remember_length)
    from Cons.IH [OF this] obtain evs' over where l: "scan_loop l gen ts st' = Some (evs', over)"
      "List.map_filter final_of evs' = (if over then [(port_name l, gen)] else [])"
      "over \<Longrightarrow> evs' \<noteq> [] \<and> final_of (last evs') \<noteq> None"
      and f: "\<And>l' g i prefix. Found l' g i prefix \<in> set evs' \<Longrightarrow> l' = l \<and> g = gen \<and> valid_serial_id i \<and>
        (\<exists>k < length ts. (\<exists>p. (i, p) \<in> set (expected_now (ts ! k))) \<and>
           prefix = remember (history st') (concat (map turn_bytes (take (Suc k) ts))))"
      by blast
    have "l' = l \<and> g = gen \<and> valid_serial_id i \<and>
        (\<exists>k < length (t # ts). (\<exists>p. (i, p) \<in> set (expected_now ((t # ts) ! k))) \<and>
           prefix = remember (history st) (concat (map turn_bytes (take (Suc k) (t # ts)))))"
      if "Found l' g i prefix \<in> set (evs @ evs')" for l' g i prefix
    proof -
      from that faults_found [OF t(2)] have "Found l' g i prefix \<in> set evs'" by auto
      from f [OF this] obtain k where "l' = l \<and> g = gen \<and> valid_serial_id i" "k < length ts"
        "\<exists>p. (i, p) \<in> set (expected_now (ts ! k))"
        "prefix = remember (history st') (concat (map turn_bytes (take (Suc k) ts)))" by blast
      then show ?thesis by (intro conjI exI [of _ "Suc k"]) (simp_all add: h remember_remember)
    qed
    with t(1,2) l Listening show ?thesis by (simp add: map_filter_append faults_finals)
  next
    case Broken
    show ?thesis
    proof (intro exI conjI allI impI)
      show "scan_loop l gen (t # ts) st = Some (evs @ [Closed (port_name l) gen], True)" using t(1) Broken by simp
      show "List.map_filter final_of (evs @ [Closed (port_name l) gen]) = (if True then [(port_name l, gen)] else [])"
        using t(2) by (simp add: map_filter_append faults_finals)
    qed (use faults_found [OF t(2)] in auto)
  next
    case (Identified i h)
    with t(4) have i: "valid_serial_id i" "expects (expected_now t) (active st) i"
      "h = remember (history st) (turn_bytes t)" by simp_all
    from i(2) have "\<exists>p. (i, p) \<in> set (expected_now t)" by (auto simp: expects_def list_ex_iff)
    with i have f: "\<exists>k < length (t # ts). (\<exists>p. (i, p) \<in> set (expected_now ((t # ts) ! k))) \<and>
        h = remember (history st) (concat (map turn_bytes (take (Suc k) (t # ts))))"
      by (intro exI [of _ 0]) simp
    have only: "l' = l \<and> g = gen \<and> j = i \<and> prefix = h"
      if "Found l' g j prefix \<in> set (evs @ [Found l gen i h])" for l' g j prefix
      using that faults_found [OF t(2)] by auto
    show ?thesis
    proof (intro exI [of _ "evs @ [Found l gen i h]"] exI [of _ True] conjI allI impI)
      show "scan_loop l gen (t # ts) st = Some (evs @ [Found l gen i h], True)" using t(1) Identified by simp
      show "List.map_filter final_of (evs @ [Found l gen i h]) = (if True then [(port_name l, gen)] else [])"
        using t(2) by (simp add: map_filter_append faults_finals)
      fix l' g j prefix
      assume "Found l' g j prefix \<in> set (evs @ [Found l gen i h])"
      then have "l' = l \<and> g = gen \<and> j = i \<and> prefix = h" by (rule only)
      then show "l' = l" "g = gen" "valid_serial_id j"
        "\<exists>k < length (t # ts). (\<exists>p. (j, p) \<in> set (expected_now ((t # ts) ! k))) \<and>
          prefix = remember (history st) (concat (map turn_bytes (take (Suc k) (t # ts))))"
        using i(1) f by blast+
    qed simp_all
  qed
qed

lemma scan_open_faults: "scan_open name stopped open_with ps = (evs, r) \<Longrightarrow> faults evs"
  by (induction ps arbitrary: evs) (auto simp: Let_def split: if_splits option.splits prod.splits)

lemma scan_split:
  obtains evs where "scan l gen e stopped open_with ts = Some (evs @ [Closed (port_name l) gen], True)" "faults evs"
  | evs p where "faults evs" "scan l gen e stopped open_with ts =
      map_option (\<lambda>(evs', over). (evs @ evs', over)) (scan_loop l gen ts (scan_started p))"
proof -
  obtain evs r where o: "scan_open (port_name l) stopped open_with (wanted_parameters e) = (evs, r)"
    by (cases "scan_open (port_name l) stopped open_with (wanted_parameters e)")
  then show thesis
    using that scan_open_faults [OF o] by (cases r) (auto simp: scan_def)
qed

text \<open>
  C37: A scan reports its end exactly once and last. Whatever the port and the other tasks do, the
  scan does not panic; while it runs it reports only faults, and when it ends it has sent one event
  that names its own port and generation, after everything else: the event that lets the actor
  reuse the port.
\<close>

theorem scan_reports_once:
  "\<exists>evs over. scan l gen e stopped open_with ts = Some (evs, over) \<and>
     List.map_filter final_of evs = (if over then [(port_name l, gen)] else []) \<and>
     (if over then evs \<noteq> [] \<and> final_of (last evs) \<noteq> None else True)"
proof (rule scan_split [of l gen e stopped open_with ts])
  fix evs p
  assume o: "faults evs" "scan l gen e stopped open_with ts =
      map_option (\<lambda>(evs', over). (evs @ evs', over)) (scan_loop l gen ts (scan_started p))"
  obtain evs' over where "scan_loop l gen ts (scan_started p) = Some (evs', over)"
    "List.map_filter final_of evs' = (if over then [(port_name l, gen)] else [])"
    "over \<longrightarrow> evs' \<noteq> [] \<and> final_of (last evs') \<noteq> None"
    using scan_loop_ok [of "scan_started p" l gen ts] by (auto simp: scan_started_def)
  with o show ?thesis by (simp add: map_filter_append faults_finals)
next
  fix evs
  assume "scan l gen e stopped open_with ts = Some (evs @ [Closed (port_name l) gen], True)" "faults evs"
  then show ?thesis
    by (intro exI [of _ "evs @ [Closed (port_name l) gen]"] exI [of _ True])
      (simp add: map_filter_append faults_finals)
qed

text \<open>
  A scan identifies a device only by what a request expects. The reported id is a well-formed
  serial id that was in the list of expected ids when the read that completed it was handled, and
  the bytes handed over with the stream are exactly the end of everything read until then, at most
  64 KiB of it.
\<close>

theorem scan_found_sound:
  assumes "scan l gen e stopped open_with ts = Some (evs, over)" "Found l' g i prefix \<in> set evs"
  shows "l' = l \<and> g = gen \<and> valid_serial_id i \<and>
    (\<exists>k < length ts. (\<exists>p. (i, p) \<in> set (expected_now (ts ! k))) \<and>
       prefix = remember [] (concat (map turn_bytes (take (Suc k) ts))))"
proof (rule scan_split [of l gen e stopped open_with ts])
  fix evs0 p
  assume o: "faults evs0" "scan l gen e stopped open_with ts =
      map_option (\<lambda>(evs', over). (evs0 @ evs', over)) (scan_loop l gen ts (scan_started p))"
  with assms(1) obtain evs' where l: "scan_loop l gen ts (scan_started p) = Some (evs', over)" "evs = evs0 @ evs'"
    by auto
  with assms(2) faults_found [OF o(1)] have "Found l' g i prefix \<in> set evs'" by auto
  with scan_loop_ok [of "scan_started p" l gen ts] l(1) show ?thesis
    by (auto simp: scan_started_def)
qed (use assms faults_found in \<open>auto\<close>)

lemma beacon_id_case [code]:
  "beacon_id l =
     (case strip_prefix SERIAL_BEACON_PREFIX l of
        None \<Rightarrow> None
      | Some i \<Rightarrow> (case from_utf8 i of None \<Rightarrow> None
          | Some t \<Rightarrow> if valid_serial_id t then Some i else None))"
  by (simp add: beacon_id_def split: option.split)

lemma scan_bytes_case [code]:
  "scan_bytes e act d [] = Some (None, d)"
  "scan_bytes e act d (b # bs) =
     (case fst (decoder_push d b) of
        None \<Rightarrow> scan_bytes e act (snd (decoder_push d b)) bs
      | Some i \<Rightarrow>
          (case from_utf8 i of
             None \<Rightarrow> None
           | Some i \<Rightarrow>
               if expects e act i then Some (Some i, snd (decoder_push d b))
               else scan_bytes e act (snd (decoder_push d b)) bs))"
  by (auto simp: case_prod_beta split: option.splits)

definition demo_id :: string where
  "demo_id = ''00112233445566778899aabbccddeeff''"

definition demo_line :: bytes where
  "demo_line = str_bytes ''AXLOADER-SERIAL/1 00112233445566778899aabbccddeeff'' @ [10, 65]"

definition demo_expected :: expectation where
  "demo_expected = [(demo_id, serial_parameters_default)]"

definition demo_turns :: "scan_turn list" where
  "demo_turns =
     [\<lparr>stop_before = False, wake_up = ReadDone (Inr demo_line), stop_now = False, expected_now = demo_expected\<rparr>]"

definition demo_locator :: port_locator where
  "demo_locator = \<lparr>port_name = ''/dev/ttyUSB0'', aliases = [], serial_number = None\<rparr>"

lemma demo_bytes:
  "map_option fst (scan_bytes demo_expected (Some serial_parameters_default) decoder_default demo_line) =
     Some (Some demo_id)"
  by code_simp

lemma demo_parts:
  "wanted_parameters demo_expected = [serial_parameters_default]" "demo_line \<noteq> []"
  "remember [] demo_line = demo_line"
  by code_simp+

lemma demo_scan_eval:
  "scan demo_locator 5 demo_expected (\<lambda>_. False) (\<lambda>_. None) demo_turns =
     Some ([Found demo_locator 5 demo_id demo_line], True)"
proof -
  from demo_bytes obtain d where
    "scan_bytes demo_expected (Some serial_parameters_default) decoder_default demo_line = Some (Some demo_id, d)"
    by auto
  then show ?thesis
    by (simp add: scan_def demo_parts demo_turns_def scan_started_def take_turn_def handle_read_def)
qed

theorem scan_found_sound_witness:
  "\<exists>evs. scan demo_locator 5 demo_expected (\<lambda>_. False) (\<lambda>_. None) demo_turns = Some (evs, True) \<and>
     Found demo_locator 5 demo_id demo_line \<in> set evs \<and> valid_serial_id demo_id"
proof -
  have m: "Found demo_locator 5 demo_id demo_line \<in> set [Found demo_locator 5 demo_id demo_line]" by simp
  from scan_found_sound [OF demo_scan_eval m] demo_scan_eval m show ?thesis by blast
qed

end
