(* ===== verification/Serial_Lease.thy ===== *)
theory Serial_Lease
  imports Serial_Manager
begin

text \<open>
  A serial lease in the hands of a session (\<open>SerialLease\<close> in \<open>ostool-serial/src/lib.rs\<close>): reading
  first drains the bytes the scan has read, then reads the stream and watches it for the identity
  of a new boot; failed input and output make the actor forget where the device was.

  The stream is given by its answers. The commands sent to the actor are returned.
\<close>

datatype 'a poll = Pending | Ready 'a

record lease_io =
  io_lease :: serial_lease
  io_decoder :: frame_decoder
  io_observed :: "bytes option"

definition lease_new :: "serial_lease \<Rightarrow> lease_io" where
  "lease_new l = \<lparr>io_lease = l, io_decoder = decoder_default, io_observed = None\<rparr>"

fun observe_fresh :: "bytes \<Rightarrow> lease_io \<Rightarrow> lease_io" where
  "observe_fresh [] l = l"
| "observe_fresh (b # bs) l =
     (let (r, d) = decoder_push (io_decoder l) b
      in observe_fresh bs (l\<lparr>io_decoder := d,
           io_observed := (case r of None \<Rightarrow> io_observed l | Some i \<Rightarrow> Some i)\<rparr>))"

text \<open>
  Reading into a buffer with \<open>room\<close> bytes left; \<open>answer\<close> is what the stream says when it is asked,
  the bytes it puts into the buffer or an error. The first part of the result is what the reader
  gets.
\<close>

definition poll_read ::
  "nat \<Rightarrow> (string + bytes) poll \<Rightarrow> lease_io \<Rightarrow> (string + bytes) poll \<times> command list \<times> lease_io" where
  "poll_read room answer l =
     (let p = lease_prefix (io_lease l) in
      if p \<noteq> [] then
        (Ready (Inr (take room p)), [], l\<lparr>io_lease := (io_lease l)\<lparr>lease_prefix := drop room p\<rparr>\<rparr>)
      else
        let l' = (case answer of Ready (Inr bs) \<Rightarrow> observe_fresh bs l | _ \<Rightarrow> l);
            lost = (case answer of
              Ready (Inl e) \<Rightarrow> True
            | Ready (Inr bs) \<Rightarrow> bs = [] \<and> 0 < room
            | Pending \<Rightarrow> False)
        in (answer, if lost then [Invalidate (lease_mac (io_lease l))] else [], l'))"

definition poll_write :: "(string + nat) poll \<Rightarrow> lease_io \<Rightarrow> (string + nat) poll \<times> command list" where
  "poll_write answer l =
     (answer, case answer of Ready (Inl e) \<Rightarrow> [Invalidate (lease_mac (io_lease l))] | _ \<Rightarrow> [])"

definition poll_flush :: "(string + unit) poll \<Rightarrow> lease_io \<Rightarrow> (string + unit) poll \<times> command list" where
  "poll_flush answer l =
     (answer, case answer of Ready (Inl e) \<Rightarrow> [Invalidate (lease_mac (io_lease l))] | _ \<Rightarrow> [])"

definition lease_configure :: "lease_io \<Rightarrow> lease_io" where
  "lease_configure l = l\<lparr>io_decoder := decoder_default, io_observed := None\<rparr>"

definition take_observed_id :: "lease_io \<Rightarrow> bytes option \<times> lease_io" where
  "take_observed_id l = (io_observed l, l\<lparr>io_observed := None\<rparr>)"

definition lease_confirm :: "lease_io \<Rightarrow> command" where
  "lease_confirm l =
     Confirm (lease_mac (io_lease l)) (lease_locator (io_lease l)) (lease_token (io_lease l))"

text \<open>
  Dropping the lease closes the stream and then gives the port back. The code does both on a
  blocking thread; the actor sees the one command that is sent when that thread is done.
\<close>

definition lease_drop :: "lease_io \<Rightarrow> command" where
  "lease_drop l = Release (port_name (lease_locator (io_lease l))) (lease_token (io_lease l))"

definition reservation_drop :: "port_reservation \<Rightarrow> command" where
  "reservation_drop r = Release (res_port r) (res_token r)"

section \<open>What a session reads\<close>

text \<open>
  A session that reads again and again, with the room of each read and the stream's answer to it:
  the bytes it gets, and among them those the stream gave.
\<close>

fun lease_run :: "(nat \<times> (string + bytes) poll) list \<Rightarrow> lease_io \<Rightarrow> bytes \<times> bytes \<times> lease_io" where
  "lease_run [] l = ([], [], l)"
| "lease_run ((room, answer) # rs) l =
     (let (got, cs, l') = poll_read room answer l;
          (gots, fresh, l'') = lease_run rs l';
          bs = (case got of Ready (Inr bs) \<Rightarrow> bs | _ \<Rightarrow> [])
      in (bs @ gots, (if lease_prefix (io_lease l) = [] then bs else []) @ fresh, l''))"

lemma observe_fresh_run:
  "observe_fresh bs l = l\<lparr>io_decoder := snd (decoder_run (io_decoder l) bs),
     io_observed := (if fst (decoder_run (io_decoder l) bs) = [] then io_observed l
       else Some (last (fst (decoder_run (io_decoder l) bs))))\<rparr>"
  by (induction bs arbitrary: l) (auto simp: Let_def case_prod_beta split: option.splits)

lemma decoder_run_append:
  "decoder_run d (a @ b) =
     (fst (decoder_run d a) @ fst (decoder_run (snd (decoder_run d a)) b),
      snd (decoder_run (snd (decoder_run d a)) b))"
  by (induction a arbitrary: d) (auto simp: Let_def case_prod_beta split: option.splits)

lemma observe_fresh_append: "observe_fresh b (observe_fresh a l) = observe_fresh (a @ b) l"
  by (induction a arbitrary: l) (simp_all add: case_prod_beta Let_def)

lemma observe_fresh_lease [simp]: "io_lease (observe_fresh bs l) = io_lease l"
  by (simp add: observe_fresh_run)

lemma poll_read_prefix:
  "lease_prefix (io_lease l) \<noteq> [] \<Longrightarrow> poll_read room answer l =
     (Ready (Inr (take room (lease_prefix (io_lease l)))), [],
      l\<lparr>io_lease := (io_lease l)\<lparr>lease_prefix := drop room (lease_prefix (io_lease l))\<rparr>\<rparr>)"
  by (simp add: poll_read_def Let_def)

lemma poll_read_fresh:
  assumes "lease_prefix (io_lease l) = []"
  obtains cs where "poll_read room answer l =
     (answer, cs, observe_fresh (case answer of Ready (Inr bs) \<Rightarrow> bs | _ \<Rightarrow> []) l)"
  using assms by (cases answer) (auto simp: poll_read_def split: sum.splits)

lemma lease_run_ok:
  assumes "lease_run rs l = (got, fresh, l')"
  shows "got @ lease_prefix (io_lease l') = lease_prefix (io_lease l) @ fresh \<and>
    io_decoder l' = io_decoder (observe_fresh fresh l) \<and> io_observed l' = io_observed (observe_fresh fresh l)"
  using assms
proof (induction rs arbitrary: l got fresh)
  case (Cons r rs)
  obtain room answer where r: "r = (room, answer)" by (cases r)
  show ?case
  proof (cases "lease_prefix (io_lease l) = []")
    case True
    let ?bs = "case answer of Ready (Inr bs) \<Rightarrow> bs | _ \<Rightarrow> []"
    obtain cs where p: "poll_read room answer l = (answer, cs, observe_fresh ?bs l)"
      using poll_read_fresh [OF True] .
    obtain got1 fresh1 where q: "lease_run rs (observe_fresh ?bs l) = (got1, fresh1, l')"
      "got = ?bs @ got1" "fresh = ?bs @ fresh1"
      using Cons.prems True by (auto simp: r p Let_def split: prod.splits)
    from Cons.IH [OF q(1)] q(2,3) True show ?thesis by (simp add: observe_fresh_append)
  next
    case False
    let ?l = "l\<lparr>io_lease := (io_lease l)\<lparr>lease_prefix := drop room (lease_prefix (io_lease l))\<rparr>\<rparr>"
    obtain got1 where q: "lease_run rs ?l = (got1, fresh, l')"
      "got = take room (lease_prefix (io_lease l)) @ got1"
      using Cons.prems False by (auto simp: r poll_read_prefix Let_def split: prod.splits)
    from Cons.IH [OF q(1)] q(2) show ?thesis
      by (simp add: observe_fresh_run)
  qed
qed simp

text \<open>
  C38: A session reads the port without a gap and is told about new boots only. Reading a lease gives
  the bytes the scan had read, then the bytes of the stream, each once and in order, whatever the
  sizes of the reads; and the identity it reports is the one of the last complete beacon line of
  the stream alone, never one from the bytes of the scan.
\<close>

theorem lease_transparent:
  assumes "lease_run rs (lease_new l) = (got, fresh, l')"
  shows "got @ lease_prefix (io_lease l') = lease_prefix l @ fresh \<and>
    io_observed l' = (let ids = List.map_filter line_id (complete_lines [] fresh)
      in if ids = [] then None else Some (last ids))"
  using lease_run_ok [OF assms] decoder_run_lines [OF holds_default, of fresh]
  by (simp add: lease_new_def observe_fresh_run Let_def)

definition demo_serial_lease :: serial_lease where
  "demo_serial_lease = \<lparr>lease_stream = 1, lease_prefix = [1, 2, 3],
     lease_locator = \<lparr>port_name = ''a'', aliases = [], serial_number = None\<rparr>, lease_token = 3,
     lease_mac = MacAddress 2 0 0 0 0 1\<rparr>"

theorem lease_transparent_witness:
  "\<exists>l'. lease_run [(2, Pending), (8, Pending), (8, Ready (Inr [65, 10])), (8, Ready (Inl ''gone''))]
       (lease_new demo_serial_lease) = ([1, 2, 3, 65, 10], [65, 10], l') \<and>
     [1, 2, 3, 65, 10] @ lease_prefix (io_lease l') = lease_prefix demo_serial_lease @ [65, 10]"
proof -
  let ?rs = "[(2, Pending), (8, Pending), (8, Ready (Inr [65, 10])), (8, Ready (Inl ''gone''))]"
  have "fst (lease_run ?rs (lease_new demo_serial_lease)) = [1, 2, 3, 65, 10] \<and>
      fst (snd (lease_run ?rs (lease_new demo_serial_lease))) = [65, 10]" by code_simp
  then obtain l' where r: "lease_run ?rs (lease_new demo_serial_lease) = ([1, 2, 3, 65, 10], [65, 10], l')"
    by (metis prod.collapse)
  from lease_transparent [OF r] r show ?thesis by blast
qed

end
