(* ===== verification/Serial_Runtime.thy ===== *)
theory Serial_Runtime
  imports Serial_Lease Loader_Registry Board_Pool
begin

text \<open>
  The serial runtime of a session, \<open>ostool-server/src/serial/runtime.rs\<close>: one task owns the serial
  lease of a session, binds it to the boot the device reports, watches the line for the identity of
  that boot, and answers the callers.

  One round of the task's loop is one step: the event the \<open>select!\<close> chose, with what the world says
  in that round (\<open>round_env\<close>: the clock, a fresh UUID, the answer of the port to its
  configuration, the callers that have gone). A caller is a step too, so a list of steps is an
  interleaving of callers and the task. Reply channels are numbers. What the task sends is a list of
  outputs; \<open>ToManager\<close> are the commands its lease sends to the discovery actor of
  \<open>Serial_Manager\<close>. The bind request under way is \<open>rt_opening\<close>; its answer is an event. Instants are
  nanoseconds. An error is a constructor of \<open>runtime_error\<close>; the message is its text.
\<close>

section \<open>The parameters of a board\<close>

text \<open>\<open>AxloaderSerialParameters\<close> of \<open>config.rs\<close>, saved in a board's profile.\<close>

datatype axloader_serial_parity = AxParityNone | AxOdd | AxEven | AxMark | AxSpace

datatype axloader_serial_stop_bits = AxOne | AxOnePointFive | AxTwo

datatype axloader_serial_flow_control = AxFlowNone | AxRtsCts

record axloader_serial_parameters =
  ax_baud_rate :: u64
  ax_data_bits :: u8
  ax_parity :: axloader_serial_parity
  ax_stop_bits :: axloader_serial_stop_bits
  ax_flow_control :: axloader_serial_flow_control

fun parity_into :: "axloader_serial_parity \<Rightarrow> serial_parity" where
  "parity_into AxParityNone = ParityNone"
| "parity_into AxOdd = Odd"
| "parity_into AxEven = Even"
| "parity_into AxMark = Mark"
| "parity_into AxSpace = Space"

fun stop_bits_into :: "axloader_serial_stop_bits \<Rightarrow> serial_stop_bits" where
  "stop_bits_into AxOne = One"
| "stop_bits_into AxOnePointFive = OnePointFive"
| "stop_bits_into AxTwo = Two"

fun flow_control_into :: "axloader_serial_flow_control \<Rightarrow> serial_flow_control" where
  "flow_control_into AxFlowNone = FlowNone"
| "flow_control_into AxRtsCts = RtsCts"

definition into_protocol :: "axloader_serial_parameters \<Rightarrow> serial_parameters" where
  "into_protocol p = \<lparr>baud_rate = ax_baud_rate p, data_bits = ax_data_bits p,
     parity = parity_into (ax_parity p), stop_bits = stop_bits_into (ax_stop_bits p),
     flow_control = flow_control_into (ax_flow_control p)\<rparr>"

definition effective_parameters ::
    "axloader_serial_parameters option \<Rightarrow> serial_parameters option \<Rightarrow> serial_parameters" where
  "effective_parameters override reported =
     (case override of
        Some p \<Rightarrow> into_protocol p
      | None \<Rightarrow> (case reported of Some p \<Rightarrow> p | None \<Rightarrow> serial_parameters_default))"

datatype host_error = HostProtocol serial_protocol_error | BaudTooLarge | UnsupportedFormat

definition validate_host_parameters :: "serial_parameters \<Rightarrow> host_error + unit" where
  "validate_host_parameters p =
     (case serial_parameters_validate p of
        Inl e \<Rightarrow> Inl (HostProtocol e)
      | Inr _ \<Rightarrow>
          if 2 ^ 32 \<le> unat (baud_rate p) then Inl BaudTooLarge
          else if parity p = Mark \<or> parity p = Space \<or> stop_bits p = OnePointFive
          then Inl UnsupportedFormat
          else Inr ())"

text \<open>What the task reads of the session's board: how it is powered and the profile of its boot.\<close>

record runtime_board =
  rb_power :: power_management
  rb_override :: "axloader_serial_parameters option"

definition is_qemu :: "power_management \<Rightarrow> bool" where
  "is_qemu p = (case p of Qemu _ \<Rightarrow> True | _ \<Rightarrow> False)"

section \<open>State\<close>

datatype serial_runtime_phase =
    WaitingDevice
  | Verifying
  | Discovering
  | BoundPhase
  | Recovering
  | FailedPhase
  | ClosedPhase

datatype runtime_error =
    WaitingNewEpoch
  | InvalidEpoch
  | NoSerialParameters
  | InvalidSerialIdentity
  | AutomaticUnavailable "string option"
  | BadParameters serial_protocol_error
  | BadHostParameters host_error
  | BindFailed bind_error
  | IoLost string
  | StaleConfirmation
  | GenerationExhausted
  | MissingAttempt
  | MissingVerification
  | OutputBlocked string
  | DeadlinePassed
  | Reported string
  | WorkerFailed string

record serial_runtime_status =
  rs_phase :: serial_runtime_phase
  rs_port :: "string option"
  rs_parameters :: "serial_parameters option"
  rs_epoch :: "string option"
  rs_binding :: "string option"
  rs_error :: "runtime_error option"
  rs_warning :: "string option"

definition status_default :: serial_runtime_status where
  "status_default = \<lparr>rs_phase = WaitingDevice, rs_port = None, rs_parameters = None,
     rs_epoch = None, rs_binding = None, rs_error = None, rs_warning = None\<rparr>"

datatype runtime_command =
    BindCommand device_status nat
  | ConfirmCommand string nat
  | FailCommand string
  | RestartCommand bool nat

record binding_attempt =
  at_device :: device_status
  at_parameters :: serial_parameters
  at_binding :: serial_binding
  at_warning :: "string option"
  at_reply :: "nat option"

text \<open>
  The task: not yet attached, in its loop, returned with a result its output worker still has to
  deliver, or ended.
\<close>

datatype runtime_stage = Unattached | Owning | Returned "runtime_error + unit" | Ended

text \<open>The channel, status and retired boot the callers share, and the local variables of the task.\<close>

record serial_runtime =
  rt_commands :: "runtime_command list"
  rt_status :: serial_runtime_status
  rt_retired :: "string option"
  rt_stage :: runtime_stage
  rt_owner :: string
  rt_lease :: "lease_io option"
  rt_opening :: "bind_request option"
  rt_current :: "binding_attempt option"
  rt_generation :: u64
  rt_deadline :: nat
  rt_power_wait :: bool
  rt_verifying :: "nat option"

definition serial_runtime_default :: serial_runtime where
  "serial_runtime_default = \<lparr>rt_commands = [], rt_status = status_default, rt_retired = None,
     rt_stage = Unattached, rt_owner = [], rt_lease = None, rt_opening = None, rt_current = None,
     rt_generation = 0, rt_deadline = 0, rt_power_wait = True, rt_verifying = None\<rparr>"

datatype runtime_output =
    BindAnswer nat "runtime_error + serial_binding"
  | ConfirmAnswer nat "runtime_error + unit"
  | RestartAnswer nat
  | ToManager command
  | AdminSessions
  | OutputBytes bytes
  | StopSession

record round_env =
  env_now :: nat
  env_uuid :: string
  env_configured :: bool
  env_gone :: "nat list"

definition SERIAL_BIND_TIMEOUT :: nat where
  "SERIAL_BIND_TIMEOUT = secs 60"

section \<open>Status\<close>

definition accepts_epoch :: "string \<Rightarrow> serial_runtime \<Rightarrow> bool" where
  "accepts_epoch epoch st \<longleftrightarrow> rt_retired st \<noteq> Some epoch"

definition update_status ::
    "(serial_runtime_status \<Rightarrow> serial_runtime_status) \<Rightarrow> serial_runtime \<Rightarrow> serial_runtime" where
  "update_status f st =
     (if rs_phase (rt_status st) = FailedPhase then st
      else st\<lparr>rt_status := f (rt_status st)\<rparr>)"

definition publish ::
    "serial_runtime_status \<Rightarrow> serial_runtime \<Rightarrow> runtime_output list \<times> serial_runtime" where
  "publish status st = ([AdminSessions], update_status (\<lambda>_. status) st)"

definition lease_port :: "lease_io \<Rightarrow> string" where
  "lease_port l = port_name (lease_locator (io_lease l))"

definition active_binding_status ::
    "lease_io option \<Rightarrow> binding_attempt option \<Rightarrow> string option \<Rightarrow> string option \<times> string option" where
  "active_binding_status lease current epoch =
     (map_option lease_port lease,
      Option.bind lease (\<lambda>_. Option.bind current (\<lambda>c.
        if Some (ds_boot_epoch (at_device c)) = epoch then Some (binding_id (at_binding c)) else None)))"

definition reject_bind ::
    "nat \<Rightarrow> device_status \<Rightarrow> nat option \<Rightarrow> string option \<times> string option \<Rightarrow> runtime_error \<Rightarrow>
     serial_runtime \<Rightarrow> runtime_output list \<times> serial_runtime" where
  "reject_bind now device answer active e st =
     (let status = rt_status st;
          status = status\<lparr>rs_phase := Recovering, rs_port := fst active, rs_binding := snd active,
            rs_epoch := (if ds_boot_epoch device \<noteq> [] then Some (ds_boot_epoch device) else rs_epoch status),
            rs_parameters := Option.bind (ds_serial device) loader_serial_status.parameters,
            rs_warning := Option.bind (ds_serial device) loader_serial_status.error,
            rs_error := Some e\<rparr>;
          (os, st) = publish status (st\<lparr>rt_deadline := now + SERIAL_BIND_TIMEOUT\<rparr>)
      in (os @ (case answer of None \<Rightarrow> [] | Some r \<Rightarrow> [BindAnswer r (Inl e)]), st))"

fun is_recoverable_bind_error :: "bind_error \<Rightarrow> bool" where
  "is_recoverable_bind_error Timeout = True"
| "is_recoverable_bind_error (DiscoveryFailed _) = True"
| "is_recoverable_bind_error Busy = True"
| "is_recoverable_bind_error (Io _) = True"
| "is_recoverable_bind_error _ = False"

definition bind_future :: "string \<Rightarrow> u64 \<Rightarrow> binding_attempt \<Rightarrow> nat \<Rightarrow> bind_request" where
  "bind_future own g c deadline = \<lparr>br_owner = own, br_generation = g,
     br_mac = ds_mac_address (at_device c), br_epoch = ds_boot_epoch (at_device c),
     br_serial_id = sb_serial_id (at_binding c), br_parameters = at_parameters c,
     br_deadline = deadline\<rparr>"

text \<open>Dropping the lease; and the end of the loop, which drops all local variables.\<close>

definition drop_lease :: "serial_runtime \<Rightarrow> runtime_output list \<times> serial_runtime" where
  "drop_lease st =
     ((case rt_lease st of None \<Rightarrow> [] | Some l \<Rightarrow> [ToManager (lease_drop l)]), st\<lparr>rt_lease := None\<rparr>)"

definition drop_locals :: "serial_runtime \<Rightarrow> runtime_output list \<times> serial_runtime" where
  "drop_locals st = (let (os, st) = drop_lease st in (os, st\<lparr>rt_opening := None, rt_current := None\<rparr>))"

definition owner_return ::
    "runtime_error + unit \<Rightarrow> serial_runtime \<Rightarrow> runtime_output list \<times> serial_runtime" where
  "owner_return r st = (let (os, st) = drop_locals st in (os, st\<lparr>rt_stage := Returned r\<rparr>))"

section \<open>Commands\<close>

text \<open>
  What a reported device must pass before it is bound: its serial status and the parameters of the
  line, or the first reason against it.
\<close>

definition check_device ::
    "runtime_board \<Rightarrow> device_status \<Rightarrow> runtime_error + (loader_serial_status \<times> serial_parameters)" where
  "check_device board device =
     (if ds_boot_epoch device = [] then Inl InvalidEpoch
      else case ds_serial device of
        None \<Rightarrow> Inl NoSerialParameters
      | Some serial \<Rightarrow>
          if \<not> valid_serial_id (serial_id serial) then Inl InvalidSerialIdentity
          else if \<not> loader_serial_status.ready serial
          then Inl (AutomaticUnavailable (loader_serial_status.error serial))
          else
            let ps = effective_parameters (rb_override board) (loader_serial_status.parameters serial)
            in case serial_parameters_validate ps of
              Inl e \<Rightarrow> Inl (BadParameters e)
            | Inr _ \<Rightarrow>
                if is_qemu (rb_power board) then Inr (serial, ps)
                else case validate_host_parameters ps of
                  Inl e \<Rightarrow> Inl (BadHostParameters e)
                | Inr _ \<Rightarrow> Inr (serial, ps))"

text \<open>The binding the task has granted to this boot and whose line it still holds.\<close>

definition granted_binding ::
    "device_status \<Rightarrow> loader_serial_status \<Rightarrow> serial_runtime \<Rightarrow> serial_binding option" where
  "granted_binding device serial st =
     Option.bind (rt_current st) (\<lambda>c.
       if ds_boot_epoch (at_device c) = ds_boot_epoch device \<and>
          sb_serial_id (at_binding c) = serial_id serial \<and>
          at_reply c = None \<and> rt_lease st \<noteq> None
       then Some (at_binding c) else None)"

definition begin_attempt ::
    "round_env \<Rightarrow> device_status \<Rightarrow> loader_serial_status \<Rightarrow> serial_parameters \<Rightarrow> nat \<Rightarrow>
     serial_runtime \<Rightarrow> runtime_output list \<times> serial_runtime" where
  "begin_attempt env device serial ps answer st =
     (let c = \<lparr>at_device = device, at_parameters = ps,
            at_binding = \<lparr>sb_serial_id = serial_id serial, binding_id = env_uuid env, mode = Bound\<rparr>,
            at_warning = loader_serial_status.error serial, at_reply = Some answer\<rparr>;
          st = st\<lparr>rt_generation := rt_generation st + 1, rt_opening := None, rt_current := Some c,
            rt_deadline := env_now env + SERIAL_BIND_TIMEOUT\<rparr>;
          (os1, st) = (case rt_lease st of
            None \<Rightarrow> ([], st)
          | Some l \<Rightarrow>
              if \<not> env_configured env then
                let (os, st) = drop_lease st in (ToManager (Invalidate (ds_mac_address device)) # os, st)
              else ([], st\<lparr>rt_lease := Some (lease_configure l),
                           rt_verifying := Some (env_now env + secs 1)\<rparr>));
          (os2, st) = publish (status_default\<lparr>
            rs_phase := (if rt_lease st \<noteq> None then Verifying else Discovering),
            rs_parameters := Some ps, rs_epoch := Some (ds_boot_epoch device),
            rs_port := map_option lease_port (rt_lease st), rs_warning := at_warning c\<rparr>) st
      in (os1 @ os2,
          if rt_lease st = None
          then st\<lparr>rt_opening := Some (bind_future (rt_owner st) (rt_generation st) c (rt_deadline st))\<rparr>
          else st))"

definition handle_bind_command ::
    "runtime_board \<Rightarrow> round_env \<Rightarrow> device_status \<Rightarrow> nat \<Rightarrow> serial_runtime \<Rightarrow>
     runtime_output list \<times> serial_runtime" where
  "handle_bind_command board env device answer st =
     (if \<not> accepts_epoch (ds_boot_epoch device) st then ([BindAnswer answer (Inl WaitingNewEpoch)], st)
      else
        let st = st\<lparr>rt_power_wait := True\<rparr> in
        case check_device board device of
          Inl e \<Rightarrow>
            reject_bind (env_now env) device (Some answer)
              (active_binding_status (rt_lease st) (rt_current st) (Some (ds_boot_epoch device))) e st
        | Inr (serial, ps) \<Rightarrow>
            case granted_binding device serial st of
              Some b \<Rightarrow> ([BindAnswer answer (Inr b)], st)
            | None \<Rightarrow>
                if rt_generation st = - 1 then owner_return (Inl GenerationExhausted) st
                else begin_attempt env device serial ps answer st)"

definition handle_confirm_command ::
    "string \<Rightarrow> nat \<Rightarrow> serial_runtime \<Rightarrow> runtime_output list \<times> serial_runtime" where
  "handle_confirm_command i answer st =
     (let valid = is_some_and (rt_current st) (\<lambda>c. binding_id (at_binding c) = i \<and> at_reply c = None)
            \<and> rt_lease st \<noteq> None
      in if valid then
           let (os, st') = publish ((rt_status st)\<lparr>rs_phase := BoundPhase\<rparr>) st
           in ((case rt_lease st of None \<Rightarrow> [] | Some l \<Rightarrow> [ToManager (lease_confirm l)]) @ os @
               [ConfirmAnswer answer (Inr ())], st')
         else ([ConfirmAnswer answer (Inl StaleConfirmation)], st))"

definition handle_restart_command ::
    "nat \<Rightarrow> bool \<Rightarrow> nat \<Rightarrow> serial_runtime \<Rightarrow> runtime_output list \<times> serial_runtime" where
  "handle_restart_command now powered answer st =
     (let (os, st) = publish (status_default\<lparr>rs_port := map_option lease_port (rt_lease st)\<rparr>)
            (st\<lparr>rt_current := None, rt_opening := None, rt_verifying := None,
               rt_power_wait := powered, rt_deadline := now + SERIAL_BIND_TIMEOUT\<rparr>)
      in (os @ [RestartAnswer answer], st))"

fun handle_runtime_command ::
    "runtime_board \<Rightarrow> round_env \<Rightarrow> runtime_command \<Rightarrow> serial_runtime \<Rightarrow>
     runtime_output list \<times> serial_runtime" where
  "handle_runtime_command board env (BindCommand device answer) st =
     handle_bind_command board env device answer st"
| "handle_runtime_command board env (ConfirmCommand i answer) st = handle_confirm_command i answer st"
| "handle_runtime_command board env (FailCommand e) st = owner_return (Inl (Reported e)) st"
| "handle_runtime_command board env (RestartCommand powered answer) st =
     handle_restart_command (env_now env) powered answer st"

section \<open>Events of the line\<close>

definition handle_opened ::
    "nat \<Rightarrow> bind_error + serial_lease \<Rightarrow> serial_runtime \<Rightarrow> runtime_output list \<times> serial_runtime" where
  "handle_opened now result st =
     (let st = st\<lparr>rt_opening := None\<rparr> in
      case result of
        Inl e \<Rightarrow>
          if is_recoverable_bind_error e then
            case rt_current st of
              None \<Rightarrow> ([], st)
            | Some c \<Rightarrow>
                let active = active_binding_status (rt_lease st) (rt_current st)
                      (Some (ds_boot_epoch (at_device c)));
                    (os, st) = reject_bind now (at_device c) (at_reply c) active (BindFailed e)
                      (st\<lparr>rt_current := None, rt_verifying := None\<rparr>)
                in (ToManager (Invalidate (ds_mac_address (at_device c))) # os, st)
          else owner_return (Inl (BindFailed e)) st
      | Inr io \<Rightarrow>
          case rt_current st of
            None \<Rightarrow>
              let (os, st) = owner_return (Inl MissingAttempt) st
              in (ToManager (lease_drop (lease_new io)) # os, st)
          | Some c \<Rightarrow>
              let status = \<lparr>rs_phase = Verifying, rs_port = Some (port_name (lease_locator io)),
                    rs_parameters = Some (at_parameters c),
                    rs_epoch = Some (ds_boot_epoch (at_device c)),
                    rs_binding = Some (binding_id (at_binding c)), rs_error = None,
                    rs_warning = at_warning c\<rparr>;
                  (os1, st) = drop_lease st;
                  (os2, st) = publish status (st\<lparr>rt_lease := Some (lease_new io),
                    rt_current := Some (c\<lparr>at_reply := None\<rparr>)\<rparr>)
              in (os1 @ (case at_reply c of None \<Rightarrow> [] | Some r \<Rightarrow> [BindAnswer r (Inr (at_binding c))])
                    @ os2, st))"

definition handle_lost :: "string \<Rightarrow> nat \<Rightarrow> serial_runtime \<Rightarrow> runtime_output list \<times> serial_runtime" where
  "handle_lost e now st =
     (let os1 = (case rt_current st of
            None \<Rightarrow> [] | Some c \<Rightarrow> [ToManager (Invalidate (ds_mac_address (at_device c)))]);
          (os2, st) = drop_lease st;
          (os3, st) = publish ((rt_status st)\<lparr>rs_phase := Recovering, rs_error := Some (IoLost e)\<rparr>)
            (st\<lparr>rt_verifying := None\<rparr>)
      in (os1 @ os2 @ os3,
          case rt_current st of
            Some c \<Rightarrow>
              if at_reply c \<noteq> None
              then st\<lparr>rt_opening := Some (bind_future (rt_owner st) (rt_generation st) c (rt_deadline st))\<rparr>
              else st\<lparr>rt_deadline := now + secs 5\<rparr>
          | None \<Rightarrow> st\<lparr>rt_deadline := now + secs 5\<rparr>))"

text \<open>
  A read of the line that gave \<open>bytes\<close>. The identity the lease has observed is taken only while an
  attempt waits for it. \<open>blocked\<close> is why the output queue does not take the bytes, if it does not.
\<close>

definition take_identity :: "serial_runtime \<Rightarrow> bytes option \<times> serial_runtime" where
  "take_identity st =
     (case rt_lease st of
        None \<Rightarrow> (None, st)
      | Some l \<Rightarrow> let (i, l) = take_observed_id l in (i, st\<lparr>rt_lease := Some l\<rparr>))"

definition handle_read_bytes ::
    "bytes \<Rightarrow> string option \<Rightarrow> serial_runtime \<Rightarrow> runtime_output list \<times> serial_runtime" where
  "handle_read_bytes bs blocked st =
     (let (os, st) = (case rt_current st of
            None \<Rightarrow> ([], st)
          | Some c \<Rightarrow>
              (case at_reply c of
                 None \<Rightarrow> ([], st)
               | Some r \<Rightarrow>
                   let (i, st) = take_identity st in
                   if is_some_and i (\<lambda>i. i = str_bytes (sb_serial_id (at_binding c))) then
                     let st = st\<lparr>rt_verifying := None, rt_current := Some (c\<lparr>at_reply := None\<rparr>)\<rparr>;
                         (os, st) = publish ((rt_status st)\<lparr>rs_binding := Some (binding_id (at_binding c))\<rparr>) st
                     in (BindAnswer r (Inr (at_binding c)) # os, st)
                   else ([], st)))
      in case blocked of
           Some reason \<Rightarrow> let (os', st) = owner_return (Inl (OutputBlocked reason)) st in (os @ os', st)
         | None \<Rightarrow> (os @ [OutputBytes bs], st))"

definition handle_read_event ::
    "nat \<Rightarrow> (string + bytes) \<Rightarrow> string option \<Rightarrow> serial_runtime \<Rightarrow>
     runtime_output list \<times> serial_runtime" where
  "handle_read_event now answer blocked st =
     (case rt_lease st of
        None \<Rightarrow> ([], st)
      | Some l \<Rightarrow>
          let (got, cs, l) = poll_read 4096 (Ready answer) l;
              st = st\<lparr>rt_lease := Some l\<rparr>;
              (os, st) = (case got of
                 Ready (Inl e) \<Rightarrow> handle_lost e now st
               | Ready (Inr bs) \<Rightarrow>
                   if bs = [] then handle_lost ''serial reader closed'' now st else handle_read_bytes bs blocked st
               | Pending \<Rightarrow> ([], st))
          in (map ToManager cs @ os, st))"

text \<open>
  \<open>lease_write_all\<close> over what the stream says each time; when the answers end the write has not finished
  within its second.
\<close>

fun lease_write_all :: "bytes \<Rightarrow> (string + nat) list \<Rightarrow> lease_io \<Rightarrow> (string + unit) option \<times> command list" where
  "lease_write_all [] answers l = (Some (Inr ()), [])"
| "lease_write_all (b # bs) [] l = (None, [])"
| "lease_write_all (b # bs) (a # answers) l =
     (case poll_write (Ready a) l of
        (Ready (Inr n), cs) \<Rightarrow>
          if n = 0 then (Some (Inl ''failed to write whole buffer''), cs)
          else let (r, cs') = lease_write_all (drop n (b # bs)) answers l in (r, cs @ cs')
      | (Ready (Inl e), cs) \<Rightarrow> (Some (Inl e), cs)
      | (Pending, cs) \<Rightarrow> (None, cs))"

definition handle_input ::
    "nat \<Rightarrow> bytes \<Rightarrow> (string + nat) list \<Rightarrow> serial_runtime \<Rightarrow> runtime_output list \<times> serial_runtime" where
  "handle_input now payload answers st =
     (case rt_lease st of
        None \<Rightarrow> ([], st)
      | Some l \<Rightarrow>
          let (r, cs) = lease_write_all payload answers l;
              (os, st) = (case r of
                 Some (Inr _) \<Rightarrow> ([], st)
               | Some (Inl e) \<Rightarrow> handle_lost e now st
               | None \<Rightarrow> handle_lost ''serial write timed out'' now st)
          in (map ToManager cs @ os, st))"

definition handle_tick :: "round_env \<Rightarrow> serial_runtime \<Rightarrow> runtime_output list \<times> serial_runtime" where
  "handle_tick env st =
     (let now = env_now env;
          st = (if is_some_and (rt_current st) (\<lambda>c. is_some_and (at_reply c) (\<lambda>r. r \<in> set (env_gone env)))
            then st\<lparr>rt_current := None, rt_opening := None, rt_verifying := None\<rparr> else st);
          due = is_some_and (rt_verifying st) (\<lambda>t. t \<le> now);
          st = (if due then st\<lparr>rt_verifying := None\<rparr> else st)
      in if due \<and> rt_current st = None then owner_return (Inl MissingVerification) st
         else
           let (os, st) = (case rt_current st of
                 Some c \<Rightarrow>
                   if due then
                     let (os1, st) = drop_lease st;
                         (os2, st) = publish ((rt_status st)\<lparr>rs_phase := Discovering\<rparr>)
                           (st\<lparr>rt_opening := Some (bind_future (rt_owner st) (rt_generation st) c (rt_deadline st))\<rparr>)
                     in (ToManager (Invalidate (ds_mac_address (at_device c))) # os1 @ os2, st)
                   else ([], st)
               | None \<Rightarrow> ([], st));
               waiting = (rt_lease st = None \<or> is_some_and (rt_current st) (\<lambda>c. at_reply c \<noteq> None))
           in if rt_power_wait st \<and> rt_deadline st \<le> now \<and> waiting then
                let (os', st) = owner_return (Inl DeadlinePassed) st in (os @ os', st)
              else (os, st))"

section \<open>The task and its callers\<close>

text \<open>The events of the loop: a command is taken from the channel, the others carry their news.\<close>

datatype runtime_event =
    ShutdownEvent
  | CommandEvent
  | OpenedEvent "bind_error + serial_lease"
  | ReadEvent "string + bytes" "string option"
  | InputEvent bytes "(string + nat) list"
  | TickEvent

text \<open>What the \<open>select!\<close> waits for: an event without its source never comes.\<close>

fun event_ready :: "runtime_event \<Rightarrow> serial_runtime \<Rightarrow> bool" where
  "event_ready CommandEvent st \<longleftrightarrow> rt_commands st \<noteq> []"
| "event_ready (OpenedEvent _) st \<longleftrightarrow> rt_opening st \<noteq> None"
| "event_ready (ReadEvent _ _) st \<longleftrightarrow> rt_lease st \<noteq> None"
| "event_ready (InputEvent _ _) st \<longleftrightarrow> rt_lease st \<noteq> None"
| "event_ready _ st \<longleftrightarrow> True"

fun handle_runtime_event ::
    "runtime_board \<Rightarrow> round_env \<Rightarrow> runtime_event \<Rightarrow> serial_runtime \<Rightarrow>
     runtime_output list \<times> serial_runtime" where
  "handle_runtime_event board env ShutdownEvent st = owner_return (Inr ()) st"
| "handle_runtime_event board env CommandEvent st =
     (case rt_commands st of
        [] \<Rightarrow> ([], st)
      | c # cs \<Rightarrow> handle_runtime_command board env c (st\<lparr>rt_commands := cs\<rparr>))"
| "handle_runtime_event board env (OpenedEvent r) st = handle_opened (env_now env) r st"
| "handle_runtime_event board env (ReadEvent a blocked) st = handle_read_event (env_now env) a blocked st"
| "handle_runtime_event board env (InputEvent p as) st = handle_input (env_now env) p as st"
| "handle_runtime_event board env TickEvent st = handle_tick env st"

definition owner_step ::
    "runtime_board \<Rightarrow> round_env \<Rightarrow> runtime_event \<Rightarrow> serial_runtime \<Rightarrow>
     runtime_output list \<times> serial_runtime" where
  "owner_step board env e st =
     (if rt_stage st = Owning \<and> event_ready e st then handle_runtime_event board env e st else ([], st))"

text \<open>
  The end of the task: the loop has returned and its output is delivered, or one of the workers of
  the client's stream ended first. The commands nobody has taken are dropped with their answers.
\<close>

definition finish :: "runtime_error + unit \<Rightarrow> serial_runtime \<Rightarrow> runtime_output list \<times> serial_runtime" where
  "finish result st =
     (let (os, st) = drop_locals st;
          st = update_status (\<lambda>s. s\<lparr>
            rs_phase := (case result of Inl _ \<Rightarrow> FailedPhase | Inr _ \<Rightarrow> ClosedPhase),
            rs_error := (case result of Inl e \<Rightarrow> Some e | Inr _ \<Rightarrow> rs_error s)\<rparr>)
            (st\<lparr>rt_stage := Ended, rt_commands := []\<rparr>)
      in (os @ [AdminSessions] @ (case result of Inl _ \<Rightarrow> [StopSession] | Inr _ \<Rightarrow> []), st))"

definition send_runtime_command :: "runtime_command \<Rightarrow> serial_runtime \<Rightarrow> serial_runtime" where
  "send_runtime_command c st =
     (if rt_stage st = Ended then st else st\<lparr>rt_commands := rt_commands st @ [c]\<rparr>)"

definition attach :: "string \<Rightarrow> nat \<Rightarrow> serial_runtime \<Rightarrow> serial_runtime" where
  "attach own now st =
     (if rt_stage st = Unattached
      then st\<lparr>rt_stage := Owning, rt_owner := own, rt_deadline := now + secs 60\<rparr> else st)"

definition restart :: "bool \<Rightarrow> nat \<Rightarrow> serial_runtime \<Rightarrow> serial_runtime" where
  "restart powered answer st =
     (if rt_stage st = Unattached then st
      else
        let epoch = rs_epoch (rt_status st);
            st = (if is_some_and epoch (\<lambda>e. e \<noteq> []) then st\<lparr>rt_retired := epoch\<rparr> else st)
        in send_runtime_command (RestartCommand powered answer) st)"

definition fail :: "string \<Rightarrow> serial_runtime \<Rightarrow> serial_runtime" where
  "fail e st =
     send_runtime_command (FailCommand e)
       (update_status (\<lambda>s. s\<lparr>rs_phase := FailedPhase, rs_error := Some (Reported e)\<rparr>) st)"

datatype runtime_op =
    Attach string nat
  | CallBind device_status nat
  | CallConfirm string nat
  | CallFail string
  | CallRestart bool nat
  | OwnerRound round_env runtime_event
  | OutputDelivered
  | WorkerEnded "runtime_error + unit"

fun serial_runtime_step ::
    "runtime_board \<Rightarrow> runtime_op \<Rightarrow> serial_runtime \<Rightarrow> runtime_output list \<times> serial_runtime" where
  "serial_runtime_step board (Attach own now) st = ([], attach own now st)"
| "serial_runtime_step board (CallBind device answer) st = ([], send_runtime_command (BindCommand device answer) st)"
| "serial_runtime_step board (CallConfirm i answer) st = ([], send_runtime_command (ConfirmCommand i answer) st)"
| "serial_runtime_step board (CallFail e) st = ([], fail e st)"
| "serial_runtime_step board (CallRestart powered answer) st = ([], restart powered answer st)"
| "serial_runtime_step board (OwnerRound env e) st = owner_step board env e st"
| "serial_runtime_step board OutputDelivered st =
     (case rt_stage st of Returned r \<Rightarrow> finish r st | _ \<Rightarrow> ([], st))"
| "serial_runtime_step board (WorkerEnded r) st =
     (case rt_stage st of Unattached \<Rightarrow> ([], st) | Ended \<Rightarrow> ([], st) | _ \<Rightarrow> finish r st)"

fun runtime_run ::
    "runtime_board \<Rightarrow> runtime_op list \<Rightarrow> serial_runtime \<Rightarrow> runtime_output list \<times> serial_runtime" where
  "runtime_run board [] st = ([], st)"
| "runtime_run board (op # ops) st =
     (let (os, st) = serial_runtime_step board op st; (os', st) = runtime_run board ops st in (os @ os', st))"

end
