(* ===== verification/Serial_Runtime_Properties.thy ===== *)
theory Serial_Runtime_Properties
  imports Serial_Runtime "HOL-Library.Multiset"
begin

text \<open>
  What the serial runtime of a session guarantees: consistency of the task's variables, an account of
  the leases and of the callers, when a device is told it is bound, that failure is final, and the
  deadline of a silent device.
\<close>

section \<open>What the helpers leave alone\<close>

lemma update_status_frame [simp]:
  "rt_commands (update_status f st) = rt_commands st"
  "rt_retired (update_status f st) = rt_retired st"
  "rt_stage (update_status f st) = rt_stage st"
  "rt_owner (update_status f st) = rt_owner st"
  "rt_lease (update_status f st) = rt_lease st"
  "rt_opening (update_status f st) = rt_opening st"
  "rt_current (update_status f st) = rt_current st"
  "rt_generation (update_status f st) = rt_generation st"
  "rt_deadline (update_status f st) = rt_deadline st"
  "rt_power_wait (update_status f st) = rt_power_wait st"
  "rt_verifying (update_status f st) = rt_verifying st"
  by (simp_all add: update_status_def)

lemmas runtime_helpers = publish_def drop_lease_def drop_locals_def owner_return_def reject_bind_def

lemmas command_handlers = handle_bind_command_def begin_attempt_def handle_confirm_command_def
  handle_restart_command_def

lemmas event_handlers = handle_opened_def handle_lost_def handle_read_bytes_def handle_read_event_def
  handle_input_def handle_tick_def take_identity_def

section \<open>The invariant\<close>

text \<open>An attempt is for a device that passed the checks, with the parameters they gave.\<close>

definition attempt_ok :: "runtime_board \<Rightarrow> binding_attempt \<Rightarrow> bool" where
  "attempt_ok board c \<longleftrightarrow>
     (case check_device board (at_device c) of
        Inl _ \<Rightarrow> False
      | Inr (serial, ps) \<Rightarrow> ps = at_parameters c \<and> sb_serial_id (at_binding c) = serial_id serial)"

text \<open>
  A bind request is under way only without a lease and for the current attempt in its generation; the
  verification of a line belongs to an attempt; a task that is not in its loop holds nothing; and
  neither of the two contradictions the code guards against has come about.
\<close>

definition runtime_ok :: "runtime_board \<Rightarrow> serial_runtime \<Rightarrow> bool" where
  "runtime_ok board st \<longleftrightarrow>
     is_none_or (rt_opening st) (\<lambda>r. rt_lease st = None \<and>
       is_some_and (rt_current st) (\<lambda>c. r = bind_future (rt_owner st) (rt_generation st) c (br_deadline r))) \<and>
     is_none_or (rt_current st) (attempt_ok board) \<and>
     (rt_stage st = Owning \<longrightarrow> rt_verifying st \<noteq> None \<longrightarrow> rt_current st \<noteq> None) \<and>
     (rt_stage st = Unattached \<longrightarrow> rt_verifying st = None) \<and>
     (rt_stage st \<noteq> Owning \<longrightarrow> rt_lease st = None \<and> rt_opening st = None \<and> rt_current st = None) \<and>
     rt_stage st \<notin> {Returned (Inl MissingAttempt), Returned (Inl MissingVerification)}"

lemma runtime_ok_default: "runtime_ok board serial_runtime_default"
  by (simp add: runtime_ok_def serial_runtime_default_def)

lemma runtime_ok_update_status [simp]: "runtime_ok board (update_status f st) = runtime_ok board st"
  by (simp add: runtime_ok_def)

lemma runtime_ok_commands [simp]: "runtime_ok board (st\<lparr>rt_commands := cs\<rparr>) = runtime_ok board st"
  by (simp add: runtime_ok_def)

lemma runtime_ok_owner_return:
  "r \<noteq> Inl MissingAttempt \<Longrightarrow> r \<noteq> Inl MissingVerification \<Longrightarrow>
     runtime_ok board (snd (owner_return r st))"
  by (simp add: runtime_helpers runtime_ok_def)

lemma attempt_ok_intro:
  "check_device board device = Inr (serial, ps) \<Longrightarrow> attempt_ok board \<lparr>at_device = device,
     at_parameters = ps, at_binding = \<lparr>sb_serial_id = serial_id serial, binding_id = i, mode = Bound\<rparr>,
     at_warning = w, at_reply = a\<rparr>"
  by (simp add: attempt_ok_def)

lemma attempt_ok_reply [simp]: "attempt_ok board (c\<lparr>at_reply := a\<rparr>) = attempt_ok board c"
  by (auto simp: attempt_ok_def split: sum.splits)

lemma bind_future_reply [simp]: "bind_future own g (c\<lparr>at_reply := a\<rparr>) d = bind_future own g c d"
  by (simp add: bind_future_def)

lemma bind_future_deadline [simp]: "br_deadline (bind_future own g c d) = d"
  by (simp add: bind_future_def)

lemma runtime_ok_waits [simp]:
  "runtime_ok board (st\<lparr>rt_deadline := d\<rparr>) = runtime_ok board st"
  "runtime_ok board (st\<lparr>rt_power_wait := p\<rparr>) = runtime_ok board st"
  by (simp_all add: runtime_ok_def)

lemma reject_bind_snd:
  "\<exists>f. snd (reject_bind now device answer active e st) =
     update_status f (st\<lparr>rt_deadline := now + SERIAL_BIND_TIMEOUT\<rparr>)"
  by (auto simp: reject_bind_def publish_def Let_def)

lemma runtime_ok_reject_bind [simp]:
  "runtime_ok board (snd (reject_bind now device answer active e st)) = runtime_ok board st"
  using reject_bind_snd [of now device answer active e st] by auto

lemma runtime_ok_begin_attempt:
  assumes "runtime_ok board st" "rt_stage st = Owning" "check_device board device = Inr (serial, ps)"
  shows "runtime_ok board (snd (begin_attempt env device serial ps answer st))"
proof (cases "rt_lease st")
  case None
  with assms show ?thesis
    by (simp add: begin_attempt_def publish_def runtime_ok_def attempt_ok_intro Let_def)
next
  case (Some l)
  with assms show ?thesis
    by (cases "env_configured env")
      (simp_all add: begin_attempt_def publish_def drop_lease_def runtime_ok_def attempt_ok_intro Let_def)
qed

lemma runtime_ok_bind_command:
  assumes "runtime_ok board st" "rt_stage st = Owning"
  shows "runtime_ok board (snd (handle_bind_command board env device answer st))"
  using assms
  by (auto simp: handle_bind_command_def Let_def runtime_ok_owner_return runtime_ok_begin_attempt
      split: sum.split option.split)

lemma runtime_ok_command:
  assumes "runtime_ok board st" "rt_stage st = Owning"
  shows "runtime_ok board (snd (handle_runtime_command board env c st))"
proof (cases c)
  case BindCommand
  with assms show ?thesis by (simp add: runtime_ok_bind_command)
next
  case ConfirmCommand
  with assms show ?thesis
    by (simp add: handle_confirm_command_def publish_def Let_def)
next
  case FailCommand
  then show ?thesis by (simp add: runtime_ok_owner_return)
next
  case RestartCommand
  with assms show ?thesis
    by (simp add: handle_restart_command_def publish_def Let_def runtime_ok_def)
qed

lemma runtime_ok_opened:
  assumes "runtime_ok board st" "rt_stage st = Owning" "rt_opening st \<noteq> None"
  shows "runtime_ok board (snd (handle_opened now r st))"
proof -
  obtain c where c: "rt_current st = Some c"
    using assms by (cases "rt_current st") (auto simp: runtime_ok_def)
  with assms show ?thesis
    by (cases r) (auto simp: handle_opened_def Let_def runtime_helpers runtime_ok_def)
qed

lemma runtime_ok_lost:
  assumes "runtime_ok board st" "rt_stage st = Owning" "rt_lease st \<noteq> None"
  shows "runtime_ok board (snd (handle_lost e now st))"
  using assms
  by (cases "rt_opening st"; cases "rt_current st")
    (auto simp: handle_lost_def runtime_helpers runtime_ok_def)

lemma runtime_ok_lease:
  "runtime_ok board st \<Longrightarrow> rt_stage st = Owning \<Longrightarrow> rt_lease st \<noteq> None \<Longrightarrow>
     runtime_ok board (st\<lparr>rt_lease := Some l\<rparr>)"
  by (cases "rt_opening st") (auto simp: runtime_ok_def)

lemma runtime_ok_read:
  assumes "runtime_ok board st" "rt_stage st = Owning" "rt_lease st \<noteq> None"
  shows "runtime_ok board (snd (handle_read_bytes bs blocked st))"
  using assms
  by (cases "rt_current st"; cases blocked; cases "rt_opening st")
    (auto simp: handle_read_bytes_def take_identity_def take_observed_id_def runtime_helpers runtime_ok_def
      split: option.splits)

lemma runtime_ok_tick:
  assumes "runtime_ok board st" "rt_stage st = Owning"
  shows "runtime_ok board (snd (handle_tick env st))"
  using assms
  by (cases "rt_current st"; cases "rt_verifying st")
    (auto simp: handle_tick_def runtime_helpers runtime_ok_def Let_def split: option.splits)

lemma poll_read_frame:
  assumes "poll_read room a l = (got, cs, l')"
  shows "lease_drop l' = lease_drop l \<and> (\<forall>c \<in> set cs. c = Invalidate (lease_mac (io_lease l)))"
  using assms
  by (auto simp: poll_read_def lease_drop_def Let_def split: if_splits poll.splits sum.splits)

lemma runtime_ok_read_event:
  assumes "runtime_ok board st" "rt_stage st = Owning" "rt_lease st \<noteq> None"
  shows "runtime_ok board (snd (handle_read_event now a blocked st))"
  using assms
  by (auto simp: handle_read_event_def Let_def case_prod_beta runtime_ok_lost runtime_ok_read
      runtime_ok_lease split: option.split sum.split poll.split)

lemma runtime_ok_input:
  assumes "runtime_ok board st" "rt_stage st = Owning"
  shows "runtime_ok board (snd (handle_input now p as st))"
  using assms
  by (auto simp: handle_input_def Let_def case_prod_beta runtime_ok_lost split: option.split sum.split)

lemma runtime_ok_owner_step:
  assumes "runtime_ok board st"
  shows "runtime_ok board (snd (owner_step board env e st))"
  using assms
  by (cases e)
    (auto simp: owner_step_def runtime_ok_owner_return runtime_ok_command runtime_ok_opened
      runtime_ok_read_event runtime_ok_input runtime_ok_tick split: list.split)

lemma runtime_ok_finish: "runtime_ok board (snd (finish r st))"
  by (simp add: finish_def drop_locals_def drop_lease_def runtime_ok_def)

lemma runtime_ok_send_command [simp]: "runtime_ok board (send_runtime_command c st) = runtime_ok board st"
  by (simp add: send_runtime_command_def)

lemma runtime_ok_callers:
  assumes "runtime_ok board st"
  shows "runtime_ok board (attach own now st)" "runtime_ok board (restart powered answer st)"
    "runtime_ok board (fail e st)"
  using assms by (auto simp: attach_def restart_def fail_def runtime_ok_def Let_def send_runtime_command_def)

lemma runtime_ok_step: "runtime_ok board st \<Longrightarrow> runtime_ok board (snd (serial_runtime_step board op st))"
  by (cases op) (simp_all add: runtime_ok_callers runtime_ok_owner_step runtime_ok_finish
      split: runtime_stage.split)

interpretation runtime: invariant_machine "\<lambda>st op. snd (serial_runtime_step board op st)" "runtime_ok board" for board
  by unfold_locales (rule runtime_ok_step)

lemma runtime_run_snd: "snd (runtime_run board ops st) = foldl (\<lambda>st op. snd (serial_runtime_step board op st)) st ops"
  by (induction ops arbitrary: st) (auto simp: Let_def case_prod_beta)

lemma runtime_ok_run: "runtime_ok board st \<Longrightarrow> runtime_ok board (snd (runtime_run board ops st))"
  unfolding runtime_run_snd by (rule runtime.run_inv)

lemma attempt_ok_client_bind: "attempt_ok board c \<Longrightarrow> client_bind (bind_future own g c d) = None"
  by (auto simp: attempt_ok_def check_device_def client_bind_def bind_future_def Let_def is_ok_def
      split: sum.splits option.splits if_splits)

lemma runtime_ok_opening:
  assumes "runtime_ok board st" "rt_opening st = Some r"
  shows "rt_lease st = None \<and> client_bind r = None \<and>
    (\<exists>c. rt_current st = Some c \<and> r = bind_future (rt_owner st) (rt_generation st) c (br_deadline r))"
proof -
  obtain c where c: "rt_lease st = None" "rt_current st = Some c" "attempt_ok board c"
      "r = bind_future (rt_owner st) (rt_generation st) c (br_deadline r)"
    using assms by (cases "rt_current st") (auto simp: runtime_ok_def)
  then show ?thesis by (metis attempt_ok_client_bind)
qed

section \<open>Accounting\<close>

text \<open>What becomes of the leases the task is given: those it holds and those it gives back.\<close>

definition held :: "serial_runtime \<Rightarrow> command multiset" where
  "held st = (case rt_lease st of None \<Rightarrow> {#} | Some l \<Rightarrow> {#lease_drop l#})"

fun release_of :: "runtime_output \<Rightarrow> command option" where
  "release_of (ToManager (Release p t)) = Some (Release p t)"
| "release_of _ = None"

definition released :: "runtime_output list \<Rightarrow> command multiset" where
  "released os = mset (List.map_filter release_of os)"

lemma released_simps [simp]:
  "released [] = {#}"
  "released (o1 # os) = (case release_of o1 of None \<Rightarrow> {#} | Some c \<Rightarrow> {#c#}) + released os"
  "released (os @ os') = released os + released os'"
  by (auto simp: released_def List.map_filter_simps List.map_filter_def split: option.splits)

lemma release_of_drop [simp]: "release_of (ToManager (lease_drop l)) = Some (lease_drop l)"
  by (simp add: lease_drop_def)

lemma release_of_confirm [simp]: "release_of (ToManager (lease_confirm l)) = None"
  by (simp add: lease_confirm_def)

lemma held_update_status [simp]: "held (update_status f st) = held st"
  by (simp add: held_def)

lemma drop_lease_held [simp]:
  "released (fst (drop_lease st)) = held st"
  "held (snd (drop_lease st)) = {#}"
  by (auto simp: drop_lease_def held_def split: option.split)

lemma owner_return_held [simp]:
  "released (fst (owner_return r st)) = held st"
  "held (snd (owner_return r st)) = {#}"
  using drop_lease_held [of st]
  by (auto simp: owner_return_def drop_locals_def held_def case_prod_beta Let_def)

lemma held_fields [simp]:
  "held (st\<lparr>rt_opening := a\<rparr>) = held st"
  "held (st\<lparr>rt_current := b\<rparr>) = held st"
  "held (st\<lparr>rt_generation := g\<rparr>) = held st"
  "held (st\<lparr>rt_deadline := d\<rparr>) = held st"
  "held (st\<lparr>rt_power_wait := w\<rparr>) = held st"
  "held (st\<lparr>rt_verifying := v\<rparr>) = held st"
  "held (st\<lparr>rt_commands := cs\<rparr>) = held st"
  "held (st\<lparr>rt_stage := g'\<rparr>) = held st"
  "held (st\<lparr>rt_retired := e\<rparr>) = held st"
  "held (st\<lparr>rt_owner := n\<rparr>) = held st"
  by (simp_all add: held_def)

lemma lease_drop_frame [simp]:
  "lease_drop (lease_configure l) = lease_drop l"
  "lease_drop (snd (take_observed_id l)) = lease_drop l"
  by (simp_all add: lease_drop_def lease_configure_def take_observed_id_def)

lemma held_default [simp]: "held serial_runtime_default = {#}"
  by (simp add: held_def serial_runtime_default_def)

text \<open>A step that is given the leases \<open>new\<close> releases or holds what there was.\<close>

definition balanced ::
    "command multiset \<Rightarrow> serial_runtime \<Rightarrow> runtime_output list \<times> serial_runtime \<Rightarrow> bool" where
  "balanced new st p \<longleftrightarrow> released (fst p) + held (snd p) = new + held st"

lemma balanced_publish [simp]: "balanced new st (publish s st') \<longleftrightarrow> held st' = new + held st"
  by (auto simp: balanced_def publish_def)

lemma balanced_drop [simp]: "balanced new st (drop_lease st') \<longleftrightarrow> held st' = new + held st"
  by (simp add: balanced_def)

lemma balanced_return [simp]: "balanced new st (owner_return r st') \<longleftrightarrow> held st' = new + held st"
  by (simp add: balanced_def)

lemma balanced_reject_bind [simp]:
  "balanced new st (reject_bind now device answer active e st') \<longleftrightarrow> held st' = new + held st"
  by (auto simp: balanced_def reject_bind_def publish_def Let_def split: option.split)

lemma balanced_command: "balanced {#} st (handle_runtime_command board env c st)"
proof (cases c)
  case (BindCommand device answer)
  have "balanced {#} st (begin_attempt env device serial ps answer (st\<lparr>rt_power_wait := True\<rparr>))" for serial ps
    by (cases "rt_lease st"; cases "env_configured env")
      (auto simp: begin_attempt_def balanced_def publish_def drop_lease_def held_def Let_def)
  then show ?thesis
    by (auto simp: BindCommand handle_bind_command_def balanced_def [of _ _ "(_, _)"] Let_def
        split: sum.split option.split)
qed (auto simp: handle_confirm_command_def handle_restart_command_def balanced_def publish_def Let_def
    split: option.split)

lemma balanced_opened:
  "balanced (case r of Inl _ \<Rightarrow> {#} | Inr io \<Rightarrow> {#lease_drop (lease_new io)#}) st (handle_opened now r st)"
  by (cases r; cases "rt_current st")
    (auto simp: handle_opened_def balanced_def reject_bind_def publish_def owner_return_def drop_locals_def
      drop_lease_def held_def Let_def split: option.splits)

lemma balanced_lost: "balanced {#} st (handle_lost e now st)"
  by (cases "rt_current st")
    (auto simp: handle_lost_def balanced_def publish_def drop_lease_def held_def Let_def split: option.splits)

lemma balanced_read: "balanced {#} st (handle_read_bytes bs blocked st)"
  by (cases "rt_current st"; cases blocked)
    (auto simp: handle_read_bytes_def take_identity_def balanced_def publish_def owner_return_def drop_locals_def
      drop_lease_def held_def take_observed_id_def lease_drop_def Let_def split: option.splits)

lemma balanced_tick: "balanced {#} st (handle_tick env st)"
  by (cases "rt_current st"; cases "rt_verifying st")
    (auto simp: handle_tick_def balanced_def publish_def owner_return_def drop_locals_def
      drop_lease_def held_def Let_def split: option.splits)

lemma released_commands:
  "\<forall>c \<in> set cs. \<exists>m. c = Invalidate m \<Longrightarrow> released (map ToManager cs) = {#}"
  by (induction cs) auto

lemma balanced_prefix:
  "balanced new st p \<Longrightarrow> released os = {#} \<Longrightarrow> balanced new st (os @ fst p, snd p)"
  by (simp add: balanced_def)

lemma balanced_read_event: "balanced {#} st (handle_read_event now a blocked st)"
proof (cases "rt_lease st")
  case (Some l)
  obtain got cs l' where p: "poll_read 4096 (Ready a) l = (got, cs, l')" by (cases "poll_read 4096 (Ready a) l")
  with poll_read_frame [OF p] have cs: "released (map ToManager cs) = {#}"
    and h: "held (st\<lparr>rt_lease := Some l'\<rparr>) = held st"
    by (auto simp: held_def Some intro!: released_commands)
  from h have eq: "balanced {#} st q = balanced {#} (st\<lparr>rt_lease := Some l'\<rparr>) q" for q
    by (simp add: balanced_def)
  show ?thesis
    unfolding handle_read_event_def Let_def
    by (auto simp: Some p case_prod_beta eq balanced_lost balanced_read cs balanced_def [of _ _ "(map _ _, st\<lparr>rt_lease := _\<rparr>)"]
        intro!: balanced_prefix [OF _ cs] split: poll.split sum.split)
qed (simp add: handle_read_event_def balanced_def)

lemma write_all_commands:
  "c \<in> set (snd (lease_write_all bs as l)) \<Longrightarrow> c = Invalidate (lease_mac (io_lease l))"
  by (induction bs as l rule: lease_write_all.induct)
    (auto simp: poll_write_def Let_def case_prod_beta split: sum.splits if_splits)

lemma balanced_input: "balanced {#} st (handle_input now p as st)"
proof (cases "rt_lease st")
  case (Some l)
  have cs: "released (map ToManager (snd (lease_write_all p as l))) = {#}"
    using write_all_commands by (intro released_commands) blast
  show ?thesis
    unfolding handle_input_def Let_def
    by (auto simp: Some case_prod_beta balanced_lost cs balanced_def [of _ _ "(map _ _, st)"]
        intro!: balanced_prefix [OF _ cs] split: option.split sum.split)
qed (simp add: handle_input_def balanced_def)

text \<open>The leases a step or a run is given by the bind requests that succeed.\<close>

fun given :: "runtime_op \<Rightarrow> serial_runtime \<Rightarrow> command list" where
  "given (OwnerRound env (OpenedEvent (Inr io))) st =
     (if rt_stage st = Owning \<and> rt_opening st \<noteq> None then [lease_drop (lease_new io)] else [])"
| "given _ st = []"

fun given_run :: "runtime_board \<Rightarrow> runtime_op list \<Rightarrow> serial_runtime \<Rightarrow> command list" where
  "given_run board [] st = []"
| "given_run board (op # ops) st = given op st @ given_run board ops (snd (serial_runtime_step board op st))"

lemma balanced_owner_step: "balanced (mset (given (OwnerRound env e) st)) st (owner_step board env e st)"
proof (cases "rt_stage st = Owning \<and> event_ready e st")
  case True
  show ?thesis
  proof (cases e)
    case CommandEvent
    with True obtain c cs where q: "rt_commands st = c # cs" by (cases "rt_commands st") auto
    show ?thesis
      using balanced_command [of "st\<lparr>rt_commands := cs\<rparr>" board env c] True
      by (simp add: CommandEvent owner_step_def q balanced_def)
  next
    case (OpenedEvent r)
    show ?thesis
      using balanced_opened [of r st "env_now env"] True
      by (cases r) (simp_all add: OpenedEvent owner_step_def)
  qed (use True in \<open>simp_all add: owner_step_def balanced_read_event balanced_input balanced_tick\<close>)
next
  case False
  then have "given (OwnerRound env e) st = []"
    by (cases "(OwnerRound env e, st)" rule: given.cases) auto
  with False show ?thesis by (auto simp: owner_step_def balanced_def)
qed

lemma balanced_finish: "balanced {#} st (finish r st)"
  by (auto simp: finish_def balanced_def drop_locals_def drop_lease_def held_def Let_def
      split: option.split sum.split)

lemma balanced_step: "balanced (mset (given op st)) st (serial_runtime_step board op st)"
  by (cases op)
    (auto simp: balanced_owner_step balanced_finish balanced_def [of _ _ "([], _)"] attach_def restart_def
      send_runtime_command_def fail_def Let_def split: runtime_stage.split)

lemma balanced_run: "balanced (mset (given_run board ops st)) st (runtime_run board ops st)"
proof (induction ops arbitrary: st)
  case (Cons op ops)
  from Cons.IH [of "snd (serial_runtime_step board op st)"] balanced_step [of op st board] show ?case
    by (simp add: balanced_def case_prod_beta Let_def ac_simps)
qed (simp add: balanced_def)

text \<open>The callers that wait: in the channel, and the one of the current attempt.\<close>

fun caller_of :: "runtime_command \<Rightarrow> nat multiset" where
  "caller_of (BindCommand _ r) = {#r#}"
| "caller_of (ConfirmCommand _ r) = {#r#}"
| "caller_of (FailCommand _) = {#}"
| "caller_of (RestartCommand _ r) = {#r#}"

definition attempt_caller :: "binding_attempt option \<Rightarrow> nat multiset" where
  "attempt_caller c = (case Option.bind c at_reply of None \<Rightarrow> {#} | Some r \<Rightarrow> {#r#})"

definition waiting :: "serial_runtime \<Rightarrow> nat multiset" where
  "waiting st = sum_list (map caller_of (rt_commands st)) + attempt_caller (rt_current st)"

fun answered_by :: "runtime_output \<Rightarrow> nat option" where
  "answered_by (BindAnswer r _) = Some r"
| "answered_by (ConfirmAnswer r _) = Some r"
| "answered_by (RestartAnswer r) = Some r"
| "answered_by _ = None"

definition answered :: "runtime_output list \<Rightarrow> nat multiset" where
  "answered os = mset (List.map_filter answered_by os)"

lemma answered_simps [simp]:
  "answered [] = {#}"
  "answered (o1 # os) = (case answered_by o1 of None \<Rightarrow> {#} | Some r \<Rightarrow> {#r#}) + answered os"
  "answered (os @ os') = answered os + answered os'"
  "answered (map ToManager cs) = {#}"
  by (auto simp: answered_def List.map_filter_simps List.map_filter_def comp_def split: option.splits)

lemma attempt_caller_simps [simp]:
  "attempt_caller None = {#}"
  "attempt_caller (Some c) = (case at_reply c of None \<Rightarrow> {#} | Some r \<Rightarrow> {#r#})"
  by (simp_all add: attempt_caller_def)

text \<open>A step that is asked by the callers \<open>new\<close> answers or keeps no others, each once.\<close>

definition fair ::
    "nat multiset \<Rightarrow> serial_runtime \<Rightarrow> runtime_output list \<times> serial_runtime \<Rightarrow> bool" where
  "fair new st p \<longleftrightarrow> answered (fst p) + waiting (snd p) \<subseteq># new + waiting st"

lemmas fair_simps = fair_def waiting_def subseteq_mset_def

lemma fair_owner_return [simp]: "fair new st (owner_return r st)"
  by (simp add: fair_simps owner_return_def drop_locals_def drop_lease_def split: option.split)

lemma fair_reject_bind:
  "fair (case answer of None \<Rightarrow> {#} | Some r \<Rightarrow> {#r#}) st (reject_bind now device answer active e st)"
  by (auto simp: fair_simps reject_bind_def publish_def Let_def split: option.split)

lemma fair_begin_attempt: "fair {#r#} st (begin_attempt env device serial ps r st)"
  by (cases "rt_lease st"; cases "env_configured env")
    (auto simp: begin_attempt_def fair_simps publish_def drop_lease_def Let_def)

lemma fair_power_wait [simp]:
  "fair new (st\<lparr>rt_power_wait := w\<rparr>) p = fair new st p"
  "fair new st (owner_return r (st\<lparr>rt_power_wait := w\<rparr>))"
  using fair_owner_return [of new "st\<lparr>rt_power_wait := w\<rparr>" r] by (simp_all add: fair_simps)

lemma fair_command: "fair (caller_of c) st (handle_runtime_command board env c st)"
proof (cases c)
  case (BindCommand device answer)
  show ?thesis
    using fair_reject_bind [of "Some answer" "st\<lparr>rt_power_wait := True\<rparr>"]
      fair_begin_attempt [of answer "st\<lparr>rt_power_wait := True\<rparr>"]
    by (auto simp: BindCommand handle_bind_command_def fair_def [of _ _ "([_], _)"] waiting_def subseteq_mset_def Let_def
        split: sum.split option.split)
next
  case FailCommand
  then show ?thesis by simp
qed (auto simp: handle_confirm_command_def handle_restart_command_def fair_simps publish_def Let_def
    split: option.split)

lemma fair_opened: "fair {#} st (handle_opened now r st)"
  by (cases r; cases "rt_current st")
    (auto simp: handle_opened_def fair_simps reject_bind_def publish_def owner_return_def drop_locals_def
      drop_lease_def Let_def lease_drop_def split: option.splits)

lemma fair_lost: "fair {#} st (handle_lost e now st)"
  by (cases "rt_current st")
    (auto simp: handle_lost_def fair_simps publish_def drop_lease_def Let_def split: option.splits)

lemma fair_read: "fair {#} st (handle_read_bytes bs blocked st)"
  by (cases "rt_current st"; cases blocked)
    (auto simp: handle_read_bytes_def take_identity_def fair_simps publish_def owner_return_def drop_locals_def
      drop_lease_def take_observed_id_def lease_drop_def Let_def split: option.splits)

lemma fair_tick: "fair {#} st (handle_tick env st)"
  by (cases "rt_current st"; cases "rt_verifying st")
    (auto simp: handle_tick_def fair_simps publish_def owner_return_def drop_locals_def
      drop_lease_def Let_def split: option.splits)

lemma fair_commands: "fair new st (map ToManager cs @ fst p, snd p) = fair new st p"
  by (simp add: fair_simps)

lemma fair_lease [simp]: "fair new (st\<lparr>rt_lease := l\<rparr>) p = fair new st p"
  by (simp add: fair_simps)

lemma fair_read_event: "fair {#} st (handle_read_event now a blocked st)"
  unfolding handle_read_event_def
  by (auto simp: Let_def case_prod_beta fair_commands fair_def [of _ _ "(map _ _, st)"] fair_def [of _ _ "([], st)"]
      fair_def [of _ _ "([], st\<lparr>rt_lease := _\<rparr>)"]
      fair_def [of _ _ "(map _ _, st\<lparr>rt_lease := _\<rparr>)"] waiting_def subseteq_mset_def
      fair_lost [of "st\<lparr>rt_lease := _\<rparr>", simplified] fair_read [of "st\<lparr>rt_lease := _\<rparr>", simplified]
      split: option.split poll.split sum.split)

lemma fair_input: "fair {#} st (handle_input now p as st)"
  unfolding handle_input_def
  by (auto simp: Let_def case_prod_beta fair_commands fair_def [of _ _ "(map _ _, st)"] fair_def [of _ _ "([], st)"]
      fair_def [of _ _ "([], st\<lparr>rt_lease := _\<rparr>)"]
      fair_def [of _ _ "(map _ _, st\<lparr>rt_lease := _\<rparr>)"] waiting_def subseteq_mset_def
      fair_lost split: option.split sum.split)

lemma waiting_default: "waiting serial_runtime_default = {#}"
  by (simp add: waiting_def serial_runtime_default_def)

fun asked_by :: "runtime_op \<Rightarrow> nat multiset" where
  "asked_by (CallBind _ r) = {#r#}"
| "asked_by (CallConfirm _ r) = {#r#}"
| "asked_by (CallRestart _ r) = {#r#}"
| "asked_by _ = {#}"

lemma fair_owner_step: "fair {#} st (owner_step board env e st)"
proof (cases "rt_stage st = Owning \<and> event_ready e st")
  case True
  show ?thesis
  proof (cases e)
    case CommandEvent
    with True obtain c cs where q: "rt_commands st = c # cs" by (cases "rt_commands st") auto
    show ?thesis
      using fair_command [of c "st\<lparr>rt_commands := cs\<rparr>" board env] True
      by (auto simp: CommandEvent owner_step_def q fair_simps ac_simps)
  qed (use True in \<open>simp_all add: owner_step_def fair_read_event fair_input fair_tick fair_opened\<close>)
next
  case False
  then show ?thesis by (auto simp: owner_step_def fair_simps)
qed

lemma fair_finish: "fair {#} st (finish r st)"
  by (auto simp: finish_def fair_simps drop_locals_def drop_lease_def Let_def
      split: option.split sum.split)

lemma fair_callers:
  "fair (caller_of c) st ([], send_runtime_command c st)"
  "fair {#} st ([], attach own now st)"
  "fair {#} st ([], fail m st)"
  "fair {#r#} st ([], restart powered r st)"
  by (auto simp: fair_simps send_runtime_command_def attach_def fail_def restart_def Let_def)

lemma fair_step: "fair (asked_by op) st (serial_runtime_step board op st)"
  using fair_callers(1) [of "BindCommand _ _"] fair_callers(1) [of "ConfirmCommand _ _"]
  by (cases op)
    (simp_all add: fair_owner_step fair_finish fair_callers fair_def [of "{#}" st "([], st)"]
      split: runtime_stage.split)

lemma fair_trans:
  assumes "answered os + w1 \<subseteq># n + w0" "answered os' + w2 \<subseteq># m + w1"
  shows "answered (os @ os') + w2 \<subseteq># n + m + w0"
proof (rule mset_subset_eqI)
  fix r
  have "count (answered os) r + count w1 r \<le> count n r + count w0 r"
    "count (answered os') r + count w2 r \<le> count m r + count w1 r"
    using assms [THEN mset_subset_eq_count, of r] by simp_all
  then show "count (answered (os @ os') + w2) r \<le> count (n + m + w0) r"
    by simp
qed

lemma fair_run:
  "fair (sum_list (map asked_by ops)) st (runtime_run board ops st)"
proof (induction ops arbitrary: st)
  case (Cons op ops)
  from fair_trans [OF fair_step [of op st board, unfolded fair_def]
      Cons.IH [of "snd (serial_runtime_step board op st)", unfolded fair_def]]
  show ?case
    by (simp add: fair_def case_prod_beta Let_def)
qed (simp add: fair_def)

section \<open>Failure is final\<close>

lemma update_status_failed [simp]:
  "rs_phase (rt_status st) = FailedPhase \<Longrightarrow> update_status f st = st"
  by (simp add: update_status_def)

lemma failed_command:
  "rs_phase (rt_status st) = FailedPhase \<Longrightarrow>
     rt_status (snd (handle_runtime_command board env c st)) = rt_status st"
  by (cases c)
    (auto simp: command_handlers runtime_helpers Let_def split: sum.split option.split)

lemma failed_opened:
  "rs_phase (rt_status st) = FailedPhase \<Longrightarrow> rt_status (snd (handle_opened now r st)) = rt_status st"
  by (cases r; cases "rt_current st") (auto simp: handle_opened_def runtime_helpers Let_def)

lemma failed_lost:
  "rs_phase (rt_status st) = FailedPhase \<Longrightarrow> rt_status (snd (handle_lost e now st)) = rt_status st"
  by (cases "rt_current st") (auto simp: handle_lost_def runtime_helpers Let_def)

lemma failed_read:
  "rs_phase (rt_status st) = FailedPhase \<Longrightarrow> rt_status (snd (handle_read_bytes bs blocked st)) = rt_status st"
  by (cases "rt_current st"; cases blocked)
    (auto simp: handle_read_bytes_def take_identity_def runtime_helpers Let_def case_prod_beta split: option.split)

lemma failed_tick:
  "rs_phase (rt_status st) = FailedPhase \<Longrightarrow> rt_status (snd (handle_tick env st)) = rt_status st"
  by (cases "rt_current st") (auto simp: handle_tick_def runtime_helpers Let_def)

lemma failed_owner_step:
  assumes "rs_phase (rt_status st) = FailedPhase"
  shows "rt_status (snd (owner_step board env e st)) = rt_status st"
  using assms
  by (cases e)
    (auto simp: owner_step_def runtime_helpers failed_command failed_opened failed_tick handle_read_event_def
      handle_input_def failed_lost failed_read Let_def case_prod_beta
      split: list.split option.split poll.split sum.split)

lemma failed_step:
  assumes "rs_phase (rt_status st) = FailedPhase"
  shows "rt_status (snd (serial_runtime_step board op st)) = rt_status st"
  using assms
  by (cases op)
    (auto simp: failed_owner_step finish_def drop_locals_def drop_lease_def attach_def restart_def
      send_runtime_command_def fail_def Let_def split: runtime_stage.split)

interpretation runtime_failed: absorbing_machine "\<lambda>st op. snd (serial_runtime_step board op st)" "runtime_ok board"
    "\<lambda>st. rs_phase (rt_status st) = FailedPhase" rt_status for board
  by unfold_locales (simp add: failed_step)

section \<open>Grants\<close>

text \<open>The task holds a line and has told the current boot that it is bound to it.\<close>

definition live_grant :: "serial_binding \<Rightarrow> serial_runtime \<Rightarrow> bool" where
  "live_grant b st \<longleftrightarrow>
     rt_lease st \<noteq> None \<and> is_some_and (rt_current st) (\<lambda>c. at_binding c = b \<and> at_reply c = None)"

definition grants :: "runtime_output list \<Rightarrow> serial_binding set" where
  "grants os = {b. \<exists>r. BindAnswer r (Inr b) \<in> set os}"

lemma grants_simps [simp]:
  "grants [] = {}"
  "grants (o1 # os) = (case o1 of BindAnswer r (Inr b) \<Rightarrow> {b} | _ \<Rightarrow> {}) \<union> grants os"
  "grants (os @ os') = grants os \<union> grants os'"
  "grants (map ToManager cs) = {}"
  by (auto simp: grants_def split: runtime_output.splits sum.splits)

lemma grants_helpers [simp]:
  "grants (fst (publish s st)) = {}"
  "grants (fst (drop_lease st)) = {}"
  "grants (fst (owner_return r st)) = {}"
  "grants (fst (drop_locals st)) = {}"
  "grants (fst (reject_bind now device answer active e st)) = {}"
  by (auto simp: runtime_helpers Let_def split: option.split)

lemma grants_command:
  assumes "b \<in> grants (fst (handle_runtime_command board env c st))"
  shows "live_grant b st \<and> live_grant b (snd (handle_runtime_command board env c st))"
proof (cases c)
  case (BindCommand device answer)
  have "b \<notin> grants (fst (begin_attempt env device serial ps answer st'))" for serial ps st'
    by (cases "rt_lease st'"; cases "env_configured env")
      (auto simp: begin_attempt_def publish_def drop_lease_def Let_def)
  with assms show ?thesis
    by (auto simp: BindCommand handle_bind_command_def granted_binding_def live_grant_def Let_def
        split: if_splits sum.splits option.splits bind_splits)
qed (use assms in \<open>auto simp: handle_confirm_command_def handle_restart_command_def publish_def Let_def
    split: option.splits if_splits\<close>)

lemma grants_opened:
  assumes "b \<in> grants (fst (handle_opened now r st))"
  shows "(\<exists>io. r = Inr io) \<and> live_grant b (snd (handle_opened now r st))"
  using assms
  by (cases r; cases "rt_current st")
    (auto simp: handle_opened_def live_grant_def case_prod_beta publish_def drop_lease_def Let_def
      split: if_splits option.splits)

lemma grants_lost: "grants (fst (handle_lost e now st)) = {}"
  by (cases "rt_current st") (auto simp: handle_lost_def publish_def drop_lease_def Let_def split: option.split)

lemma grants_tick: "grants (fst (handle_tick env st)) = {}"
  by (cases "rt_current st") (auto simp: handle_tick_def case_prod_beta Let_def)

lemma grants_read:
  assumes "b \<in> grants (fst (handle_read_bytes bs blocked st))" "rt_lease st = Some l"
  shows "io_observed l = Some (str_bytes (sb_serial_id b)) \<and>
    (case blocked of
       None \<Rightarrow> live_grant b (snd (handle_read_bytes bs blocked st))
     | Some reason \<Rightarrow> rt_stage (snd (handle_read_bytes bs blocked st)) = Returned (Inl (OutputBlocked reason)))"
  using assms
  by (cases "rt_current st"; cases blocked)
    (auto simp: handle_read_bytes_def take_identity_def take_observed_id_def live_grant_def publish_def
      owner_return_def case_prod_beta Let_def is_some_and_def split: option.splits if_splits)

text \<open>Where a grant can come from.\<close>

definition identified :: "serial_binding \<Rightarrow> runtime_event \<Rightarrow> serial_runtime \<Rightarrow> bool" where
  "identified b e st \<longleftrightarrow>
     (case e of
        OpenedEvent (Inr io) \<Rightarrow> True
      | ReadEvent a blocked \<Rightarrow> is_some_and (rt_lease st) (\<lambda>l.
          io_observed (snd (snd (poll_read 4096 (Ready a) l))) = Some (str_bytes (sb_serial_id b)))
      | CommandEvent \<Rightarrow> live_grant b st
      | _ \<Rightarrow> False)"

lemma live_grant_commands [simp]: "live_grant b (st\<lparr>rt_commands := cs\<rparr>) = live_grant b st"
  by (simp add: live_grant_def)

lemma grants_owner_step:
  assumes "b \<in> grants (fst (owner_step board env e st))"
  shows "identified b e st \<and>
    (live_grant b (snd (owner_step board env e st)) \<or>
     (\<exists>reason. rt_stage (snd (owner_step board env e st)) = Returned (Inl (OutputBlocked reason))))"
proof -
  have ready: "rt_stage st = Owning \<and> event_ready e st"
    using assms by (auto simp: owner_step_def split: if_splits)
  show ?thesis
  proof (cases e)
    case CommandEvent
    with ready obtain c cs where q: "rt_commands st = c # cs" by (cases "rt_commands st") auto
    show ?thesis
      using grants_command [of b board env c "st\<lparr>rt_commands := cs\<rparr>"] assms ready
      by (simp add: CommandEvent owner_step_def q identified_def)
  next
    case (OpenedEvent r)
    then show ?thesis
      using grants_opened [of b "env_now env" r st] assms ready
      by (auto simp: owner_step_def identified_def)
  next
    case (ReadEvent a blocked)
    with ready obtain l where l: "rt_lease st = Some l" by auto
    obtain got cs l' where p: "poll_read 4096 (Ready a) l = (got, cs, l')"
      by (cases "poll_read 4096 (Ready a) l")
    show ?thesis
      using assms ready grants_read [of b _ blocked "st\<lparr>rt_lease := Some l'\<rparr>" l']
      by (cases blocked)
        (auto simp: ReadEvent owner_step_def identified_def handle_read_event_def l p case_prod_beta
          Let_def grants_lost split: poll.splits sum.splits if_splits)
  next
    case (InputEvent p as)
    with assms show ?thesis
      by (auto simp: owner_step_def handle_input_def case_prod_beta Let_def grants_lost
          split: if_splits option.splits sum.splits)
  qed (use assms in \<open>auto simp: owner_step_def grants_tick\<close>)
qed

lemma grants_finish: "grants (fst (finish r st)) = {}"
  by (auto simp: finish_def case_prod_beta Let_def split: sum.split)

lemma grants_step:
  assumes "b \<in> grants (fst (serial_runtime_step board op st))"
  obtains env e where "op = OwnerRound env e" "b \<in> grants (fst (owner_step board env e st))"
  using assms by (cases op) (auto simp: grants_finish split: runtime_stage.splits)

lemma live_grant_binding:
  assumes "runtime_ok board st" "live_grant b st"
  shows "valid_serial_id (sb_serial_id b)"
  using assms
  by (cases "rt_current st")
    (auto simp: live_grant_def runtime_ok_def attempt_ok_def check_device_def Let_def
      split: sum.splits option.splits if_splits)

section \<open>Acknowledgments\<close>

lemma lease_confirm_ne [simp]: "Confirm m p t \<noteq> lease_drop l"
  by (simp add: lease_drop_def)

definition confirms :: "runtime_output list \<Rightarrow> command set" where
  "confirms os = {c. \<exists>m p t. c = Confirm m p t \<and> ToManager c \<in> set os}"

lemma confirms_simps [simp]:
  "confirms [] = {}"
  "confirms (o1 # os) = (case o1 of ToManager (Confirm m p t) \<Rightarrow> {Confirm m p t} | _ \<Rightarrow> {}) \<union> confirms os"
  "confirms (os @ os') = confirms os \<union> confirms os'"
  by (auto simp: confirms_def split: runtime_output.splits command.splits)

lemma confirms_invalidate: "\<forall>c \<in> set cs. \<exists>m. c = Invalidate m \<Longrightarrow> confirms (map ToManager cs) = {}"
  by (induction cs) auto

lemma confirms_helpers [simp]:
  "confirms (fst (publish s st)) = {}"
  "confirms (fst (drop_lease st)) = {}"
  "confirms (fst (owner_return r st)) = {}"
  "confirms (fst (drop_locals st)) = {}"
  "confirms (fst (reject_bind now device answer active e st)) = {}"
  by (auto simp: runtime_helpers lease_drop_def Let_def split: option.split)

lemma confirms_events:
  "confirms (fst (handle_opened now r st)) = {}"
  "confirms (fst (handle_lost e now st)) = {}"
  "confirms (fst (handle_read_bytes bs blocked st)) = {}"
  "confirms (fst (handle_tick env st)) = {}"
  by (cases r; cases "rt_current st"; cases blocked;
      auto simp: event_handlers publish_def lease_drop_def case_prod_beta Let_def split: option.split)+

lemma confirms_read_event: "confirms (fst (handle_read_event now a blocked st)) = {}"
proof (cases "rt_lease st")
  case (Some l)
  obtain got cs l' where p: "poll_read 4096 (Ready a) l = (got, cs, l')" by (cases "poll_read 4096 (Ready a) l")
  then have "confirms (map ToManager cs) = {}"
    using poll_read_frame [OF p] by (intro confirms_invalidate) blast
  then show ?thesis
    by (simp add: handle_read_event_def Some p case_prod_beta Let_def confirms_events
        split: poll.split sum.split)
qed (simp add: handle_read_event_def)

lemma confirms_input: "confirms (fst (handle_input now p as st)) = {}"
proof (cases "rt_lease st")
  case (Some l)
  have "confirms (map ToManager (snd (lease_write_all p as l))) = {}"
    using write_all_commands by (intro confirms_invalidate) blast
  then show ?thesis
    by (simp add: handle_input_def Some case_prod_beta Let_def confirms_events split: option.split sum.split)
qed (simp add: handle_input_def)

lemma confirms_begin_attempt: "confirms (fst (begin_attempt env device serial ps answer st)) = {}"
  by (cases "rt_lease st"; cases "env_configured env")
    (auto simp: begin_attempt_def publish_def drop_lease_def lease_drop_def Let_def)

lemma confirms_command:
  assumes "Confirm m p t \<in> confirms (fst (handle_runtime_command board env c st))"
  obtains i r l b where "c = ConfirmCommand i r" "rt_lease st = Some l" "lease_confirm l = Confirm m p t"
    "live_grant b st" "binding_id b = i" "ConfirmAnswer r (Inr ()) \<in> set (fst (handle_runtime_command board env c st))"
    "rs_phase (rt_status (snd (handle_runtime_command board env c st))) \<in> {BoundPhase, FailedPhase}"
proof (cases c)
  case (ConfirmCommand i r)
  with assms show ?thesis
    by (intro that [of i r "the (rt_lease st)" "at_binding (the (rt_current st))"])
      (auto simp: handle_confirm_command_def live_grant_def publish_def update_status_def Let_def
        is_some_and_def lease_confirm_def split: option.splits if_splits)
qed (use assms in \<open>auto simp: handle_bind_command_def handle_restart_command_def publish_def Let_def
    confirms_begin_attempt split: sum.splits option.splits if_splits\<close>)

lemma confirms_step:
  assumes "Confirm m p t \<in> confirms (fst (serial_runtime_step board op st))"
  obtains env c cs where "op = OwnerRound env CommandEvent" "rt_stage st = Owning" "rt_commands st = c # cs"
    "Confirm m p t \<in> confirms (fst (handle_runtime_command board env c (st\<lparr>rt_commands := cs\<rparr>)))"
proof (cases op)
  case (OwnerRound env e)
  with assms that show ?thesis
    by (cases e) (auto simp: owner_step_def confirms_events confirms_read_event confirms_input
        split: if_splits list.splits)
qed (use assms in \<open>auto simp: finish_def case_prod_beta Let_def
    split: runtime_stage.splits sum.splits\<close>)

section \<open>Waiting for the device\<close>

text \<open>
  Callers that never report a device nor restart it, and a task whose only news are ticks, commands
  and its shutdown: nothing has been bound, so the deadline stays where \<open>attach\<close> set it.
\<close>

fun silent_op :: "runtime_op \<Rightarrow> bool" where
  "silent_op (CallBind _ _) = False"
| "silent_op (CallRestart _ _) = False"
| "silent_op (Attach _ _) = False"
| "silent_op _ = True"

fun silent_command :: "runtime_command \<Rightarrow> bool" where
  "silent_command (BindCommand _ _) = False"
| "silent_command (RestartCommand _ _) = False"
| "silent_command _ = True"

definition unheard :: "nat \<Rightarrow> serial_runtime \<Rightarrow> bool" where
  "unheard d st \<longleftrightarrow> rt_lease st = None \<and> rt_opening st = None \<and> rt_current st = None \<and>
     rt_verifying st = None \<and> rt_power_wait st \<and> rt_deadline st = d \<and> rt_stage st \<noteq> Unattached \<and>
     list_all silent_command (rt_commands st)"

lemma unheard_helpers [simp]:
  "unheard d (update_status f st) = unheard d st"
  "unheard d st \<Longrightarrow> unheard d (snd (owner_return r st))"
  by (simp_all add: unheard_def owner_return_def drop_locals_def drop_lease_def)

lemma unheard_owner_step:
  assumes "unheard d st"
  shows "unheard d (snd (owner_step board env e st))"
proof (cases "e = CommandEvent \<and> rt_stage st = Owning \<and> rt_commands st \<noteq> []")
  case True
  then obtain c cs where q: "rt_commands st = c # cs" by (cases "rt_commands st") auto
  with assms have "unheard d (st\<lparr>rt_commands := cs\<rparr>)" "silent_command c"
    by (auto simp: unheard_def)
  with True q show ?thesis
    by (cases c) (auto simp: owner_step_def handle_confirm_command_def publish_def Let_def)
next
  case False
  with assms show ?thesis
    by (cases e) (auto simp: owner_step_def unheard_def handle_tick_def owner_return_def drop_locals_def
        drop_lease_def Let_def)
qed

lemma unheard_others:
  assumes "unheard d st"
  shows "unheard d (snd (finish r st))" "unheard d (fail m st)"
    "silent_command c \<Longrightarrow> unheard d (send_runtime_command c st)"
  using assms
  by (auto simp: unheard_def finish_def drop_locals_def drop_lease_def fail_def send_runtime_command_def Let_def)

lemma unheard_step:
  "unheard d st \<Longrightarrow> silent_op op \<Longrightarrow> unheard d (snd (serial_runtime_step board op st))"
  by (cases op) (auto simp: unheard_owner_step unheard_others split: runtime_stage.split)

lemma unheard_run:
  "unheard d st \<Longrightarrow> list_all silent_op ops \<Longrightarrow> unheard d (snd (runtime_run board ops st))"
  by (induction ops arbitrary: st) (auto simp: Let_def case_prod_beta unheard_step)

section \<open>Properties\<close>

definition demo_runtime_board :: runtime_board where
  "demo_runtime_board = \<lparr>rb_power = Qemu ''q'', rb_override = None\<rparr>"

definition demo_uuid :: "char \<Rightarrow> string" where
  "demo_uuid c = replicate 32 c"

definition demo_report :: "string \<Rightarrow> device_status" where
  "demo_report epoch = \<lparr>ds_protocol_version = 6, ds_boot_epoch = epoch,
     ds_mac_address = MacAddress 2 0 0 0 0 1, ds_current_mac_address = MacAddress 2 0 0 0 0 1,
     ds_arch = Aarch64, ds_loader_version = ''1'',
     ds_hardware = \<lparr>manufacturer = None, product = None, hw_version = None, hw_serial = None\<rparr>,
     ds_boot = None, ds_ota = None,
     ds_serial = Some \<lparr>serial_id = demo_uuid (CHR ''a''), ready = True, parameters = None,
       binding = None, error = None\<rparr>\<rparr>"

definition demo_env :: "nat \<Rightarrow> bool \<Rightarrow> round_env" where
  "demo_env now configured =
     \<lparr>env_now = now, env_uuid = demo_uuid (CHR ''b''), env_configured = configured, env_gone = []\<rparr>"

definition demo_io :: serial_lease where
  "demo_io = \<lparr>lease_stream = 1, lease_prefix = [], lease_locator = \<lparr>port_name = ''tty'', aliases = [],
     serial_number = None\<rparr>, lease_token = 7, lease_mac = MacAddress 2 0 0 0 0 1\<rparr>"

definition demo_granted :: "runtime_op list" where
  "demo_granted = [Attach ''s'' 0, CallBind (demo_report ''e'') 0, OwnerRound (demo_env 1 True) CommandEvent,
     OwnerRound (demo_env 2 True) (OpenedEvent (Inr demo_io))]"

lemma demo_serial_id: "valid_serial_id (demo_uuid CHR ''a'')"
  by code_simp

lemma demo_check: "epoch \<noteq> [] \<Longrightarrow> check_device demo_runtime_board (demo_report epoch) =
  Inr (the (ds_serial (demo_report epoch)), serial_parameters_default)"
  using demo_serial_id
  by (simp add: check_device_def demo_report_def demo_runtime_board_def effective_parameters_def
     serial_parameters_validate_def serial_parameters_default_def is_qemu_def)

lemma demo_report_simps:
  "ds_boot_epoch (demo_report epoch) = epoch"
  "ds_mac_address (demo_report epoch) = MacAddress 2 0 0 0 0 1"
  "ds_serial (demo_report epoch) = Some \<lparr>serial_id = demo_uuid (CHR ''a''), ready = True, parameters = None,
     binding = None, error = None\<rparr>"
  by (simp_all add: demo_report_def)

lemma demo_env_simps:
  "env_now (demo_env now c) = now" "env_uuid (demo_env now c) = demo_uuid (CHR ''b'')"
  "env_configured (demo_env now c) = c" "env_gone (demo_env now c) = []"
  by (simp_all add: demo_env_def)

lemmas demo_eval = demo_granted_def demo_report_simps demo_env_simps serial_runtime_default_def attach_def send_runtime_command_def owner_step_def
  handle_bind_command_def begin_attempt_def accepts_epoch_def demo_check granted_binding_def publish_def
  handle_opened_def handle_confirm_command_def finish_def drop_locals_def drop_lease_def
  update_status_def status_default_def Let_def

text \<open>
  C12: However callers and the task interleave, the task holds at most one of a lease and a bind
  request; the request is that of the current attempt, in its generation, and passes the check of
  the discovery actor; and the loop never returns with one of the two contradictions its code
  names, a lease or a verification without an attempt.
\<close>

theorem runtime_consistent:
  "let st = snd (runtime_run board ops serial_runtime_default) in
   (\<forall>r. rt_opening st = Some r \<longrightarrow> rt_lease st = None \<and> client_bind r = None \<and>
     (\<exists>c. rt_current st = Some c \<and> r = bind_future (rt_owner st) (rt_generation st) c (br_deadline r))) \<and>
   rt_stage st \<noteq> Returned (Inl MissingAttempt) \<and> rt_stage st \<noteq> Returned (Inl MissingVerification)"
proof -
  let ?st = "snd (runtime_run board ops serial_runtime_default)"
  have ok: "runtime_ok board ?st" by (rule runtime_ok_run [OF runtime_ok_default])
  then have "rt_stage ?st \<noteq> Returned (Inl MissingAttempt) \<and> rt_stage ?st \<noteq> Returned (Inl MissingVerification)"
    by (simp add: runtime_ok_def)
  with runtime_ok_opening [OF ok] show ?thesis
    unfolding Let_def by blast
qed

theorem runtime_consistent_witness:
  "\<exists>r. rt_opening (snd (runtime_run demo_runtime_board (take 3 demo_granted) serial_runtime_default)) = Some r \<and>
     client_bind r = None"
proof -
  have "rt_opening (snd (runtime_run demo_runtime_board (take 3 demo_granted) serial_runtime_default)) \<noteq> None"
    by (simp add: demo_eval)
  with runtime_consistent [of demo_runtime_board "take 3 demo_granted"] show ?thesis
    by (auto simp: Let_def)
qed

text \<open>
  C10: No port is lost. Of the leases the discovery actor has given to the task, each is either held
  by it or has been released exactly once; when the task is not in its loop any more, all have been.
\<close>

theorem runtime_leases_returned:
  "let (os, st) = runtime_run board ops serial_runtime_default;
       given = mset (given_run board ops serial_runtime_default)
   in released os + held st = given \<and> (rt_stage st \<noteq> Owning \<longrightarrow> released os = given)"
proof -
  obtain os st where run: "runtime_run board ops serial_runtime_default = (os, st)"
    by (cases "runtime_run board ops serial_runtime_default")
  have "released os + held st = mset (given_run board ops serial_runtime_default)"
    using balanced_run [of board ops serial_runtime_default]
    by (simp add: run balanced_def)
  moreover have "rt_stage st \<noteq> Owning \<longrightarrow> held st = {#}"
    using runtime_ok_run [OF runtime_ok_default, of board ops] by (simp add: run runtime_ok_def held_def)
  ultimately show ?thesis by (auto simp: run)
qed

theorem runtime_leases_returned_witness:
  "let os = fst (runtime_run demo_runtime_board (demo_granted @ [WorkerEnded (Inr ())]) serial_runtime_default) in
   released os = {#Release ''tty'' 7#}"
proof -
  let ?ops = "demo_granted @ [WorkerEnded (Inr ())]"
  obtain os st where run: "runtime_run demo_runtime_board ?ops serial_runtime_default = (os, st)"
    by (cases "runtime_run demo_runtime_board ?ops serial_runtime_default")
  have "rt_stage (snd (runtime_run demo_runtime_board ?ops serial_runtime_default)) \<noteq> Owning"
    by (simp add: demo_eval)
  moreover have "given_run demo_runtime_board ?ops serial_runtime_default = [Release ''tty'' 7]"
    by (simp add: demo_eval demo_io_def lease_drop_def lease_new_def)
  ultimately show ?thesis
    using runtime_leases_returned [of demo_runtime_board ?ops] by (simp add: run Let_def)
qed

text \<open>
  C13: No caller is answered twice. In a run whose callers have different channels, the answers go to
  different callers, each of whom asked, and to none that still waits.
\<close>

theorem runtime_answers_once:
  assumes "sum_list (map asked_by ops) = mset rs" "distinct rs" "runtime_run board ops serial_runtime_default = (os, st)"
  shows "distinct (List.map_filter answered_by os) \<and> set (List.map_filter answered_by os) \<subseteq> set rs \<and>
    set (List.map_filter answered_by os) \<inter> set_mset (waiting st) = {}"
proof -
  let ?as = "List.map_filter answered_by os"
  have sub: "mset ?as + waiting st \<subseteq># mset rs"
    using fair_run [of ops serial_runtime_default board] assms(1,3) by (simp add: fair_def answered_def waiting_default)
  have once: "count (mset ?as) r + count (waiting st) r \<le> (if r \<in> set rs then 1 else 0)" for r
    using mset_subset_eq_count [OF sub, of r] assms(2) by (simp add: distinct_count_atmost_1 [THEN iffD1])
  have "count (mset ?as) r \<le> 1" for r using once [of r] by (simp only: split: if_splits)
  then have "distinct ?as"
    by (auto simp: distinct_count_atmost_1 count_mset_0_iff le_Suc_eq intro!: le_antisym)
  moreover have "r \<in> set rs \<and> r \<notin># waiting st" if "r \<in> set ?as" for r
  proof -
    have "0 < count (mset ?as) r"
      using that by (simp only: count_greater_zero_iff set_mset_mset)
    moreover from this have "r \<in> set rs" using once [of r] by (auto split: if_splits)
    ultimately have "count (waiting st) r = 0" using once [of r] by presburger
    with \<open>r \<in> set rs\<close> show ?thesis by (simp add: not_in_iff)
  qed
  ultimately show ?thesis by blast
qed

theorem runtime_answers_once_witness:
  "distinct (List.map_filter answered_by (fst (runtime_run demo_runtime_board
     (demo_granted @ [CallConfirm ''x'' 1, OwnerRound (demo_env 3 True) CommandEvent]) serial_runtime_default)))"
proof -
  let ?ops = "demo_granted @ [CallConfirm ''x'' 1, OwnerRound (demo_env 3 True) CommandEvent]"
  obtain os st where run: "runtime_run demo_runtime_board ?ops serial_runtime_default = (os, st)"
    by (cases "runtime_run demo_runtime_board ?ops serial_runtime_default")
  have "sum_list (map asked_by ?ops) = mset [0, 1]" by (simp add: demo_granted_def)
  from runtime_answers_once [OF this _ run] run show ?thesis by simp
qed

text \<open>
  A failure is the last word. Once the status of a session's line is failed, no later call,
  event, answer or end of the task changes it: the first reason stays.
\<close>

theorem runtime_failure_final:
  assumes "rs_phase (rt_status (snd (runtime_run board ops serial_runtime_default))) = FailedPhase"
  shows "rt_status (snd (runtime_run board (ops @ later) serial_runtime_default)) =
    rt_status (snd (runtime_run board ops serial_runtime_default))"
  using runtime_failed.run_final [OF runtime_ok_run [OF runtime_ok_default] assms, of later]
  by (simp add: runtime_run_snd)

theorem runtime_failure_final_witness:
  "rs_error (rt_status (snd (runtime_run demo_runtime_board
     (demo_granted @ [CallFail ''boot failed''] @ [WorkerEnded (Inr ())]) serial_runtime_default))) =
   Some (Reported ''boot failed'')"
proof -
  let ?ops = "demo_granted @ [CallFail ''boot failed'']"
  have "rs_phase (rt_status (snd (runtime_run demo_runtime_board ?ops serial_runtime_default))) = FailedPhase"
    "rs_error (rt_status (snd (runtime_run demo_runtime_board ?ops serial_runtime_default))) = Some (Reported ''boot failed'')"
    by (simp_all add: demo_eval fail_def)
  with runtime_failure_final [of demo_runtime_board ?ops "[WorkerEnded (Inr ())]"] show ?thesis
    by simp
qed

text \<open>
  C9: A device is told that its line is bound only on evidence, and the line is there. Any answer
  that grants a binding comes from the loop, after the discovery actor has handed over the port, or
  after the line itself has shown the identity of the binding, or for a binding already granted; its
  identity is a valid one; and after the step the task holds the port for that binding, unless the
  bytes of that very read could not be passed on and ended the session.
\<close>

theorem runtime_grant_sound:
  assumes "BindAnswer r (Inr b) \<in> set (fst (serial_runtime_step board op (snd (runtime_run board ops serial_runtime_default))))"
  shows "let st = snd (runtime_run board ops serial_runtime_default); st' = snd (serial_runtime_step board op st) in
    \<exists>env e. op = OwnerRound env e \<and> identified b e st \<and>
      (live_grant b st' \<and> valid_serial_id (sb_serial_id b) \<or>
       (\<exists>reason. rt_stage st' = Returned (Inl (OutputBlocked reason))))"
proof -
  let ?st = "snd (runtime_run board ops serial_runtime_default)"
  have "b \<in> grants (fst (serial_runtime_step board op ?st))"
    using assms by (auto simp: grants_def)
  then obtain env e where op: "op = OwnerRound env e" "b \<in> grants (fst (owner_step board env e ?st))"
    by (rule grants_step)
  have "runtime_ok board (snd (owner_step board env e ?st))"
    by (intro runtime_ok_owner_step runtime_ok_run runtime_ok_default)
  with grants_owner_step [OF op(2)] live_grant_binding show ?thesis
    unfolding Let_def op(1) by (auto simp: Let_def)
qed

theorem runtime_grant_sound_witness:
  "live_grant \<lparr>sb_serial_id = demo_uuid (CHR ''a''), binding_id = demo_uuid (CHR ''b''), mode = Bound\<rparr>
     (snd (runtime_run demo_runtime_board demo_granted serial_runtime_default))"
proof -
  let ?ops = "take 3 demo_granted" and ?op = "OwnerRound (demo_env 2 True) (OpenedEvent (Inr demo_io))"
  let ?b = "\<lparr>sb_serial_id = demo_uuid (CHR ''a''), binding_id = demo_uuid (CHR ''b''), mode = Bound\<rparr>"
  have "BindAnswer 0 (Inr ?b) \<in> set (fst (serial_runtime_step demo_runtime_board ?op
      (snd (runtime_run demo_runtime_board ?ops serial_runtime_default))))"
    by (simp add: demo_eval)
  from runtime_grant_sound [OF this]
  have "live_grant ?b (snd (serial_runtime_step demo_runtime_board ?op (snd (runtime_run demo_runtime_board ?ops serial_runtime_default))))
     \<or> (\<exists>reason. rt_stage (snd (serial_runtime_step demo_runtime_board ?op
          (snd (runtime_run demo_runtime_board ?ops serial_runtime_default)))) = Returned (Inl (OutputBlocked reason)))"
    by (auto simp: Let_def)
  moreover have "snd (runtime_run demo_runtime_board demo_granted serial_runtime_default) =
      snd (serial_runtime_step demo_runtime_board ?op (snd (runtime_run demo_runtime_board ?ops serial_runtime_default)))"
    by (simp add: demo_granted_def case_prod_beta Let_def)
  moreover have "rt_stage (snd (runtime_run demo_runtime_board demo_granted serial_runtime_default)) = Owning"
    by (simp add: demo_eval)
  ultimately show ?thesis by simp
qed

text \<open>
  C11: The discovery actor learns where a device is only from the device's acknowledgment. A location
  is confirmed to it only in the step that takes a confirmation with the identifier of the binding
  granted to the current boot, while its port is held; the port confirmed is that one, the caller is
  told so, and the status is bound (or failed, if it has been before).
\<close>

theorem runtime_confirm_sound:
  assumes "ToManager (Confirm m p t) \<in> set (fst (serial_runtime_step board op st))"
  shows "\<exists>env i r cs l b. op = OwnerRound env CommandEvent \<and> rt_commands st = ConfirmCommand i r # cs \<and>
    live_grant b st \<and> binding_id b = i \<and> rt_lease st = Some l \<and> lease_confirm l = Confirm m p t \<and>
    ConfirmAnswer r (Inr ()) \<in> set (fst (serial_runtime_step board op st)) \<and>
    rs_phase (rt_status (snd (serial_runtime_step board op st))) \<in> {BoundPhase, FailedPhase}"
proof -
  have "Confirm m p t \<in> confirms (fst (serial_runtime_step board op st))"
    using assms by (simp add: confirms_def)
  then obtain env c cs where op: "op = OwnerRound env CommandEvent" "rt_stage st = Owning" "rt_commands st = c # cs"
    "Confirm m p t \<in> confirms (fst (handle_runtime_command board env c (st\<lparr>rt_commands := cs\<rparr>)))"
    by (rule confirms_step)
  moreover have "serial_runtime_step board op st = handle_runtime_command board env c (st\<lparr>rt_commands := cs\<rparr>)"
    using op by (simp add: owner_step_def)
  ultimately show ?thesis
    by (elim confirms_command) (auto simp: Let_def)
qed

definition demo_acknowledged :: serial_runtime where
  "demo_acknowledged = snd (runtime_run demo_runtime_board
     (demo_granted @ [CallConfirm (demo_uuid (CHR ''b'')) 1]) serial_runtime_default)"

theorem runtime_confirm_sound_witness:
  "\<exists>b. live_grant b demo_acknowledged \<and> binding_id b = demo_uuid (CHR ''b'') \<and>
     ConfirmAnswer 1 (Inr ()) \<in> set (fst (serial_runtime_step demo_runtime_board
       (OwnerRound (demo_env 3 True) CommandEvent) demo_acknowledged))"
proof -
  let ?op = "OwnerRound (demo_env 3 True) CommandEvent"
  have queue: "rt_commands demo_acknowledged = [ConfirmCommand (demo_uuid (CHR ''b'')) 1]"
    by (simp add: demo_acknowledged_def demo_eval)
  have "ToManager (lease_confirm (lease_new demo_io)) \<in>
      set (fst (serial_runtime_step demo_runtime_board ?op demo_acknowledged))"
    by (simp add: demo_acknowledged_def demo_eval)
  then have "ToManager (Confirm (lease_mac demo_io) (lease_locator demo_io) (lease_token demo_io)) \<in>
      set (fst (serial_runtime_step demo_runtime_board ?op demo_acknowledged))"
    by (simp add: lease_confirm_def lease_new_def)
  from runtime_confirm_sound [OF this] queue show ?thesis by auto
qed

text \<open>
  C14: A silent device ends the session, and not before its time. After \<open>attach\<close> at \<open>t\<close>, as long as no
  device is reported and no restart is asked for, the first tick at or after 60 s makes the loop
  return, with the passed deadline as its reason, and no tick before does.
\<close>

theorem silent_device_deadline:
  assumes "list_all silent_op ops"
    "st = snd (runtime_run board (Attach own t # ops) serial_runtime_default)" "rt_stage st = Owning"
  shows "rt_stage (snd (serial_runtime_step board (OwnerRound env TickEvent) st)) =
    (if t + 60 * 10 ^ 9 \<le> env_now env then Returned (Inl DeadlinePassed) else Owning)"
proof -
  have "unheard (t + secs 60) (attach own t serial_runtime_default)"
    by (simp add: unheard_def attach_def serial_runtime_default_def)
  from unheard_run [OF this assms(1), of board] have "unheard (t + secs 60) st"
    by (simp add: assms(2) case_prod_beta Let_def)
  with assms(3) show ?thesis
    by (simp add: unheard_def owner_step_def handle_tick_def owner_return_def drop_locals_def drop_lease_def
        secs_def Let_def)
qed

theorem silent_device_deadline_witness:
  "rt_stage (snd (serial_runtime_step demo_runtime_board (OwnerRound (demo_env (70 * 10 ^ 9) True) TickEvent)
     (snd (runtime_run demo_runtime_board [Attach ''s'' 0, CallConfirm ''x'' 0,
       OwnerRound (demo_env 5 True) CommandEvent] serial_runtime_default)))) = Returned (Inl DeadlinePassed)"
proof -
  let ?ops = "[CallConfirm ''x'' 0, OwnerRound (demo_env 5 True) CommandEvent]"
  have "rt_stage (snd (runtime_run demo_runtime_board (Attach ''s'' 0 # ?ops) serial_runtime_default)) = Owning"
    by (simp add: demo_eval)
  from silent_device_deadline [OF _ refl this, of "demo_env (70 * 10 ^ 9) True"] show ?thesis
    by (simp add: demo_env_def)
qed

section \<open>A stale verification\<close>

text \<open>
  The second boot arms the verification of the line. For the third, reported within the second, the
  port refuses its configuration: the line is given up but the verification stays armed. When the
  port has been found again and the boot told that it is bound, the next tick gives the line up
  although nothing has happened to it.
\<close>

definition stale_ops :: "runtime_op list" where
  "stale_ops = demo_granted @
     [CallBind (demo_report ''f'') 1, OwnerRound (demo_env 10 True) CommandEvent,
      CallBind (demo_report ''g'') 2, OwnerRound (demo_env 20 False) CommandEvent,
      OwnerRound (demo_env 30 True) (OpenedEvent (Inr demo_io))]"

lemma stale_verification:
  "let st = snd (runtime_run demo_runtime_board stale_ops serial_runtime_default);
       b = \<lparr>sb_serial_id = demo_uuid (CHR ''a''), binding_id = demo_uuid (CHR ''b''), mode = Bound\<rparr>;
       (os, st') = serial_runtime_step demo_runtime_board (OwnerRound (demo_env (2 * 10 ^ 9) True) TickEvent) st
   in live_grant b st \<and> ToManager (Release ''tty'' 7) \<in> set os \<and> rt_lease st' = None"
proof -
  let ?st = "snd (runtime_run demo_runtime_board stale_ops serial_runtime_default)"
  have "rt_lease ?st = Some (lease_new demo_io)" "rt_verifying ?st = Some (10 + secs 1)"
    "rt_stage ?st = Owning" "rt_deadline ?st = 20 + SERIAL_BIND_TIMEOUT" "at_reply (the (rt_current ?st)) = None" "rt_current ?st \<noteq> None"
    "at_binding (the (rt_current ?st)) =
       \<lparr>sb_serial_id = demo_uuid (CHR ''a''), binding_id = demo_uuid (CHR ''b''), mode = Bound\<rparr>"
    by (simp_all add: stale_ops_def demo_eval lease_port_def)
  then show ?thesis
    by (auto simp: owner_step_def handle_tick_def drop_lease_def publish_def live_grant_def Let_def demo_env_simps
        secs_def demo_io_def lease_drop_def lease_new_def SERIAL_BIND_TIMEOUT_def case_prod_beta)
qed

end
