(* ===== verification/Uboot_Shell.thy ===== *)
theory Uboot_Shell
  imports Ymodem Text_Utf8
begin

text \<open>
  The shell of the boot loader, \<open>uboot-shell/src/lib.rs\<close>: it interrupts the boot, learns the prompt,
  sends commands byte by byte against the echo of the device, reads replies up to the prompt and
  uploads files.

  The device is that of \<open>Ymodem\<close>; a read that meets no byte within its limit is \<open>Silence\<close> in its
  script. What the code asks the clock is the list \<open>clock\<close> of the answers, in order (an empty list
  says no): whether an interrupt is due, whether an echo is overdue, whether the limit of a whole
  command has passed. A \<open>select\<close> with such a limit may stop the sending at any point where it waits,
  so the limit is asked there. Logging is left out. The regular expression that recognises a
  timestamp is the parameter \<open>stamp\<close>: its first group, when it matches.
\<close>

section \<open>The shell\<close>

datatype shell_error =
    Broken io_error
  | TimedOut string
  | EmptyPrompt
  | InvalidCommand
  | CommandFailed string string
  | ResyncFailed shell_error shell_error
  | CommandRetries string
  | EnvNotFound string
  | EnvNotNumber string
  | LoadRejected string
  | BadFileName
  | RecoveryFailed nat shell_error
  | LoadyFailed shell_error

record shell =
  device :: ydevice
  clock :: "bool list"
  perfix :: string

type_synonym 'a shell_io = "(shell_error + 'a) \<times> shell"

fun sbind :: "'a shell_io \<Rightarrow> ('a \<Rightarrow> shell \<Rightarrow> 'b shell_io) \<Rightarrow> 'b shell_io" where
  "sbind (Inl e, s) f = (Inl e, s)"
| "sbind (Inr x, s) f = f x s"

lemma sbind_Inr: "sbind r f = (Inr y, s') \<longleftrightarrow> (\<exists>x s. r = (Inr x, s) \<and> f x s = (Inr y, s'))"
  by (cases r; cases "fst r") auto

lemma sbind_cong [fundef_cong]:
  "r = r' \<Longrightarrow> (\<And>x s. r' = (Inr x, s) \<Longrightarrow> f x s = g x s) \<Longrightarrow> sbind r f = sbind r' g"
  by (cases r'; cases "fst r'") auto

definition on_device :: "(ydevice \<Rightarrow> 'a ymodem_io) \<Rightarrow> shell \<Rightarrow> 'a shell_io" where
  "on_device f s =
     (case f (device s) of
        (Inl e, d) \<Rightarrow> (Inl (Broken e), s\<lparr>device := d\<rparr>)
      | (Inr x, d) \<Rightarrow> (Inr x, s\<lparr>device := d\<rparr>))"

text \<open>The next answer of the clock.\<close>

definition passed :: "shell \<Rightarrow> bool \<times> shell" where
  "passed s = (case clock s of [] \<Rightarrow> (False, s) | b # bs \<Rightarrow> (b, s\<lparr>clock := bs\<rparr>))"

definition CTRL_C :: u8 where "CTRL_C = 0x03"
definition INT_STR :: string where "INT_STR = ''<INTERRUPT>''"
definition LOADY_MAX_ATTEMPTS :: nat where "LOADY_MAX_ATTEMPTS = 3"

definition put :: "bytes \<Rightarrow> shell \<Rightarrow> unit shell_io" where
  "put bs s = sbind (on_device (write_all bs) s) (\<lambda>_ s. on_device flush s)"

definition read_byte :: "shell \<Rightarrow> u8 shell_io" where
  "read_byte s =
     (case getc (device s) of
        (Inl Silence, d) \<Rightarrow> (Inl (TimedOut ''Timeout''), s\<lparr>device := d\<rparr>)
      | (Inl e, d) \<Rightarrow> (Inl (Broken e), s\<lparr>device := d\<rparr>)
      | (Inr b, d) \<Rightarrow> (Inr b, s\<lparr>device := d\<rparr>))"

definition todo :: "shell \<Rightarrow> nat" where
  "todo s = length (incoming (device s))"

lemma passed_frame: "passed s = (b, s') \<Longrightarrow> device s' = device s \<and> perfix s' = perfix s"
  by (auto simp: passed_def split: list.splits)

lemma write_all_incoming: "write_all bs d = (r, d') \<Longrightarrow> incoming d' = incoming d"
  by (auto simp: write_all_def fault_def split: list.splits option.splits)

lemma flush_incoming: "flush d = (r, d') \<Longrightarrow> incoming d' = incoming d"
  by (auto simp: flush_def fault_def split: list.splits option.splits)

lemma put_todo: "put bs s = (r, s') \<Longrightarrow> todo s' = todo s"
  by (cases "write_all bs (device s)"; cases "fst (write_all bs (device s))")
    (auto simp: put_def on_device_def todo_def dest!: write_all_incoming flush_incoming
      split: prod.splits sum.splits)

lemma read_byte_todo:
  "read_byte s = (Inr b, s') \<Longrightarrow> todo s' < todo s"
  "read_byte s = (Inl (TimedOut m), s') \<Longrightarrow> todo s' < todo s"
  by (auto simp: read_byte_def getc_def todo_def split: list.splits sum.splits prod.splits io_error.splits)

lemma passed_todo: "passed s = (b, s') \<Longrightarrow> todo s' = todo s"
  by (simp add: todo_def passed_frame)

section \<open>Interrupting the boot\<close>

definition trim_ascii_end :: "bytes \<Rightarrow> bytes" where
  "trim_ascii_end bs = rev (dropWhile (\<lambda>b. b \<in> {0x20, 0x09, 0x0A, 0x0C, 0x0D}) (rev bs))"

definition ends_with :: "'a list \<Rightarrow> 'a list \<Rightarrow> bool" where
  "ends_with s p \<longleftrightarrow> length p \<le> length s \<and> drop (length s - length p) s = p"

function interrupt_loop :: "bool \<Rightarrow> bytes \<Rightarrow> shell \<Rightarrow> bytes shell_io" where
  "interrupt_loop due history s =
     sbind (if due then put [CTRL_C] s else (Inr (), s)) (\<lambda>_ s.
       case read_byte s of
         (Inl (TimedOut m), s) \<Rightarrow>
           (case passed s of (due, s) \<Rightarrow> interrupt_loop due history s)
       | (Inl e, s) \<Rightarrow> (Inl e, s)
       | (Inr ch, s) \<Rightarrow>
           let h = history @ [ch] in
           if ch = 0x0A then
             let l = trim_ascii_end h in
             if ends_with l (str_bytes INT_STR) then (Inr l, s)
             else (case passed s of (due, s) \<Rightarrow> interrupt_loop due [] s)
           else (case passed s of (due, s) \<Rightarrow> interrupt_loop due h s))"
  by pat_completeness auto
termination
  by (relation "measure (\<lambda>(due, h, s). todo s)")
    (auto split: if_splits dest!: put_todo [OF sym] put_todo read_byte_todo [OF sym] passed_todo [OF sym])

definition wait_for_interrupt :: "shell \<Rightarrow> bytes shell_io" where
  "wait_for_interrupt s = interrupt_loop True [] s"

function read_until_idle :: "shell \<Rightarrow> bytes shell_io" where
  "read_until_idle s =
     (case read_byte s of
        (Inl (TimedOut m), s) \<Rightarrow> (Inr [], s)
      | (Inl e, s) \<Rightarrow> (Inl e, s)
      | (Inr b, s) \<Rightarrow> sbind (read_until_idle s) (\<lambda>bs s. (Inr (b # bs), s)))"
  by pat_completeness auto
termination by (relation "measure todo") (auto dest!: read_byte_todo [OF sym])

declare interrupt_loop.simps [simp del] read_until_idle.simps [simp del]

definition clear_shell :: "shell \<Rightarrow> unit shell_io" where
  "clear_shell s = sbind (read_until_idle s) (\<lambda>_ s. (Inr (), s))"

section \<open>The prompt\<close>

type_synonym timestamp = "string \<Rightarrow> string option option"

definition normalize_interrupt_prompt :: "timestamp \<Rightarrow> string \<Rightarrow> string" where
  "normalize_interrupt_prompt stamp prompt =
     (case stamp prompt of
        None \<Rightarrow> prompt
      | Some matched \<Rightarrow> unwrap_or matched ''=>'' @ '' '')"

text \<open>\<open>str::lines\<close>: a line ends with a newline, or a carriage return and a newline.\<close>

definition str_lines :: "string \<Rightarrow> string list" where
  "str_lines s =
     (let ps = split_at (CHR 0x0A) s;
          chomp = (\<lambda>l. if l \<noteq> [] \<and> last l = CHR 0x0D then butlast l else l)
      in map chomp (butlast ps) @ (if last ps = [] then [] else [last ps]))"

definition last_line :: "string \<Rightarrow> string" where
  "last_line s = unwrap_or (find (\<lambda>l. trim l \<noteq> []) (rev (str_lines s))) []"

definition lossy :: "bytes \<Rightarrow> string" where
  "lossy bs = to_text (from_utf8_lossy bs)"

definition wait_for_shell :: "timestamp \<Rightarrow> shell \<Rightarrow> unit shell_io" where
  "wait_for_shell stamp s =
     sbind (wait_for_interrupt s) (\<lambda>l s.
       let prompt = normalize_interrupt_prompt stamp (lossy (take (length l - length INT_STR) l)) in
       if prompt = [] then
         sbind (read_until_idle s) (\<lambda>bs s.
           let s = s\<lparr>perfix := last_line (lossy bs)\<rparr> in
           if perfix s = [] then (Inl EmptyPrompt, s) else (Inr (), s))
       else clear_shell (s\<lparr>perfix := prompt\<rparr>))"

definition shell_new :: "timestamp \<Rightarrow> ydevice \<Rightarrow> bool list \<Rightarrow> unit shell_io" where
  "shell_new stamp d ticks = wait_for_shell stamp \<lparr>device = d, clock = ticks, perfix = []\<rparr>"

section \<open>Replies\<close>

text \<open>Reading up to a text; with \<open>limited\<close> the whole reading has a limit.\<close>

function reply_loop :: "bool \<Rightarrow> bytes \<Rightarrow> bytes \<Rightarrow> shell \<Rightarrow> bytes shell_io" where
  "reply_loop limited val reply s =
     (case (if limited then passed s else (False, s)) of
        (late, s) \<Rightarrow>
          if late then (Inl (TimedOut ''U-Boot prompt resynchronization timed out''), s)
          else sbind (read_byte s) (\<lambda>b s.
            let reply = reply @ [b] in
            if ends_with reply val then (Inr reply, s) else reply_loop limited val reply s))"
  by pat_completeness auto
termination
  by (relation "measure (\<lambda>(l, v, r, s). todo s)")
    (auto split: if_splits dest!: read_byte_todo passed_todo passed_todo [OF sym])

declare reply_loop.simps [simp del]

definition wait_for_reply :: "bool \<Rightarrow> string \<Rightarrow> shell \<Rightarrow> string shell_io" where
  "wait_for_reply limited val s =
     sbind (reply_loop limited (str_bytes val) [] s) (\<lambda>reply s.
       (Inr (trim_end_matches (perfix s) (trim (lossy reply))), s))"

definition cmd_without_reply :: "string \<Rightarrow> shell \<Rightarrow> unit shell_io" where
  "cmd_without_reply c s =
     sbind (on_device (write_all (str_bytes c)) s) (\<lambda>_ s.
     sbind (on_device (write_all [0x0A]) s) (\<lambda>_ s. on_device flush s))"

section \<open>Commands\<close>

text \<open>The limit of the whole command, asked wherever the sending waits.\<close>

definition in_time :: "shell \<Rightarrow> unit shell_io" where
  "in_time s =
     (case passed s of
        (True, s) \<Rightarrow> (Inl (TimedOut ''U-Boot command send timed out''), s)
      | (False, s) \<Rightarrow> (Inr (), s))"

definition send_byte :: "u8 \<Rightarrow> shell \<Rightarrow> unit shell_io" where
  "send_byte b s =
     sbind (in_time s) (\<lambda>_ s.
     sbind (on_device (write_all [b]) s) (\<lambda>_ s.
     sbind (in_time s) (\<lambda>_ s. on_device flush s)))"

lemma in_time_frame: "in_time s = (r, s') \<Longrightarrow> device s' = device s \<and> perfix s' = perfix s"
  by (auto simp: in_time_def passed_def split: list.splits bool.splits prod.splits)

text \<open>
  Waiting for the echo of a byte. Control sequences of the terminal (an escape, a bracket, the
  parameters and a final byte) are not echoes.
\<close>

function await_echo :: "u8 \<Rightarrow> bool \<Rightarrow> bool \<Rightarrow> shell \<Rightarrow> unit shell_io" where
  "await_echo expected escape csi s =
     (case passed s of
        (True, s) \<Rightarrow> (Inl (TimedOut ''U-Boot command echo timed out''), s)
      | (False, s) \<Rightarrow>
          sbind (in_time s) (\<lambda>_ s.
          sbind (read_byte s) (\<lambda>byte s.
            if csi then await_echo expected escape (\<not> (0x40 \<le> byte \<and> byte \<le> 0x7e)) s
            else if escape then await_echo expected False (byte = 0x5b) s
            else if byte = 0x1b then await_echo expected True False s
            else if byte = expected then (Inr (), s)
            else await_echo expected False False s)))"
  by pat_completeness auto
termination
  by (relation "measure (\<lambda>(e, esc, csi, s). todo s)")
    (auto simp: todo_def split: if_splits dest!: read_byte_todo in_time_frame passed_frame [OF sym])

declare await_echo.simps [simp del]

primrec send_echoed_command :: "bytes \<Rightarrow> shell \<Rightarrow> unit shell_io" where
  "send_echoed_command [] s = send_byte 0x0A s"
| "send_echoed_command (b # bs) s =
     sbind (send_byte b s) (\<lambda>_ s.
     sbind (await_echo b False False s) (\<lambda>_ s. send_echoed_command bs s))"

definition resynchronize_command_prompt :: "shell \<Rightarrow> unit shell_io" where
  "resynchronize_command_prompt s =
     sbind (put [CTRL_C] s) (\<lambda>_ s.
     sbind (wait_for_reply True (perfix s) s) (\<lambda>_ s. (Inr (), s)))"

definition OK_STR :: string where "OK_STR = ''cmd-ok''"

definition cmd_with_id :: "string \<Rightarrow> string" where
  "cmd_with_id c = c @ ''&& echo '' @ OK_STR"

definition cmd_response :: "string \<Rightarrow> string \<Rightarrow> string" where
  "cmd_response prompt reply = trim_end (trim_end_matches (trim prompt) (trim_end reply))"

definition cmd_output :: "string \<Rightarrow> string \<Rightarrow> string" where
  "cmd_output c res =
     trim (trim_start_matches (cmd_with_id c) (trim_end (trim_end_matches OK_STR (trim res))))"

definition run_cmd :: "string \<Rightarrow> shell \<Rightarrow> string shell_io" where
  "run_cmd c s =
     sbind (clear_shell s) (\<lambda>_ s.
     sbind (send_echoed_command (str_bytes (cmd_with_id c)) s) (\<lambda>_ s.
     sbind (wait_for_reply False (perfix s) s) (\<lambda>reply s.
       let res = cmd_response (perfix s) reply in
       if ends_with res OK_STR then (Inr (cmd_output c res), s)
       else (Inl (CommandFailed c res), s))))"

fun cmd_tries :: "nat \<Rightarrow> string \<Rightarrow> shell \<Rightarrow> string shell_io" where
  "cmd_tries 0 c s = (Inl (CommandRetries c), s)"
| "cmd_tries (Suc retry) c s =
     (case run_cmd c s of
        (Inr res, s) \<Rightarrow> (Inr res, s)
      | (Inl err, s) \<Rightarrow>
          if 0 < retry then
            (case resynchronize_command_prompt s of
               (Inl resync, s) \<Rightarrow> (Inl (ResyncFailed resync err), s)
             | (Inr _, s) \<Rightarrow> cmd_tries retry c s)
          else cmd_tries retry c s)"

definition is_ascii_control :: "u8 \<Rightarrow> bool" where
  "is_ascii_control b \<longleftrightarrow> b < 0x20 \<or> b = 0x7f"

definition cmd :: "string \<Rightarrow> shell \<Rightarrow> string shell_io" where
  "cmd c s =
     (if list_ex is_ascii_control (str_bytes c) then (Inl InvalidCommand, s)
      else cmd_tries 3 c s)"

section \<open>Environment variables\<close>

definition set_env :: "string \<Rightarrow> string \<Rightarrow> shell \<Rightarrow> unit shell_io" where
  "set_env name val s =
     sbind (cmd (''setenv '' @ name @ '' '' @ val) s) (\<lambda>_ s. (Inr (), s))"

definition env :: "string \<Rightarrow> shell \<Rightarrow> string shell_io" where
  "env name s =
     sbind (cmd (''echo $'' @ name) s) (\<lambda>t s.
       let parts = filter (\<lambda>l. trim l \<noteq> []) (split_at (CHR 0x0A) t) in
       if parts = [] then (Inl (EnvNotFound name), s) else (Inr (last parts), s))"

text \<open>\<open>u64::from_str_radix\<close>: an optional plus sign, then digits, within 64 bits.\<close>

definition digit_value :: "nat \<Rightarrow> char \<Rightarrow> nat option" where
  "digit_value radix c =
     (let n = (of_char c :: nat);
          d = (if 48 \<le> n \<and> n < 58 then n - 48
               else if 65 \<le> n \<and> n < 91 then n - 55
               else if 97 \<le> n \<and> n < 123 then n - 87
               else radix)
      in if d < radix then Some d else None)"

fun radix_number :: "nat \<Rightarrow> nat \<Rightarrow> string \<Rightarrow> nat option" where
  "radix_number radix acc [] = Some acc"
| "radix_number radix acc (c # s) =
     (case digit_value radix c of
        None \<Rightarrow> None
      | Some d \<Rightarrow>
          if radix * acc + d < 2 ^ 64 then radix_number radix (radix * acc + d) s else None)"

definition u64_from_str_radix :: "nat \<Rightarrow> string \<Rightarrow> nat option" where
  "u64_from_str_radix radix s =
     (case s of
        [] \<Rightarrow> None
      | c # rest \<Rightarrow>
          if rest = [] \<and> (c = CHR ''+'' \<or> c = CHR ''-'') then None
          else radix_number radix 0 (if c = CHR ''+'' then rest else s))"

definition parse_int :: "string \<Rightarrow> nat option" where
  "parse_int l =
     (let l = trim l in
      if take 2 l = ''0x'' then u64_from_str_radix 16 (drop 2 l) else u64_from_str_radix 10 l)"

definition env_int :: "string \<Rightarrow> shell \<Rightarrow> nat shell_io" where
  "env_int name s =
     sbind (env name s) (\<lambda>l s.
       case parse_int l of
         None \<Rightarrow> (Inl (EnvNotNumber name), s)
       | Some n \<Rightarrow> (Inr n, s))"

section \<open>Uploads\<close>

text \<open>\<open>{:#x}\<close>.\<close>

fun hex_str :: "nat \<Rightarrow> string" where
  "hex_str n = (if n < 16 then [hex_digit n] else hex_str (n div 16) @ [hex_digit (n mod 16)])"

declare hex_str.simps [simp del]

definition TRY_HELP :: string where
  "TRY_HELP = ''try '' @ [CHR 0x27] @ ''help'' @ [CHR 0x27]"

function load_crc_loop :: "bytes \<Rightarrow> shell \<Rightarrow> bool shell_io" where
  "load_crc_loop reply s =
     sbind (read_byte s) (\<lambda>byte s.
       let reply = reply @ [byte] in
       sbind (on_device (echo byte) s) (\<lambda>_ s.
         if ends_with reply [0x43] then (Inr True, s)
         else if str_find TRY_HELP (lossy reply) \<noteq> None then (Inl (LoadRejected (lossy reply)), s)
         else load_crc_loop reply s))"
  by pat_completeness auto
termination
  by (relation "measure (\<lambda>(r, s). todo s)")
    (auto simp: todo_def on_device_def split: prod.splits sum.splits
      dest!: read_byte_todo [unfolded todo_def] echo_incoming)

declare load_crc_loop.simps [simp del]

text \<open>
  The file as one attempt sees it: its name when that is UTF-8, the size from its metadata, and the
  results of its reads once it is open.
\<close>

record upload =
  up_name :: "string option"
  up_size :: "io_error + nat"
  up_reads :: "io_error + (io_error + bytes) list"

definition load_line :: "nat \<Rightarrow> string" where
  "load_line addr = ''loady 0x'' @ hex_str addr"

definition loady_once :: "nat \<Rightarrow> upload \<Rightarrow> shell \<Rightarrow> string shell_io" where
  "loady_once addr f s =
     sbind (clear_shell s) (\<lambda>_ s.
     sbind (cmd_without_reply (load_line addr) s) (\<lambda>_ s.
     sbind (load_crc_loop [] s) (\<lambda>crc s.
     case up_name f of
       None \<Rightarrow> (Inl BadFileName, s)
     | Some name \<Rightarrow>
       (case up_size f of
          Inl e \<Rightarrow> (Inl (Broken e), s)
        | Inr len \<Rightarrow>
          (case up_reads f of
             Inl e \<Rightarrow> (Inl (Broken e), s)
           | Inr reads \<Rightarrow>
             sbind (on_device (send name len reads (ymodem_new crc)) s) (\<lambda>_ s.
               wait_for_reply False (perfix s) s))))))"

function loady_tries :: "timestamp \<Rightarrow> nat \<Rightarrow> (nat \<Rightarrow> upload) \<Rightarrow> nat \<Rightarrow> shell \<Rightarrow> string shell_io" where
  "loady_tries stamp addr files k s =
     (case loady_once addr (files k) s of
        (Inr reply, s) \<Rightarrow> (Inr reply, s)
      | (Inl err, s) \<Rightarrow>
          if k < LOADY_MAX_ATTEMPTS then
            (case wait_for_shell stamp s of
               (Inl recover, s) \<Rightarrow> (Inl (RecoveryFailed k recover), s)
             | (Inr _, s) \<Rightarrow> loady_tries stamp addr files (k + 1) s)
          else (Inl (LoadyFailed err), s))"
  by pat_completeness auto
termination by (relation "measure (\<lambda>(stamp, addr, files, k, s). LOADY_MAX_ATTEMPTS - k)") auto

declare loady_tries.simps [simp del]

definition loady :: "timestamp \<Rightarrow> nat \<Rightarrow> (nat \<Rightarrow> upload) \<Rightarrow> shell \<Rightarrow> string shell_io" where
  "loady stamp addr files s = loady_tries stamp addr files 1 s"

end
