(* ===== verification/Uboot_Properties.thy ===== *)
theory Uboot_Properties
  imports Uboot_Shell
begin

text \<open>
  What the shell guarantees about the bytes on the line: a command is sent in lockstep with its
  echo, a new attempt starts on a clean line, an upload that reports success has transferred the
  file, and numbers read back from the environment are the ones that were printed.
\<close>

section \<open>Reads and writes\<close>

definition got :: "(io_error + u8) list \<Rightarrow> bytes" where
  "got rd = concat (map (\<lambda>r. case r of Inl e \<Rightarrow> [] | Inr b \<Rightarrow> [b]) rd)"

lemma got_simps [simp]:
  "got [] = []" "got (Inl e # rd) = got rd" "got (Inr x # rd) = x # got rd" "got (a @ b) = got a @ got b"
  by (simp_all add: got_def)

text \<open>From \<open>s\<close> to \<open>s'\<close> the device has answered \<open>rd\<close> and been sent \<open>bs\<close>; the prompt is the same.\<close>

definition moved :: "shell \<Rightarrow> (io_error + u8) list \<Rightarrow> bytes \<Rightarrow> shell \<Rightarrow> bool" where
  "moved s rd bs s' \<longleftrightarrow> incoming (device s) = rd @ incoming (device s') \<and>
     outgoing (device s') = outgoing (device s) @ bs \<and> perfix s' = perfix s"

lemma moved_trans: "moved s r1 b1 s1 \<Longrightarrow> moved s1 r2 b2 s2 \<Longrightarrow> moved s (r1 @ r2) (b1 @ b2) s2"
  by (simp add: moved_def)

lemma moved_refl: "moved s [] [] s"
  by (simp add: moved_def)

lemma moved_read: "moved s r1 [] s1 \<Longrightarrow> moved s1 r2 bs s2 \<Longrightarrow> moved s (r1 @ r2) bs s2"
  using moved_trans by fastforce

lemma moved_write: "moved s [] b1 s1 \<Longrightarrow> moved s1 rd b2 s2 \<Longrightarrow> moved s rd (b1 @ b2) s2"
  using moved_trans by fastforce

lemma passed_moved: "passed s = (b, s') \<Longrightarrow> moved s [] [] s'"
  by (simp add: moved_def passed_frame)

lemma in_time_moved: "in_time s = (r, s') \<Longrightarrow> moved s [] [] s'"
  by (simp add: moved_def in_time_frame)

lemma write_moved:
  assumes "on_device (write_all bs) s = (r, s')"
  shows "moved s [] (case r of Inl e \<Rightarrow> [] | Inr u \<Rightarrow> bs) s'"
  using assms by (auto simp: on_device_def moved_def write_all_def fault_def split: list.splits option.splits)

lemma flush_moved: "on_device flush s = (r, s') \<Longrightarrow> moved s [] [] s'"
  by (auto simp: on_device_def moved_def flush_def fault_def split: list.splits option.splits)

lemma read_byte_moved:
  assumes "read_byte s = (r, s')"
  obtains rd where "moved s rd [] s'" "got rd = (case r of Inl e \<Rightarrow> [] | Inr b \<Rightarrow> [b])"
  using assms
  by (auto simp: read_byte_def getc_def moved_def split: list.splits sum.splits io_error.splits)

lemma send_byte_moved:
  assumes "send_byte b s = (r, s')"
  shows "\<exists>k \<le> Suc 0. moved s [] (take k [b]) s' \<and> (is_ok r \<longrightarrow> k = Suc 0)"
proof -
  obtain r1 s1 where p1: "in_time s = (r1, s1)" by (cases "in_time s")
  obtain r2 s2 where p2: "on_device (write_all [b]) s1 = (r2, s2)" by (cases "on_device (write_all [b]) s1")
  obtain r3 s3 where p3: "in_time s2 = (r3, s3)" by (cases "in_time s2")
  obtain r4 s4 where p4: "on_device flush s3 = (r4, s4)" by (cases "on_device flush s3")
  note m = in_time_moved [OF p1] write_moved [OF p2] in_time_moved [OF p3] flush_moved [OF p4]
  show ?thesis
  proof (cases "is_ok r1 \<and> is_ok r2")
    case False
    then have "moved s [] [] s' \<and> \<not> is_ok r"
      using assms p1 p2 m(1,2) moved_write
      by (cases r1; cases r2) (fastforce simp: send_byte_def is_ok_def)+
    then show ?thesis by (intro exI [of _ 0]) simp
  next
    case True
    then have b: "moved s [] [b] s2" using m(1,2) moved_write [of s "[]"] by (cases r2) (auto simp: is_ok_def)
    from b m(3) moved_write [of s "[b]" s2 "[]" "[]"] have c: "moved s [] [b] s3" by simp
    from c m(4) moved_write [of s "[b]" s3 "[]" "[]"] have d: "moved s [] [b] s4" by simp
    from assms p1 p2 p3 p4 True c d have "moved s [] [b] s'"
      by (cases r1; cases r2; cases r3) (auto simp: send_byte_def is_ok_def)
    then show ?thesis by (intro exI [of _ "Suc 0"]) simp
  qed
qed

section \<open>Commands in lockstep with their echo\<close>

text \<open>What a terminal shows of a stream (without control sequences), and how much of a command has
  been echoed in it.\<close>

fun visible :: "bool \<Rightarrow> bool \<Rightarrow> bytes \<Rightarrow> bytes" where
  "visible escape csi [] = []"
| "visible escape csi (b # bs) =
     (if csi then visible escape (\<not> (0x40 \<le> b \<and> b \<le> 0x7e)) bs
      else if escape then visible False (b = 0x5b) bs
      else if b = 0x1b then visible True False bs
      else b # visible False False bs)"

fun echoes :: "bytes \<Rightarrow> bytes \<Rightarrow> nat" where
  "echoes [] bs = 0"
| "echoes c [] = 0"
| "echoes (c # cs) (b # bs) = (if b = c then Suc (echoes cs bs) else echoes (c # cs) bs)"

lemma await_echo_moved:
  "await_echo b escape csi s = (r, s') \<Longrightarrow>
     \<exists>rd. moved s rd [] s' \<and> (is_ok r \<longrightarrow>
       (\<forall>cs bs. echoes (b # cs) (visible escape csi (got rd @ bs)) = Suc (echoes cs (visible False False bs))))"
proof (induction b escape csi s rule: await_echo.induct)
  case (1 b escape csi s)
  obtain late s1 where p: "passed s = (late, s1)" by (cases "passed s")
  obtain r2 s2 where t: "in_time s1 = (r2, s2)" by (cases "in_time s1")
  obtain r3 s3 where g: "read_byte s2 = (r3, s3)" by (cases "read_byte s2")
  have m: "moved s [] [] s1" "moved s [] [] s2"
    using passed_moved [OF p] in_time_moved [OF t] moved_read by fastforce+
  obtain rd where rd: "moved s2 rd [] s3" "got rd = (case r3 of Inl e \<Rightarrow> [] | Inr b \<Rightarrow> [b])"
    using read_byte_moved [OF g] .
  have m3: "moved s rd [] s3" using moved_read [OF m(2) rd(1)] by simp
  show ?case
  proof (cases "late \<or> \<not> is_ok r2 \<or> \<not> is_ok r3")
    case True
    with "1.prems" p t g m m3 have "\<not> is_ok r \<and> (\<exists>rd. moved s rd [] s')"
      by (cases late; cases r2; cases r3) (auto simp: await_echo.simps [of b escape csi s])
    then show ?thesis by blast
  next
    case False
    then obtain x where x: "\<not> late" "r2 = Inr ()" "r3 = Inr x" by (auto simp: is_ok_iff)
    with rd(2) have got: "got rd = [x]" by simp
    have step: "await_echo b escape csi s =
        (if csi then await_echo b escape (\<not> (0x40 \<le> x \<and> x \<le> 0x7e)) s3
         else if escape then await_echo b False (x = 0x5b) s3
         else if x = 0x1b then await_echo b True False s3
         else if x = b then (Inr (), s3)
         else await_echo b False False s3)"
      using p t g x by (simp add: await_echo.simps [of b escape csi s])
    show ?thesis
    proof (cases "\<not> csi \<and> \<not> escape \<and> x \<noteq> 0x1b \<and> x = b")
      case True
      with step "1.prems" have "r = Inr ()" "s' = s3" by auto
      with True got m3 show ?thesis by (intro exI [of _ rd]) auto
    next
      case False
      define e c where "e = (if csi then escape else if escape then False else x = 0x1b)"
        and "c = (if csi then \<not> (0x40 \<le> x \<and> x \<le> 0x7e) else if escape then x = 0x5b else False)"
      have go: "await_echo b e c s3 = (r, s')" using False step "1.prems" by (auto simp: e_def c_def)
      have vis: "echoes (b # cs) (visible escape csi (x # bs)) = echoes (b # cs) (visible e c bs)" for cs bs
        using False by (auto simp: e_def c_def)
      have "\<exists>rd'. moved s3 rd' [] s' \<and> (is_ok r \<longrightarrow>
          (\<forall>cs bs. echoes (b # cs) (visible e c (got rd' @ bs)) = Suc (echoes cs (visible False False bs))))"
      proof -
        have e: "(False, s1) = passed s" "in_time s1 = (Inr (), s2)" "read_byte s2 = (Inr x, s3)"
          using p t g x by simp_all
        note ih = "1.IH"(1) [OF e(1) refl e(2,3)] "1.IH"(2) [OF e(1) refl e(2,3)]
          "1.IH"(3) [OF e(1) refl e(2,3)] "1.IH"(4) [OF e(1) refl e(2,3)]
        show ?thesis
        proof (cases csi)
          case True
          with ih(1) go show ?thesis by (simp add: e_def c_def)
        next
          case no: False
          show ?thesis
          proof (cases escape)
            case True
            with no ih(2) go show ?thesis by (simp add: e_def c_def)
          next
            case False
            with no ih(3,4) go \<open>\<not> (\<not> csi \<and> \<not> escape \<and> x \<noteq> 0x1b \<and> x = b)\<close> show ?thesis
              by (cases "x = 0x1b") (simp_all add: e_def c_def)
          qed
        qed
      qed
      then obtain rd' where r': "moved s3 rd' [] s'"
        "is_ok r \<Longrightarrow> echoes (b # cs) (visible e c (got rd' @ bs)) = Suc (echoes cs (visible False False bs))" for cs bs
        by blast
      from moved_read [OF m3 r'(1)] r'(2) got vis show ?thesis
        by (intro exI [of _ "rd @ rd'"]) simp
    qed
  qed
qed

lemma send_echoed_moved:
  "send_echoed_command c s = (r, s') \<Longrightarrow>
     \<exists>k rd. moved s rd (take k (c @ [0x0A])) s' \<and> k \<le> Suc (echoes c (visible False False (got rd))) \<and>
       k \<le> Suc (length c) \<and> (is_ok r \<longrightarrow> k = Suc (length c))"
proof (induction c arbitrary: s)
  case Nil
  then have "send_byte 0x0A s = (r, s')" by simp
  from send_byte_moved [OF this] show ?case
    by (elim exE conjE) (rule exI, rule exI [of _ "[]"], auto)
next
  case (Cons b c)
  obtain r1 s1 where p1: "send_byte b s = (r1, s1)" by (cases "send_byte b s")
  obtain r2 s2 where p2: "await_echo b False False s1 = (r2, s2)" by (cases "await_echo b False False s1")
  from send_byte_moved [OF p1] obtain k1 where k1: "k1 \<le> Suc 0" "moved s [] (take k1 [b]) s1"
    "is_ok r1 \<Longrightarrow> k1 = Suc 0" by blast
  from await_echo_moved [OF p2] obtain rd where rd: "moved s1 rd [] s2"
    "is_ok r2 \<Longrightarrow> echoes (b # cs) (visible False False (got rd @ bs)) = Suc (echoes cs (visible False False bs))" for cs bs
    by blast
  show ?case
  proof (cases "is_ok r1")
    case False
    with Cons.prems p1 have "s' = s1" "\<not> is_ok r" by (cases r1; simp)+
    with k1(1,2) show ?thesis by (intro exI [of _ k1] exI [of _ "[]"]) (cases k1; simp)
  next
    case True
    with k1 have m1: "moved s rd [b] s2" using moved_write [OF k1(2) rd(1)] by simp
    show ?thesis
    proof (cases "is_ok r2")
      case False
      with True Cons.prems p1 p2 have "s' = s2" "\<not> is_ok r"
        by (cases r1; cases r2; simp)+
      with m1 show ?thesis by (intro exI [of _ "Suc 0"] exI [of _ rd]) simp
    next
      case ok: True
      with True ok Cons.prems p1 p2 have "send_echoed_command c s2 = (r, s')"
        by (cases r1; cases r2) simp_all
      from Cons.IH [OF this] obtain k rd2 where ih: "moved s2 rd2 (take k (c @ [0x0A])) s'"
        "k \<le> Suc (echoes c (visible False False (got rd2)))" "k \<le> Suc (length c)"
        "is_ok r \<longrightarrow> k = Suc (length c)" by blast
      from moved_trans [OF m1 ih(1)] ih(2-4) rd(2) [OF ok, of c "got rd2"] show ?thesis
        by (intro exI [of _ "Suc k"] exI [of _ "rd @ rd2"]) simp
    qed
  qed
qed

text \<open>
  C21: A command goes out in lockstep with its echo. At whatever point the sending ends, because it is
  complete, an echo is missing, a limit has passed or the line fails, what has been written is a
  beginning of the command line that is at most one byte ahead of what the device has visibly
  echoed; the newline that executes the line follows only the echo of every byte, and success means
  that the whole line has been written.
\<close>

theorem command_lockstep:
  assumes "send_echoed_command c s = (r, s')"
  shows "\<exists>k rd. incoming (device s) = rd @ incoming (device s') \<and>
    outgoing (device s') = outgoing (device s) @ take k (c @ [0x0A]) \<and> k \<le> Suc (length c) \<and>
    k \<le> Suc (echoes c (visible False False (got rd))) \<and> (if is_ok r then k = Suc (length c) else True)"
  using send_echoed_moved [OF assms] by (auto simp: moved_def)

definition demo_device :: "(io_error + u8) list \<Rightarrow> ydevice" where
  "demo_device rs = \<lparr>incoming = rs, faults = [], outgoing = [], stdout_faults = [], echoed = []\<rparr>"

definition demo_shell :: "(io_error + u8) list \<Rightarrow> shell" where
  "demo_shell rs = \<lparr>device = demo_device rs, clock = [], perfix = ''=>''\<rparr>"

lemma demo_echo_eval:
  "send_echoed_command [0x6c, 0x73] (demo_shell (map Inr [0x1b, 0x5b, 0x6c, 0x6c, 0x73])) =
     (Inr (), (demo_shell [])\<lparr>device := (demo_device [])\<lparr>outgoing := [0x6c, 0x73, 0x0A]\<rparr>\<rparr>)"
  by code_simp

theorem command_lockstep_witness:
  "\<exists>k rd. map Inr [0x1b, 0x5b, 0x6c, 0x6c, 0x73] = rd \<and> [0x6c, 0x73, 0x0A] = take k ([0x6c, 0x73] @ [0x0A]) \<and>
     k \<le> Suc (echoes [0x6c, 0x73] (visible False False (got rd))) \<and> k = 3"
  using command_lockstep [OF demo_echo_eval] by (simp add: demo_shell_def demo_device_def)

section \<open>Retries on a clean line\<close>

lemma put_moved:
  assumes "put bs s = (r, s')"
  shows "moved s [] bs s' \<or> moved s [] [] s' \<and> \<not> is_ok r"
proof -
  obtain r1 s1 where p: "on_device (write_all bs) s = (r1, s1)" by (cases "on_device (write_all bs) s")
  note w = write_moved [OF p]
  show ?thesis
  proof (cases r1)
    case (Inl e)
    with w p assms show ?thesis by (auto simp: put_def)
  next
    case (Inr u)
    with p assms have "on_device flush s1 = (r, s')" by (simp add: put_def)
    from flush_moved [OF this] w Inr moved_write [of s bs s1 "[]" "[]"] show ?thesis by simp
  qed
qed

lemma read_until_idle_moved: "read_until_idle s = (r, s') \<Longrightarrow> \<exists>rd. moved s rd [] s'"
proof (induction s arbitrary: r rule: read_until_idle.induct)
  case (1 s)
  obtain x s1 where g: "read_byte s = (x, s1)" by (cases "read_byte s")
  obtain rd where rd: "moved s rd [] s1" using read_byte_moved [OF g] by metis
  show ?case
  proof (cases x)
    case (Inl e)
    with "1.prems" g rd show ?thesis
      by (auto simp: read_until_idle.simps [of s] split: shell_error.splits)
  next
    case (Inr b)
    obtain r2 s2 where q: "read_until_idle s1 = (r2, s2)" by (cases "read_until_idle s1")
    with "1.prems" g Inr have "s' = s2" by (cases r2) (auto simp: read_until_idle.simps [of s])
    with q have "read_until_idle s1 = (r2, s')" by simp
    from "1.IH" [OF g [symmetric] Inr this] moved_read [OF rd] show ?thesis by blast
  qed
qed

lemma clear_shell_moved: "clear_shell s = (r, s') \<Longrightarrow> \<exists>rd. moved s rd [] s'"
  using read_until_idle_moved [of s] by (cases "read_until_idle s"; cases "fst (read_until_idle s)")
    (auto simp: clear_shell_def)

lemma reply_loop_moved: "reply_loop lim val reply s = (r, s') \<Longrightarrow> \<exists>rd. moved s rd [] s'"
proof (induction lim val reply s arbitrary: r rule: reply_loop.induct)
  case (1 lim val reply s)
  obtain late s1 where p: "(if lim then passed s else (False, s)) = (late, s1)"
    by (cases "if lim then passed s else (False, s)")
  have m: "moved s [] [] s1" using p passed_moved moved_refl by (auto split: if_splits)
  obtain x s2 where g: "read_byte s1 = (x, s2)" by (cases "read_byte s1")
  obtain rd where rd: "moved s1 rd [] s2" using read_byte_moved [OF g] by metis
  have m2: "moved s rd [] s2" using moved_read [OF m rd] by simp
  show ?case
  proof (cases "\<not> late \<and> is_ok x \<and> \<not> ends_with (reply @ [the (case x of Inr b \<Rightarrow> Some b)]) val")
    case True
    then obtain b where b: "x = Inr b" by (auto simp: is_ok_iff)
    with True p g "1.prems" have l: "reply_loop lim val (reply @ [b]) s2 = (r, s')"
      by (simp add: reply_loop.simps [of lim val reply s] Let_def)
    from True b "1.IH" [OF p [symmetric] _ _ refl _ l] g moved_read [OF m2] show ?thesis by auto
  next
    case False
    with p g "1.prems" m m2 show ?thesis
      by (cases x) (auto simp: reply_loop.simps [of lim val reply s] Let_def split: if_splits)
  qed
qed

text \<open>A reply that is returned is what was read, up to the first time it ends with the text waited for.\<close>

lemma reply_loop_read:
  assumes "reply_loop lim val reply s = (Inr reply', s')"
  shows "\<exists>raw. moved s (map Inr raw) [] s' \<and> reply' = reply @ raw \<and> raw \<noteq> [] \<and> ends_with reply' val \<and>
    (\<forall>k. 0 < k \<and> k < length raw \<longrightarrow> \<not> ends_with (reply @ take k raw) val)"
  using assms
proof (induction lim val reply s rule: reply_loop.induct)
  case (1 lim val reply s)
  obtain late s1 where p: "(if lim then passed s else (False, s)) = (late, s1)"
    by (cases "if lim then passed s else (False, s)")
  have m: "moved s [] [] s1" using p passed_moved moved_refl by (auto split: if_splits)
  obtain x s2 where g: "read_byte s1 = (x, s2)" by (cases "read_byte s1")
  with p "1.prems" obtain b where late: "\<not> late" and b: "x = Inr b"
    by (cases x; cases late) (simp_all add: reply_loop.simps [of lim val reply s])
  with g have "moved s1 [Inr b] [] s2"
    by (auto simp: read_byte_def getc_def moved_def split: list.splits sum.splits io_error.splits)
  from moved_read [OF m this] have m2: "moved s [Inr b] [] s2" by simp
  show ?case
  proof (cases "ends_with (reply @ [b]) val")
    case True
    with p g b late "1.prems" m2 show ?thesis
      by (intro exI [of _ "[b]"]) (simp add: reply_loop.simps [of lim val reply s] Let_def)
  next
    case False
    with p g b late "1.prems" have l: "reply_loop lim val (reply @ [b]) s2 = (Inr reply', s')"
      by (simp add: reply_loop.simps [of lim val reply s] Let_def)
    from "1.IH" [OF p [symmetric] late _ refl False l] g b obtain raw where
      "moved s2 (map Inr raw) [] s'" "reply' = (reply @ [b]) @ raw" "raw \<noteq> []" "ends_with reply' val"
      "\<forall>k. 0 < k \<and> k < length raw \<longrightarrow> \<not> ends_with ((reply @ [b]) @ take k raw) val"
      by auto
    moreover from moved_read [OF m2 calculation(1)] have "moved s (map Inr (b # raw)) [] s'" by simp
    moreover have "\<not> ends_with (reply @ take k (b # raw)) val" if "0 < k" "k < length (b # raw)" for k
      using that False calculation(5) by (cases k; cases "k - 1") auto
    ultimately show ?thesis by (intro exI [of _ "b # raw"]) simp
  qed
qed

lemma wait_for_reply_moved: "wait_for_reply lim val s = (r, s') \<Longrightarrow> \<exists>rd. moved s rd [] s'"
  using reply_loop_moved [of lim "str_bytes val" "[]" s]
  by (cases "reply_loop lim (str_bytes val) [] s"; cases "fst (reply_loop lim (str_bytes val) [] s)")
    (auto simp: wait_for_reply_def)

lemma resync_moved:
  assumes "resynchronize_command_prompt s = (r, s')"
  shows "\<exists>rd bs. moved s rd bs s' \<and> (bs = [CTRL_C] \<or> bs = [] \<and> \<not> is_ok r)"
proof -
  obtain r1 s1 where p: "put [CTRL_C] s = (r1, s1)" by (cases "put [CTRL_C] s")
  show ?thesis
  proof (cases r1)
    case (Inl e)
    with assms p put_moved [OF p] show ?thesis by (auto simp: resynchronize_command_prompt_def)
  next
    case (Inr u)
    obtain r2 s2 where q: "wait_for_reply True (perfix s1) s1 = (r2, s2)"
      by (cases "wait_for_reply True (perfix s1) s1")
    with assms p Inr have "s' = s2" by (cases r2) (auto simp: resynchronize_command_prompt_def)
    moreover have "moved s [] [CTRL_C] s1" using put_moved [OF p] Inr by simp
    ultimately show ?thesis using wait_for_reply_moved [OF q] moved_write by fastforce
  qed
qed

definition command_line :: "string \<Rightarrow> bytes" where
  "command_line c = str_bytes (cmd_with_id c) @ [0x0A]"

text \<open>
  When the bytes \<open>raw\<close> are the reply that makes a command succeed with the result \<open>res\<close>: they end at the
  first prompt in them, and without the prompt their text ends with the marker.
\<close>

definition accepted :: "string \<Rightarrow> string \<Rightarrow> bytes \<Rightarrow> string \<Rightarrow> bool" where
  "accepted prompt c raw res \<longleftrightarrow>
     raw \<noteq> [] \<and> ends_with raw (str_bytes prompt) \<and>
     (\<forall>k. 0 < k \<and> k < length raw \<longrightarrow> \<not> ends_with (take k raw) (str_bytes prompt)) \<and>
     (let text = cmd_response prompt (trim_end_matches prompt (trim (lossy raw)))
      in ends_with text OK_STR \<and> res = cmd_output c text)"

text \<open>The last thing read between \<open>s\<close> and \<open>s'\<close> is the echo of the whole line and such a reply.\<close>

definition heard :: "shell \<Rightarrow> string \<Rightarrow> string \<Rightarrow> shell \<Rightarrow> bool" where
  "heard s c res s' \<longleftrightarrow>
     (\<exists>before echo raw. incoming (device s) = before @ echo @ map Inr raw @ incoming (device s') \<and>
        length (str_bytes (cmd_with_id c)) \<le>
          echoes (str_bytes (cmd_with_id c)) (visible False False (got echo)) \<and>
        accepted (perfix s) c raw res)"

lemma heard_moved:
  assumes "moved s rd bs s1" "heard s1 c res s'"
  shows "heard s c res s'"
proof -
  from assms(2) obtain before echo raw where
    "incoming (device s1) = before @ echo @ map Inr raw @ incoming (device s')"
    "length (str_bytes (cmd_with_id c)) \<le>
       echoes (str_bytes (cmd_with_id c)) (visible False False (got echo))"
    "accepted (perfix s1) c raw res"
    by (auto simp: heard_def)
  with assms(1) show ?thesis unfolding heard_def moved_def
    by (intro exI [of _ "rd @ before"] exI [of _ echo] exI [of _ raw]) simp
qed

lemma run_cmd_moved:
  assumes "run_cmd c s = (r, s')"
  shows "\<exists>k rd. moved s rd (take k (command_line c)) s' \<and> k \<le> length (command_line c) \<and>
    (\<forall>res. r = Inr res \<longrightarrow> k = length (command_line c) \<and> heard s c res s')"
proof -
  obtain r1 s1 where p1: "clear_shell s = (r1, s1)" by (cases "clear_shell s")
  obtain rd1 where m1: "moved s rd1 [] s1" using clear_shell_moved [OF p1] by blast
  show ?thesis
  proof (cases r1)
    case (Inl e)
    with assms p1 m1 show ?thesis by (intro exI [of _ 0] exI [of _ rd1]) (auto simp: run_cmd_def)
  next
    case (Inr u)
    obtain r2 s2 where p2: "send_echoed_command (str_bytes (cmd_with_id c)) s1 = (r2, s2)"
      by (cases "send_echoed_command (str_bytes (cmd_with_id c)) s1")
    from send_echoed_moved [OF p2] obtain k rd2 where m2: "moved s1 rd2 (take k (command_line c)) s2"
      "k \<le> length (command_line c)" "is_ok r2 \<Longrightarrow> k = length (command_line c)"
      "k \<le> Suc (echoes (str_bytes (cmd_with_id c)) (visible False False (got rd2)))"
      by (auto simp: command_line_def)
    have m12: "moved s (rd1 @ rd2) (take k (command_line c)) s2" using moved_read [OF m1 m2(1)] .
    show ?thesis
    proof (cases r2)
      case (Inl e)
      with assms p1 p2 Inr m12 m2(2) show ?thesis by (auto simp: run_cmd_def)
    next
      case ok: (Inr v)
      obtain r3 s3 where p3: "wait_for_reply False (perfix s2) s2 = (r3, s3)"
        by (cases "wait_for_reply False (perfix s2) s2")
      obtain rd3 where m3: "moved s2 rd3 [] s3" using wait_for_reply_moved [OF p3] by blast
      have s3: "s' = s3"
        using assms p1 p2 p3 Inr ok by (cases r3) (auto simp: run_cmd_def Let_def split: if_splits)
      have "heard s c res s3" if "r = Inr res" for res
      proof -
        from that assms p1 p2 p3 Inr ok obtain reply where r3: "r3 = Inr reply"
          "ends_with (cmd_response (perfix s3) reply) OK_STR" "res = cmd_output c (cmd_response (perfix s3) reply)"
          by (cases r3) (auto simp: run_cmd_def Let_def split: if_splits)
        with p3 obtain raw where raw: "reply_loop False (str_bytes (perfix s2)) [] s2 = (Inr raw, s3)"
          "reply = trim_end_matches (perfix s3) (trim (lossy raw))"
          by (auto simp: wait_for_reply_def sbind_Inr)
        from reply_loop_read [OF raw(1)] have got: "moved s2 (map Inr raw) [] s3" "raw \<noteq> []"
          "ends_with raw (str_bytes (perfix s2))"
          "\<forall>k. 0 < k \<and> k < length raw \<longrightarrow> \<not> ends_with (take k raw) (str_bytes (perfix s2))"
          by auto
        have same: "perfix s3 = perfix s" "perfix s2 = perfix s" "perfix s1 = perfix s"
          using m1 m2(1) got(1) by (simp_all add: moved_def)
        with got r3 raw(2) have "accepted (perfix s1) c raw res"
          by (simp add: accepted_def Let_def)
        moreover have "length (str_bytes (cmd_with_id c)) \<le>
            echoes (str_bytes (cmd_with_id c)) (visible False False (got rd2))"
          using m2(3,4) ok by (simp add: command_line_def)
        moreover have "incoming (device s1) = [] @ rd2 @ map Inr raw @ incoming (device s3)"
          using m2(1) got(1) by (simp add: moved_def)
        ultimately have "heard s1 c res s3" unfolding heard_def by blast
        with heard_moved [OF m1] show ?thesis .
      qed
      with s3 have "s' = s3 \<and> (\<forall>res. r = Inr res \<longrightarrow> heard s c res s3)" by simp
      moreover have "moved s ((rd1 @ rd2) @ rd3) (take k (command_line c) @ []) s3"
        using moved_trans [OF m12 m3] .
      ultimately show ?thesis using m2(2,3) ok by (intro exI [of _ k]) auto
    qed
  qed
qed

text \<open>The attempts of a command on the line: each but the last is cancelled.\<close>

fun attempts :: "bytes \<Rightarrow> nat list \<Rightarrow> bytes" where
  "attempts l [] = []"
| "attempts l [k] = take k l"
| "attempts l (k # k' # ks) = take k l @ [CTRL_C] @ attempts l (k' # ks)"

lemma attempts_Cons: "ks \<noteq> [] \<Longrightarrow> attempts l (k # ks) = take k l @ [CTRL_C] @ attempts l ks"
  by (cases ks) simp_all

lemma cmd_tries_moved:
  assumes "cmd_tries (Suc n) c s = (r, s')"
  shows "\<exists>ks rd ending. moved s rd (attempts (command_line c) ks @ ending) s' \<and> ks \<noteq> [] \<and>
    length ks \<le> Suc n \<and> list_all (\<lambda>k. k \<le> length (command_line c)) ks \<and> (ending = [] \<or> ending = [CTRL_C]) \<and>
    (\<forall>res. r = Inr res \<longrightarrow> ending = [] \<and> last ks = length (command_line c) \<and> heard s c res s')"
  using assms
proof (induction n arbitrary: s)
  case 0
  obtain r1 s1 where p: "run_cmd c s = (r1, s1)" by (cases "run_cmd c s")
  from run_cmd_moved [OF p] obtain k rd where m: "moved s rd (take k (command_line c)) s1"
    "k \<le> length (command_line c)"
    "\<And>res. r1 = Inr res \<Longrightarrow> k = length (command_line c) \<and> heard s c res s1" by blast
  from 0 p have "s' = s1 \<and> (r = r1 \<or> \<not> is_ok r)" by (cases r1) auto
  with m show ?case by (intro exI [of _ "[k]"] exI [of _ rd] exI [of _ "[]"]) auto
next
  case (Suc n)
  obtain r1 s1 where p: "run_cmd c s = (r1, s1)" by (cases "run_cmd c s")
  from run_cmd_moved [OF p] obtain k rd where m: "moved s rd (take k (command_line c)) s1"
    "k \<le> length (command_line c)"
    "\<And>res. r1 = Inr res \<Longrightarrow> k = length (command_line c) \<and> heard s c res s1" by blast
  show ?case
  proof (cases r1)
    case (Inr res)
    with Suc.prems p have "s' = s1" "r = r1" by auto
    with m show ?thesis by (intro exI [of _ "[k]"] exI [of _ rd] exI [of _ "[]"]) auto
  next
    case (Inl err)
    obtain r2 s2 where q: "resynchronize_command_prompt s1 = (r2, s2)"
      by (cases "resynchronize_command_prompt s1")
    from resync_moved [OF q] obtain rd2 bs where b: "moved s1 rd2 bs s2"
      "bs = [CTRL_C] \<or> bs = [] \<and> \<not> is_ok r2" by blast
    note m2 = moved_trans [OF m(1) b(1)]
    show ?thesis
    proof (cases r2)
      case e: (Inl e)
      with Suc.prems p q Inl have "s' = s2" "\<not> is_ok r" by auto
      with m(2) m2 b(2) show ?thesis
        by (intro exI [of _ "[k]"] exI [of _ "rd @ rd2"] exI [of _ bs]) auto
    next
      case (Inr u)
      with b(2) have bs: "bs = [CTRL_C]" by simp
      from Suc.prems p q Inl Inr have "cmd_tries (Suc n) c s2 = (r, s')" by simp
      from Suc.IH [OF this] obtain ks rd3 ending where ih:
        "moved s2 rd3 (attempts (command_line c) ks @ ending) s'" "ks \<noteq> []" "length ks \<le> Suc n"
        "list_all (\<lambda>k. k \<le> length (command_line c)) ks" "ending = [] \<or> ending = [CTRL_C]"
        "\<And>res. r = Inr res \<Longrightarrow> ending = [] \<and> last ks = length (command_line c) \<and> heard s2 c res s'"
        by blast
      from moved_trans [OF m2 ih(1)] ih(2-6) m(2) bs heard_moved [OF m2] show ?thesis
        by (intro exI [of _ "k # ks"] exI [of _ "(rd @ rd2) @ rd3"] exI [of _ ending])
          (auto simp: attempts_Cons)
    qed
  qed
qed

text \<open>
  C23: A command runs on a clean line and not too often. A command with a control byte is refused and
  nothing happens. Otherwise what is written is one to three attempts at the command line, each a
  beginning of it and each but the last cancelled by an interrupt, so that no two lines run into
  each other; and success means that the last attempt wrote the whole line, and that the last bytes
  the device sent are its echo and a reply up to the first prompt whose text, without the prompt,
  ends with the marker that only a successful command prints, the rest of it being the result.
\<close>

theorem cmd_on_clean_line:
  assumes "cmd c s = (r, s')"
  shows "if list_ex is_ascii_control (str_bytes c) then r = Inl InvalidCommand \<and> s' = s
    else \<exists>ks ending. outgoing (device s') =
        outgoing (device s) @ attempts (command_line c) ks @ ending \<and>
      ks \<noteq> [] \<and> length ks \<le> 3 \<and> (ending = [] \<or> ending = [CTRL_C]) \<and>
      (if is_ok r then ending = [] \<and> last ks = length (command_line c) \<and>
         heard s c (projr r) s' else True)"
proof (cases "list_ex is_ascii_control (str_bytes c)")
  case True
  with assms show ?thesis by (auto simp: cmd_def)
next
  case False
  with assms have "cmd_tries (Suc 2) c s = (r, s')" by (simp add: cmd_def numeral_3_eq_3 numeral_2_eq_2)
  from cmd_tries_moved [OF this] obtain ks rd ending where
    "moved s rd (attempts (command_line c) ks @ ending) s'" "ks \<noteq> []" "length ks \<le> 3"
    "ending = [] \<or> ending = [CTRL_C]"
    "\<And>res. r = Inr res \<Longrightarrow> ending = [] \<and> last ks = length (command_line c) \<and> heard s c res s'"
    by auto
  with False show ?thesis
    by (simp add: moved_def) (intro exI [of _ ks] exI [of _ ending], auto simp: is_ok_iff)
qed

definition demo_reply :: bytes where
  "demo_reply = str_bytes ''okcmd-ok=>''"

definition demo_echo :: shell where
  "demo_echo = demo_shell (map Inr (str_bytes (cmd_with_id ''ls'')) @ map Inr demo_reply)"

definition demo_console :: shell where
  "demo_console = demo_shell (Inl Silence # map Inr (str_bytes (cmd_with_id ''ls'')) @ map Inr demo_reply)"

definition demo_sent :: shell where
  "demo_sent = (demo_shell [])\<lparr>device :=
     (demo_device (map Inr demo_reply))\<lparr>outgoing := command_line ''ls''\<rparr>\<rparr>"

definition demo_done :: shell where
  "demo_done = (demo_shell [])\<lparr>device := (demo_device [])\<lparr>outgoing := command_line ''ls''\<rparr>\<rparr>"

lemma uboot_demo_steps:
  "clear_shell demo_console = (Inr (), demo_echo)"
  "send_echoed_command (str_bytes (cmd_with_id ''ls'')) demo_echo = (Inr (), demo_sent)"
  "perfix demo_sent = ''=>''" "perfix demo_done = ''=>''"
  "reply_loop False [0x3d, 0x3e] [] demo_sent = (Inr demo_reply, demo_done)"
  "lossy demo_reply = ''okcmd-ok=>''" "trim_end_matches ''=>'' ''okcmd-ok=>'' = ''okcmd-ok''"
  "trim_end_matches ''=>'' ''okcmd-ok'' = ''okcmd-ok''" "ends_with ''okcmd-ok'' OK_STR"
  "trim_end_matches OK_STR ''okcmd-ok'' = ''ok''"
  "trim_start_matches (cmd_with_id ''ls'') ''ok'' = ''ok''"
  by code_simp+

lemma uboot_demo_run: "run_cmd ''ls'' demo_console = (Inr ''ok'', demo_done)"
  by (simp add: run_cmd_def uboot_demo_steps wait_for_reply_def cmd_response_def cmd_output_def Let_def
      trim_printable trim_end_printable printable_def)

lemma demo_console_eval: "cmd ''ls'' demo_console = (Inr ''ok'', demo_done)"
proof -
  have "\<not> list_ex is_ascii_control (str_bytes ''ls'')" by code_simp
  then show ?thesis by (simp add: cmd_def numeral_3_eq_3 uboot_demo_run)
qed

theorem cmd_on_clean_line_witness:
  "\<exists>ks. command_line ''ls'' = attempts (command_line ''ls'') ks \<and> length ks \<le> 3 \<and>
     heard demo_console ''ls'' ''ok'' demo_done"
proof -
  have "\<not> list_ex is_ascii_control (str_bytes ''ls'')" by code_simp
  moreover have "outgoing (device demo_console) = []"
    "outgoing (device demo_done) = command_line ''ls''"
    by (simp_all add: demo_console_def demo_shell_def demo_device_def demo_done_def)
  ultimately show ?thesis using cmd_on_clean_line [OF demo_console_eval] by auto
qed

section \<open>Numbers in the environment\<close>

lemma digit_value_printed:
  "d < radix \<Longrightarrow> radix \<le> 16 \<Longrightarrow> digit_value radix (hex_digit d) = Some d"
  by (auto simp: digit_value_def hex_digit_def of_char_of Let_def)

lemma digit_value_dec: "d < 10 \<Longrightarrow> digit_value 10 (char_of (48 + d)) = Some d"
  using digit_value_printed [of d 10] by (simp add: hex_digit_def)

lemma radix_number_dec: "n < 2 ^ 64 \<Longrightarrow> radix_number 10 0 (dec_str n @ t) = radix_number 10 n t"
proof (induction n arbitrary: t rule: dec_str.induct)
  case (1 n)
  show ?case
  proof (cases "n < 10")
    case True
    with "1.prems" show ?thesis by (simp add: dec_str.simps [of n] digit_value_dec)
  next
    case False
    with "1.IH" [of "char_of (48 + n mod 10) # t"] "1.prems" show ?thesis
      by (simp add: dec_str.simps [of n] digit_value_dec)
  qed
qed

lemma radix_number_hex: "n < 2 ^ 64 \<Longrightarrow> radix_number 16 0 (hex_str n @ t) = radix_number 16 n t"
proof (induction n arbitrary: t rule: hex_str.induct)
  case (1 n)
  show ?case
  proof (cases "n < 16")
    case True
    with "1.prems" show ?thesis by (simp add: hex_str.simps [of n] digit_value_printed)
  next
    case False
    with "1.IH" [of "hex_digit (n mod 16) # t"] "1.prems" show ?thesis
      by (simp add: hex_str.simps [of n] digit_value_printed)
  qed
qed

lemma hex_digit_code: "n < 16 \<Longrightarrow> 48 \<le> (of_char (hex_digit n) :: nat) \<and> (of_char (hex_digit n) :: nat) < 103"
  by (simp add: hex_digit_def of_char_of)

lemma hex_str_digits: "c \<in> set (hex_str n) \<Longrightarrow> 48 \<le> (of_char c :: nat) \<and> (of_char c :: nat) < 103"
proof (induction n rule: hex_str.induct)
  case (1 n)
  then show ?case using hex_digit_code
    by (cases "n < 16") (auto simp: hex_str.simps [of n])
qed

lemma str_nonempty: "dec_str n \<noteq> []" "hex_str n \<noteq> []"
  by (subst dec_str.simps, simp) (subst hex_str.simps, simp)

lemma radix_printed:
  assumes "s \<noteq> []" "\<And>c. c \<in> set s \<Longrightarrow> 48 \<le> (of_char c :: nat)"
  shows "u64_from_str_radix radix s = radix_number radix 0 s"
proof -
  obtain c t where s: "s = c # t" using assms(1) by (cases s) auto
  have "c \<noteq> CHR ''+''" "c \<noteq> CHR ''-''" using assms(2) [of c] s by auto
  then show ?thesis by (simp add: u64_from_str_radix_def s)
qed

text \<open>
  Numbers survive the environment. \<open>env_int\<close> reads any 64-bit number back from its decimal text
  and from its hexadecimal text with the prefix \<open>0x\<close>.
\<close>

theorem parse_int_printed:
  assumes "n < 2 ^ 64"
  shows "parse_int (dec_str n) = Some n \<and> parse_int (''0x'' @ hex_str n) = Some n"
proof
  have dec: "\<And>c. c \<in> set (dec_str n) \<Longrightarrow> 48 \<le> (of_char c :: nat) \<and> (of_char c :: nat) < 58"
    using dec_str_digits by blast
  have "printable (hd (dec_str n))" "printable (last (dec_str n))"
    using dec [OF hd_in_set [OF str_nonempty(1) [of n]]] dec [OF last_in_set [OF str_nonempty(1) [of n]]]
    by (simp_all add: printable_def)
  then have "trim (dec_str n) = dec_str n" using str_nonempty(1) by (simp add: trim_printable)
  moreover have "take 2 (dec_str n) \<noteq> ''0x''"
  proof
    assume "take 2 (dec_str n) = ''0x''"
    then have "CHR ''x'' \<in> set (dec_str n)" using in_set_takeD [of _ 2 "dec_str n"] by simp
    then show False using dec [of "CHR ''x''"] by simp
  qed
  moreover have "u64_from_str_radix 10 (dec_str n) = radix_number 10 0 (dec_str n)"
    using dec str_nonempty(1) by (intro radix_printed) auto
  ultimately show "parse_int (dec_str n) = Some n"
    using radix_number_dec [OF assms, of "[]"] by (simp add: parse_int_def Let_def)
  have "printable (last (hex_str n))"
    using hex_str_digits [of "last (hex_str n)" n] str_nonempty(2) [of n] by (simp add: printable_def)
  then have "trim (''0x'' @ hex_str n) = ''0x'' @ hex_str n"
    using str_nonempty(2) [of n] by (intro trim_printable) (simp_all add: printable_def)
  moreover have "u64_from_str_radix 16 (hex_str n) = radix_number 16 0 (hex_str n)"
    using hex_str_digits str_nonempty(2) by (intro radix_printed) auto
  ultimately show "parse_int (''0x'' @ hex_str n) = Some n"
    using radix_number_hex [OF assms, of "[]"] by (simp add: parse_int_def Let_def)
qed

theorem parse_int_printed_witness:
  "parse_int (dec_str 2147483648) = Some 2147483648 \<and> parse_int (''0x'' @ hex_str 2147483648) = Some 2147483648"
  by (rule parse_int_printed) simp

section \<open>Uploads\<close>















section \<open>Learning the prompt\<close>

lemma put_clean:
  assumes "faults (device s) = []"
  obtains s1 where "put bs s = (Inr (), s1)" "incoming (device s1) = incoming (device s)"
    "faults (device s1) = []" "perfix s1 = perfix s"
  using assms by (auto simp: put_def on_device_def write_all_def fault_def flush_def)

lemma read_byte_Inr:
  assumes "incoming (device s) = Inr b # rs"
  shows "read_byte s = (Inr b, s\<lparr>device := (device s)\<lparr>incoming := rs\<rparr>\<rparr>)"
  using assms by (simp add: read_byte_def getc_def)

lemma read_byte_Silence:
  assumes "incoming (device s) = Inl Silence # rs"
  shows "read_byte s = (Inl (TimedOut ''Timeout''), s\<lparr>device := (device s)\<lparr>incoming := rs\<rparr>\<rparr>)"
  using assms by (simp add: read_byte_def getc_def)

definition line_done :: "bytes \<Rightarrow> bool" where
  "line_done h \<longleftrightarrow> ends_with (trim_ascii_end h) (str_bytes INT_STR)"

lemma interrupt_step:
  assumes "faults (device s) = []" "incoming (device s) = Inr b # rs"
  obtains due' s2 where "incoming (device s2) = rs" "faults (device s2) = []"
    "interrupt_loop due h s =
      (if b = 0x0A \<and> line_done (h @ [b]) then (Inr (trim_ascii_end (h @ [b])), s2)
       else interrupt_loop due' (if b = 0x0A then [] else h @ [b]) s2)"
proof -
  obtain s1 where p: "(if due then put [CTRL_C] s else (Inr (), s)) = (Inr (), s1)"
    "incoming (device s1) = Inr b # rs" "faults (device s1) = []"
  proof (cases due)
    case True
    obtain s1 where "put [CTRL_C] s = (Inr (), s1)" "incoming (device s1) = incoming (device s)"
      "faults (device s1) = []" using put_clean [OF assms(1)] .
    with True assms(2) that show thesis by simp
  qed (use assms that in simp)
  let ?s = "s1\<lparr>device := (device s1)\<lparr>incoming := rs\<rparr>\<rparr>"
  obtain due' s2 where q: "passed ?s = (due', s2)" by (cases "passed ?s")
  then have s2: "device s2 = device ?s" using passed_frame by blast
  show thesis
  proof (cases "b = 0x0A \<and> line_done (h @ [b])")
    case True
    then have "b = 0x0A" "ends_with (trim_ascii_end (h @ [0x0A])) (str_bytes INT_STR)"
      by (auto simp: line_done_def)
    with p read_byte_Inr [OF p(2)] have "interrupt_loop due h s = (Inr (trim_ascii_end (h @ [b])), ?s)"
      by (simp add: interrupt_loop.simps [of due h s] Let_def)
    with True p(3) show thesis by (intro that [of ?s due']) auto
  next
    case False
    then show thesis
      using that [of s2 due'] p read_byte_Inr [OF p(2)] q s2
      by (auto simp: interrupt_loop.simps [of due h s] Let_def line_done_def)
  qed
qed

lemma interrupt_line:
  assumes "faults (device s) = []" "incoming (device s) = map Inr (l @ [0x0A]) @ rs" "0x0A \<notin> set l"
  shows "\<exists>due' s2. incoming (device s2) = rs \<and> faults (device s2) = [] \<and>
    interrupt_loop due h s =
      (if line_done (h @ l @ [0x0A]) then (Inr (trim_ascii_end (h @ l @ [0x0A])), s2)
       else interrupt_loop due' [] s2)"
  using assms
proof (induction l arbitrary: due h s)
  case Nil
  then have "incoming (device s) = Inr 0x0A # rs" by simp
  note step = interrupt_step [OF Nil.prems(1) this, where due = due and h = h]
  show ?case
    by (rule step) (rule exI, rule exI, auto)
next
  case (Cons b l)
  then have b: "incoming (device s) = Inr b # map Inr (l @ [0x0A]) @ rs" "b \<noteq> 0x0A" "0x0A \<notin> set l" by auto
  obtain due1 s1 where s1: "incoming (device s1) = map Inr (l @ [0x0A]) @ rs" "faults (device s1) = []"
    "interrupt_loop due h s = (if b = 0x0A \<and> line_done (h @ [b]) then (Inr (trim_ascii_end (h @ [b])), s1)
       else interrupt_loop due1 (if b = 0x0A then [] else h @ [b]) s1)"
    using interrupt_step [OF Cons.prems(1) b(1)] .
  from Cons.IH [OF s1(2,1) b(3), of due1 "h @ [b]"] obtain due2 s2 where
    "incoming (device s2) = rs" "faults (device s2) = []" "interrupt_loop due1 (h @ [b]) s1 =
      (if line_done ((h @ [b]) @ l @ [0x0A]) then (Inr (trim_ascii_end ((h @ [b]) @ l @ [0x0A])), s2)
       else interrupt_loop due2 [] s2)" by blast
  with s1(3) b(2) show ?case by (intro exI [of _ due2] exI [of _ s2]) simp
qed

lemma interrupt_lines:
  assumes "faults (device s) = []"
    and "incoming (device s) = map Inr (concat (map (\<lambda>l. l @ [0x0A]) ls)) @ rs"
    and "\<forall>l\<in>set ls. 0x0A \<notin> set l \<and> \<not> line_done (l @ [0x0A])"
  shows "\<exists>due' s2. incoming (device s2) = rs \<and> faults (device s2) = [] \<and>
    interrupt_loop due [] s = interrupt_loop due' [] s2"
  using assms
proof (induction ls arbitrary: due s)
  case Nil
  then show ?case by auto
next
  case (Cons l ls)
  then have "incoming (device s) = map Inr (l @ [0x0A]) @ map Inr (concat (map (\<lambda>l. l @ [0x0A]) ls)) @ rs" by simp
  from interrupt_line [OF Cons.prems(1) this, of due "[]"] Cons.prems(3) obtain due1 s1 where
    "incoming (device s1) = map Inr (concat (map (\<lambda>l. l @ [0x0A]) ls)) @ rs" "faults (device s1) = []"
    "interrupt_loop due [] s = interrupt_loop due1 [] s1" by auto
  with Cons.IH [of s1 due1] Cons.prems(3) show ?case by auto
qed

lemma idle_reads:
  assumes "incoming (device s) = map Inr bs @ Inl Silence # rs"
  shows "\<exists>s2. read_until_idle s = (Inr bs, s2) \<and> incoming (device s2) = rs \<and> perfix s2 = perfix s"
  using assms
proof (induction bs arbitrary: s)
  case Nil
  then have "incoming (device s) = Inl Silence # rs" by simp
  from read_byte_Silence [OF this] show ?case by (simp add: read_until_idle.simps [of s])
next
  case (Cons b bs)
  then have "incoming (device s) = Inr b # map Inr bs @ Inl Silence # rs" by simp
  from read_byte_Inr [OF this] Cons.IH [of "s\<lparr>device := (device s)\<lparr>incoming := map Inr bs @ Inl Silence # rs\<rparr>\<rparr>"]
  show ?case by (auto simp: read_until_idle.simps [of s])
qed

lemma interrupt_text:
  "line_done (p @ str_bytes INT_STR @ [0x0A])"
  "trim_ascii_end (p @ str_bytes INT_STR @ [0x0A]) = p @ str_bytes INT_STR"
  by (simp_all add: line_done_def trim_ascii_end_def ends_with_def INT_STR_def)

text \<open>
  The shell learns the prompt from the answer to an interrupt. If the device prints any complete
  lines that do not end in the interrupt marker, then a line that ends in it, then anything until it
  falls silent, the shell becomes ready at that silence, whatever the clock says on the way: its
  prompt is the text before the marker (without a timestamp), or, when there is none, the last line
  after it that is not blank; only when there is no such line is the prompt refused.
\<close>

theorem prompt_learned:
  assumes "faults (device s) = []" "0x0A \<notin> set p"
    and "\<forall>l\<in>set ls. 0x0A \<notin> set l \<and> \<not> line_done (l @ [0x0A])"
    and "incoming (device s) = map Inr (concat (map (\<lambda>l. l @ [0x0A]) ls) @ (p @ str_bytes INT_STR) @ [0x0A] @ tail)
      @ Inl Silence # rs"
  shows "\<exists>s'. wait_for_shell stamp s =
      (if perfix s' = [] then Inl EmptyPrompt else Inr (), s') \<and> incoming (device s') = rs \<and>
    perfix s' = (let before = normalize_interrupt_prompt stamp (lossy p)
      in if before = [] then last_line (lossy tail) else before)"
proof -
  have "incoming (device s) = map Inr (concat (map (\<lambda>l. l @ [0x0A]) ls)) @
      map Inr ((p @ str_bytes INT_STR) @ [0x0A]) @ map Inr tail @ Inl Silence # rs"
    using assms(4) by simp
  from interrupt_lines [OF assms(1) this assms(3), of True] obtain due s1 where
    s1: "incoming (device s1) = map Inr ((p @ str_bytes INT_STR) @ [0x0A]) @ map Inr tail @ Inl Silence # rs"
      "faults (device s1) = []" "interrupt_loop True [] s = interrupt_loop due [] s1" by blast
  have "0x0A \<notin> set (p @ str_bytes INT_STR)" using assms(2) by (simp add: INT_STR_def)
  from interrupt_line [OF s1(2,1) this, of due "[]"] interrupt_text [of p] s1(3) obtain s2 where
    s2: "incoming (device s2) = map Inr tail @ Inl Silence # rs"
      "wait_for_interrupt s = (Inr (p @ str_bytes INT_STR), s2)"
    by (auto simp: wait_for_interrupt_def)
  have len: "length (p @ str_bytes INT_STR) - length INT_STR = length p" by (simp add: str_bytes_def)
  let ?before = "normalize_interrupt_prompt stamp (lossy p)"
  show ?thesis
  proof (cases "?before = []")
    case True
    from idle_reads [OF s2(1)] obtain s3 where s3: "read_until_idle s2 = (Inr tail, s3)" "incoming (device s3) = rs"
      by blast
    with True s2(2) len show ?thesis
      by (intro exI [of _ "s3\<lparr>perfix := last_line (lossy tail)\<rparr>"]) (simp add: wait_for_shell_def Let_def)
  next
    case False
    have "incoming (device (s2\<lparr>perfix := ?before\<rparr>)) = map Inr tail @ Inl Silence # rs" using s2(1) by simp
    from idle_reads [OF this] obtain s3 where
      "clear_shell (s2\<lparr>perfix := ?before\<rparr>) = (Inr (), s3)" "incoming (device s3) = rs" "perfix s3 = ?before"
      by (auto simp: clear_shell_def)
    with False s2(2) len show ?thesis
      by (intro exI [of _ s3]) (simp add: wait_for_shell_def Let_def)
  qed
qed

definition demo_boot :: shell where
  "demo_boot = \<lparr>device = demo_device (map Inr (concat (map (\<lambda>l. l @ [0x0A]) [str_bytes ''boot'']) @
      (str_bytes ''=> '' @ str_bytes INT_STR) @ [0x0A] @ str_bytes ''=> '') @ [Inl Silence]),
     clock = [], perfix = []\<rparr>"

theorem prompt_learned_witness:
  "\<exists>s'. wait_for_shell (\<lambda>_. None) demo_boot = (Inr (), s') \<and> perfix s' = ''=> ''"
proof -
  have h: "faults (device demo_boot) = []" "0x0A \<notin> set (str_bytes ''=> '')"
    "\<forall>l\<in>set [str_bytes ''boot'']. 0x0A \<notin> set l \<and> \<not> line_done (l @ [0x0A])"
    "incoming (device demo_boot) = map Inr (concat (map (\<lambda>l. l @ [0x0A]) [str_bytes ''boot'']) @
      (str_bytes ''=> '' @ str_bytes INT_STR) @ [0x0A] @ str_bytes ''=> '') @ Inl Silence # []"
    by (simp_all add: demo_boot_def demo_device_def line_done_def trim_ascii_end_def ends_with_def INT_STR_def)
  have "lossy (str_bytes ''=> '') = ''=> ''" by code_simp
  with prompt_learned [OF h, of "\<lambda>_. None"] show ?thesis
    by (auto simp: normalize_interrupt_prompt_def Let_def)
qed

end
