(* ===== verification/Rust_Numbers.thy ===== *)
theory Rust_Numbers
  imports Rust_Text
begin

text \<open>
  Signed integers, floating-point numbers and truth values of the standard library and their texts:
  an \<open>i64\<close> is a word read by \<open>sint\<close>, an \<open>f64\<close> the word of its IEEE 754 encoding. Reading a decimal
  number rounds to the nearest encoding, ties to even.
\<close>

type_synonym i64 = "64 word"
type_synonym f64 = "64 word"

section \<open>Integers and truth values\<close>

definition is_digit :: "char \<Rightarrow> bool" where
  "is_digit c \<longleftrightarrow> 48 \<le> (of_char c :: nat) \<and> (of_char c :: nat) < 58"

definition digits_parse :: "string \<Rightarrow> nat option" where
  "digits_parse s = (if s \<noteq> [] \<and> list_all is_digit s then Some (dec_value s) else None)"

text \<open>An optional sign, then digits.\<close>

definition int_parse :: "string \<Rightarrow> int option" where
  "int_parse s =
     (if take 1 s = ''-'' then map_option (\<lambda>n. - int n) (digits_parse (drop 1 s))
      else map_option int (digits_parse (if take 1 s = ''+'' then drop 1 s else s)))"

definition i64_parse :: "string \<Rightarrow> i64 option" where
  "i64_parse s =
     (case int_parse s of
        None \<Rightarrow> None
      | Some i \<Rightarrow> if - (2 ^ 63) \<le> i \<and> i < 2 ^ 63 then Some (word_of_int i) else None)"

definition int_str :: "int \<Rightarrow> string" where
  "int_str i = (if i < 0 then ''-'' @ dec_str (nat (- i)) else dec_str (nat i))"

definition bool_parse :: "string \<Rightarrow> bool option" where
  "bool_parse s = (if s = ''true'' then Some True else if s = ''false'' then Some False else None)"

definition bool_str :: "bool \<Rightarrow> string" where
  "bool_str b = (if b then ''true'' else ''false'')"

section \<open>Floating-point numbers\<close>

fun bit_len :: "nat \<Rightarrow> nat" where
  "bit_len n = (if n = 0 then 0 else Suc (bit_len (n div 2)))"

declare bit_len.simps [simp del]

definition F64_INF :: f64 where "F64_INF = 0x7ff0000000000000"
definition F64_NAN :: f64 where "F64_NAN = 0x7ff8000000000000"
definition F64_SIGN :: f64 where "F64_SIGN = 0x8000000000000000"

definition f64_finite :: "f64 \<Rightarrow> bool" where
  "f64_finite w \<longleftrightarrow> w AND F64_INF \<noteq> F64_INF"

text \<open>\<open>num / den\<close> in units of two to the power \<open>e\<close>.\<close>

definition in_units :: "int \<Rightarrow> nat \<Rightarrow> nat \<Rightarrow> nat \<times> nat" where
  "in_units e num den =
     (if 0 \<le> e then (num, den * 2 ^ nat e) else (num * 2 ^ nat (- e), den))"

definition f64_of_ratio :: "nat \<Rightarrow> nat \<Rightarrow> f64" where
  "f64_of_ratio num den =
     (if num = 0 then 0
      else
        let low = int (bit_len num) - int (bit_len den) - 53;
            (n, d) = in_units low num den;
            e = max (- 1074) (if n div d < 2 ^ 53 then low else low + 1);
            (n, d) = in_units e num den;
            q = n div d; r = n mod d;
            q = (if d < 2 * r \<or> d = 2 * r \<and> odd q then q + 1 else q)
        in word_of_nat (min (nat (e + 1074) * 2 ^ 52 + q) (2047 * 2 ^ 52)))"

definition f64_signed :: "bool \<Rightarrow> f64 \<Rightarrow> f64" where
  "f64_signed negative w = (if negative then w XOR F64_SIGN else w)"

text \<open>\<open>as f64\<close>.\<close>

definition f64_of_int :: "int \<Rightarrow> f64" where
  "f64_of_int i = f64_signed (i < 0) (f64_of_ratio (nat \<bar>i\<bar>) 1)"

text \<open>Digits, perhaps a point and digits, perhaps an exponent: the decimal number \<open>m * 10 ^ x\<close>.\<close>

definition decimal_parse :: "string \<Rightarrow> (nat \<times> int) option" where
  "decimal_parse s =
     (let whole = takeWhile is_digit s;
          rest = dropWhile is_digit s;
          pointed = take 1 rest = ''.'';
          part = (if pointed then takeWhile is_digit (drop 1 rest) else []);
          rest = (if pointed then dropWhile is_digit (drop 1 rest) else rest)
      in if whole = [] \<and> part = [] then None
         else if rest = [] then Some (dec_value (whole @ part), - int (length part))
         else if rest ! 0 = CHR ''e'' \<or> rest ! 0 = CHR ''E''
         then map_option (\<lambda>x. (dec_value (whole @ part), x - int (length part))) (int_parse (drop 1 rest))
         else None)"

definition ascii_lower :: "char \<Rightarrow> char" where
  "ascii_lower c = (if 65 \<le> (of_char c :: nat) \<and> (of_char c :: nat) < 91 then char_of (of_char c + 32 :: nat) else c)"

definition f64_parse :: "string \<Rightarrow> f64 option" where
  "f64_parse s =
     (let negative = take 1 s = ''-'';
          t = (if negative \<or> take 1 s = ''+'' then drop 1 s else s);
          name = map ascii_lower t
      in if name = ''inf'' \<or> name = ''infinity'' then Some (f64_signed negative F64_INF)
         else if name = ''nan'' then Some (f64_signed negative F64_NAN)
         else map_option
           (\<lambda>(m, x). f64_signed negative
              (if 0 \<le> x then f64_of_ratio (m * 10 ^ nat x) 1 else f64_of_ratio m (10 ^ nat (- x))))
           (decimal_parse t))"

section \<open>Round trips\<close>

lemma digits_parse_dec_str: "digits_parse (dec_str n) = Some n"
proof -
  have "dec_str n \<noteq> []" by (simp add: dec_str.simps)
  moreover have "list_all is_digit (dec_str n)" using dec_str_digits by (auto simp: list_all_iff is_digit_def)
  ultimately show ?thesis by (simp add: digits_parse_def dec_value_dec_str)
qed

lemma dec_str_first: "take 1 (dec_str n) \<noteq> ''-''" "take 1 (dec_str n) \<noteq> ''+''"
proof -
  have "c \<in> set (dec_str n)" if "take 1 (dec_str n) = [c]" for c
    using in_set_takeD [of c 1] that by fastforce
  then show "take 1 (dec_str n) \<noteq> ''-''" "take 1 (dec_str n) \<noteq> ''+''"
    using dec_str_digits by fastforce+
qed

lemma int_parse_int_str: "int_parse (int_str i) = Some i"
  using dec_str_first [of "nat i"]
  by (auto simp: int_parse_def int_str_def digits_parse_dec_str)

lemma i64_parse_str: "i64_parse (int_str (sint w)) = Some w"
  using sint_range_size [of w] by (simp add: i64_parse_def int_parse_int_str word_size)

lemma bool_parse_str: "bool_parse (bool_str b) = Some b"
  by (simp add: bool_parse_def bool_str_def)

end
