(* ===== verification/Json_Value.thy ===== *)
theory Json_Value
  imports Rust_Numbers "HOL-Library.List_Lexorder" "HOL-Library.Char_ord"
begin

text \<open>
  The values of the serde_json crate as the program uses them: the three kinds of numbers, and
  objects, which are B-tree maps, as lists of pairs in the order of their keys. The printing of
  floating-point numbers is that crate's own and a parameter.
\<close>

datatype number = PosInt u64 | NegInt i64 | Float f64

datatype json =
    Null
  | Bool bool
  | Num number
  | Str string
  | Arr "json list"
  | Obj "(string \<times> json) list"

type_synonym float_text = "f64 \<Rightarrow> string"

section \<open>Numbers\<close>

definition number_of_i64 :: "i64 \<Rightarrow> number" where
  "number_of_i64 i = (if 0 \<le> sint i then PosInt i else NegInt i)"

definition number_of_f64 :: "f64 \<Rightarrow> number option" where
  "number_of_f64 f = (if f64_finite f then Some (Float f) else None)"

fun as_u64 :: "number \<Rightarrow> u64 option" where
  "as_u64 (PosInt n) = Some n"
| "as_u64 _ = None"

fun as_i64 :: "number \<Rightarrow> i64 option" where
  "as_i64 (PosInt n) = (if unat n < 2 ^ 63 then Some n else None)"
| "as_i64 (NegInt i) = Some i"
| "as_i64 (Float f) = None"

fun as_f64 :: "number \<Rightarrow> f64 option" where
  "as_f64 (PosInt n) = Some (f64_of_int (uint n))"
| "as_f64 (NegInt i) = Some (f64_of_int (sint i))"
| "as_f64 (Float f) = Some f"

fun number_str :: "float_text \<Rightarrow> number \<Rightarrow> string" where
  "number_str ft (PosInt n) = dec_str (unat n)"
| "number_str ft (NegInt i) = int_str (sint i)"
| "number_str ft (Float f) = ft f"

lemma sint_nonneg_unat: "0 \<le> sint (i :: i64) \<Longrightarrow> unat i < 2 ^ 63"
proof (rule ccontr)
  assume "0 \<le> sint i" "\<not> unat i < 2 ^ 63"
  then have "int (2 ^ 63) \<le> int (unat i)" by linarith
  then have "2 ^ 63 \<le> uint i" by simp
  then have "signed_take_bit 63 (uint i) \<le> uint i - 2 ^ Suc 63" by (rule signed_take_bit_int_less_eq)
  moreover have "sint i = signed_take_bit 63 (uint i)" by (simp add: sint_uint)
  moreover have "uint i < 2 ^ Suc 63" using uint_lt2p [of i] by simp
  ultimately show False using \<open>0 \<le> sint i\<close> by linarith
qed

lemma as_i64_number: "as_i64 (number_of_i64 i) = Some i"
  using sint_nonneg_unat [of i] by (auto simp: number_of_i64_def)

section \<open>Values\<close>

fun as_object :: "json \<Rightarrow> (string \<times> json) list option" where
  "as_object (Obj m) = Some m"
| "as_object _ = None"

fun as_array :: "json \<Rightarrow> json list option" where
  "as_array (Arr xs) = Some xs"
| "as_array _ = None"

fun as_str :: "json \<Rightarrow> string option" where
  "as_str (Str s) = Some s"
| "as_str _ = None"

fun json_get :: "string \<Rightarrow> json \<Rightarrow> json option" where
  "json_get k (Obj m) = map_of m k"
| "json_get k _ = None"

section \<open>Objects\<close>

fun obj_insert :: "string \<Rightarrow> json \<Rightarrow> (string \<times> json) list \<Rightarrow> (string \<times> json) list" where
  "obj_insert k v [] = [(k, v)]"
| "obj_insert k v ((k', v') # m) =
     (if k < k' then (k, v) # (k', v') # m
      else if k = k' then (k, v) # m
      else (k', v') # obj_insert k v m)"

definition sorted_keys :: "(string \<times> json) list \<Rightarrow> bool" where
  "sorted_keys m \<longleftrightarrow> sorted_wrt (<) (map fst m)"

lemma obj_insert_keys: "fst ` set (obj_insert k v m) = insert k (fst ` set m)"
  by (induction k v m rule: obj_insert.induct) auto

lemma sorted_keys_insert: "sorted_keys m \<Longrightarrow> sorted_keys (obj_insert k v m)"
proof (induction k v m rule: obj_insert.induct)
  case (2 k v k' v' m)
  then show ?case using obj_insert_keys [of k v m] by (auto simp: sorted_keys_def)
qed (simp add: sorted_keys_def)

lemma sorted_keys_distinct: "sorted_keys m \<Longrightarrow> distinct (map fst m)"
  by (simp add: sorted_keys_def strict_sorted_iff)

lemma map_of_obj_insert: "sorted_keys m \<Longrightarrow> map_of (obj_insert k v m) = (map_of m)(k \<mapsto> v)"
proof (induction k v m rule: obj_insert.induct)
  case (2 k v k' v' m)
  then show ?case by (auto simp: sorted_keys_def fun_upd_twist)
qed simp

lemma obj_insert_not_Nil [simp]: "obj_insert k v m \<noteq> []"
  by (cases m) (auto split: if_splits)

text \<open>An object is determined by what it maps.\<close>

lemma sorted_keys_ext:
  assumes "sorted_keys m" "sorted_keys n" "map_of m = map_of n"
  shows "m = n"
proof -
  have "set m = set n"
    using assms(3) map_of_eq_Some_iff [OF sorted_keys_distinct [OF assms(1)]]
      map_of_eq_Some_iff [OF sorted_keys_distinct [OF assms(2)]]
    by auto
  then have keys: "map fst m = map fst n"
    using assms(1,2) strict_sorted_equal [of "map fst m" "map fst n"] by (simp add: sorted_keys_def)
  show ?thesis
  proof (rule list_eq_iff_nth_eq [THEN iffD2], intro conjI allI impI)
    show "length m = length n" using keys map_eq_imp_length_eq by blast
    fix i assume i: "i < length m"
    then have "fst (m ! i) = fst (n ! i)" using keys \<open>length m = length n\<close> by (metis nth_map)
    moreover have "map_of m (fst (m ! i)) = Some (snd (m ! i))" "map_of n (fst (n ! i)) = Some (snd (n ! i))"
      using i \<open>length m = length n\<close> assms(1,2) by (simp_all add: sorted_keys_distinct)
    ultimately show "m ! i = n ! i" using assms(3) by (simp add: prod_eq_iff)
  qed
qed

end
