(* ===== verification/Menu_Data.thy ===== *)
theory Menu_Data
  imports Json_Value
begin

text \<open>
  The tree of the configuration editor (\<open>jkconfig/src/data\<close>: \<open>types.rs\<close>, \<open>item.rs\<close>, \<open>menu.rs\<close>,
  \<open>oneof.rs\<close>): elements with their values, loading a JSON value into the tree and saving the tree
  as JSON. A method with \<open>&mut self\<close> returns the element it leaves behind, also when it fails.
\<close>

section \<open>Elements\<close>

text \<open>\<open>PathBuf\<close> on its text: \<open>join\<close>, and the components that \<open>iter\<close> yields.\<close>

definition path_join :: "string \<Rightarrow> string \<Rightarrow> string" where
  "path_join p k =
     (if take 1 k = ''/'' then k
      else if p = [] \<or> last p = CHR ''/'' then p @ k
      else p @ ''/'' @ k)"

definition path_components :: "string \<Rightarrow> string list" where
  "path_components p =
     (let rooted = take 1 p = ''/''; ps = split_at (CHR ''/'') p
      in (if rooted then [''/''] else if hd ps = ''.'' then [''.''] else []) @
         filter (\<lambda>s. s \<noteq> [] \<and> s \<noteq> ''.'') ps)"

definition path_file_name :: "string \<Rightarrow> string option" where
  "path_file_name p =
     (let cs = path_components p
      in if cs = [] \<or> last cs \<in> {''/'', ''.'', ''..''} then None else Some (last cs))"

record element_base =
  el_path :: string
  el_title :: string
  el_help :: "string option"
  el_required :: bool
  el_struct_name :: string

definition element_base_new :: "string \<Rightarrow> string option \<Rightarrow> bool \<Rightarrow> string \<Rightarrow> element_base" where
  "element_base_new path description required struct_name =
     \<lparr>el_path = path,
      el_title = (case description of
          Some d \<Rightarrow> hd (split_at (CHR 0x0A) d)
        | None \<Rightarrow> unwrap_or (path_file_name path) []),
      el_help = description, el_required = required, el_struct_name = struct_name\<rparr>"

definition key :: "element_base \<Rightarrow> string" where
  "key b = str_join ''.'' (path_components (el_path b))"

definition field_name :: "element_base \<Rightarrow> string" where
  "field_name b = (let cs = path_components (el_path b) in if cs = [] then [] else last cs)"

record enum_item =
  en_variants :: "string list"
  en_value :: "nat option"
  en_default :: "nat option"

record array_item =
  ar_element_type :: string
  ar_values :: "string list"
  ar_default :: "string list"

datatype item_type =
    StringItem "string option" "string option"
  | NumberItem "f64 option" "f64 option"
  | IntegerItem "i64 option" "i64 option"
  | BooleanItem bool bool
  | EnumItem enum_item
  | ArrayItem array_item

text \<open>A menu has its children and whether it is set; an alternative its variants, the index of the
  selected one and that of the default.\<close>

datatype element =
    Menu (base: element_base) "element list" bool
  | OneOf (base: element_base) "element list" "nat option" "nat option"
  | Item (base: element_base) item_type

section \<open>Errors\<close>

text \<open>The texts in an error are kept as what they are formatted from.\<close>

datatype message = Literal string | OneOfVariants "string list" | IndexUpTo u64 | Joined "string list" | Shown json

datatype schema_error =
    UnsupportedSchema
  | JsonParseError string
  | SchemaConversionError string string
  | TypeMismatch string message message

type_synonym 'a updated = "(schema_error + unit) \<times> 'a"

section \<open>Values of items\<close>

fun position :: "('a \<Rightarrow> bool) \<Rightarrow> 'a list \<Rightarrow> nat option" where
  "position p [] = None"
| "position p (x # xs) = (if p x then Some 0 else map_option Suc (position p xs))"

definition get_at :: "'a list \<Rightarrow> nat \<Rightarrow> 'a option" where
  "get_at xs i = (if i < length xs then Some (xs ! i) else None)"

definition value_str :: "enum_item \<Rightarrow> string option" where
  "value_str e = Option.bind (en_value e) (get_at (en_variants e))"

fun enum_update :: "json \<Rightarrow> string \<Rightarrow> enum_item \<Rightarrow> enum_item updated" where
  "enum_update (Str s) path e =
     (case position (\<lambda>v. v = s) (en_variants e) of
        Some i \<Rightarrow> (Inr (), e\<lparr>en_value := Some i\<rparr>)
      | None \<Rightarrow> (Inl (TypeMismatch path (OneOfVariants (en_variants e)) (Literal s)), e))"
| "enum_update (Num n) path e =
     (case as_u64 n of
        Some i \<Rightarrow>
          if unat i < length (en_variants e) then (Inr (), e\<lparr>en_value := Some (unat i)\<rparr>)
          else (Inl (TypeMismatch path (IndexUpTo (word_of_nat (length (en_variants e)) - 1)) (Shown (Num (PosInt i)))), e)
      | None \<Rightarrow> (Inl (TypeMismatch path (Literal ''non-negative integer'') (Shown (Num n))), e))"
| "enum_update v path e = (Inl (TypeMismatch path (Literal ''string or number'') (Shown v)), e)"

fun array_values :: "float_text \<Rightarrow> string \<Rightarrow> json list \<Rightarrow> schema_error + string list" where
  "array_values ft path [] = Inr []"
| "array_values ft path (x # xs) =
     (case (case x of Str s \<Rightarrow> Some s | Num n \<Rightarrow> Some (number_str ft n) | Bool b \<Rightarrow> Some (bool_str b) | _ \<Rightarrow> None) of
        None \<Rightarrow> Inl (TypeMismatch path (Literal ''string, number, or boolean'') (Shown x))
      | Some s \<Rightarrow> rbind (array_values ft path xs) (\<lambda>ss. Inr (s # ss)))"

definition mismatch :: "string \<Rightarrow> string \<Rightarrow> json \<Rightarrow> schema_error" where
  "mismatch path wanted v = TypeMismatch path (Literal wanted) (Shown v)"

fun item_update :: "float_text \<Rightarrow> json \<Rightarrow> string \<Rightarrow> item_type \<Rightarrow> item_type updated" where
  "item_update ft v path (StringItem x d) =
     (case v of Str s \<Rightarrow> (Inr (), StringItem (Some s) d) | _ \<Rightarrow> (Inl (mismatch path ''string'' v), StringItem x d))"
| "item_update ft v path (NumberItem x d) =
     (case v of
        Num n \<Rightarrow>
          (case as_f64 n of
             Some f \<Rightarrow> (Inr (), NumberItem (Some f) d)
           | None \<Rightarrow> (Inl (mismatch path ''number'' v), NumberItem x d))
      | _ \<Rightarrow> (Inl (mismatch path ''number'' v), NumberItem x d))"
| "item_update ft v path (IntegerItem x d) =
     (case v of
        Num n \<Rightarrow>
          (case as_i64 n of
             Some i \<Rightarrow> (Inr (), IntegerItem (Some i) d)
           | None \<Rightarrow> (Inl (mismatch path ''integer'' v), IntegerItem x d))
      | _ \<Rightarrow> (Inl (mismatch path ''integer'' v), IntegerItem x d))"
| "item_update ft v path (BooleanItem x d) =
     (case v of Bool b \<Rightarrow> (Inr (), BooleanItem b d) | _ \<Rightarrow> (Inl (mismatch path ''boolean'' v), BooleanItem x d))"
| "item_update ft v path (EnumItem e) = apsnd EnumItem (enum_update v path e)"
| "item_update ft v path (ArrayItem a) =
     (case v of
        Arr xs \<Rightarrow>
          (case array_values ft path xs of
             Inl err \<Rightarrow> (Inl err, ArrayItem a)
           | Inr ss \<Rightarrow> (Inr (), ArrayItem (a\<lparr>ar_values := ss\<rparr>)))
      | _ \<Rightarrow> (Inl (mismatch path ''array'' v), ArrayItem a))"

definition float_json :: "f64 \<Rightarrow> json" where
  "float_json f = Num (unwrap_or (number_of_f64 f) (number_of_i64 0))"

definition array_json :: "string \<Rightarrow> json" where
  "array_json s =
     (case i64_parse s of
        Some i \<Rightarrow> Num (number_of_i64 i)
      | None \<Rightarrow>
        (case f64_parse s of
           Some f \<Rightarrow> float_json f
         | None \<Rightarrow> (case bool_parse s of Some b \<Rightarrow> Bool b | None \<Rightarrow> Str s)))"

fun item_json :: "item_type \<Rightarrow> json" where
  "item_json (StringItem x d) = (case x of Some s \<Rightarrow> Str s | None \<Rightarrow> Null)"
| "item_json (NumberItem x d) = (case x of Some f \<Rightarrow> float_json f | None \<Rightarrow> Null)"
| "item_json (IntegerItem x d) = (case x of Some i \<Rightarrow> Num (number_of_i64 i) | None \<Rightarrow> Null)"
| "item_json (BooleanItem x d) = Bool x"
| "item_json (EnumItem e) = (case value_str e of Some s \<Rightarrow> Str s | None \<Rightarrow> Null)"
| "item_json (ArrayItem a) = Arr (map array_json (ar_values a))"

fun item_is_none :: "item_type \<Rightarrow> bool" where
  "item_is_none (StringItem x d) \<longleftrightarrow> x = None"
| "item_is_none (NumberItem x d) \<longleftrightarrow> x = None"
| "item_is_none (IntegerItem x d) \<longleftrightarrow> x = None"
| "item_is_none (BooleanItem x d) \<longleftrightarrow> False"
| "item_is_none (EnumItem e) \<longleftrightarrow> en_value e = None"
| "item_is_none (ArrayItem a) \<longleftrightarrow> False"

fun item_clear :: "item_type \<Rightarrow> item_type" where
  "item_clear (StringItem x d) = StringItem None d"
| "item_clear (NumberItem x d) = NumberItem None d"
| "item_clear (IntegerItem x d) = IntegerItem None d"
| "item_clear (BooleanItem x d) = BooleanItem False d"
| "item_clear (EnumItem e) = EnumItem (e\<lparr>en_value := None\<rparr>)"
| "item_clear (ArrayItem a) = ArrayItem (a\<lparr>ar_values := []\<rparr>)"

section \<open>Whether an element is set\<close>

fun is_none :: "element \<Rightarrow> bool" where
  "is_none (Menu b cs st) \<longleftrightarrow> \<not> el_required b \<and> \<not> st"
| "is_none (OneOf b vs sel d) \<longleftrightarrow> sel = None"
| "is_none (Item b t) \<longleftrightarrow> item_is_none t"

definition set_none :: "element \<Rightarrow> element" where
  "set_none e =
     (if el_required (base e) then e
      else case e of
          Menu b cs st \<Rightarrow> Menu b cs False
        | OneOf b vs sel d \<Rightarrow> OneOf b vs None d
        | Item b t \<Rightarrow> Item b (item_clear t))"

definition selected :: "element list \<Rightarrow> nat option \<Rightarrow> element option" where
  "selected vs sel = Option.bind sel (get_at vs)"

text \<open>\<open>OneOf::set_selected_index\<close>.\<close>

definition set_selected_index :: "nat \<Rightarrow> element_base \<Rightarrow> element list \<Rightarrow> nat option \<Rightarrow> nat option \<Rightarrow> element updated" where
  "set_selected_index i b vs sel d =
     (case get_at vs i of
        None \<Rightarrow> (Inl (SchemaConversionError (el_path b) ''index out of bounds''), OneOf b vs sel d)
      | Some v \<Rightarrow>
          (Inr (), OneOf b (vs[i := (case v of
              Menu mb cs st \<Rightarrow> Menu mb cs True
            | Item ib (EnumItem e) \<Rightarrow> Item ib (EnumItem (e\<lparr>en_value := Some 0\<rparr>))
            | _ \<Rightarrow> v)]) (Some i) d))"

section \<open>Loading\<close>

definition find_child :: "string \<Rightarrow> element list \<Rightarrow> nat option" where
  "find_child k cs = position (\<lambda>c. field_name (base c) = k) cs"

text \<open>An object stands for the variant its first key names.\<close>

definition unwrap_variant :: "json \<Rightarrow> string option \<times> json" where
  "unwrap_variant v = (case v of Obj ((k, x) # m) \<Rightarrow> (Some k, x) | _ \<Rightarrow> (None, v))"

lemma unwrap_variant_size: "size (snd (unwrap_variant v)) \<le> size v"
  by (auto simp: unwrap_variant_def split: json.splits list.splits)

function update_element :: "float_text \<Rightarrow> string option \<Rightarrow> json \<Rightarrow> element \<Rightarrow> element updated"
  and update_fields :: "float_text \<Rightarrow> (string \<times> json) list \<Rightarrow> element list \<Rightarrow> bool \<Rightarrow> (element list \<times> bool) updated"
  and update_variants :: "float_text \<Rightarrow> string option \<Rightarrow> json \<Rightarrow> element list \<Rightarrow> nat option \<times> element list"
where
  "update_element ft name v (Menu b cs st) =
     (if is_some_and name (\<lambda>n. el_struct_name b \<noteq> n)
      then (Inl (TypeMismatch (key b) (Literal (unwrap_or name [])) (Literal (el_struct_name b))), Menu b cs st)
      else case v of
          Obj m \<Rightarrow> (case update_fields ft m cs st of (r, cs', st') \<Rightarrow> (r, Menu b cs' st'))
        | _ \<Rightarrow> (Inl (mismatch (key b) ''object'' v), Menu b cs st))"
| "update_element ft name v (OneOf b vs sel d) =
     (case update_variants ft (fst (unwrap_variant v)) (snd (unwrap_variant v)) vs of
        (Some i, vs') \<Rightarrow> (Inr (), OneOf b vs' (Some i) d)
      | (None, vs') \<Rightarrow>
          (Inl (TypeMismatch (key b) (Joined (map (el_struct_name \<circ> base) vs')) (Shown (snd (unwrap_variant v)))),
           OneOf b vs' sel d))"
| "update_element ft name v (Item b t) =
     (case item_update ft v (key b) t of (r, t') \<Rightarrow> (r, Item b t'))"
| "update_fields ft [] cs st = (Inr (), cs, st)"
| "update_fields ft ((k, v) # m) cs st =
     (case find_child k cs of
        None \<Rightarrow> update_fields ft m cs True
      | Some i \<Rightarrow>
          (case update_element ft None v (cs ! i) of
             (Inl e, c) \<Rightarrow> (Inl e, cs[i := c], st)
           | (Inr _, c) \<Rightarrow> update_fields ft m (cs[i := c]) True))"
| "update_variants ft name v [] = (None, [])"
| "update_variants ft name v (e # es) =
     (case update_element ft name v e of
        (Inr _, e') \<Rightarrow> (Some 0, e' # es)
      | (Inl _, e') \<Rightarrow> (case update_variants ft name v es of (i, es') \<Rightarrow> (map_option Suc i, e' # es')))"
  by pat_completeness auto

termination
proof (relation "measures
    [\<lambda>x. case x of
        Inl (ft, name, v, e) \<Rightarrow> size v
      | Inr (Inl (ft, m, cs, st)) \<Rightarrow> size (Obj m)
      | Inr (Inr (ft, name, v, es)) \<Rightarrow> size v,
     \<lambda>x. case x of
        Inl (ft, name, v, e) \<Rightarrow> size e
      | Inr (Inl (ft, m, cs, st)) \<Rightarrow> 0
      | Inr (Inr (ft, name, v, es)) \<Rightarrow> size_list size es]", goal_cases)
qed (use unwrap_variant_size in \<open>auto simp: le_less\<close>)

section \<open>Saving\<close>

lemma selected_size: "selected vs sel = Some v \<Longrightarrow> size v < Suc (size_list size vs)"
  by (auto simp: selected_def get_at_def split: option.splits if_splits Option.bind_splits
      intro!: le_imp_less_Suc size_list_estimation' [of _ vs])

function as_json :: "element \<Rightarrow> json"
  and fields_json :: "element list \<Rightarrow> (string \<times> json) list \<Rightarrow> (string \<times> json) list"
where
  "as_json (Menu b cs st) = Obj (fields_json cs [])"
| "as_json (OneOf b vs sel d) =
     (case selected vs sel of
        None \<Rightarrow> Null
      | Some v \<Rightarrow>
          (case v of
             Menu mb cs st \<Rightarrow>
               Obj (obj_insert (field_name mb) (Obj (obj_insert (el_struct_name mb) (as_json v) [])) [])
           | _ \<Rightarrow> as_json v))"
| "as_json (Item b t) = item_json t"
| "fields_json [] m = m"
| "fields_json (c # cs) m =
     (if is_none c then fields_json cs m
      else fields_json cs
        (case c of
           OneOf b vs sel d \<Rightarrow>
             (case as_json c of
                Obj entries \<Rightarrow> foldl (\<lambda>m (k, v). obj_insert k v m) m entries
              | other \<Rightarrow> obj_insert (field_name b) other m)
         | _ \<Rightarrow> obj_insert (field_name (base c)) (as_json c) m))"
  by pat_completeness auto

termination
  by (relation "measure (case_sum size (\<lambda>(cs, m). size_list size cs))")
    (auto dest!: selected_size)

end
