(* ===== verification/Menu_Schema.thy ===== *)
theory Menu_Schema
  imports Menu_Data
begin

text \<open>
  The conversion of a JSON Schema into the tree of the editor (\<open>jkconfig/src/data/schema.rs\<close>). The
  conversion follows references, so it need not end: \<open>as_element_type\<close> has the number of nested
  calls it may make as an argument, and \<open>None\<close> is the answer when they are used up. Each of its
  parts is a definition over the conversion of the parts below it.
\<close>

section \<open>Walks\<close>

record walk =
  wk_path :: string
  wk_value :: json
  wk_defs :: "json option"

text \<open>A conversion ends with an error, with the panic of an index out of range, or with a result.\<close>

datatype schema_fault = Failed schema_error | Panic

type_synonym 'a converted = "(schema_fault + 'a) option"

definition cbind :: "'a converted \<Rightarrow> ('a \<Rightarrow> 'b converted) \<Rightarrow> 'b converted" where
  "cbind r f = (case r of None \<Rightarrow> None | Some (Inl e) \<Rightarrow> Some (Inl e) | Some (Inr x) \<Rightarrow> f x)"

definition lift_err :: "schema_error + 'a \<Rightarrow> 'a converted" where
  "lift_err r = Some (map_sum Failed id r)"

type_synonym converter = "walk \<Rightarrow> bool \<Rightarrow> string option \<Rightarrow> element option converted"

definition field :: "walk \<Rightarrow> string \<Rightarrow> json option" where
  "field w name = json_get name (wk_value w)"

definition required_field :: "walk \<Rightarrow> string \<Rightarrow> schema_error + json" where
  "required_field w name =
     (case field w name of
        None \<Rightarrow> Inl (SchemaConversionError (wk_path w)
          (''Missing required field '' @ [CHR 0x27] @ name @ [CHR 0x27]))
      | Some v \<Rightarrow> Inr v)"

definition required_field_as_string :: "walk \<Rightarrow> string \<Rightarrow> schema_error + string" where
  "required_field_as_string w name =
     rbind (required_field w name) (\<lambda>v.
       case as_str v of
         None \<Rightarrow> Inl (SchemaConversionError (wk_path w) ''$schema is not string'')
       | Some s \<Rightarrow> Inr s)"

definition get_str :: "walk \<Rightarrow> string \<Rightarrow> schema_error + string option" where
  "get_str w name =
     (case field w name of
        None \<Rightarrow> Inr None
      | Some v \<Rightarrow>
          (case as_str v of
             None \<Rightarrow> Inl (SchemaConversionError (wk_path w)
               (''Field '' @ [CHR 0x27] @ name @ [CHR 0x27] @ '' is not a string''))
           | Some s \<Rightarrow> Inr (Some s)))"

definition description :: "walk \<Rightarrow> string option converted" where
  "description w = lift_err (get_str w ''description'')"

section \<open>Menus\<close>

fun handle_children :: "converter \<Rightarrow> walk \<Rightarrow> string list \<Rightarrow> (string \<times> json) list \<Rightarrow> element list converted" where
  "handle_children conv w req [] = Some (Inr [])"
| "handle_children conv w req ((k, v) # props) =
     cbind (conv \<lparr>wk_path = path_join (wk_path w) k, wk_value = v, wk_defs = wk_defs w\<rparr> (k \<in> set req) (Some k)) (\<lambda>c.
     cbind (handle_children conv w req props) (\<lambda>cs.
       Some (Inr (case c of None \<Rightarrow> cs | Some c \<Rightarrow> c # cs))))"

definition menu_from_schema :: "converter \<Rightarrow> walk \<Rightarrow> bool \<Rightarrow> string \<Rightarrow> element converted" where
  "menu_from_schema conv w required name =
     cbind (description w) (\<lambda>d.
     let req = List.map_filter as_str (unwrap_or (Option.bind (field w ''required'') as_array) []) in
     cbind (handle_children conv w req (unwrap_or (Option.bind (field w ''properties'') as_object) [])) (\<lambda>cs.
       Some (Inr (Menu (element_base_new (wk_path w) d required name) cs required))))"

section \<open>References\<close>

definition DEFS_PREFIX :: string where "DEFS_PREFIX = ''#/$defs/''"

definition convert_ref :: "converter \<Rightarrow> walk \<Rightarrow> bool \<Rightarrow> element option converted" where
  "convert_ref conv w required =
     (case Option.bind (field w ''$ref'') as_str of
        None \<Rightarrow> Some (Inr None)
      | Some r \<Rightarrow>
          (case Option.bind (wk_defs w) (json_get (trim_start_matches DEFS_PREFIX r)) of
             None \<Rightarrow> Some (Inr None)
           | Some v \<Rightarrow> conv (w\<lparr>wk_value := v\<rparr>) required (Some (trim_start_matches DEFS_PREFIX r))))"

fun first_menu :: "converter \<Rightarrow> walk \<Rightarrow> bool \<Rightarrow> json list \<Rightarrow> element option converted" where
  "first_menu conv w required [] = Some (Inr None)"
| "first_menu conv w required (v # vs) =
     cbind (convert_ref conv (w\<lparr>wk_value := v\<rparr>) required) (\<lambda>e.
       case e of
         Some (Menu b cs st) \<Rightarrow> Some (Inr (Some (Menu b cs st)))
       | _ \<Rightarrow> first_menu conv w required vs)"

definition handle_object :: "converter \<Rightarrow> walk \<Rightarrow> bool \<Rightarrow> string option \<Rightarrow> element option converted" where
  "handle_object conv w required fname =
     (if Option.bind (field w ''type'') as_str = Some ''object'' then
        (case fname of
           Some name \<Rightarrow> cbind (menu_from_schema conv w required name) (\<lambda>m. Some (Inr (Some m)))
         | None \<Rightarrow>
             first_menu conv w required (map snd (unwrap_or (Option.bind (field w ''properties'') as_object) [])))
      else Some (Inr None))"

section \<open>Alternatives\<close>

fun convert_variants :: "converter \<Rightarrow> walk \<Rightarrow> json list \<Rightarrow> element list converted" where
  "convert_variants conv w [] = Some (Inr [])"
| "convert_variants conv w (v # vs) =
     cbind (conv (w\<lparr>wk_value := v\<rparr>) False None) (\<lambda>e.
     cbind (convert_variants conv w vs) (\<lambda>es.
       Some (Inr (case e of None \<Rightarrow> es | Some e \<Rightarrow> e # es))))"

definition const_name :: "json \<Rightarrow> string option" where
  "const_name v = Option.bind (json_get ''const'' v) as_str"

definition handle_oneof :: "converter \<Rightarrow> walk \<Rightarrow> bool \<Rightarrow> string option \<Rightarrow> element option converted" where
  "handle_oneof conv w required fname =
     (case Option.bind (field w ''oneOf'') as_array of
        None \<Rightarrow> Some (Inr None)
      | Some variants \<Rightarrow>
          let names = List.map_filter const_name variants in
          if names \<noteq> [] \<and> length names = length variants then
            cbind (description w) (\<lambda>d.
              Some (Inr (Some (Item (element_base_new (wk_path w) d required (unwrap_or fname ''enum''))
                (EnumItem \<lparr>en_variants = names, en_value = None, en_default = None\<rparr>)))))
          else
            (case fname of
               None \<Rightarrow> Some (Inr None)
             | Some name \<Rightarrow>
                 cbind (convert_variants conv w variants) (\<lambda>es.
                 cbind (description w) (\<lambda>d.
                   Some (Inr (Some (OneOf (element_base_new (wk_path w) d required name) es None None)))))))"

definition is_null_type :: "json \<Rightarrow> bool" where
  "is_null_type v \<longleftrightarrow> Option.bind (json_get ''type'' v) as_str = Some ''null''"

definition has_null :: "json list \<Rightarrow> bool" where
  "has_null vs \<longleftrightarrow> list_ex (\<lambda>v. is_null_type v \<and> is_some_and (as_object v) (\<lambda>m. length m \<le> 1)) vs"

definition convert_anyof :: "converter \<Rightarrow> walk \<Rightarrow> bool \<Rightarrow> element option converted" where
  "convert_anyof conv w required =
     (case Option.bind (field w ''anyOf'') as_array of
        None \<Rightarrow> Some (Inr None)
      | Some variants \<Rightarrow>
          cbind
            (case (if length variants = 2 \<and> has_null variants then find (Not \<circ> is_null_type) variants else None) of
               None \<Rightarrow> Some (Inr None)
             | Some inner \<Rightarrow> conv (w\<lparr>wk_value := inner\<rparr>) required None)
            (\<lambda>e. case e of
               Some x \<Rightarrow> Some (Inr (Some x))
             | None \<Rightarrow>
                 (case variants of
                    [] \<Rightarrow> Some (Inl Panic)
                  | v # _ \<Rightarrow> conv (w\<lparr>wk_value := v\<rparr>) False None)))"

section \<open>Items\<close>

definition string_item_type :: "walk \<Rightarrow> item_type" where
  "string_item_type w =
     (case Option.bind (field w ''enum'') as_array of
        Some vs \<Rightarrow> EnumItem \<lparr>en_variants = List.map_filter as_str vs, en_value = None, en_default = None\<rparr>
      | None \<Rightarrow> StringItem None None)"

definition array_element_type :: "walk \<Rightarrow> string" where
  "array_element_type w =
     unwrap_or (Option.bind (Option.bind (field w ''items'') (json_get ''type'')) as_str) ''string''"

definition item_of_type :: "walk \<Rightarrow> string \<Rightarrow> bool \<Rightarrow> element option converted" where
  "item_of_type w ty required =
     (if ty \<in> {''string'', ''number'', ''integer'', ''boolean'', ''array''} then
        cbind (description w) (\<lambda>d.
          Some (Inr (Some (Item (element_base_new (wk_path w) d required ty)
            (if ty = ''string'' then string_item_type w
             else if ty = ''number'' then NumberItem None None
             else if ty = ''integer'' then IntegerItem None None
             else if ty = ''boolean'' then BooleanItem False False
             else ArrayItem \<lparr>ar_element_type = array_element_type w, ar_values = [], ar_default = []\<rparr>)))))
      else Some (Inr None))"

definition convert_item :: "walk \<Rightarrow> bool \<Rightarrow> element option converted" where
  "convert_item w required =
     (case field w ''type'' of
        None \<Rightarrow> Some (Inr None)
      | Some ty \<Rightarrow>
          (case (case ty of Arr (t # ts) \<Rightarrow> as_str t | _ \<Rightarrow> as_str ty) of
             None \<Rightarrow> Some (Inr None)
           | Some name \<Rightarrow> item_of_type w name required))"

section \<open>Elements\<close>

text \<open>The parts are tried in order; the first that finds an element wins.\<close>

definition or_else :: "element option converted \<Rightarrow> element option converted \<Rightarrow> element option converted" where
  "or_else r s = cbind r (\<lambda>e. case e of None \<Rightarrow> s | Some x \<Rightarrow> Some (Inr (Some x)))"

definition element_step :: "converter \<Rightarrow> converter" where
  "element_step conv w required fname =
     or_else (handle_object conv w required fname)
       (or_else (convert_ref conv w required)
         (or_else (handle_oneof conv w required fname)
           (or_else (convert_item w required) (convert_anyof conv w required))))"

primrec as_element_type :: "nat \<Rightarrow> converter" where
  "as_element_type 0 = (\<lambda>w required fname. None)"
| "as_element_type (Suc n) = element_step (as_element_type n)"

record menu_root =
  root_version :: string
  root_title :: string
  root_menu :: element

definition menu_root_of_schema :: "nat \<Rightarrow> json \<Rightarrow> menu_root converted" where
  "menu_root_of_schema n schema =
     (let w = \<lparr>wk_path = [], wk_value = schema, wk_defs = None\<rparr> in
      cbind (lift_err (required_field_as_string w ''$schema'')) (\<lambda>version.
      cbind (lift_err (required_field_as_string w ''title'')) (\<lambda>title.
      let w = w\<lparr>wk_defs := field w ''$defs''\<rparr> in
      cbind (menu_from_schema (as_element_type n) w True title) (\<lambda>m.
        Some (Inr \<lparr>root_version = version, root_title = title, root_menu = m\<rparr>)))))"

end
