(* ===== verification/Menu_State.thy ===== *)
theory Menu_State
  imports Menu_Schema
begin

text \<open>
  The state of the configuration editor (\<open>jkconfig/src/data\<close>: \<open>path.rs\<close>, \<open>resolver.rs\<close>,
  \<open>app_data.rs\<close>): the document with its tree, the stack of open menus, the editing operations on
  paths, and loading and saving the file. The parsers and printers of JSON and TOML are parameters,
  and so are the answers of the file system.
\<close>

section \<open>Element paths\<close>

type_synonym element_path = "string list"

definition path_parse :: "string \<Rightarrow> element_path" where
  "path_parse p = (if p = [] then [] else filter (\<lambda>s. s \<noteq> []) (split_at (CHR ''.'') p))"

definition path_child :: "element_path \<Rightarrow> string \<Rightarrow> element_path" where
  "path_child p s = p @ [s]"

definition path_parent :: "element_path \<Rightarrow> element_path option" where
  "path_parent p = (if p = [] then None else Some (butlast p))"

definition as_key :: "element_path \<Rightarrow> string" where
  "as_key p = str_join ''.'' p"

definition display :: "element_path \<Rightarrow> string" where
  "display p = (if p = [] then ''/'' else as_key p)"

definition to_path_buf :: "element_path \<Rightarrow> string" where
  "to_path_buf p = foldl path_join [] p"

section \<open>Resolving paths\<close>

datatype resolve_error = MissingPath string | UnselectedVariant string | ExpectedMenu string

text \<open>A selected variant stands in the place of its alternative and uses up no segment.\<close>

function resolve_from :: "element_path \<Rightarrow> element \<Rightarrow> element_path \<Rightarrow> resolve_error + element" where
  "resolve_from full e [] = Inr e"
| "resolve_from full (Menu b cs st) (k # ks) =
     (case find_child k cs of
        None \<Rightarrow> Inl (MissingPath (as_key full))
      | Some i \<Rightarrow> resolve_from full (cs ! i) ks)"
| "resolve_from full (OneOf b vs sel d) (k # ks) =
     (case selected vs sel of
        None \<Rightarrow> Inl (UnselectedVariant (as_key full))
      | Some v \<Rightarrow> resolve_from full v (k # ks))"
| "resolve_from full (Item b t) (k # ks) = Inl (MissingPath (as_key full))"
  by pat_completeness auto

termination by (relation "measures [\<lambda>(f, e, p). length p, \<lambda>(f, e, p). size e]") (auto dest: selected_size)

definition resolve :: "element \<Rightarrow> element_path \<Rightarrow> resolve_error + element" where
  "resolve root p = resolve_from p root p"

text \<open>What is done through the reference \<open>resolve_mut\<close> returns: \<open>f\<close> is the change of the element.\<close>

function modify_from :: "element_path \<Rightarrow> (element \<Rightarrow> 'r \<times> element) \<Rightarrow> element \<Rightarrow> element_path \<Rightarrow> resolve_error + 'r \<times> element" where
  "modify_from full f e [] = Inr (f e)"
| "modify_from full f (Menu b cs st) (k # ks) =
     (case find_child k cs of
        None \<Rightarrow> Inl (MissingPath (as_key full))
      | Some i \<Rightarrow> rbind (modify_from full f (cs ! i) ks) (\<lambda>(r, c). Inr (r, Menu b (cs[i := c]) st)))"
| "modify_from full f (OneOf b vs sel d) (k # ks) =
     (case selected vs sel of
        None \<Rightarrow> Inl (UnselectedVariant (as_key full))
      | Some v \<Rightarrow> rbind (modify_from full f v (k # ks)) (\<lambda>(r, c). Inr (r, OneOf b (vs[the sel := c]) sel d)))"
| "modify_from full f (Item b t) (k # ks) = Inl (MissingPath (as_key full))"
  by pat_completeness auto

termination by (relation "measures [\<lambda>(g, f, e, p). length p, \<lambda>(g, f, e, p). size e]") (auto dest: selected_size)

definition resolve_mut :: "(element \<Rightarrow> 'r \<times> element) \<Rightarrow> element \<Rightarrow> element_path \<Rightarrow> resolve_error + 'r \<times> element" where
  "resolve_mut f root p = modify_from p f root p"

text \<open>\<open>ElementResolver::menu\<close>: the menu at a path or the selected one of the alternative there.\<close>

definition resolve_menu :: "element \<Rightarrow> element_path \<Rightarrow> resolve_error + element" where
  "resolve_menu root p =
     rbind (resolve root p) (\<lambda>e.
       case e of
         Menu b cs st \<Rightarrow> Inr e
       | OneOf b vs sel d \<Rightarrow>
           (case selected vs sel of
              Some (Menu b cs st) \<Rightarrow> Inr (Menu b cs st)
            | Some _ \<Rightarrow> Inl (ExpectedMenu (as_key p))
            | None \<Rightarrow> Inl (UnselectedVariant (as_key p)))
       | Item b t \<Rightarrow> Inl (ExpectedMenu (as_key p)))"

section \<open>Required fields\<close>

lemma child_size: "c \<in> set cs \<Longrightarrow> size c < Suc (size_list size (cs :: element list))"
  by (auto intro!: le_imp_less_Suc size_list_estimation')

function collect_missing :: "element \<Rightarrow> string list" where
  "collect_missing (Menu b cs st) =
     (if \<not> el_required b \<and> \<not> st then [] else concat (map collect_missing cs))"
| "collect_missing (OneOf b vs sel d) =
     (case selected vs sel of
        Some v \<Rightarrow> collect_missing v
      | None \<Rightarrow> if el_required b then [key b] else [])"
| "collect_missing (Item b t) = (if el_required b \<and> item_is_none t then [key b] else [])"
  by pat_completeness auto

termination
  by (relation "measure size") (auto dest: selected_size child_size)

section \<open>Files\<close>

text \<open>The end of a path's text that is not part of its last component, and the extension.\<close>

function strip_end :: "string \<Rightarrow> string" where
  "strip_end p =
     (if 1 < length p \<and> last p = CHR ''/'' then strip_end (butlast p)
      else if 2 < length p \<and> drop (length p - 2) p = ''/.'' then strip_end (butlast p)
      else p)"
  by pat_completeness auto

termination by (relation "measure length") auto

declare strip_end.simps [simp del]

definition extension :: "string \<Rightarrow> string option" where
  "extension p =
     (case path_file_name p of
        None \<Rightarrow> None
      | Some name \<Rightarrow>
          (let ps = split_at (CHR ''.'') name
           in if length ps < 2 \<or> length ps = 2 \<and> hd ps = [] then None else Some (last ps)))"

definition with_extension :: "string \<Rightarrow> string \<Rightarrow> string" where
  "with_extension p ext =
     (if path_file_name p = None then p
      else
        let t = strip_end p;
            stem = (case extension p of None \<Rightarrow> t | Some e \<Rightarrow> take (length t - length e - 1) t)
        in stem @ ''.'' @ ext)"

definition parent_dir :: "string \<Rightarrow> string" where
  "parent_dir p =
     (let t = strip_end p; dir = rev (dropWhile (\<lambda>c. c \<noteq> CHR ''/'') (rev t))
      in if length dir \<le> 1 then dir else strip_end dir)"

text \<open>\<open>default_schema_by_init\<close>; the panic of a path without a file name is \<open>None\<close>.\<close>

definition default_schema_by_init :: "string \<Rightarrow> string option" where
  "default_schema_by_init config =
     (case path_file_name config of
        None \<Rightarrow> None
      | Some name \<Rightarrow>
          (let ps = split_at (CHR ''.'') name;
               ps = (if 1 < length ps then butlast ps else ps)
           in Some (path_join (parent_dir config) (str_join ''.'' ps @ ''-schema.json''))))"

section \<open>Documents\<close>

datatype item_kind = AString | AStringArray | AnInteger | ANumber | ABool | AnArray | AnEnum

datatype app_error =
    MissingElement element_path
  | NotA item_kind element_path
  | NotAOneOf element_path
  | NotAMenu element_path
  | InvalidVariant string
  | RequiredElement element_path
  | RequiredMenu element_path
  | Schema schema_error
  | MissingRequired "string list"
  | UnsupportedExtension string
  | NoSchemaFile string
  | FileError string

text \<open>The text formats: a parser and a printer each, with their own errors.\<close>

record formats =
  parse_json :: "string \<Rightarrow> app_error + json"
  parse_toml :: "string \<Rightarrow> app_error + json"
  print_json :: "json \<Rightarrow> app_error + string"
  print_toml :: "json \<Rightarrow> app_error + string"
  print_float :: float_text

text \<open>The files of the file system, and the answers that are not determined by them: how copying
  and writing end (a failed writing leaves some content behind) and the clock in seconds.\<close>

record file_system =
  files :: "string \<rightharpoonup> string"
  copy_fault :: "string option"
  write_fault :: "(string \<times> string option) option"
  seconds :: "app_error + nat"

record document =
  doc_root :: menu_root
  doc_config :: string

text \<open>A panic and an endless conversion are answers too.\<close>

datatype 'a outcome = Done 'a | Refused app_error | Panicked | Endless

definition of_schema :: "nat \<Rightarrow> json \<Rightarrow> menu_root outcome" where
  "of_schema n schema =
     (case menu_root_of_schema n schema of
        None \<Rightarrow> Endless
      | Some (Inl Panic) \<Rightarrow> Panicked
      | Some (Inl (Failed e)) \<Rightarrow> Refused (Schema e)
      | Some (Inr r) \<Rightarrow> Done r)"

definition parse_config :: "formats \<Rightarrow> string \<Rightarrow> string \<Rightarrow> app_error + json" where
  "parse_config fmt path content =
     (let ext = unwrap_or (extension path) []
      in if ext = ''json'' then parse_json fmt content
         else if ext = ''toml'' then parse_toml fmt content
         else Inl (UnsupportedExtension ext))"

definition load_config :: "formats \<Rightarrow> string \<Rightarrow> string \<Rightarrow> menu_root \<Rightarrow> app_error + menu_root" where
  "load_config fmt path content r =
     (if trim content = [] then Inr r
      else rbind (parse_config fmt path content) (\<lambda>v.
        case update_element (print_float fmt) None v (root_menu r) of
          (Inl e, _) \<Rightarrow> Inl (Schema e)
        | (Inr _, m) \<Rightarrow> Inr (r\<lparr>root_menu := m\<rparr>)))"

definition document_of :: "string \<Rightarrow> app_error + menu_root \<Rightarrow> document outcome" where
  "document_of path r =
     (case r of Inl e \<Rightarrow> Refused e | Inr r \<Rightarrow> Done \<lparr>doc_root = r, doc_config = path\<rparr>)"

definition new_with_init_and_schema :: "nat \<Rightarrow> formats \<Rightarrow> string \<Rightarrow> string \<Rightarrow> json \<Rightarrow> document outcome" where
  "new_with_init_and_schema n fmt init path schema =
     (case of_schema n schema of
        Done r \<Rightarrow> document_of path (load_config fmt path init r)
      | Refused e \<Rightarrow> Refused e | Panicked \<Rightarrow> Panicked | Endless \<Rightarrow> Endless)"

definition DEFAULT_CONFIG_PATH :: string where "DEFAULT_CONFIG_PATH = ''.config.toml''"

definition init_value_path :: "string option \<Rightarrow> string" where
  "init_value_path config = unwrap_or config DEFAULT_CONFIG_PATH"

definition new_with_schema :: "nat \<Rightarrow> formats \<Rightarrow> file_system \<Rightarrow> string option \<Rightarrow> json \<Rightarrow> document outcome" where
  "new_with_schema n fmt fs config schema =
     (case of_schema n schema of
        Done r \<Rightarrow>
          document_of (init_value_path config)
            (case files fs (init_value_path config) of
               None \<Rightarrow> Inr r
             | Some content \<Rightarrow> load_config fmt (init_value_path config) content r)
      | Refused e \<Rightarrow> Refused e | Panicked \<Rightarrow> Panicked | Endless \<Rightarrow> Endless)"

definition document_new :: "nat \<Rightarrow> formats \<Rightarrow> file_system \<Rightarrow> string option \<Rightarrow> string option \<Rightarrow> document outcome" where
  "document_new n fmt fs config schema =
     (case (case schema of Some p \<Rightarrow> Some p | None \<Rightarrow> default_schema_by_init (init_value_path config)) of
        None \<Rightarrow> Panicked
      | Some p \<Rightarrow>
          (case files fs p of
             None \<Rightarrow> Refused (NoSchemaFile p)
           | Some content \<Rightarrow>
               (case parse_json fmt content of
                  Inl e \<Rightarrow> Refused e
                | Inr j \<Rightarrow> new_with_schema n fmt fs (Some (init_value_path config)) j)))"

definition document_json :: "document \<Rightarrow> json" where
  "document_json d = as_json (root_menu (doc_root d))"

definition render :: "formats \<Rightarrow> document \<Rightarrow> app_error + string" where
  "render fmt d =
     (let ext = unwrap_or (extension (doc_config d)) []
      in if ext = ''toml'' \<or> ext = ''tml'' then print_toml fmt (document_json d)
         else if ext = ''json'' then print_json fmt (document_json d)
         else Inl (UnsupportedExtension ext))"

definition backup :: "document \<Rightarrow> file_system \<Rightarrow> (app_error + unit) \<times> file_system" where
  "backup d fs =
     (case files fs (doc_config d) of
        None \<Rightarrow> (Inr (), fs)
      | Some old \<Rightarrow>
          (case seconds fs of
             Inl e \<Rightarrow> (Inl e, fs)
           | Inr now \<Rightarrow>
               (case copy_fault fs of
                  Some e \<Rightarrow> (Inl (FileError e), fs)
                | None \<Rightarrow>
                    (Inr (), fs\<lparr>files := (files fs)(with_extension (doc_config d)
                       (''bk-'' @ dec_str now @ ''.'' @ unwrap_or (extension (doc_config d)) []) \<mapsto> old)\<rparr>))))"

definition persist :: "formats \<Rightarrow> document \<Rightarrow> file_system \<Rightarrow> (app_error + unit) \<times> file_system" where
  "persist fmt d fs =
     (case render fmt d of
        Inl e \<Rightarrow> (Inl e, fs)
      | Inr content \<Rightarrow>
          (case backup d fs of
             (Inl e, fs) \<Rightarrow> (Inl e, fs)
           | (Inr _, fs) \<Rightarrow>
               (case write_fault fs of
                  Some (e, left) \<Rightarrow> (Inl (FileError e), fs\<lparr>files := (files fs)(doc_config d := left)\<rparr>)
                | None \<Rightarrow> (Inr (), fs\<lparr>files := (files fs)(doc_config d \<mapsto> content)\<rparr>))))"

section \<open>The state of the application\<close>

text \<open>The stack of open menus has the current one last. Hooks are named by their path.\<close>

record menu_state =
  ms_path :: element_path
  ms_selected :: nat

record 'h app_state =
  document :: document
  nav_stack :: "menu_state list"
  needs_save :: bool
  element_hooks :: "(element_path \<times> 'h) list"

definition app_new :: "document \<Rightarrow> 'h app_state" where
  "app_new d = \<lparr>document = d, nav_stack = [\<lparr>ms_path = [], ms_selected = 0\<rparr>], needs_save = False, element_hooks = []\<rparr>"

abbreviation tree :: "'h app_state \<Rightarrow> element" where
  "tree st \<equiv> root_menu (doc_root (document st))"

definition set_tree :: "element \<Rightarrow> 'h app_state \<Rightarrow> 'h app_state" where
  "set_tree e st = st\<lparr>document := (document st)\<lparr>doc_root := (doc_root (document st))\<lparr>root_menu := e\<rparr>\<rparr>\<rparr>"

text \<open>\<open>expect\<close> of the last menu: \<open>None\<close> is the panic.\<close>

definition current_state :: "'h app_state \<Rightarrow> menu_state option" where
  "current_state st = (if nav_stack st = [] then None else Some (last (nav_stack st)))"

definition current_menu :: "'h app_state \<Rightarrow> element option option" where
  "current_menu st =
     map_option (\<lambda>m. case resolve_menu (tree st) (ms_path m) of Inr e \<Rightarrow> Some e | Inl _ \<Rightarrow> None) (current_state st)"

fun menu_children :: "element \<Rightarrow> element list" where
  "menu_children (Menu b cs st) = cs"
| "menu_children _ = []"

definition set_selected :: "nat \<Rightarrow> 'h app_state \<Rightarrow> 'h app_state option" where
  "set_selected i st =
     map_option (\<lambda>m. case m of
         Some menu \<Rightarrow> st\<lparr>nav_stack := butlast (nav_stack st) @
           [last (nav_stack st)\<lparr>ms_selected := min i (length (menu_children menu) - 1)\<rparr>]\<rparr>
       | None \<Rightarrow> st) (current_menu st)"

definition move_selection :: "i64 \<Rightarrow> 'h app_state \<Rightarrow> 'h app_state option" where
  "move_selection delta st =
     Option.bind (current_menu st) (\<lambda>m.
       case m of
         None \<Rightarrow> Some st
       | Some menu \<Rightarrow>
           if menu_children menu = [] then Some st
           else
             let next = max 0 (min (sint (word_of_nat (ms_selected (last (nav_stack st))) + delta))
               (int (length (menu_children menu)) - 1))
             in set_selected (nat next) st)"

definition clamp_selection :: "'h app_state \<Rightarrow> 'h app_state option" where
  "clamp_selection st = Option.bind (current_state st) (\<lambda>m. set_selected (ms_selected m) st)"

definition current :: "'h app_state \<Rightarrow> element option option" where
  "current st =
     map_option (\<lambda>m. Option.bind m (\<lambda>menu. get_at (menu_children menu) (ms_selected (last (nav_stack st))))) (current_menu st)"

definition selected_path :: "'h app_state \<Rightarrow> element_path option option" where
  "selected_path st = map_option (map_option (\<lambda>e. path_parse (key (base e)))) (current st)"

definition enter_menu :: "element_path \<Rightarrow> 'h app_state \<Rightarrow> 'h app_state" where
  "enter_menu p st = st\<lparr>nav_stack := nav_stack st @ [\<lparr>ms_path = p, ms_selected = 0\<rparr>]\<rparr>"

definition navigate_back :: "'h app_state \<Rightarrow> bool \<times> 'h app_state" where
  "navigate_back st =
     (if length (nav_stack st) \<le> 1 then (False, st) else (True, st\<lparr>nav_stack := butlast (nav_stack st)\<rparr>))"

definition mark_dirty :: "'h app_state \<Rightarrow> 'h app_state" where
  "mark_dirty st = st\<lparr>needs_save := True\<rparr>"

definition discard_changes :: "'h app_state \<Rightarrow> 'h app_state" where
  "discard_changes st = st\<lparr>needs_save := False\<rparr>"

definition missing_required_paths :: "'h app_state \<Rightarrow> string list" where
  "missing_required_paths st = collect_missing (tree st)"

definition validate_before_save :: "'h app_state \<Rightarrow> app_error + unit" where
  "validate_before_save st =
     (if missing_required_paths st = [] then Inr () else Inl (MissingRequired (missing_required_paths st)))"

definition persist_if_needed :: "formats \<Rightarrow> 'h app_state \<Rightarrow> file_system \<Rightarrow> (app_error + unit) \<times> file_system" where
  "persist_if_needed fmt st fs =
     (if needs_save st then
        (case validate_before_save st of
           Inl e \<Rightarrow> (Inl e, fs)
         | Inr _ \<Rightarrow> persist fmt (document st) fs)
      else (Inr (), fs))"

definition find_selected_hook :: "'h app_state \<Rightarrow> 'h option option" where
  "find_selected_hook st =
     map_option (\<lambda>p. Option.bind p (\<lambda>p. map_option snd (find (\<lambda>h. fst h = p) (element_hooks st)))) (selected_path st)"

section \<open>Reading and editing elements\<close>

definition element_at :: "'h app_state \<Rightarrow> element_path \<Rightarrow> app_error + element" where
  "element_at st p = (case resolve (tree st) p of Inl _ \<Rightarrow> Inl (MissingElement p) | Inr e \<Rightarrow> Inr e)"

definition read_item :: "item_kind \<Rightarrow> (item_type \<Rightarrow> 'a option) \<Rightarrow> element_path \<Rightarrow> 'h app_state \<Rightarrow> app_error + 'a" where
  "read_item kind f p st =
     rbind (element_at st p) (\<lambda>e.
       case (case e of Item b t \<Rightarrow> f t | _ \<Rightarrow> None) of
         Some x \<Rightarrow> Inr x
       | None \<Rightarrow> Inl (NotA kind p))"

definition get_string :: "element_path \<Rightarrow> 'h app_state \<Rightarrow> app_error + string option" where
  "get_string = read_item AString (\<lambda>t. case t of StringItem x d \<Rightarrow> Some x | _ \<Rightarrow> None)"

definition get_strings :: "element_path \<Rightarrow> 'h app_state \<Rightarrow> app_error + string list" where
  "get_strings = read_item AStringArray (\<lambda>t. case t of ArrayItem a \<Rightarrow> Some (ar_values a) | _ \<Rightarrow> None)"

definition get_integer :: "element_path \<Rightarrow> 'h app_state \<Rightarrow> app_error + i64 option" where
  "get_integer = read_item AnInteger (\<lambda>t. case t of IntegerItem x d \<Rightarrow> Some x | _ \<Rightarrow> None)"

definition get_number :: "element_path \<Rightarrow> 'h app_state \<Rightarrow> app_error + f64 option" where
  "get_number = read_item ANumber (\<lambda>t. case t of NumberItem x d \<Rightarrow> Some x | _ \<Rightarrow> None)"

definition get_bool :: "element_path \<Rightarrow> 'h app_state \<Rightarrow> app_error + bool option" where
  "get_bool = read_item ABool (\<lambda>t. case t of BooleanItem x d \<Rightarrow> Some (Some x) | _ \<Rightarrow> None)"

text \<open>A change through the reference at a path, which marks the document as changed if it succeeds.\<close>

definition with_element :: "(element \<Rightarrow> (app_error + unit) \<times> element) \<Rightarrow> element_path \<Rightarrow> 'h app_state \<Rightarrow> (app_error + unit) \<times> 'h app_state" where
  "with_element f p st =
     (case resolve_mut f (tree st) p of
        Inl _ \<Rightarrow> (Inl (MissingElement p), st)
      | Inr (Inl e, t) \<Rightarrow> (Inl e, set_tree t st)
      | Inr (Inr _, t) \<Rightarrow> (Inr (), mark_dirty (set_tree t st)))"

definition edit_item :: "item_kind \<Rightarrow> (item_type \<Rightarrow> (app_error + item_type) option) \<Rightarrow> element_path \<Rightarrow> 'h app_state \<Rightarrow> (app_error + unit) \<times> 'h app_state" where
  "edit_item kind f p =
     with_element (\<lambda>e.
       case (case e of Item b t \<Rightarrow> f t | _ \<Rightarrow> None) of
         Some (Inr t) \<Rightarrow> (Inr (), Item (base e) t)
       | Some (Inl err) \<Rightarrow> (Inl err, e)
       | None \<Rightarrow> (Inl (NotA kind p), e)) p"

definition toggle_bool :: "element_path \<Rightarrow> 'h app_state \<Rightarrow> (app_error + unit) \<times> 'h app_state" where
  "toggle_bool = edit_item ABool (\<lambda>t. case t of BooleanItem x d \<Rightarrow> Some (Inr (BooleanItem (\<not> x) d)) | _ \<Rightarrow> None)"

definition set_string :: "element_path \<Rightarrow> string \<Rightarrow> 'h app_state \<Rightarrow> (app_error + unit) \<times> 'h app_state" where
  "set_string p v = edit_item AString (\<lambda>t. case t of StringItem x d \<Rightarrow> Some (Inr (StringItem (Some v) d)) | _ \<Rightarrow> None) p"

definition set_string_array :: "element_path \<Rightarrow> string list \<Rightarrow> 'h app_state \<Rightarrow> (app_error + unit) \<times> 'h app_state" where
  "set_string_array p vs = edit_item AnArray (\<lambda>t. case t of ArrayItem a \<Rightarrow> Some (Inr (ArrayItem (a\<lparr>ar_values := vs\<rparr>))) | _ \<Rightarrow> None) p"

definition set_integer :: "element_path \<Rightarrow> i64 \<Rightarrow> 'h app_state \<Rightarrow> (app_error + unit) \<times> 'h app_state" where
  "set_integer p v = edit_item AnInteger (\<lambda>t. case t of IntegerItem x d \<Rightarrow> Some (Inr (IntegerItem (Some v) d)) | _ \<Rightarrow> None) p"

definition set_number :: "element_path \<Rightarrow> f64 \<Rightarrow> 'h app_state \<Rightarrow> (app_error + unit) \<times> 'h app_state" where
  "set_number p v = edit_item ANumber (\<lambda>t. case t of NumberItem x d \<Rightarrow> Some (Inr (NumberItem (Some v) d)) | _ \<Rightarrow> None) p"

definition set_enum_variant :: "element_path \<Rightarrow> string \<Rightarrow> 'h app_state \<Rightarrow> (app_error + unit) \<times> 'h app_state" where
  "set_enum_variant p v = edit_item AnEnum
     (\<lambda>t. case t of
        EnumItem e \<Rightarrow>
          (case position (\<lambda>c. c = v) (en_variants e) of
             Some i \<Rightarrow> Some (Inr (EnumItem (e\<lparr>en_value := Some i\<rparr>)))
           | None \<Rightarrow> Some (Inl (InvalidVariant v)))
      | _ \<Rightarrow> None) p"

definition set_oneof_index :: "element_path \<Rightarrow> nat \<Rightarrow> 'h app_state \<Rightarrow> (app_error + unit) \<times> 'h app_state" where
  "set_oneof_index p i =
     with_element (\<lambda>e.
       case e of
         OneOf b vs sel d \<Rightarrow> apfst (map_sum Schema id) (set_selected_index i b vs sel d)
       | _ \<Rightarrow> (Inl (NotAOneOf p), e)) p"

definition clear_optional :: "element_path \<Rightarrow> 'h app_state \<Rightarrow> (app_error + unit) \<times> 'h app_state" where
  "clear_optional p =
     with_element (\<lambda>e. if el_required (base e) then (Inl (RequiredElement p), e) else (Inr (), set_none e)) p"

definition set_optional :: "(element_path \<Rightarrow> 'v \<Rightarrow> 'h app_state \<Rightarrow> (app_error + unit) \<times> 'h app_state) \<Rightarrow>
    element_path \<Rightarrow> 'v option \<Rightarrow> 'h app_state \<Rightarrow> (app_error + unit) \<times> 'h app_state" where
  "set_optional put p v st = (case v of Some v \<Rightarrow> put p v st | None \<Rightarrow> clear_optional p st)"

definition set_optional_string :: "element_path \<Rightarrow> string option \<Rightarrow> 'h app_state \<Rightarrow> (app_error + unit) \<times> 'h app_state" where
  "set_optional_string = set_optional set_string"

definition set_optional_integer :: "element_path \<Rightarrow> i64 option \<Rightarrow> 'h app_state \<Rightarrow> (app_error + unit) \<times> 'h app_state" where
  "set_optional_integer = set_optional set_integer"

definition set_optional_number :: "element_path \<Rightarrow> f64 option \<Rightarrow> 'h app_state \<Rightarrow> (app_error + unit) \<times> 'h app_state" where
  "set_optional_number = set_optional set_number"

definition toggle_menu_set :: "element_path \<Rightarrow> 'h app_state \<Rightarrow> (app_error + unit) \<times> 'h app_state" where
  "toggle_menu_set p =
     with_element (\<lambda>e.
       case e of
         Menu b cs st \<Rightarrow> if el_required b then (Inl (RequiredMenu p), e) else (Inr (), Menu b cs (\<not> st))
       | _ \<Rightarrow> (Inl (NotAMenu p), e)) p"

definition element_status :: "element \<Rightarrow> string" where
  "element_status e =
     (if el_required (base e) then (if is_none e then ''required / NOT SET'' else ''required / set'')
      else if is_none e then ''optional / unset'' else ''optional / set'')"

fun element_kind_and_tag :: "element \<Rightarrow> string \<times> string" where
  "element_kind_and_tag (Menu b cs st) = (''Object'', ''OBJ'')"
| "element_kind_and_tag (OneOf b vs sel d) = (''OneOf'', ''ALT'')"
| "element_kind_and_tag (Item b t) =
     (case t of
        StringItem _ _ \<Rightarrow> (''String'', ''TXT'') | NumberItem _ _ \<Rightarrow> (''Number'', ''NUM'')
      | IntegerItem _ _ \<Rightarrow> (''Integer'', ''INT'') | BooleanItem _ _ \<Rightarrow> (''Boolean'', ''BOL'')
      | EnumItem _ \<Rightarrow> (''Enum'', ''ENU'') | ArrayItem _ \<Rightarrow> (''Array'', ''ARR''))"

section \<open>The older lookup\<close>

text \<open>\<open>Menu::get_by_field_path\<close> and \<open>OneOf::get_by_field_path\<close>.\<close>

function get_by_field_path :: "element \<Rightarrow> string list \<Rightarrow> element option" where
  "get_by_field_path e [] = None"
| "get_by_field_path (Menu b cs st) (k # ks) =
     (case find_child k cs of
        None \<Rightarrow> None
      | Some i \<Rightarrow>
          if ks = [] then Some (cs ! i)
          else (case cs ! i of Item _ _ \<Rightarrow> None | _ \<Rightarrow> get_by_field_path (cs ! i) ks))"
| "get_by_field_path (OneOf b vs sel d) (k # ks) =
     (case selected vs sel of
        None \<Rightarrow> None
      | Some v \<Rightarrow>
          (case v of
             Menu _ _ _ \<Rightarrow> get_by_field_path v (k # ks)
           | OneOf _ _ _ _ \<Rightarrow> get_by_field_path v ks
           | Item _ _ \<Rightarrow> if ks = [] then Some v else None))"
| "get_by_field_path (Item b t) (k # ks) = None"
  by pat_completeness auto

termination
  by (relation "measures [\<lambda>(e, p). length p, \<lambda>(e, p). size e]") (auto dest: selected_size)

text \<open>\<open>MenuRoot::get_by_key\<close>; the panic of a root that is not a menu is the outer \<open>None\<close>.\<close>

definition get_by_key :: "element \<Rightarrow> string \<Rightarrow> element option option" where
  "get_by_key root k =
     (if k = [] then Some (Some root)
      else case root of
          Menu b cs st \<Rightarrow> Some (get_by_field_path root (split_at (CHR ''.'') k))
        | _ \<Rightarrow> None)"

definition variant_display :: "element list \<Rightarrow> nat \<Rightarrow> string" where
  "variant_display vs i =
     (case get_at vs i of
        None \<Rightarrow> ''<Invalid Variant>''
      | Some (Item b (EnumItem e)) \<Rightarrow> (case en_variants e of [] \<Rightarrow> ''<Enum Item>'' | v # _ \<Rightarrow> v)
      | Some (Item b t) \<Rightarrow> ''<Simple Item>''
      | Some v \<Rightarrow> el_struct_name (base v))"

end
