(* ===== verification/Menu_Properties.thy ===== *)
theory Menu_Properties
  imports Menu_Data
begin

text \<open>
  What loading and saving keep: the shape of the tree and the validity of its indices, and that a
  saved tree reads back as itself.
\<close>

section \<open>Shape and indices\<close>

text \<open>The element with all values removed: what the conversion of a schema yields.\<close>

fun blank :: "element \<Rightarrow> element" where
  "blank (Menu b cs st) = Menu b (map blank cs) (el_required b)"
| "blank (OneOf b vs sel d) = OneOf b (map blank vs) None d"
| "blank (Item b t) = Item b (item_clear t)"

fun item_valid :: "item_type \<Rightarrow> bool" where
  "item_valid (EnumItem e) \<longleftrightarrow> is_none_or (en_value e) (\<lambda>i. i < length (en_variants e))"
| "item_valid _ \<longleftrightarrow> True"

fun valid :: "element \<Rightarrow> bool" where
  "valid (Menu b cs st) \<longleftrightarrow> list_all valid cs"
| "valid (OneOf b vs sel d) \<longleftrightarrow> list_all valid vs \<and> is_none_or sel (\<lambda>i. i < length vs)"
| "valid (Item b t) \<longleftrightarrow> item_valid t"

lemma base_blank [simp]: "base (blank e) = base e"
  by (cases e) simp_all

lemma item_clear_idem [simp]: "item_clear (item_clear t) = item_clear t"
  by (cases t) simp_all

lemma blank_idem [simp]: "blank (blank e) = blank e"
  by (induction e rule: blank.induct) (auto simp: comp_def)

lemma blank_base: "blank e' = blank e \<Longrightarrow> base e' = base e"
  by (metis base_blank)

lemma position_Some: "position p xs = Some i \<Longrightarrow> i < length xs \<and> p (xs ! i)"
  by (induction xs arbitrary: i) (auto split: if_splits)

lemma position_None: "position p xs = None \<longleftrightarrow> (\<forall>x\<in>set xs. \<not> p x)"
  by (induction xs) auto

lemma item_update_clear: "item_clear (snd (item_update ft v p t)) = item_clear t"
proof (cases t)
  case (EnumItem e)
  then show ?thesis by (cases v) (auto split: option.splits)
qed (auto split: json.splits option.splits sum.splits)

lemma item_update_valid: "item_valid t \<Longrightarrow> item_valid (snd (item_update ft v p t))"
proof (cases t)
  case (EnumItem e)
  then show "item_valid t \<Longrightarrow> ?thesis" by (cases v) (auto split: option.splits dest: position_Some)
qed (auto split: json.splits option.splits sum.splits)

lemma list_update_map_same: "i < length xs \<Longrightarrow> f c = f (xs ! i) \<Longrightarrow> map f (xs[i := c]) = map f xs"
  by (simp add: map_update) (metis list_update_id nth_map)

lemma update_shape:
  "update_element ft name v e = (r, e') \<Longrightarrow> blank e' = blank e \<and> (valid e \<longrightarrow> valid e')"
  "update_fields ft m cs st = (r, cs', st') \<Longrightarrow> map blank cs' = map blank cs \<and> (list_all valid cs \<longrightarrow> list_all valid cs')"
  "update_variants ft name v es = (i, es') \<Longrightarrow>
     map blank es' = map blank es \<and> (list_all valid es \<longrightarrow> list_all valid es') \<and> is_none_or i (\<lambda>i. i < length es)"
proof (induction ft name v e and ft m cs st and ft name v es arbitrary: r e' and r cs' st' and i es'
    rule: update_element_update_fields_update_variants.induct)
  case (1 ft name v b cs st)
  then show ?case by (cases v) (auto split: if_splits prod.splits)
next
  case (2 ft name v b vs sel d)
  obtain i vs' where u: "update_variants ft (fst (unwrap_variant v)) (snd (unwrap_variant v)) vs = (i, vs')"
    by (cases "update_variants ft (fst (unwrap_variant v)) (snd (unwrap_variant v)) vs")
  from 2(1) [OF u] 2(2) u show ?case
    using map_eq_imp_length_eq [of blank vs' blank vs] by (cases i) auto
next
  case (3 ft name v b t)
  then show ?case
    using item_update_clear [of ft v "key b" t] item_update_valid [of t ft v "key b"] by (auto split: prod.splits)
next
  case (4 ft cs st)
  then show ?case by simp
next
  case (5 ft k v m cs st)
  show ?case
  proof (cases "find_child k cs")
    case None
    with 5 show ?thesis by simp
  next
    case (Some i)
    then have i: "i < length cs" by (auto simp: find_child_def dest: position_Some)
    obtain x c where u: "update_element ft None v (cs ! i) = (x, c)" by (cases "update_element ft None v (cs ! i)")
    from "5.IH"(2) [OF Some u] i
    have c: "map blank (cs[i := c]) = map blank cs" "list_all valid cs \<longrightarrow> list_all valid (cs[i := c])"
      by (auto simp: list_update_map_same list_all_iff dest: set_update_subset_insert [THEN subsetD])
    show ?thesis
    proof (cases x)
      case (Inl e)
      with "5.prems" Some u c show ?thesis by auto
    next
      case (Inr y)
      with "5.prems" Some u have "update_fields ft m (cs[i := c]) True = (r, cs', st')" by simp
      from "5.IH"(3) [OF Some u [symmetric] Inr this] c show ?thesis by auto
    qed
  qed
next
  case (6 ft name v)
  then show ?case by auto
next
  case (7 ft name v e es)
  have suc: "is_none_or i (\<lambda>i. i < length es) \<Longrightarrow> is_none_or (map_option Suc i) (\<lambda>i. i < length (e # es))" for i
    by (cases i) auto
  from 7 show ?case by (auto split: prod.splits sum.splits intro: suc [simplified])
qed

text \<open>
  Loading keeps the tree well-formed. Whatever JSON value is loaded into an element, and whether
  loading succeeds or stops halfway with an error, the element keeps its shape (the fields, variants,
  types, defaults and metadata that the schema gave it), and if every selected index was within its
  list of variants before, it is after.
\<close>

theorem load_keeps_shape:
  assumes "update_element ft name v e = (r, e')"
  shows "blank e' = blank e \<and> (if valid e then valid e' else True)"
  using update_shape(1) [OF assms] by simp

definition demo_base :: "string \<Rightarrow> bool \<Rightarrow> string \<Rightarrow> element_base" where
  "demo_base path required name = element_base_new path None required name"

definition demo_menu :: "string option \<Rightarrow> nat option \<Rightarrow> element" where
  "demo_menu name mode =
     Menu (demo_base [] True ''Root'')
       [Item (demo_base ''name'' True ''string'') (StringItem name None),
        Item (demo_base ''mode'' False ''string'')
          (EnumItem \<lparr>en_variants = [''fast'', ''safe''], en_value = mode, en_default = None\<rparr>)] True"

lemma demo_menu_load:
  "update_element (\<lambda>_. []) None (Obj [(''mode'', Str ''safe''), (''name'', Bool True)]) (demo_menu None None) =
     (Inl (mismatch ''name'' ''string'' (Bool True)), demo_menu None (Some 1))"
  by code_simp

theorem load_keeps_shape_witness:
  "blank (demo_menu None (Some 1)) = blank (demo_menu None None) \<and> valid (demo_menu None (Some 1))"
proof -
  have "valid (demo_menu None None)" by code_simp
  with load_keeps_shape [OF demo_menu_load] show ?thesis by simp
qed

section \<open>Saving and loading\<close>

text \<open>The text of an array entry is written as a number, a truth value or itself; what is written
  reads back as the same JSON if floating-point numbers are printed so that they read back.\<close>

definition text_stable :: "float_text \<Rightarrow> string \<Rightarrow> bool" where
  "text_stable ft s \<longleftrightarrow>
     (case array_json s of
        Num (Float f) \<Rightarrow> i64_parse (ft f) = None \<and> f64_parse (ft f) = Some f
      | _ \<Rightarrow> True)"

fun item_savable :: "float_text \<Rightarrow> item_type \<Rightarrow> bool" where
  "item_savable ft (NumberItem x d) \<longleftrightarrow> is_none_or x f64_finite"
| "item_savable ft (EnumItem e) \<longleftrightarrow> is_none_or (en_value e) (\<lambda>i. i < length (en_variants e))"
| "item_savable ft (ArrayItem a) \<longleftrightarrow> list_all (text_stable ft) (ar_values a)"
| "item_savable ft _ \<longleftrightarrow> True"

text \<open>A variant that refuses a value leaves no trace, so a later one is selected.\<close>

fun refuses :: "float_text \<Rightarrow> element \<Rightarrow> element \<Rightarrow> bool" where
  "refuses ft (Menu b cs st) (Menu b' cs' st') \<longleftrightarrow> el_struct_name b' \<noteq> el_struct_name b"
| "refuses ft (Menu b cs st) (Item b' t') \<longleftrightarrow> True"
| "refuses ft (Item b t) (Menu b' cs' st') \<longleftrightarrow> True"
| "refuses ft (Item b t) (Item b' t') \<longleftrightarrow> \<not> is_ok (fst (item_update ft (item_json t) (key b') (item_clear t')))"
| "refuses ft _ _ \<longleftrightarrow> False"

text \<open>The value stored under an element's own key, and the elements that store nothing else.\<close>

definition saved :: "element \<Rightarrow> json" where
  "saved c =
     (case c of
        OneOf b vs sel d \<Rightarrow> (case as_json c of Obj m \<Rightarrow> (case m of [(k, v)] \<Rightarrow> v | _ \<Rightarrow> Obj m) | j \<Rightarrow> j)
      | _ \<Rightarrow> as_json c)"

definition plain :: "element \<Rightarrow> bool" where
  "plain c \<longleftrightarrow>
     (case c of
        OneOf b vs sel d \<Rightarrow>
          (case as_json c of Obj m \<Rightarrow> (case m of [(k, v)] \<Rightarrow> k = field_name b | _ \<Rightarrow> False) | _ \<Rightarrow> True)
      | _ \<Rightarrow> True)"

definition empty_object :: "json \<Rightarrow> bool" where
  "empty_object j \<longleftrightarrow> j = Obj []"

text \<open>The fields of a menu have names of their own, and a variant has the name of its alternative.\<close>

fun well_named :: "element \<Rightarrow> bool" where
  "well_named (Menu b cs st) \<longleftrightarrow> distinct (map (field_name \<circ> base) cs) \<and> list_all well_named cs"
| "well_named (OneOf b vs sel d) \<longleftrightarrow> list_all (\<lambda>v. well_named v \<and> field_name (base v) = field_name b) vs"
| "well_named (Item b t) \<longleftrightarrow> True"

lemma well_named_blank [simp]: "well_named (blank e) = well_named e"
  by (induction e rule: well_named.induct) (auto simp: list_all_iff comp_def)

text \<open>
  The trees whose values can be read back: an optional menu that is set has a field that is set; a
  selected variant has a value, is not itself an alternative, and no earlier variant accepts what it
  writes.
\<close>

function savable :: "float_text \<Rightarrow> element \<Rightarrow> bool" where
  "savable ft (Menu b cs st) \<longleftrightarrow>
     (\<forall>c\<in>set cs. \<not> is_none c \<longrightarrow> savable ft c \<and>
        (case c of Menu b' cs' st' \<Rightarrow> el_required b' \<or> \<not> empty_object (as_json c) | _ \<Rightarrow> True))"
| "savable ft (OneOf b vs sel d) \<longleftrightarrow>
     (case selected vs sel of
        None \<Rightarrow> False
      | Some v \<Rightarrow>
          (\<forall>v'\<in>set (take (the sel) vs). refuses ft v v') \<and>
          (case v of
             Menu mb cs st \<Rightarrow> savable ft v
           | OneOf _ _ _ _ \<Rightarrow> False
           | Item ib t \<Rightarrow> item_savable ft t \<and> \<not> item_is_none t))"
| "savable ft (Item b t) \<longleftrightarrow> item_savable ft t \<and> \<not> item_is_none t"
  by pat_completeness auto

termination
  by (relation "measure (size \<circ> snd)") (auto intro!: le_imp_less_Suc size_list_estimation' dest: selected_size)

section \<open>The entries of a saved menu\<close>

definition entries :: "element list \<Rightarrow> (string \<times> json) list" where
  "entries cs = map (\<lambda>c. (field_name (base c), saved c)) (filter (Not \<circ> is_none) cs)"

lemma entries_simps [simp]:
  "entries [] = []"
  "entries (c # cs) = (if is_none c then entries cs else (field_name (base c), saved c) # entries cs)"
  by (simp_all add: entries_def)

lemma fst_entries: "fst ` set (entries cs) \<subseteq> (field_name \<circ> base) ` set cs"
  by (auto simp: entries_def)

lemma insert_plain:
  "plain c \<Longrightarrow>
     (case c of
        OneOf b vs sel d \<Rightarrow>
          (case as_json c of
             Obj es \<Rightarrow> foldl (\<lambda>m (k, v). obj_insert k v m) m es
           | other \<Rightarrow> obj_insert (field_name b) other m)
      | _ \<Rightarrow> obj_insert (field_name (base c)) (as_json c) m) = obj_insert (field_name (base c)) (saved c) m"
  by (auto simp: plain_def saved_def split: element.splits json.splits list.splits prod.splits)

lemma fields_json_entries:
  "(\<And>c. c \<in> set cs \<Longrightarrow> \<not> is_none c \<Longrightarrow> plain c) \<Longrightarrow>
     fields_json cs m = foldl (\<lambda>m (k, v). obj_insert k v m) m (entries cs)"
proof (induction cs arbitrary: m)
  case (Cons c cs)
  then show ?case using insert_plain [of c m] by (simp del: as_json.simps)
qed simp

lemma foldl_obj_insert:
  "sorted_keys m \<Longrightarrow> distinct (map fst es) \<Longrightarrow>
     sorted_keys (foldl (\<lambda>m (k, v). obj_insert k v m) m es) \<and>
     map_of (foldl (\<lambda>m (k, v). obj_insert k v m) m es) = map_of m ++ map_of es"
proof (induction es arbitrary: m)
  case (Cons e es)
  obtain k v where e: "e = (k, v)" by (cases e)
  with Cons.prems(2) have "k \<notin> dom (map_of es)" by (simp add: dom_map_of_conv_image_fst)
  then have "map_of (obj_insert k v m) ++ map_of es = (map_of m ++ map_of es)(k \<mapsto> v)"
    by (simp only: map_of_obj_insert [OF Cons.prems(1)] map_add_upd_left not_False_eq_True)
  then have "map_of (obj_insert k v m) ++ map_of es = map_of m ++ map_of (e # es)"
    using e by (simp only: map_of.simps map_add_upd fst_conv snd_conv)
  with Cons.IH [OF sorted_keys_insert [OF Cons.prems(1)], of k v] Cons.prems(2) e show ?case
    by (simp only: foldl.simps prod.case list.map distinct.simps simp_thms)
qed simp

lemma distinct_entries: "distinct (map (field_name \<circ> base) cs) \<Longrightarrow> distinct (map fst (entries cs))"
  by (induction cs) (use fst_entries in auto)

lemma sorted_keys_Nil [simp]: "sorted_keys []"
  by (simp add: sorted_keys_def)

lemma fields_json_map:
  assumes "distinct (map (field_name \<circ> base) cs)" "\<And>c. c \<in> set cs \<Longrightarrow> \<not> is_none c \<Longrightarrow> plain c"
  shows "sorted_keys (fields_json cs [])" "map_of (fields_json cs []) = map_of (entries cs)"
  using foldl_obj_insert [OF sorted_keys_Nil distinct_entries [OF assms(1)]] fields_json_entries [OF assms(2)]
  by auto

section \<open>Loading the fields of a menu\<close>

lemma update_base [simp]: "base (snd (update_element ft name v e)) = base e"
  using update_shape(1) [of ft name v e] blank_base by (metis prod.collapse)

lemma find_child_Some:
  assumes "distinct (map (field_name \<circ> base) cs)" "i < length cs" "field_name (base (cs ! i)) = k"
  shows "find_child k cs = Some i"
proof (cases "find_child k cs")
  case None
  with assms show ?thesis using nth_mem [OF assms(2)] by (auto simp: find_child_def position_None)
next
  case (Some j)
  then have "j < length cs" "field_name (base (cs ! j)) = k" by (auto simp: find_child_def dest: position_Some)
  with assms nth_eq_iff_index_eq [OF assms(1), of j i] have "j = i" by simp
  with Some show ?thesis by simp
qed

definition load_child :: "float_text \<Rightarrow> (string \<Rightarrow> json option) \<Rightarrow> element \<Rightarrow> element" where
  "load_child ft f c =
     (case f (field_name (base c)) of None \<Rightarrow> c | Some v \<Rightarrow> snd (update_element ft None v c))"

lemma update_fields_all:
  "distinct (map (field_name \<circ> base) cs) \<Longrightarrow> distinct (map fst m) \<Longrightarrow>
   (\<And>k v c. (k, v) \<in> set m \<Longrightarrow> c \<in> set cs \<Longrightarrow> field_name (base c) = k \<Longrightarrow> is_ok (fst (update_element ft None v c))) \<Longrightarrow>
     update_fields ft m cs st = (Inr (), map (load_child ft (map_of m)) cs, st \<or> m \<noteq> [])"
proof (induction m arbitrary: cs st)
  case Nil
  have "map (load_child ft (map_of [])) cs = cs" by (rule map_idI) (simp add: load_child_def)
  then show ?case by simp
next
  case (Cons e m)
  obtain k v where e: "e = (k, v)" by (cases e)
  have fresh: "map_of m k = None" using Cons.prems(2) e by (simp add: map_of_eq_None_iff)
  define f where "f = map_of (e # m)"
  have f: "f k' = (if k' = k then Some v else map_of m k')" for k' by (simp add: f_def e)
  have "update_fields ft (e # m) cs st = (Inr (), map (load_child ft f) cs, True)"
  proof (cases "find_child k cs")
    case None
    then have no: "field_name (base c) \<noteq> k" if "c \<in> set cs" for c
      using that by (auto simp: find_child_def position_None)
    then have "map (load_child ft f) cs = map (load_child ft (map_of m)) cs"
      by (intro map_cong refl) (simp add: load_child_def f)
    moreover have "update_fields ft m cs True = (Inr (), map (load_child ft (map_of m)) cs, True \<or> m \<noteq> [])"
      using Cons.prems by (intro Cons.IH) auto
    ultimately show ?thesis using None e by simp
  next
    case (Some i)
    then have i: "i < length cs" "field_name (base (cs ! i)) = k"
      by (auto simp: find_child_def dest: position_Some)
    from Cons.prems(3) [of k v "cs ! i"] i e have "is_ok (fst (update_element ft None v (cs ! i)))" by simp
    then obtain c where c: "update_element ft None v (cs ! i) = (Inr (), c)"
      by (cases "update_element ft None v (cs ! i)") (auto simp: is_ok_iff)
    have b: "base c = base (cs ! i)" using update_base [of ft None v "cs ! i"] c by simp
    let ?cs = "cs[i := c]"
    have names: "map (field_name \<circ> base) ?cs = map (field_name \<circ> base) cs"
      using i b by (intro list_update_map_same) auto
    have other: "field_name (base (cs ! j)) \<noteq> k" if "j < length cs" "j \<noteq> i" for j
      using find_child_Some [OF Cons.prems(1) that(1)] Some that by auto
    have ok: "is_ok (fst (update_element ft None v' c'))"
      if "(k', v') \<in> set m" "c' \<in> set ?cs" "field_name (base c') = k'" for k' v' c'
    proof -
      have "k' \<noteq> k" using that(1) Cons.prems(2) e by force
      with that b i have "c' \<in> set cs" by (auto dest: set_update_subset_insert [THEN subsetD])
      with that Cons.prems(3) e show ?thesis by auto
    qed
    have "update_fields ft m ?cs True = (Inr (), map (load_child ft (map_of m)) ?cs, True \<or> m \<noteq> [])"
    proof (rule Cons.IH)
      show "distinct (map (field_name \<circ> base) ?cs)" using Cons.prems(1) names by (simp only:)
    qed (use Cons.prems(2) e ok in auto)
    moreover have "map (load_child ft (map_of m)) ?cs = map (load_child ft f) cs"
    proof (rule nth_equalityI)
      fix j assume "j < length (map (load_child ft (map_of m)) ?cs)"
      then have j: "j < length cs" by simp
      show "map (load_child ft (map_of m)) ?cs ! j = map (load_child ft f) cs ! j"
      proof (cases "j = i")
        case True
        with j c b i f fresh show ?thesis by (simp add: load_child_def)
      next
        case False
        with j other [OF j False] f show ?thesis by (simp add: load_child_def)
      qed
    qed simp
    ultimately show ?thesis using Some e c by simp
  qed
  then show ?case by (simp only: f_def list.distinct simp_thms)
qed
section \<open>Loading an item\<close>

lemma sint_unat: "0 \<le> sint (i :: i64) \<Longrightarrow> sint i = int (unat i)"
proof -
  assume "0 \<le> sint i"
  then have "int (unat i) < int (2 ^ 63)" using sint_nonneg_unat [of i] by linarith
  then have "uint i < 2 ^ 63" by simp
  moreover have "sint i = signed_take_bit 63 (uint i)" by (simp add: sint_uint)
  ultimately have "sint i = uint i" using uint_ge_0 [of i] by (simp add: signed_take_bit_int_eq_self)
  then show ?thesis by simp
qed

lemma number_str_i64: "number_str ft (number_of_i64 i) = int_str (sint i)"
  using sint_unat [of i] by (auto simp: number_of_i64_def int_str_def)

definition array_text :: "float_text \<Rightarrow> json \<Rightarrow> string option" where
  "array_text ft x =
     (case x of Str s \<Rightarrow> Some s | Num n \<Rightarrow> Some (number_str ft n) | Bool b \<Rightarrow> Some (bool_str b) | _ \<Rightarrow> None)"

lemma array_values_Cons:
  "array_values ft p (x # xs) =
     (case array_text ft x of
        None \<Rightarrow> Inl (TypeMismatch p (Literal ''string, number, or boolean'') (Shown x))
      | Some s \<Rightarrow> rbind (array_values ft p xs) (\<lambda>ss. Inr (s # ss)))"
  by (simp add: array_text_def)

lemma array_json_int: "array_json (int_str (sint i)) = Num (number_of_i64 i)"
  by (simp add: array_json_def i64_parse_str)

lemma array_json_stable:
  assumes "text_stable ft s"
  shows "\<exists>s'. array_text ft (array_json s) = Some s' \<and> array_json s' = array_json s"
proof (cases "i64_parse s")
  case (Some i)
  then have "array_json s = Num (number_of_i64 i)" by (simp add: array_json_def)
  then show ?thesis by (simp add: array_text_def number_str_i64 array_json_int)
next
  case None
  show ?thesis
  proof (cases "f64_parse s")
    case (Some f)
    with None have j: "array_json s = float_json f" by (simp add: array_json_def)
    show ?thesis
    proof (cases "f64_finite f")
      case True
      with j have "array_json s = Num (Float f)" by (simp add: float_json_def number_of_f64_def)
      moreover from this assms have "array_json (ft f) = float_json f" by (simp add: text_stable_def array_json_def)
      ultimately show ?thesis using j by (simp add: array_text_def)
    next
      case False
      with j have "array_json s = Num (number_of_i64 0)" by (simp add: float_json_def number_of_f64_def)
      then show ?thesis using array_json_int [of 0] by (simp add: array_text_def number_str_i64)
    qed
  next
    case none: None
    show ?thesis
    proof (cases "bool_parse s")
      case (Some b)
      then have "s = bool_str b" by (auto simp: bool_parse_def bool_str_def split: if_splits)
      with None none Some show ?thesis by (simp add: array_json_def array_text_def)
    next
      case no: None
      with None none show ?thesis by (simp add: array_json_def array_text_def)
    qed
  qed
qed

text \<open>
  The text of an array entry after it has been saved and loaded: that of the value written for it.
\<close>

definition rewritten :: "float_text \<Rightarrow> string \<Rightarrow> string" where
  "rewritten ft s = unwrap_or (array_text ft (array_json s)) s"

lemma rewritten_stable:
  "text_stable ft s \<Longrightarrow>
     array_text ft (array_json s) = Some (rewritten ft s) \<and> array_json (rewritten ft s) = array_json s"
  using array_json_stable [of ft s] by (auto simp: rewritten_def)

lemma array_load:
  "list_all (text_stable ft) ss \<Longrightarrow>
     array_values ft p (map array_json ss) = Inr (map (rewritten ft) ss) \<and>
     map array_json (map (rewritten ft) ss) = map array_json ss"
proof (induction ss)
  case (Cons s ss)
  then have ss: "array_values ft p (map array_json ss) = Inr (map (rewritten ft) ss)"
    "map array_json (map (rewritten ft) ss) = map array_json ss" by auto
  from Cons.prems rewritten_stable [of ft s] have
    s: "array_text ft (array_json s) = Some (rewritten ft s)" "array_json (rewritten ft s) = array_json s" by auto
  have "array_values ft p (map array_json (s # ss)) = Inr (map (rewritten ft) (s # ss))"
    using s ss by (simp only: list.map array_values_Cons option.case rbind_simps)
  with s(2) ss(2) show ?case by simp
qed simp

text \<open>
  What an item is after it has been saved and loaded: an enumeration points to the first variant of
  its text, the entries of an array have been rewritten, and everything else is as it was.
\<close>

fun item_kept :: "float_text \<Rightarrow> item_type \<Rightarrow> item_type" where
  "item_kept ft (EnumItem e) =
     EnumItem (e\<lparr>en_value := Option.bind (value_str e) (\<lambda>s. position (\<lambda>v. v = s) (en_variants e))\<rparr>)"
| "item_kept ft (ArrayItem a) = ArrayItem (a\<lparr>ar_values := map (rewritten ft) (ar_values a)\<rparr>)"
| "item_kept ft t = t"

lemma position_exists: "x \<in> set xs \<Longrightarrow> \<exists>i. position (\<lambda>v. v = x) xs = Some i \<and> i < length xs \<and> xs ! i = x"
  using position_None [of "\<lambda>v. v = x" xs] position_Some [of "\<lambda>v. v = x" xs]
  by (cases "position (\<lambda>v. v = x) xs") auto

lemma item_load:
  assumes "item_savable ft t" "\<not> item_is_none t"
  shows "item_update ft (item_json t) p (item_clear t) = (Inr (), item_kept ft t) \<and>
    item_json (item_kept ft t) = item_json t"
proof (cases t)
  case (NumberItem x d)
  with assms show ?thesis
    by (cases x) (auto simp: float_json_def number_of_f64_def)
next
  case (IntegerItem x d)
  with assms show ?thesis by (cases x) (auto simp: as_i64_number)
next
  case (EnumItem e)
  with assms obtain i where i: "en_value e = Some i" "i < length (en_variants e)" by (cases "en_value e") auto
  then have "en_variants e ! i \<in> set (en_variants e)" by simp
  from position_exists [OF this] obtain j where
    "position (\<lambda>v. v = en_variants e ! i) (en_variants e) = Some j" "j < length (en_variants e)"
    "en_variants e ! j = en_variants e ! i" by blast
  with EnumItem i show ?thesis by (simp add: value_str_def get_at_def)
next
  case (ArrayItem a)
  with assms array_load [of ft "ar_values a" p] show ?thesis by (auto simp: comp_def)
qed (use assms in auto)

section \<open>Loading what was saved\<close>

lemma selected_mem: "selected vs sel = Some v \<Longrightarrow> v \<in> set vs"
  by (auto simp: selected_def get_at_def split: Option.bind_splits if_splits)

text \<open>
  What a tree is after it has been saved and loaded into the blank tree: the values in use are
  there, as items are kept; what is not in use, an unset element or a variant that is not selected,
  is blank; a menu is set when it is required or has a field that is set.
\<close>

function kept :: "float_text \<Rightarrow> element \<Rightarrow> element" where
  "kept ft (Menu b cs st) =
     Menu b (map (\<lambda>c. if is_none c then blank c else kept ft c) cs)
       (el_required b \<or> (\<exists>c\<in>set cs. \<not> is_none c))"
| "kept ft (OneOf b vs sel d) =
     OneOf b (case selected vs sel of
         None \<Rightarrow> map blank vs
       | Some v \<Rightarrow> (map blank vs)[the sel := kept ft v]) sel d"
| "kept ft (Item b t) = Item b (item_kept ft t)"
  by pat_completeness auto

termination
  by (relation "measure (size \<circ> snd)") (auto intro!: le_imp_less_Suc size_list_estimation' dest: selected_mem)

declare kept.simps [simp del]

lemma item_refused: "fst (item_update ft v p t) = Inl e \<Longrightarrow> item_update ft v p t = (Inl e, t)"
proof (cases t)
  case (EnumItem e')
  then show "fst (item_update ft v p t) = Inl e \<Longrightarrow> ?thesis" by (cases v) (auto split: option.splits if_splits)
qed (auto split: json.splits option.splits sum.splits)

lemma item_refuses_object: "\<exists>e. item_update ft (Obj m) p t = (Inl e, t)"
  by (cases t) auto

lemma item_loaded: "item_update ft v p t = (Inr (), t') \<Longrightarrow> \<not> item_is_none t'"
proof (cases t)
  case (EnumItem e)
  then show "item_update ft v p t = (Inr (), t') \<Longrightarrow> ?thesis" by (cases v) (auto split: option.splits if_splits)
qed (auto split: json.splits option.splits sum.splits)

lemma item_json_no_object: "item_json t \<noteq> Obj m"
  by (cases t) (auto simp: float_json_def split: option.splits)

lemma update_variants_at:
  "i < length es \<Longrightarrow> (\<And>v. v \<in> set (take i es) \<Longrightarrow> \<exists>e. update_element ft name x v = (Inl e, v)) \<Longrightarrow>
     update_element ft name x (es ! i) = (Inr (), e') \<Longrightarrow> update_variants ft name x es = (Some i, es[i := e'])"
proof (induction es arbitrary: i)
  case (Cons e es)
  show ?case
  proof (cases i)
    case 0
    with Cons.prems(3) show ?thesis by simp
  next
    case (Suc j)
    with Cons.prems(2) have "\<exists>err. update_element ft name x e = (Inl err, e)" by simp
    moreover have "update_variants ft name x es = (Some j, es[j := e'])"
      using Cons.prems Suc by (intro Cons.IH) auto
    ultimately show ?thesis using Suc by auto
  qed
qed simp

lemma update_fields_set: "update_fields ft m cs st = (Inr (), cs', st') \<Longrightarrow> st' = (st \<or> m \<noteq> [])"
proof (induction m arbitrary: cs st)
  case (Cons e m)
  then show ?case by (cases e) (auto split: option.splits prod.splits sum.splits)
qed simp

lemma loaded_set:
  assumes "update_element ft None v e = (Inr (), e')"
    and "case e of Menu b cs st \<Rightarrow> el_required b \<or> \<not> empty_object v | _ \<Rightarrow> True"
  shows "\<not> is_none e'"
proof (cases e)
  case (Menu b cs st)
  with assms show ?thesis
    by (cases v) (auto simp: empty_object_def split: prod.splits dest: update_fields_set)
next
  case (OneOf b vs sel d)
  with assms show ?thesis by (auto split: prod.splits option.splits)
next
  case (Item b t)
  with assms show ?thesis by (auto split: prod.splits dest: item_loaded)
qed

lemma menu_saved: "saved (Menu b cs st) = Obj (fields_json cs [])"
  by (simp add: saved_def)

lemma savable_plain: "savable ft e \<Longrightarrow> well_named e \<Longrightarrow> plain e"
proof (cases e)
  case (OneOf b vs sel d)
  assume s: "savable ft e" "well_named e"
  with OneOf obtain v where v: "selected vs sel = Some v" by (auto split: option.splits)
  show "plain e"
  proof (cases v)
    case (Menu mb cs st)
    with s(2) OneOf selected_mem [OF v] v show ?thesis by (auto simp: plain_def list_all_iff)
  next
    case (Item ib t)
    with OneOf v item_json_no_object [of t] show ?thesis by (simp add: plain_def split: json.splits)
  next
    case vv: (OneOf b' vs' sel' d')
    with s OneOf v show ?thesis by simp
  qed
qed (simp_all add: plain_def)

lemma saved_cong: "blank e' = blank e \<Longrightarrow> as_json e' = as_json e \<Longrightarrow> saved e' = saved e"
  by (cases e; cases e') (simp_all add: saved_def)

lemma plain_cong: "blank e' = blank e \<Longrightarrow> as_json e' = as_json e \<Longrightarrow> plain e' = plain e"
  by (cases e; cases e') (simp_all add: plain_def)

lemma entries_cong:
  "(\<And>c. c \<in> set cs \<Longrightarrow> is_none (f c) = is_none c \<and>
     (\<not> is_none c \<longrightarrow> base (f c) = base c \<and> saved (f c) = saved c)) \<Longrightarrow> entries (map f cs) = entries cs"
  by (induction cs) auto

text \<open>The fields of a menu, loaded one by one from the saved object, save the same object.\<close>

lemma menu_load:
  assumes d: "distinct (map (field_name \<circ> base) cs)"
    and p: "\<And>c. c \<in> set cs \<Longrightarrow> \<not> is_none c \<Longrightarrow> plain c"
    and l: "\<And>c. c \<in> set cs \<Longrightarrow> \<not> is_none c \<Longrightarrow>
      update_element ft None (saved c) (blank c) = (Inr (), kept ft c) \<and> as_json (kept ft c) = as_json c \<and>
      \<not> is_none (kept ft c)"
  shows "update_fields ft (fields_json cs []) (map blank cs) st =
      (Inr (), map (\<lambda>c. if is_none c then blank c else kept ft c) cs, st \<or> (\<exists>c\<in>set cs. \<not> is_none c)) \<and>
    fields_json (map (\<lambda>c. if is_none c then blank c else kept ft c) cs) [] = fields_json cs []"
proof -
  let ?m = "fields_json cs []"
  have sorted: "sorted_keys ?m" and look: "map_of ?m = map_of (entries cs)"
    using fields_json_map [OF d p] by blast+
  have names: "map (field_name \<circ> base) (map blank cs) = map (field_name \<circ> base) cs" by simp
  have entry: "map_of ?m (field_name (base c)) = (if is_none c then None else Some (saved c))" if c: "c \<in> set cs" for c
  proof (cases "is_none c")
    case True
    have "c' = c" if "c' \<in> set cs" "field_name (base c') = field_name (base c)" for c'
      using d c that by (auto simp: distinct_map dest: inj_onD [of "field_name \<circ> base" _ c' c])
    with True have "field_name (base c) \<notin> fst ` set (entries cs)" by (auto simp: entries_def)
    with look True show ?thesis by (simp add: map_of_eq_None_iff)
  next
    case False
    with c have "(field_name (base c), saved c) \<in> set (entries cs)" by (auto simp: entries_def)
    with look False show ?thesis using distinct_entries [OF d] by simp
  qed
  let ?f = "\<lambda>c. load_child ft (map_of ?m) (blank c)"
  have loaded: "if is_none c then ?f c = blank c
      else update_element ft None (saved c) (blank c) = (Inr (), ?f c) \<and> as_json (?f c) = as_json c \<and> \<not> is_none (?f c)"
    if "c \<in> set cs" for c
    using l [OF that] entry [OF that] by (auto simp: load_child_def)
  have "update_fields ft ?m (map blank cs) st = (Inr (), map (load_child ft (map_of ?m)) (map blank cs), st \<or> ?m \<noteq> [])"
  proof (rule update_fields_all)
    show "distinct (map (field_name \<circ> base) (map blank cs))" using d by (simp add: comp_def)
    show "distinct (map fst ?m)" using sorted by (rule sorted_keys_distinct)
    fix k v c' assume a: "(k, v) \<in> set ?m" "c' \<in> set (map blank cs)" "field_name (base c') = k"
    then obtain c where c: "c \<in> set cs" "c' = blank c" by auto
    from a(1) sorted_keys_distinct [OF sorted] have "map_of ?m k = Some v" by simp
    with entry [OF c(1)] a(3) c(2) have "\<not> is_none c" "v = saved c" by (auto split: if_splits)
    with loaded [OF c(1)] c(2) show "is_ok (fst (update_element ft None v c'))" by simp
  qed
  moreover have "fields_json (map ?f cs) [] = ?m"
  proof -
    have shape: "blank (?f c) = blank c" if "c \<in> set cs" for c
      using loaded [OF that] update_shape(1) [of ft None "saved c" "blank c"] by (auto split: if_splits)
    have none: "is_none (blank c)" if "is_none c" for c
      using that by (cases c; cases rule: item_is_none.cases) (auto elim!: item_is_none.elims)
    have "entries (map ?f cs) = entries cs"
    proof (rule entries_cong)
      fix c assume c: "c \<in> set cs"
      show "is_none (?f c) = is_none c \<and> (\<not> is_none c \<longrightarrow> base (?f c) = base c \<and> saved (?f c) = saved c)"
        using loaded [OF c] none [of c] saved_cong [OF shape [OF c]] blank_base [OF shape [OF c]]
        by (cases "is_none c") simp_all
    qed
    moreover have "plain c'" if "c' \<in> set (map ?f cs)" "\<not> is_none c'" for c'
    proof -
      from that(1) obtain c where c: "c \<in> set cs" "c' = ?f c" by auto
      with that(2) loaded [OF c(1)] none [of c] have "\<not> is_none c" by (cases "is_none c") simp_all
      with c p [OF c(1)] loaded [OF c(1)] plain_cong [OF shape [OF c(1)]] show ?thesis by simp
    qed
    ultimately show ?thesis using fields_json_entries [of cs "[]"] fields_json_entries [of "map ?f cs" "[]"] p by simp
  qed
  moreover have "map ?f cs = map (\<lambda>c. if is_none c then blank c else kept ft c) cs"
    using l entry by (auto simp: load_child_def)
  moreover have "?m \<noteq> [] \<longleftrightarrow> (\<exists>c\<in>set cs. \<not> is_none c)"
  proof -
    have "?m = [] \<longleftrightarrow> entries cs = []" using look by (metis map_of_eq_empty_iff)
    then show ?thesis by (auto simp: entries_def filter_empty_conv)
  qed
  ultimately show ?thesis by (simp add: comp_def)
qed

lemma refused:
  assumes "refuses ft v v'" "as_json v = j"
  shows "\<exists>e. update_element ft (case v of Menu b cs st \<Rightarrow> Some (el_struct_name b) | _ \<Rightarrow> None) j (blank v') = (Inl e, blank v')"
proof (cases v)
  case v: (Menu b cs st)
  with assms obtain m where m: "j = Obj m" by auto
  show ?thesis
  proof (cases v')
    case (Item b' t')
    with item_refuses_object [of ft m "key b'" "item_clear t'"] v m show ?thesis by auto
  qed (use assms v in auto)
next
  case v: (Item b t)
  with assms have j: "j = item_json t" by simp
  show ?thesis
  proof (cases v')
    case (Menu b' cs' st')
    with v j item_json_no_object [of t] show ?thesis by (auto split: json.splits)
  next
    case (Item b' t')
    with assms(1) v obtain e where "fst (item_update ft (item_json t) (key b') (item_clear t')) = Inl e"
      by (auto simp: is_ok_def split: sum.splits)
    with item_refused [OF this] v j Item show ?thesis by auto
  qed (use assms v in auto)
qed (use assms in auto)

lemma load_saved:
  "savable ft e \<Longrightarrow> well_named e \<Longrightarrow>
     update_element ft None (saved e) (blank e) = (Inr (), kept ft e) \<and> as_json (kept ft e) = as_json e"
proof (induction ft e rule: savable.induct)
  case (1 ft b cs st)
  have l: "update_element ft None (saved c) (blank c) = (Inr (), kept ft c) \<and> as_json (kept ft c) = as_json c \<and>
      \<not> is_none (kept ft c)"
    if c: "c \<in> set cs" "\<not> is_none c" for c
  proof -
    from "1.prems" c have s: "savable ft c" "well_named c"
      "case c of Menu b' cs' st' \<Rightarrow> el_required b' \<or> \<not> empty_object (as_json c) | _ \<Rightarrow> True"
      by (auto simp: list_all_iff)
    from "1.IH" [OF c s(1,2)] have
      c': "update_element ft None (saved c) (blank c) = (Inr (), kept ft c)" "as_json (kept ft c) = as_json c"
      by blast+
    have "\<not> is_none (kept ft c)"
      using s(3) by (intro loaded_set [OF c'(1)]) (cases c; simp add: saved_def)
    with c' show ?thesis by blast
  qed
  have "distinct (map (field_name \<circ> base) cs)" "\<And>c. c \<in> set cs \<Longrightarrow> \<not> is_none c \<Longrightarrow> plain c"
    using "1.prems" savable_plain by (auto simp: list_all_iff)
  from menu_load [OF this l] show ?case by (simp add: saved_def kept.simps)
next
  case (2 ft b vs sel d)
  then obtain i v where i: "sel = Some i" "i < length vs" "v = vs ! i" "selected vs sel = Some v"
    by (auto simp: selected_def get_at_def split: option.splits Option.bind_splits if_splits)
  have w: "well_named v" using "2.prems"(2) selected_mem [OF i(4)] by (simp add: list_all_iff)
  from "2.prems"(1) i(1,4) have r: "\<And>v'. v' \<in> set (take i vs) \<Longrightarrow> refuses ft v v'" by simp
  let ?name = "case v of Menu b cs st \<Rightarrow> Some (el_struct_name b) | _ \<Rightarrow> None"
  have variants: "update_variants ft ?name (as_json v) (map blank vs) = (Some i, (map blank vs)[i := kept ft v])"
    if "update_element ft ?name (as_json v) (blank v) = (Inr (), kept ft v)"
    using i(2,3) that refused [OF r refl] by (intro update_variants_at) (auto simp: take_map)
  have sel': "selected ((map blank vs)[i := kept ft v]) (Some i) = Some (kept ft v)"
    using i(2) by (simp add: selected_def get_at_def)
  have result: "kept ft (OneOf b vs sel d) = OneOf b ((map blank vs)[i := kept ft v]) (Some i) d"
    using i by (simp add: kept.simps)
  show ?case
  proof (cases v)
    case (Menu mb cs st)
    from "2.prems"(1) i(4) Menu have "savable ft v" by simp
    with "2.IH" [OF i(4) Menu] w have
      v': "update_element ft None (saved v) (blank v) = (Inr (), kept ft v)" "as_json (kept ft v) = as_json v" by auto
    then have "update_element ft ?name (as_json v) (blank v) = (Inr (), kept ft v)" using Menu by (simp add: saved_def)
    note u = variants [OF this]
    obtain cs1 st1 where m: "kept ft v = Menu mb cs1 st1"
      using Menu by (simp add: kept.simps)
    have v2: "as_json (Menu mb cs1 st1) = as_json (Menu mb cs st)" using v'(2) m Menu by simp
    have "as_json (OneOf b vs' (Some i) d) = as_json (OneOf b vs sel d)"
      if "selected vs' (Some i) = Some (Menu mb cs1 st1)" for vs'
      by (simp only: as_json.simps(2) that i(4) Menu option.case element.case v2)
    from this [OF sel' [unfolded m]] have
      "as_json (OneOf b ((map blank vs)[i := kept ft v]) (Some i) d) = as_json (OneOf b vs sel d)"
      unfolding m .
    moreover have "saved (OneOf b vs sel d) = Obj [(el_struct_name mb, as_json v)]"
      using i(4) Menu by (simp add: saved_def)
    ultimately show ?thesis using u Menu unfolding result by (simp add: unwrap_variant_def)
  next
    case (Item ib t)
    from "2.prems"(1) i(4) Item have t: "item_savable ft t" "\<not> item_is_none t" by auto
    from item_load [OF this, of "key ib"] have
      t': "item_update ft (item_json t) (key ib) (item_clear t) = (Inr (), item_kept ft t)"
        "item_json (item_kept ft t) = item_json t" by blast+
    with Item have "update_element ft ?name (as_json v) (blank v) = (Inr (), kept ft v)" by (simp add: kept.simps)
    note u = variants [OF this]
    have "saved (OneOf b vs sel d) = item_json t" "unwrap_variant (item_json t) = (None, item_json t)"
      using i(4) Item item_json_no_object [of t] by (auto simp: saved_def unwrap_variant_def split: json.splits)
    moreover have "kept ft v = Item ib (item_kept ft t)" using Item by (simp add: kept.simps)
    ultimately show ?thesis using u Item t'(2) i(4) sel' unfolding result by simp
  next
    case (OneOf b' vs' sel' d')
    with "2.prems" i(4) show ?thesis by simp
  qed
next
  case (3 ft b t)
  then have "item_savable ft t" "\<not> item_is_none t" by auto
  from item_load [OF this, of "key b"] show ?case by (simp add: saved_def kept.simps)
qed

text \<open>What the editor saves it can load again.\<close>

lemma save_load:
  assumes "savable ft (Menu b cs st)" "well_named (Menu b cs st)"
  shows "update_element ft None (as_json (Menu b cs st)) (blank (Menu b cs st)) = (Inr (), kept ft (Menu b cs st)) \<and>
    as_json (kept ft (Menu b cs st)) = as_json (Menu b cs st) \<and>
    blank (kept ft (Menu b cs st)) = blank (Menu b cs st)"
proof -
  from load_saved [OF assms] have
    e': "update_element ft None (as_json (Menu b cs st)) (blank (Menu b cs st)) = (Inr (), kept ft (Menu b cs st))"
    "as_json (kept ft (Menu b cs st)) = as_json (Menu b cs st)"
    unfolding menu_saved by auto
  with update_shape(1) [OF e'(1)] show ?thesis by simp
qed

text \<open>When an item comes back as it was.\<close>

lemma position_nth: "distinct xs \<Longrightarrow> i < length xs \<Longrightarrow> position (\<lambda>v. v = xs ! i) xs = Some i"
  using position_exists [of "xs ! i" xs] nth_eq_iff_index_eq [of xs _ i] by fastforce

lemma item_kept_same:
  assumes "case t of
      EnumItem e \<Rightarrow> distinct (en_variants e) \<and> is_none_or (en_value e) (\<lambda>i. i < length (en_variants e))
    | ArrayItem a \<Rightarrow> list_all (\<lambda>s. rewritten ft s = s) (ar_values a)
    | _ \<Rightarrow> True"
  shows "item_kept ft t = t"
proof (cases t)
  case (EnumItem e)
  with assms show ?thesis
    by (cases "en_value e") (auto simp: value_str_def get_at_def position_nth)
next
  case (ArrayItem a)
  with assms have "map (rewritten ft) (ar_values a) = ar_values a"
    by (intro map_idI) (simp add: list_all_iff)
  with ArrayItem show ?thesis by simp
qed simp_all

definition demo_animal :: "string \<Rightarrow> element" where
  "demo_animal name = Menu (demo_base ''animal'' False name)
     [Item (demo_base ''animal/age'' True ''integer'') (IntegerItem (Some 7) None)] True"

definition demo_fields :: "element list" where
  "demo_fields =
     [Item (demo_base ''tags'' False ''array'')
        (ArrayItem \<lparr>ar_element_type = ''string'', ar_values = [''abc'', ''12'', ''true''], ar_default = []\<rparr>),
      Item (demo_base ''name'' True ''string'') (StringItem (Some ''board'') None),
      OneOf (demo_base ''animal'' False ''animal'') [demo_animal ''Cat'', demo_animal ''Dog''] (Some 1) None]"

lemma demo_savable: "savable (\<lambda>_. []) (Menu (demo_base [] True ''Root'') demo_fields True)"
  by code_simp

section \<open>What is lost\<close>

text \<open>The text of an array entry becomes a number although the array is one of strings, and the
  names of the values that are not numbers become zero.\<close>

lemma array_text_lost:
  "array_json ''007'' = Num (PosInt 7)" "array_json ''nan'' = Num (PosInt 0)" "array_json ''Infinity'' = Num (PosInt 0)"
  by code_simp+

text \<open>A selected variant that is an item without a value is saved as null, which does not load.\<close>

lemma unset_variant_rejected:
  fixes ib :: element_base
  defines "e \<equiv> OneOf ib [Item ib (StringItem None None)] (Some 0) None"
  shows "as_json e = Null" "\<not> is_none e" "\<not> is_ok (fst (update_element ft None (as_json e) (blank e)))"
  by (simp_all add: e_def selected_def get_at_def unwrap_variant_def)

text \<open>An optional menu that is set but has no set field is saved as an empty object, after which it
  loads as unset.\<close>

lemma empty_menu_lost:
  assumes "\<not> el_required b"
  shows "update_element ft None (as_json (Menu b [] True)) (blank (Menu b [] True)) = (Inr (), Menu b [] False)"
    "\<not> is_none (Menu b [] True)" "is_none (Menu b [] False)"
  using assms by simp_all

text \<open>Inside an alternative the name of a variant is unwrapped a second time.\<close>

lemma nested_alternative_rejected:
  fixes ob ib :: element_base
  assumes "el_struct_name mb = ''Dog''" "field_name ib = ''age''"
  defines "inner \<equiv> OneOf ob [Menu mb [Item ib (IntegerItem (Some 7) None)] True] (Some 0) None"
  defines "j \<equiv> Obj [(''Dog'', Obj [(''age'', Num (PosInt 7))])]"
  shows "is_ok (fst (update_element ft None j (blank inner)))"
    "\<not> is_ok (fst (update_element ft None j (blank (OneOf ob [inner] (Some 0) None))))"
  using assms by (simp_all add: unwrap_variant_def find_child_def mismatch_def)

end
