(* ===== verification/Menu_Schema_Properties.thy ===== *)
theory Menu_Schema_Properties
  imports Menu_Schema Menu_Properties
begin

text \<open>
  What the conversion of a schema yields: an empty, well-named tree, so what is loaded into it, edited
  and saved can be loaded again; that it ends on schemas whose references do not go round; and the
  schemas it does not handle.
\<close>

section \<open>Names in paths\<close>

text \<open>A field name that is one component of a path.\<close>

definition simple_name :: "string \<Rightarrow> bool" where
  "simple_name k \<longleftrightarrow> k \<noteq> [] \<and> k \<noteq> ''.'' \<and> CHR ''/'' \<notin> set k"

lemma split_at_not_Nil: "split_at c s \<noteq> []"
  by (induction c s rule: split_at.induct) (auto split: list.splits)

lemma split_at_single: "c \<notin> set k \<Longrightarrow> split_at c k = [k]"
  by (induction c k rule: split_at.induct) auto

lemma split_at_last: "c \<notin> set k \<Longrightarrow> split_at c (q @ c # k) = split_at c q @ [k]"
proof (induction c q rule: split_at.induct)
  case (1 c)
  then show ?case by (simp add: split_at_single)
next
  case (2 c x xs)
  then show ?case using split_at_not_Nil [of c xs] by (auto split: list.splits)
qed

lemma field_name_join:
  assumes "simple_name k" "el_path b = path_join p k"
  shows "field_name b = k"
proof -
  have k: "k \<noteq> []" "k \<noteq> ''.''" "CHR ''/'' \<notin> set k" using assms(1) by (simp_all add: simple_name_def)
  from k(1,3) have t: "take 1 k \<noteq> ''/''" by (cases k) auto
  show ?thesis
  proof (cases "p = []")
    case True
    then have "path_join p k = k" using t by (simp add: path_join_def)
    with assms(2) k t show ?thesis
      by (simp add: field_name_def path_components_def Let_def split_at_single)
  next
    case False
    obtain q where q: "path_join p k = q @ CHR ''/'' # k"
    proof (cases "last p = CHR ''/''")
      case True
      then have "path_join p k = butlast p @ CHR ''/'' # k"
        using t False by (simp add: path_join_def) (metis append_butlast_last_id append.assoc append_Cons append_Nil)
      then show thesis by (rule that)
    next
      case no: False
      then have "path_join p k = p @ CHR ''/'' # k" using t False by (simp add: path_join_def)
      then show thesis by (rule that)
    qed
    have "filter (\<lambda>s. s \<noteq> [] \<and> s \<noteq> ''.'') (split_at (CHR ''/'') (path_join p k)) =
        filter (\<lambda>s. s \<noteq> [] \<and> s \<noteq> ''.'') (split_at (CHR ''/'') q) @ [k]"
      using q k by (simp add: split_at_last)
    with assms(2) show ?thesis by (simp add: field_name_def path_components_def Let_def)
  qed
qed

section \<open>Schemas with simple names\<close>

fun good_schema :: "json \<Rightarrow> bool" where
  "good_schema (Arr xs) \<longleftrightarrow> list_all good_schema xs"
| "good_schema (Obj m) \<longleftrightarrow>
     list_all (\<lambda>e. good_schema (snd e)) m \<and>
     (case map_of m ''properties'' of
        Some (Obj props) \<Rightarrow> distinct (map fst props) \<and> list_all (simple_name \<circ> fst) props
      | _ \<Rightarrow> True)"
| "good_schema _ \<longleftrightarrow> True"

lemma good_get: "good_schema j \<Longrightarrow> json_get k j = Some v \<Longrightarrow> good_schema v"
  by (cases j) (auto simp: list_all_iff dest!: map_of_SomeD)

lemma good_array: "good_schema j \<Longrightarrow> as_array j = Some xs \<Longrightarrow> x \<in> set xs \<Longrightarrow> good_schema x"
  by (cases j) (auto simp: list_all_iff)

lemma good_object: "good_schema j \<Longrightarrow> as_object j = Some m \<Longrightarrow> (k, v) \<in> set m \<Longrightarrow> good_schema v"
  by (cases j) (auto simp: list_all_iff)

definition good_walk :: "walk \<Rightarrow> bool" where
  "good_walk w \<longleftrightarrow> good_schema (wk_value w) \<and> is_none_or (wk_defs w) good_schema"

lemma good_properties:
  assumes "good_walk w" "Option.bind (field w ''properties'') as_object = Some props"
  shows "distinct (map fst props)" "\<forall>k\<in>set (map fst props). simple_name k" "\<forall>v\<in>set (map snd props). good_schema v"
proof -
  from assms(2) have f: "field w ''properties'' = Some (Obj props)"
    by (cases "field w ''properties''"; cases "the (field w ''properties'')") auto
  with assms(1) obtain m where m: "wk_value w = Obj m" "map_of m ''properties'' = Some (Obj props)"
    by (cases "wk_value w") (auto simp: field_def)
  with assms(1) show "distinct (map fst props)" "\<forall>k\<in>set (map fst props). simple_name k"
    by (auto simp: good_walk_def list_all_iff)
  from f have "json_get ''properties'' (wk_value w) = Some (Obj props)" by (simp add: field_def)
  with assms(1) have "good_schema (Obj props)" by (metis good_get good_walk_def)
  then show "\<forall>v\<in>set (map snd props). good_schema v" by (auto simp: list_all_iff)
qed

lemma good_elements:
  assumes "good_walk w" "Option.bind (field w k) as_array = Some vs" "v \<in> set vs"
  shows "good_walk (w\<lparr>wk_value := v\<rparr>)"
proof -
  from assms(2) obtain j where "json_get k (wk_value w) = Some j" "as_array j = Some vs"
    by (auto simp: field_def split: Option.bind_splits)
  with assms(1,3) have "good_schema v" by (metis good_get good_array good_walk_def)
  with assms(1) show ?thesis by (simp add: good_walk_def)
qed

section \<open>What a conversion yields\<close>

lemma cbind_ok: "cbind r f = Some (Inr y) \<longleftrightarrow> (\<exists>x. r = Some (Inr x) \<and> f x = Some (Inr y))"
  by (auto simp: cbind_def split: option.splits sum.splits)

definition fresh_at :: "walk \<Rightarrow> element \<Rightarrow> bool" where
  "fresh_at w e \<longleftrightarrow> blank e = e \<and> valid e \<and> well_named e \<and> el_path (base e) = wk_path w"

definition sound :: "converter \<Rightarrow> bool" where
  "sound conv \<longleftrightarrow> (\<forall>w required fname e. good_walk w \<longrightarrow>
     conv w required fname = Some (Inr (Some e)) \<longrightarrow> fresh_at w e)"

lemma element_base_new_simps [simp]:
  "el_path (element_base_new p d r n) = p" "el_required (element_base_new p d r n) = r"
  by (simp_all add: element_base_new_def)

lemma handle_children_sound:
  assumes "sound conv" "is_none_or (wk_defs w) good_schema"
  shows "handle_children conv w req props = Some (Inr cs) \<Longrightarrow> \<forall>v\<in>set (map snd props). good_schema v \<Longrightarrow>
    distinct (map fst props) \<Longrightarrow> \<forall>k\<in>set (map fst props). simple_name k \<Longrightarrow>
    (\<forall>c\<in>set cs. blank c = c \<and> valid c \<and> well_named c \<and> field_name (base c) \<in> set (map fst props)) \<and>
    distinct (map (field_name \<circ> base) cs)"
proof (induction props arbitrary: cs)
  case (Cons e props)
  obtain k v where e: "e = (k, v)" by (cases e)
  from Cons.prems(1) e obtain c cs' where
    c: "conv \<lparr>wk_path = path_join (wk_path w) k, wk_value = v, wk_defs = wk_defs w\<rparr> (k \<in> set req) (Some k) = Some (Inr c)"
    "handle_children conv w req props = Some (Inr cs')" "cs = (case c of None \<Rightarrow> cs' | Some c \<Rightarrow> c # cs')"
    by (auto simp: cbind_ok)
  have ih: "(\<forall>c\<in>set cs'. blank c = c \<and> valid c \<and> well_named c \<and> field_name (base c) \<in> set (map fst props)) \<and>
    distinct (map (field_name \<circ> base) cs')"
    using Cons.prems(2-4) by (intro Cons.IH [OF c(2)]) auto
  show ?case
  proof (cases c)
    case None
    with c(3) have "cs = cs'" by simp
    with ih show ?thesis by (auto simp del: map_map simp: comp_def)
  next
    case (Some x)
    have "good_walk \<lparr>wk_path = path_join (wk_path w) k, wk_value = v, wk_defs = wk_defs w\<rparr>"
      using assms(2) Cons.prems(2) e by (simp add: good_walk_def)
    with assms(1) c(1) Some have x: "blank x = x" "valid x" "well_named x" "el_path (base x) = path_join (wk_path w) k"
      unfolding sound_def fresh_at_def by (metis walk.select_convs(1))+
    from field_name_join [OF _ x(4)] Cons.prems(4) e have "field_name (base x) = k" by simp
    with x ih c(3) Some e Cons.prems(3) show ?thesis by (auto simp: comp_def)
  qed
qed simp

lemma menu_from_schema_sound:
  assumes "sound conv" "good_walk w" "menu_from_schema conv w required name = Some (Inr m)"
  shows "fresh_at w m \<and> (\<exists>b cs st. m = Menu b cs st)"
proof -
  let ?props = "unwrap_or (Option.bind (field w ''properties'') as_object) []"
  let ?req = "List.map_filter as_str (unwrap_or (Option.bind (field w ''required'') as_array) [])"
  from assms(3) obtain d cs where
    m: "handle_children conv w ?req ?props = Some (Inr cs)" "m = Menu (element_base_new (wk_path w) d required name) cs required"
    by (auto simp: menu_from_schema_def cbind_ok Let_def)
  have "is_none_or (wk_defs w) good_schema" using assms(2) by (simp add: good_walk_def)
  moreover have "(\<forall>v\<in>set (map snd ?props). good_schema v) \<and> distinct (map fst ?props) \<and>
      (\<forall>k\<in>set (map fst ?props). simple_name k)"
  proof (cases "Option.bind (field w ''properties'') as_object")
    case (Some props)
    from good_properties [OF assms(2) Some] Some show ?thesis by simp
  qed simp
  ultimately have cs: "\<forall>c\<in>set cs. blank c = c \<and> valid c \<and> well_named c \<and> field_name (base c) \<in> set (map fst ?props)"
    "distinct (map (field_name \<circ> base) cs)"
    using handle_children_sound [OF assms(1) _ m(1)] by blast+
  then have "map blank cs = cs" by (intro map_idI) simp
  with cs m(2) show ?thesis by (simp add: fresh_at_def list_all_iff)
qed

lemma convert_ref_sound:
  assumes "sound conv" "good_walk w" "convert_ref conv w required = Some (Inr (Some e))"
  shows "fresh_at w e"
proof -
  from assms(3) obtain r v where v: "Option.bind (wk_defs w) (json_get (trim_start_matches DEFS_PREFIX r)) = Some v"
    "conv (w\<lparr>wk_value := v\<rparr>) required (Some (trim_start_matches DEFS_PREFIX r)) = Some (Inr (Some e))"
    by (auto simp: convert_ref_def split: option.splits)
  from v(1) assms(2) good_get have "good_walk (w\<lparr>wk_value := v\<rparr>)"
    by (auto simp: good_walk_def split: Option.bind_splits)
  with assms(1) v(2) have "fresh_at (w\<lparr>wk_value := v\<rparr>) e" unfolding sound_def by blast
  then show ?thesis by (simp add: fresh_at_def)
qed

lemma first_menu_sound:
  assumes "sound conv" "is_none_or (wk_defs w) good_schema"
  shows "first_menu conv w required vs = Some (Inr (Some e)) \<Longrightarrow> \<forall>v\<in>set vs. good_schema v \<Longrightarrow> fresh_at w e"
proof (induction vs)
  case (Cons v vs)
  from Cons.prems(1) obtain x where x: "convert_ref conv (w\<lparr>wk_value := v\<rparr>) required = Some (Inr x)"
    "(case x of Some (Menu b cs st) \<Rightarrow> Some (Inr (Some (Menu b cs st))) | _ \<Rightarrow> first_menu conv w required vs) = Some (Inr (Some e))"
    by (auto simp: cbind_ok)
  have "good_walk (w\<lparr>wk_value := v\<rparr>)" using assms(2) Cons.prems(2) by (simp add: good_walk_def)
  note r = convert_ref_sound [OF assms(1) this]
  from x Cons show ?case
    by (auto split: option.splits element.splits simp: fresh_at_def dest!: r)
qed simp

lemma convert_variants_sound:
  assumes "sound conv"
  shows "convert_variants conv w vs = Some (Inr es) \<Longrightarrow> \<forall>v\<in>set vs. good_walk (w\<lparr>wk_value := v\<rparr>) \<Longrightarrow>
    \<forall>e\<in>set es. fresh_at w e"
proof (induction vs arbitrary: es)
  case (Cons v vs)
  from Cons.prems(1) obtain x es' where x: "conv (w\<lparr>wk_value := v\<rparr>) False None = Some (Inr x)"
    "convert_variants conv w vs = Some (Inr es')" "es = (case x of None \<Rightarrow> es' | Some e \<Rightarrow> e # es')"
    by (auto simp: cbind_ok)
  have "fresh_at w e" if "x = Some e" for e
    using assms Cons.prems(2) x(1) that unfolding sound_def fresh_at_def by fastforce
  with Cons.IH [OF x(2)] Cons.prems(2) x(3) show ?case by (auto split: option.splits)
qed simp

lemma field_name_path: "el_path b = el_path b' \<Longrightarrow> field_name b = field_name b'"
  by (simp add: field_name_def)

lemma or_else_ok: "or_else r s = Some (Inr (Some x)) \<Longrightarrow> r = Some (Inr (Some x)) \<or> s = Some (Inr (Some x))"
  by (auto simp: or_else_def cbind_ok split: option.splits)

lemma handle_oneof_sound:
  assumes "sound conv" "good_walk w" "handle_oneof conv w required fname = Some (Inr (Some e))"
  shows "fresh_at w e"
proof -
  from assms(3) obtain vs where vs: "Option.bind (field w ''oneOf'') as_array = Some vs"
    by (auto simp: handle_oneof_def split: option.splits)
  show ?thesis
  proof (cases "\<exists>b t. e = Item b t")
    case True
    with assms(3) vs show ?thesis
      by (auto simp: handle_oneof_def cbind_ok Let_def fresh_at_def split: if_splits option.splits)
  next
    case False
    with assms(3) vs obtain es d name where e: "convert_variants conv w vs = Some (Inr es)"
      "e = OneOf (element_base_new (wk_path w) d required name) es None None"
      by (auto simp: handle_oneof_def cbind_ok Let_def split: if_splits option.splits)
    have "\<forall>x\<in>set es. fresh_at w x"
      using convert_variants_sound [OF assms(1) e(1)] good_elements [OF assms(2) vs] by blast
    moreover from this have "map blank es = es" by (intro map_idI) (simp add: fresh_at_def)
    ultimately show ?thesis using e(2)
      by (auto simp: fresh_at_def list_all_iff intro!: field_name_path)
  qed
qed

lemma convert_item_sound: "convert_item w required = Some (Inr (Some e)) \<Longrightarrow> fresh_at w e"
  by (auto simp: convert_item_def item_of_type_def cbind_ok fresh_at_def string_item_type_def
      split: option.splits if_splits)

lemma convert_anyof_sound:
  assumes "sound conv" "good_walk w" "convert_anyof conv w required = Some (Inr (Some e))"
  shows "fresh_at w e"
proof -
  from assms(3) obtain vs where vs: "Option.bind (field w ''anyOf'') as_array = Some vs"
    by (auto simp: convert_anyof_def split: option.splits)
  have "\<exists>v r. v \<in> set vs \<and> conv (w\<lparr>wk_value := v\<rparr>) r None = Some (Inr (Some e))"
    using assms(3) vs
    by (fastforce simp: convert_anyof_def cbind_ok split: option.splits if_splits list.splits dest: find_SomeD)
  then obtain v r where "v \<in> set vs" "conv (w\<lparr>wk_value := v\<rparr>) r None = Some (Inr (Some e))" by blast
  with assms(1) good_elements [OF assms(2) vs] have "fresh_at (w\<lparr>wk_value := v\<rparr>) e" unfolding sound_def by blast
  then show ?thesis by (simp add: fresh_at_def)
qed

lemma handle_object_sound:
  assumes "sound conv" "good_walk w" "handle_object conv w required fname = Some (Inr (Some e))"
  shows "fresh_at w e"
proof (cases fname)
  case (Some name)
  with assms(3) have "menu_from_schema conv w required name = Some (Inr e)"
    by (auto simp: handle_object_def cbind_ok split: if_splits)
  with menu_from_schema_sound [OF assms(1,2)] show ?thesis by blast
next
  case None
  let ?props = "unwrap_or (Option.bind (field w ''properties'') as_object) []"
  from assms(3) None have "first_menu conv w required (map snd ?props) = Some (Inr (Some e))"
    by (auto simp: handle_object_def split: if_splits)
  moreover have "\<forall>v\<in>set (map snd ?props). good_schema v"
    using good_properties(3) [OF assms(2)] by (cases "Option.bind (field w ''properties'') as_object") auto
  ultimately show ?thesis using first_menu_sound [OF assms(1)] assms(2) by (auto simp: good_walk_def)
qed

lemma as_element_type_sound: "sound (as_element_type n)"
proof (induction n)
  case (Suc n)
  show ?case
    unfolding sound_def
    using handle_object_sound [OF Suc] convert_ref_sound [OF Suc] handle_oneof_sound [OF Suc] convert_item_sound
      convert_anyof_sound [OF Suc]
    by (auto simp: element_step_def dest!: or_else_ok)
qed (simp add: sound_def)

lemma root_of_schema:
  assumes "menu_root_of_schema n schema = Some (Inr r)" "good_schema schema"
  shows "blank (root_menu r) = root_menu r \<and> valid (root_menu r) \<and> well_named (root_menu r) \<and>
    (\<exists>b cs st. root_menu r = Menu b cs st)"
proof -
  let ?w = "\<lparr>wk_path = [], wk_value = schema, wk_defs = json_get ''$defs'' schema\<rparr>"
  from assms(1) obtain title m where "menu_from_schema (as_element_type n) ?w True title = Some (Inr m)" "root_menu r = m"
    by (auto simp: menu_root_of_schema_def cbind_ok Let_def field_def)
  moreover have "good_walk ?w"
    using assms(2) good_get [OF assms(2)] by (auto simp: good_walk_def is_none_or_iff)
  ultimately show ?thesis
    using menu_from_schema_sound [OF as_element_type_sound] by (fastforce simp: fresh_at_def)
qed

text \<open>
  C24: A configuration survives saving and loading. Let a tree be converted from a schema whose
  property names are single path components, and filled in any way that keeps its shape. If its
  values can be read back (set optional menus have a set field, floating-point values are finite and
  print so that they read back, and a selected variant has a value that no earlier variant accepts),
  then loading the saved JSON into the freshly converted tree succeeds and gives the tree \<open>kept\<close>
  describes: every value in use as it was, except that the entries of an array become the text of
  what was written for them (007 becomes 7) and an enumeration the first of equal variants;
  everything that is not in use is unset. That tree saves the same JSON.
\<close>

theorem document_roundtrip:
  assumes "menu_root_of_schema n schema = Some (Inr r)" "good_schema schema"
    and "blank e = root_menu r" "savable ft e"
  shows "update_element ft None (as_json e) (root_menu r) = (Inr (), kept ft e) \<and>
    as_json (kept ft e) = as_json e \<and> blank (kept ft e) = root_menu r"
proof -
  note root = root_of_schema [OF assms(1,2)]
  then obtain b cs st where e: "e = Menu b cs st" using assms(3) by (cases e) auto
  have "well_named e" using root assms(3) by (metis well_named_blank)
  with save_load [of ft b cs st, folded e] assms(3,4) show ?thesis by (simp only: simp_thms)
qed

definition demo_schema :: json where
  "demo_schema = Obj
     [(''$defs'', Obj
        [(''Cat'', Obj [(''properties'', Obj []), (''type'', Str ''object'')]),
         (''Dog'', Obj [(''properties'', Obj [(''age'', Obj [(''type'', Str ''integer'')])]),
            (''required'', Arr [Str ''age'']), (''type'', Str ''object'')])]),
      (''$schema'', Str ''draft''),
      (''properties'', Obj
        [(''animal'', Obj [(''oneOf'', Arr
            [Obj [(''properties'', Obj [(''Cat'', Obj [(''$ref'', Str ''#/$defs/Cat'')])]), (''type'', Str ''object'')],
             Obj [(''properties'', Obj [(''Dog'', Obj [(''$ref'', Str ''#/$defs/Dog'')])]), (''type'', Str ''object'')]])]),
         (''name'', Obj [(''type'', Str ''string'')])]),
      (''required'', Arr [Str ''name'']),
      (''title'', Str ''Root'')]"

definition demo_root :: "bool \<Rightarrow> nat option \<Rightarrow> string option \<Rightarrow> element" where
  "demo_root isset sel name =
     Menu (demo_base [] True ''Root'')
       [OneOf (demo_base ''animal'' False ''animal'')
          [Menu (demo_base ''animal'' False ''Cat'') [] False,
           Menu (demo_base ''animal'' False ''Dog'')
             [Item (demo_base ''animal/age'' True ''integer'') (IntegerItem (if isset then Some 7 else None) None)] isset]
          sel None,
        Item (demo_base ''name'' True ''string'') (StringItem name None)] True"

lemma demo_schema_root:
  "menu_root_of_schema 5 demo_schema =
     Some (Inr \<lparr>root_version = ''draft'', root_title = ''Root'', root_menu = demo_root False None None\<rparr>)"
  by code_simp

theorem document_roundtrip_witness:
  "update_element (\<lambda>_. []) None (Obj [(''animal'', Obj [(''Dog'', Obj [(''age'', Num (PosInt 7))])]), (''name'', Str ''x'')])
      (demo_root False None None) = (Inr (), demo_root True (Some 1) (Some ''x''))"
proof -
  have "good_schema demo_schema" by code_simp
  moreover have "blank (demo_root True (Some 1) (Some ''x'')) = demo_root False None None" by code_simp
  moreover have "savable (\<lambda>_. []) (demo_root True (Some 1) (Some ''x''))" by code_simp
  moreover have "as_json (demo_root True (Some 1) (Some ''x'')) =
      Obj [(''animal'', Obj [(''Dog'', Obj [(''age'', Num (PosInt 7))])]), (''name'', Str ''x'')]" by code_simp
  moreover have "kept (\<lambda>_. []) (demo_root True (Some 1) (Some ''x'')) = demo_root True (Some 1) (Some ''x'')"
    by code_simp
  ultimately show ?thesis using document_roundtrip [OF demo_schema_root] by fastforce
qed

section \<open>Schemas whose conversion ends\<close>

text \<open>All references of a value, and definitions that only refer to definitions of lower rank.\<close>

fun refs :: "json \<Rightarrow> string list" where
  "refs (Arr xs) = concat (map refs xs)"
| "refs (Obj m) =
     (case map_of m ''$ref'' of Some (Str r) \<Rightarrow> [trim_start_matches DEFS_PREFIX r] | _ \<Rightarrow> []) @
     concat (map (\<lambda>e. refs (snd e)) m)"
| "refs _ = []"

definition ranked :: "(string \<Rightarrow> nat) \<Rightarrow> json \<Rightarrow> bool" where
  "ranked rank defs \<longleftrightarrow>
     (\<forall>name v r. json_get name defs = Some v \<longrightarrow> r \<in> set (refs v) \<longrightarrow> json_get r defs \<noteq> None \<longrightarrow> rank r < rank name)"

text \<open>From some depth on the answer is there and the same.\<close>

definition settles :: "(nat \<Rightarrow> 'a converted) \<Rightarrow> bool" where
  "settles f \<longleftrightarrow> (\<exists>n r. \<forall>m\<ge>n. f m = Some r)"

lemma settles_const [simp]: "settles (\<lambda>m. Some r)"
  by (auto simp: settles_def)

lemma settles_cbind:
  assumes "settles f" "\<And>x. settles (g x)"
  shows "settles (\<lambda>m. cbind (f m) (\<lambda>x. g x m))"
proof -
  from assms(1) obtain n r where n: "\<forall>m\<ge>n. f m = Some r" by (auto simp: settles_def)
  show ?thesis
  proof (cases r)
    case (Inl e)
    with n have "\<forall>m\<ge>n. cbind (f m) (\<lambda>x. g x m) = Some (Inl e)" by (simp add: cbind_def)
    then show ?thesis unfolding settles_def by blast
  next
    case (Inr x)
    from assms(2) [of x] obtain n' r' where "\<forall>m\<ge>n'. g x m = Some r'" by (auto simp: settles_def)
    with n Inr have "\<forall>m\<ge>max n n'. cbind (f m) (\<lambda>x. g x m) = Some r'" by (simp add: cbind_def)
    then show ?thesis unfolding settles_def by blast
  qed
qed

lemma settles_if: "settles f \<Longrightarrow> settles g \<Longrightarrow> settles (\<lambda>m. if b then f m else g m)"
  by (cases b) simp_all

lemma settles_option:
  "settles f \<Longrightarrow> (\<And>x. settles (g x)) \<Longrightarrow> settles (\<lambda>m. case y of None \<Rightarrow> f m | Some x \<Rightarrow> g x m)"
  by (cases y) simp_all

lemma settles_Suc: "settles (\<lambda>m. f (Suc m)) \<Longrightarrow> settles f"
proof -
  assume "settles (\<lambda>m. f (Suc m))"
  then obtain n r where n: "\<forall>m\<ge>n. f (Suc m) = Some r" by (auto simp: settles_def)
  have "f m = Some r" if "Suc n \<le> m" for m
    using that n by (cases m) auto
  then show "settles f" unfolding settles_def by blast
qed

definition converts :: "json option \<Rightarrow> json \<Rightarrow> bool" where
  "converts defs v \<longleftrightarrow>
     (\<forall>path required fname. settles (\<lambda>m. as_element_type m \<lparr>wk_path = path, wk_value = v, wk_defs = defs\<rparr> required fname))"

lemma converts_walk:
  "converts (wk_defs w) v \<Longrightarrow> settles (\<lambda>m. as_element_type m (w\<lparr>wk_value := v\<rparr>) required fname)"
  by (cases w) (simp add: converts_def)

definition ref_of :: "json \<Rightarrow> string option" where
  "ref_of v = map_option (trim_start_matches DEFS_PREFIX) (Option.bind (json_get ''$ref'' v) as_str)"

definition refs_convert :: "json option \<Rightarrow> json \<Rightarrow> bool" where
  "refs_convert defs v \<longleftrightarrow> (\<forall>r d. ref_of v = Some r \<longrightarrow> Option.bind defs (json_get r) = Some d \<longrightarrow> converts defs d)"

lemma convert_ref_settles:
  assumes "refs_convert (wk_defs w) (wk_value w)"
  shows "settles (\<lambda>m. convert_ref (as_element_type m) w required)"
proof (cases "Option.bind (field w ''$ref'') as_str")
  case (Some r)
  show ?thesis
  proof (cases "Option.bind (wk_defs w) (json_get (trim_start_matches DEFS_PREFIX r))")
    case v: (Some v)
    with assms Some have "converts (wk_defs w) v" by (auto simp: refs_convert_def ref_of_def field_def)
    from converts_walk [OF this] Some v show ?thesis by (simp add: convert_ref_def)
  qed (use Some in \<open>simp add: convert_ref_def\<close>)
qed (simp add: convert_ref_def)

lemma handle_children_settles:
  "\<forall>v\<in>set (map snd props). converts (wk_defs w) v \<Longrightarrow> settles (\<lambda>m. handle_children (as_element_type m) w req props)"
proof (induction props)
  case (Cons e props)
  obtain k v where e: "e = (k, v)" by (cases e)
  with Cons.prems have "settles (\<lambda>m. as_element_type m \<lparr>wk_path = path_join (wk_path w) k, wk_value = v,
      wk_defs = wk_defs w\<rparr> (k \<in> set req) (Some k))" by (simp add: converts_def)
  with Cons e show ?case by (auto intro!: settles_cbind)
qed simp

lemma first_menu_settles:
  "\<forall>v\<in>set vs. refs_convert (wk_defs w) v \<Longrightarrow> settles (\<lambda>m. first_menu (as_element_type m) w required vs)"
proof (induction vs)
  case (Cons v vs)
  have "settles (\<lambda>m. case e of Some (Menu b cs st) \<Rightarrow> Some (Inr (Some (Menu b cs st)))
      | _ \<Rightarrow> first_menu (as_element_type m) w required vs)" for e
    using Cons by (cases e; cases "the e") simp_all
  with Cons.prems show ?case by (auto intro!: settles_cbind convert_ref_settles)
qed simp

lemma convert_variants_settles:
  "\<forall>v\<in>set vs. converts (wk_defs w) v \<Longrightarrow> settles (\<lambda>m. convert_variants (as_element_type m) w vs)"
  by (induction vs) (auto intro!: settles_cbind converts_walk)

lemma description_settles [simp]: "settles (\<lambda>m. description w)"
  by (simp add: description_def lift_err_def)

text \<open>The values a conversion looks at below its own.\<close>

definition parts :: "json \<Rightarrow> json set" where
  "parts v = {x. \<exists>k j. json_get k v = Some j \<and> (x \<in> set (unwrap_or (as_array j) []) \<or> x \<in> set (map snd (unwrap_or (as_object j) [])))}"

lemma properties_parts:
  "v \<in> set (map snd (unwrap_or (Option.bind (field w k) as_object) [])) \<Longrightarrow> v \<in> parts (wk_value w)"
  by (cases "json_get k (wk_value w)") (auto simp: parts_def field_def simp del: set_map)

lemma array_parts: "Option.bind (field w k) as_array = Some vs \<Longrightarrow> v \<in> set vs \<Longrightarrow> v \<in> parts (wk_value w)"
proof -
  assume a: "Option.bind (field w k) as_array = Some vs" "v \<in> set vs"
  then obtain j where "json_get k (wk_value w) = Some j" "as_array j = Some vs"
    by (auto simp: field_def split: Option.bind_splits)
  with a(2) have "json_get k (wk_value w) = Some j \<and> v \<in> set (unwrap_or (as_array j) [])" by simp
  then show "v \<in> parts (wk_value w)" unfolding parts_def by blast
qed

lemma menu_from_schema_settles:
  assumes "\<And>x. x \<in> parts (wk_value w) \<Longrightarrow> converts (wk_defs w) x"
  shows "settles (\<lambda>m. menu_from_schema (as_element_type m) w required name)"
proof -
  have "\<forall>v\<in>set (map snd (unwrap_or (Option.bind (field w ''properties'') as_object) [])). converts (wk_defs w) v"
    using assms properties_parts by blast
  from handle_children_settles [OF this] show ?thesis
    unfolding menu_from_schema_def Let_def by (intro settles_cbind description_settles) simp_all
qed

lemma handle_object_settles:
  assumes "\<And>x. x \<in> parts (wk_value w) \<Longrightarrow> converts (wk_defs w) x \<and> refs_convert (wk_defs w) x"
  shows "settles (\<lambda>m. handle_object (as_element_type m) w required fname)"
proof (cases fname)
  case (Some name)
  have "settles (\<lambda>m. menu_from_schema (as_element_type m) w required name)"
    using assms by (intro menu_from_schema_settles) blast
  then have "settles (\<lambda>m. cbind (menu_from_schema (as_element_type m) w required name) (\<lambda>m. Some (Inr (Some m))))"
    by (intro settles_cbind) simp_all
  with Some show ?thesis by (cases "Option.bind (field w ''type'') as_str = Some ''object''") (simp_all add: handle_object_def)
next
  case None
  have "\<forall>v\<in>set (map snd (unwrap_or (Option.bind (field w ''properties'') as_object) [])). refs_convert (wk_defs w) v"
    using assms properties_parts by blast
  from first_menu_settles [OF this] None show ?thesis
    by (cases "Option.bind (field w ''type'') as_str = Some ''object''") (simp_all add: handle_object_def)
qed

lemma handle_oneof_settles:
  assumes "\<And>x. x \<in> parts (wk_value w) \<Longrightarrow> converts (wk_defs w) x"
  shows "settles (\<lambda>m. handle_oneof (as_element_type m) w required fname)"
proof (cases "Option.bind (field w ''oneOf'') as_array")
  case (Some vs)
  then have "settles (\<lambda>m. convert_variants (as_element_type m) w vs)"
    using assms array_parts by (intro convert_variants_settles) blast
  with Some show ?thesis
    unfolding handle_oneof_def Let_def
    by (simp only: option.case) (intro settles_if settles_option settles_cbind settles_const description_settles)
qed (simp add: handle_oneof_def)

lemma convert_item_settles: "settles (\<lambda>m. convert_item w required)"
  by (auto simp: convert_item_def item_of_type_def intro!: settles_cbind split: option.split)

lemma convert_anyof_settles:
  assumes "\<And>x. x \<in> parts (wk_value w) \<Longrightarrow> converts (wk_defs w) x"
  shows "settles (\<lambda>m. convert_anyof (as_element_type m) w required)"
proof (cases "Option.bind (field w ''anyOf'') as_array")
  case (Some vs)
  then have v: "settles (\<lambda>m. as_element_type m (w\<lparr>wk_value := v\<rparr>) r None)" if "v \<in> set vs" for v r
    using assms array_parts that by (intro converts_walk) blast
  then have rest: "settles (\<lambda>m. case x of
      Some x \<Rightarrow> Some (Inr (Some x))
    | None \<Rightarrow> (case vs of [] \<Rightarrow> Some (Inl Panic) | v # _ \<Rightarrow> as_element_type m (w\<lparr>wk_value := v\<rparr>) False None))" for x
    by (cases x; cases vs) simp_all
  let ?inner = "if length vs = 2 \<and> has_null vs then find (Not \<circ> is_null_type) vs else None"
  have "settles (\<lambda>m. case ?inner of None \<Rightarrow> Some (Inr None)
      | Some inner \<Rightarrow> as_element_type m (w\<lparr>wk_value := inner\<rparr>) required None)"
    using v find_SomeD [of "Not \<circ> is_null_type" vs] by (cases ?inner) (auto split: if_splits)
  from settles_cbind [OF this rest] Some show ?thesis by (simp add: convert_anyof_def)
qed (simp add: convert_anyof_def)

lemma element_step_settles:
  assumes "\<And>x. x \<in> parts (wk_value w) \<Longrightarrow> converts (wk_defs w) x \<and> refs_convert (wk_defs w) x"
    and "refs_convert (wk_defs w) (wk_value w)"
  shows "settles (\<lambda>m. element_step (as_element_type m) w required fname)"
proof -
  have or: "settles f \<Longrightarrow> settles g \<Longrightarrow> settles (\<lambda>m. or_else (f m) (g m))" for f g
    unfolding or_else_def by (rule settles_cbind) (simp_all add: settles_option)
  show ?thesis
    unfolding element_step_def
    using assms
    by (intro or handle_object_settles convert_ref_settles handle_oneof_settles convert_item_settles
        convert_anyof_settles) auto
qed

section \<open>Acyclic references\<close>

lemma parts_size: "x \<in> parts v \<Longrightarrow> size x < size v"
proof -
  have get: "json_get k v = Some j \<Longrightarrow> size j < size v" for k j
    by (cases v) (auto dest!: map_of_SomeD intro!: le_imp_less_Suc size_list_estimation' [of "(k, j)"])
  have arr: "x \<in> set xs \<Longrightarrow> size x < size (Arr xs)" for xs
    by (auto intro!: le_imp_less_Suc size_list_estimation')
  have obj: "(k, x) \<in> set m \<Longrightarrow> size x < size (Obj m)" for k m
    by (auto intro!: le_imp_less_Suc size_list_estimation' [of "(k, x)"])
  assume "x \<in> parts v"
  then obtain k j where j: "json_get k v = Some j"
    "x \<in> set (unwrap_or (as_array j) []) \<or> x \<in> set (map snd (unwrap_or (as_object j) []))" by (auto simp: parts_def)
  from j(2) arr obj have "size x < size j" by (cases j) auto
  with get [OF j(1)] show ?thesis by simp
qed

lemma get_refs: "json_get k v = Some j \<Longrightarrow> set (refs j) \<subseteq> set (refs v)"
  by (cases v) (auto dest!: map_of_SomeD)

lemma parts_refs: "x \<in> parts v \<Longrightarrow> set (refs x) \<subseteq> set (refs v)"
proof -
  assume "x \<in> parts v"
  then obtain k j where j: "json_get k v = Some j"
    "x \<in> set (unwrap_or (as_array j) []) \<or> x \<in> set (map snd (unwrap_or (as_object j) []))" by (auto simp: parts_def)
  from j(2) have "set (refs x) \<subseteq> set (refs j)" by (cases j) auto
  with get_refs [OF j(1)] show ?thesis by blast
qed

lemma ref_of_refs: "ref_of v = Some r \<Longrightarrow> r \<in> set (refs v)"
proof (cases v)
  case (Obj m)
  then show "ref_of v = Some r \<Longrightarrow> ?thesis"
    by (cases "map_of m ''$ref''"; cases "the (map_of m ''$ref'')") (auto simp: ref_of_def)
qed (auto simp: ref_of_def)

lemma ranked_converts:
  assumes "is_none_or defs (ranked rank)"
  shows "(\<forall>r\<in>set (refs v). Option.bind defs (json_get r) \<noteq> None \<longrightarrow> rank r < k) \<Longrightarrow> converts defs v"
proof (induction k arbitrary: v rule: less_induct)
  case (less k)
  have by_ref: "refs_convert defs v" if v: "\<forall>r\<in>set (refs v). Option.bind defs (json_get r) \<noteq> None \<longrightarrow> rank r < k" for v
    unfolding refs_convert_def
  proof (intro allI impI)
    fix r d assume r: "ref_of v = Some r" "Option.bind defs (json_get r) = Some d"
    with v ref_of_refs have "rank r < k" by fastforce
    moreover from r(2) assms have "\<forall>r'\<in>set (refs d). Option.bind defs (json_get r') \<noteq> None \<longrightarrow> rank r' < rank r"
      by (cases defs) (auto simp: ranked_def)
    ultimately show "converts defs d" by (rule less.IH)
  qed
  show ?case
    using less.prems
  proof (induction v rule: measure_induct_rule [where f = size])
    case (less v)
    show ?case
      unfolding converts_def
    proof (intro allI)
      fix path required fname
      let ?w = "\<lparr>wk_path = path, wk_value = v, wk_defs = defs\<rparr>"
      have "converts defs x \<and> refs_convert defs x" if x: "x \<in> parts v" for x
      proof -
        from less.prems parts_refs [OF x]
        have r: "\<forall>r\<in>set (refs x). Option.bind defs (json_get r) \<noteq> None \<longrightarrow> rank r < k" by blast
        show ?thesis using less.IH [OF parts_size [OF x] r] by_ref [OF r] by (rule conjI)
      qed
      then have "settles (\<lambda>m. element_step (as_element_type m) ?w required fname)"
        using by_ref [OF less.prems] by (intro element_step_settles) simp_all
      then show "settles (\<lambda>m. as_element_type m ?w required fname)" by - (rule settles_Suc, simp)
    qed
  qed
qed

text \<open>
  C28: The conversion of a schema ends when its references do not go round. If the definitions can be
  ranked so that each refers only to definitions of lower rank, then the conversion has an answer,
  a tree, an error or a panic, and any number of nested calls that suffices gives the same one.
\<close>

theorem schema_conversion_ends:
  assumes "is_none_or (json_get ''$defs'' schema) (ranked rank)"
  shows "\<exists>n answer. \<forall>m\<ge>n. menu_root_of_schema m schema = Some answer"
proof -
  let ?defs = "json_get ''$defs'' schema"
  let ?w = "\<lparr>wk_path = [], wk_value = schema, wk_defs = ?defs\<rparr>"
  have "converts ?defs v" for v
    by (rule ranked_converts [OF assms, where k = "Suc (Max (set (map rank (refs v) @ [0])))"])
      (auto intro!: le_imp_less_Suc Max_ge)
  then have "settles (\<lambda>m. menu_from_schema (as_element_type m) ?w True title)" for title
    by (intro menu_from_schema_settles) simp
  then have "settles (\<lambda>m. menu_root_of_schema m schema)"
    unfolding menu_root_of_schema_def Let_def lift_err_def
    by (intro settles_cbind settles_const) (simp add: field_def)
  then show ?thesis by (simp add: settles_def)
qed

lemma demo_ranked: "is_none_or (json_get ''$defs'' demo_schema) (ranked (\<lambda>_. 0))"
  by (auto simp: demo_schema_def ranked_def split: if_splits)

theorem schema_conversion_ends_witness:
  "\<exists>n answer. \<forall>m\<ge>n. menu_root_of_schema m demo_schema = Some answer"
  by (rule schema_conversion_ends [OF demo_ranked])

section \<open>Schemas that are not handled\<close>

text \<open>A definition that refers to itself, as a list or tree type yields, exhausts any stack.\<close>

definition cyclic_schema :: json where
  "cyclic_schema = Obj
     [(''$defs'', Obj [(''Node'', Obj [(''properties'', Obj [(''next'', Obj [(''$ref'', Str ''#/$defs/Node'')])]),
         (''type'', Str ''object'')])]),
      (''$schema'', Str ''draft''), (''properties'', Obj [(''head'', Obj [(''$ref'', Str ''#/$defs/Node'')])]),
      (''title'', Str ''Root'')]"

lemma node_name: "trim_start_matches DEFS_PREFIX ''#/$defs/Node'' = ''Node''"
  by code_simp

lemma cyclic_overflow: "menu_root_of_schema n cyclic_schema = None"
proof -
  define node where "node = Obj [(''properties'', Obj [(''next'', Obj [(''$ref'', Str ''#/$defs/Node'')])]), (''type'', Str ''object'')]"
  let ?w = "\<lambda>path v. \<lparr>wk_path = path, wk_value = v, wk_defs = Some (Obj [(''Node'', node)])\<rparr>"
  have "as_element_type n (?w path node) required (Some ''Node'') = None \<and>
      as_element_type n (?w path (Obj [(''$ref'', Str ''#/$defs/Node'')])) required fname = None" for path required fname
  proof (induction n arbitrary: path required fname)
    case (Suc n)
    then show ?case
      by (simp add: element_step_def or_else_def handle_object_def menu_from_schema_def convert_ref_def field_def
          description_def get_str_def lift_err_def node_name node_def cbind_def)
  qed simp
  then show ?thesis
    by (simp add: menu_root_of_schema_def cyclic_schema_def required_field_as_string_def required_field_def field_def
        lift_err_def menu_from_schema_def description_def get_str_def node_def cbind_def)
qed

text \<open>An empty list of alternatives is indexed.\<close>

lemma empty_anyof_panics:
  "as_element_type (Suc n) \<lparr>wk_path = p, wk_value = Obj [(''anyOf'', Arr [])], wk_defs = d\<rparr> required fname = Some (Inl Panic)"
  by (simp add: element_step_def or_else_def handle_object_def convert_ref_def handle_oneof_def convert_item_def
      convert_anyof_def field_def cbind_def)

text \<open>A variant is known by the name of its type instead of the tag under which it is written.\<close>

definition tagged_schema :: json where
  "tagged_schema = Obj
     [(''$defs'', Obj [(''Dog'', Obj [(''properties'', Obj []), (''type'', Str ''object'')])]),
      (''$schema'', Str ''draft''),
      (''properties'', Obj [(''animal'', Obj [(''oneOf'', Arr
         [Obj [(''properties'', Obj [(''Canine'', Obj [(''$ref'', Str ''#/$defs/Dog'')])]), (''type'', Str ''object'')]])])]),
      (''title'', Str ''Root'')]"

lemma tag_not_accepted:
  "(case menu_root_of_schema 5 tagged_schema of
      Some (Inr r) \<Rightarrow>
        is_ok (fst (update_element (\<lambda>_. []) None (Obj [(''animal'', Obj [(''Dog'', Obj [])])]) (root_menu r))) \<and>
        \<not> is_ok (fst (update_element (\<lambda>_. []) None (Obj [(''animal'', Obj [(''Canine'', Obj [])])]) (root_menu r)))
    | _ \<Rightarrow> False)"
  by code_simp

end
