(* ===== verification/Menu_State_Properties.thy ===== *)
theory Menu_State_Properties
  imports Menu_State Menu_Schema_Properties
begin

text \<open>
  What editing through paths does: an edit changes the value it names and no other, no operation
  changes the shape of the tree, and a document that passes the check before saving lacks no
  required field.
\<close>

section \<open>Looking up after a change\<close>

function item_at :: "element \<Rightarrow> element_path \<Rightarrow> item_type option" where
  "item_at (Item b t) [] = Some t"
| "item_at (Menu b cs st) [] = None"
| "item_at (OneOf b vs sel d) [] = None"
| "item_at (Menu b cs st) (k # ks) = (case find_child k cs of None \<Rightarrow> None | Some i \<Rightarrow> item_at (cs ! i) ks)"
| "item_at (OneOf b vs sel d) (k # ks) = (case selected vs sel of None \<Rightarrow> None | Some v \<Rightarrow> item_at v (k # ks))"
| "item_at (Item b t) (k # ks) = None"
  by pat_completeness auto

termination by (relation "measures [\<lambda>(e, p). length p, \<lambda>(e, p). size e]") (auto dest: selected_size)

definition item_of :: "element \<Rightarrow> item_type option" where
  "item_of e = (case e of Item b t \<Rightarrow> Some t | _ \<Rightarrow> None)"

lemma item_at_resolve:
  "item_at e p = (case resolve_from full e p of Inl _ \<Rightarrow> None | Inr x \<Rightarrow> item_of x)"
proof (induction full e p rule: resolve_from.induct)
  case (1 full e)
  then show ?case by (cases e) (simp_all add: item_of_def)
next
  case (2 full b cs st k ks)
  then show ?case by (cases "find_child k cs") simp_all
next
  case (3 full b vs sel d k ks)
  then show ?case by (cases "selected vs sel") simp_all
qed simp

lemma position_map: "position p xs = position id (map p xs)"
  by (induction xs) simp_all

lemma position_cong: "map p xs = map p ys \<Longrightarrow> position p xs = position p ys"
  using position_map [of p xs] position_map [of p ys] by simp

lemma find_child_update:
  assumes "i < length cs" "base c = base (cs ! i)"
  shows "find_child k (cs[i := c]) = find_child k cs"
  unfolding find_child_def using assms by (intro position_cong list_update_map_same) simp_all

text \<open>An edit that keeps what it edits an item of the same field changes the item at that path only.\<close>

lemma modify_item:
  "modify_from full f e p = Inr (r, e') \<Longrightarrow> (\<And>x. base (snd (f x)) = base x) \<Longrightarrow>
   (\<And>x. is_ok (fst (f x)) \<Longrightarrow> \<exists>b t t'. x = Item b t \<and> snd (f x) = Item b t') \<Longrightarrow> is_ok r \<Longrightarrow>
     base e' = base e \<and> (\<exists>t b t'. item_at e p = Some t \<and> f (Item b t) = (r, Item b t') \<and>
       item_at e' = (item_at e)(p := Some t'))"
proof (induction full f e p arbitrary: r e' rule: modify_from.induct)
  case (1 full f e)
  then have fe: "f e = (r, e')" by simp
  with "1.prems"(3) [of e] "1.prems"(4) obtain b t t' where e: "e = Item b t" "e' = Item b t'" by auto
  have "item_at (Item b t') q = ((item_at (Item b t))([] := Some t')) q" for q by (cases q) simp_all
  then have "item_at (Item b t') = (item_at (Item b t))([] := Some t')" by (rule ext)
  with e fe show ?case by auto
next
  case (2 full f b cs st k ks)
  then obtain i c where i: "find_child k cs = Some i" "modify_from full f (cs ! i) ks = Inr (r, c)" "e' = Menu b (cs[i := c]) st"
    by (auto simp: rbind_Inr_iff split: option.splits)
  then have len: "i < length cs" by (auto simp: find_child_def dest: position_Some)
  from "2.IH" [OF i(1,2) "2.prems"(2-4)] obtain t b' t' where
    c: "base c = base (cs ! i)" "item_at (cs ! i) ks = Some t" "f (Item b' t) = (r, Item b' t')"
      "item_at c = (item_at (cs ! i))(ks := Some t')" by blast
  have "item_at e' q = ((item_at (Menu b cs st))(k # ks := Some t')) q" for q
  proof (cases q)
    case (Cons k' ks')
    show ?thesis
    proof (cases "find_child k' cs = Some i")
      case True
      with i(1) have "k' = k" by (auto simp: find_child_def dest!: position_Some)
      with Cons i c len show ?thesis by (simp add: find_child_update)
    next
      case False
      with i(1) have "k' \<noteq> k" by auto
      with Cons i(3) c(1) len False show ?thesis by (auto simp: find_child_update split: option.split)
    qed
  qed (simp add: i(3))
  then have "item_at e' = (item_at (Menu b cs st))(k # ks := Some t')" by (rule ext)
  with i c show ?case by auto
next
  case (3 full f b vs sel d k ks)
  then obtain v c where v: "selected vs sel = Some v" "modify_from full f v (k # ks) = Inr (r, c)"
    "e' = OneOf b (vs[the sel := c]) sel d"
    by (auto simp: rbind_Inr_iff split: option.splits)
  then have s: "selected (vs[the sel := c]) sel = Some c"
    by (auto simp: selected_def get_at_def split: Option.bind_splits if_splits)
  from "3.IH" [OF v(1,2) "3.prems"(2-4)] obtain t b' t' where
    c: "item_at v (k # ks) = Some t" "f (Item b' t) = (r, Item b' t')" "item_at c = (item_at v)(k # ks := Some t')" by blast
  have "item_at e' q = ((item_at (OneOf b vs sel d))(k # ks := Some t')) q" for q
    using v(1,3) s c(3) by (cases q) simp_all
  then have "item_at e' = (item_at (OneOf b vs sel d))(k # ks := Some t')" by (rule ext)
  with v c show ?case by auto
next
  case (4 full f b t k ks)
  then show ?case by simp
qed

text \<open>A change that gives back the same element changes nothing.\<close>

lemma modify_same:
  "modify_from full f e p = Inr (r, e') \<Longrightarrow> (\<And>x. \<not> is_ok (fst (f x)) \<Longrightarrow> snd (f x) = x) \<Longrightarrow> \<not> is_ok r \<Longrightarrow> e' = e"
proof (induction full f e p arbitrary: r e' rule: modify_from.induct)
  case (1 full f e)
  from "1.prems"(2) [of e] "1.prems"(1,3) show ?case by simp
next
  case (2 full f b cs st k ks)
  then obtain i c where i: "find_child k cs = Some i" "modify_from full f (cs ! i) ks = Inr (r, c)" "e' = Menu b (cs[i := c]) st"
    by (auto simp: rbind_Inr_iff split: option.splits)
  from "2.IH" [OF i(1,2) "2.prems"(2,3)] i(3) show ?case by simp
next
  case (3 full f b vs sel d k ks)
  then obtain v c where v: "selected vs sel = Some v" "modify_from full f v (k # ks) = Inr (r, c)"
    "e' = OneOf b (vs[the sel := c]) sel d"
    by (auto simp: rbind_Inr_iff split: option.splits)
  then have "v = vs ! the sel" by (auto simp: selected_def get_at_def split: Option.bind_splits if_splits)
  with "3.IH" [OF v(1,2) "3.prems"(2,3)] v(3) show ?case by simp
qed simp

text \<open>A change reaches an item exactly where there is one.\<close>

lemma modify_found:
  "item_at e p = Some t \<Longrightarrow> \<exists>b e'. modify_from full f e p = Inr (fst (f (Item b t)), e')"
proof (induction e p arbitrary: t rule: item_at.induct)
  case (1 b t')
  then show ?case by (cases "f (Item b t)") (auto intro!: exI [of _ b])
next
  case (4 b cs st k ks)
  then obtain i where i: "find_child k cs = Some i" "item_at (cs ! i) ks = Some t" by (auto split: option.splits)
  from "4.IH" [OF this] obtain b' e' where "modify_from full f (cs ! i) ks = Inr (fst (f (Item b' t)), e')" by blast
  with i show ?case by auto
next
  case (5 b vs sel d k ks)
  then obtain v where v: "selected vs sel = Some v" "item_at v (k # ks) = Some t" by (auto split: option.splits)
  from "5.IH" [OF this] obtain b' e' where "modify_from full f v (k # ks) = Inr (fst (f (Item b' t)), e')" by blast
  with v show ?case by auto
qed simp_all

lemma set_tree_same [simp]: "set_tree (tree st) st = st"
  by (simp add: set_tree_def)

lemma edit_item_at:
  fixes st :: "'h app_state"
  assumes "edit_item kind g p st = (r, st')"
  shows "case Option.bind (item_at (tree st) p) g of
      Some (Inr t') \<Rightarrow> r = Inr () \<and> item_at (tree st') = (item_at (tree st))(p := Some t') \<and> needs_save st'
    | _ \<Rightarrow> \<not> is_ok r \<and> st' = st"
proof -
  define f where "f = (\<lambda>e. case (case e of Item b t \<Rightarrow> g t | _ \<Rightarrow> None) of
         Some (Inr t) \<Rightarrow> (Inr (), Item (base e) t)
       | Some (Inl err) \<Rightarrow> (Inl err, e)
       | None \<Rightarrow> (Inl (NotA kind p), e))"
  have f_item: "f (Item b t) = (case g t of None \<Rightarrow> (Inl (NotA kind p), Item b t)
      | Some (Inl err) \<Rightarrow> (Inl err, Item b t) | Some (Inr t) \<Rightarrow> (Inr (), Item b t))" for b t
    by (simp add: f_def split: option.split sum.split)
  have b: "base (snd (f x)) = base x" for x
    by (cases x) (auto simp: f_def split: option.splits sum.splits)
  have ok: "\<exists>b t t'. x = Item b t \<and> snd (f x) = Item b t'" if "is_ok (fst (f x))" for x
    using that by (cases x) (auto simp: f_def split: option.splits sum.splits)
  have same: "snd (f x) = x" if "\<not> is_ok (fst (f x))" for x
    using that by (cases x) (auto simp: f_def split: option.splits sum.splits)
  have edit: "edit_item kind g p st = (case modify_from p f (tree st) p of
        Inl _ \<Rightarrow> (Inl (MissingElement p), st)
      | Inr (Inl e, t) \<Rightarrow> (Inl e, set_tree t st)
      | Inr (Inr _, t) \<Rightarrow> (Inr (), mark_dirty (set_tree t st)))"
    by (simp add: edit_item_def with_element_def resolve_mut_def f_def)
  show ?thesis
  proof (cases "modify_from p f (tree st) p")
    case (Inl e)
    then have "item_at (tree st) p = None"
      using modify_found [of "tree st" p _ p f] by (cases "item_at (tree st) p") auto
    with Inl edit assms show ?thesis by auto
  next
    case (Inr q)
    obtain x e' where q: "q = (x, e')" by (cases q)
    show ?thesis
    proof (cases x)
      case (Inl err)
      with Inr q modify_same [of p f "tree st" p x e'] same have "e' = tree st" by simp
      moreover have "Option.bind (item_at (tree st) p) g \<noteq> Some (Inr t')" for t'
        using modify_found [of "tree st" p _ p f] Inr q Inl f_item by (cases "item_at (tree st) p") auto
      ultimately show ?thesis using Inr q Inl edit assms
        by (auto split: option.split sum.split)
    next
      case x: (Inr u)
      with Inr q modify_item [of p f "tree st" p x e'] b ok obtain t b t' where
        t: "item_at (tree st) p = Some t" "f (Item b t) = (x, Item b t')"
        "item_at e' = (item_at (tree st))(p := Some t')" by auto
      from t(2) x have "g t = Some (Inr t')" by (auto simp: f_item split: option.splits sum.splits)
      with t x Inr q edit assms show ?thesis by (auto simp: mark_dirty_def set_tree_def)
    qed
  qed
qed

section \<open>Edits\<close>

datatype edit = SetString string | SetStrings "string list" | SetInteger i64 | SetNumber f64 | SetVariant string | Toggle

fun apply_edit :: "edit \<Rightarrow> element_path \<Rightarrow> 'h app_state \<Rightarrow> (app_error + unit) \<times> 'h app_state" where
  "apply_edit (SetString v) p st = set_string p v st"
| "apply_edit (SetStrings vs) p st = set_string_array p vs st"
| "apply_edit (SetInteger i) p st = set_integer p i st"
| "apply_edit (SetNumber f) p st = set_number p f st"
| "apply_edit (SetVariant v) p st = set_enum_variant p v st"
| "apply_edit Toggle p st = toggle_bool p st"

text \<open>What an edit should make of an item, if it applies to it.\<close>

definition edited :: "edit \<Rightarrow> item_type \<Rightarrow> item_type option" where
  "edited ed t =
     (case (ed, t) of
        (SetString v, StringItem x d) \<Rightarrow> Some (StringItem (Some v) d)
      | (SetStrings vs, ArrayItem a) \<Rightarrow> Some (ArrayItem (a\<lparr>ar_values := vs\<rparr>))
      | (SetInteger i, IntegerItem x d) \<Rightarrow> Some (IntegerItem (Some i) d)
      | (SetNumber f, NumberItem x d) \<Rightarrow> Some (NumberItem (Some f) d)
      | (SetVariant v, EnumItem e) \<Rightarrow> map_option (\<lambda>i. EnumItem (e\<lparr>en_value := Some i\<rparr>)) (position (\<lambda>c. c = v) (en_variants e))
      | (Toggle, BooleanItem x d) \<Rightarrow> Some (BooleanItem (\<not> x) d)
      | _ \<Rightarrow> None)"

text \<open>
  C25: An edit sets the value it names and nothing else. Setting a string, a list of strings, an
  integer, a number or an enumeration by the path of a field, or toggling a truth value, succeeds
  exactly when there is an item of that type at the path (and the variant is one of the
  enumeration's); then the item has the new value with its default and variants as before, every
  other item of the tree is as it was, and the document is marked for saving. Otherwise the state
  does not change at all.
\<close>

theorem edits_are_local:
  fixes st :: "'h app_state"
  assumes "apply_edit ed p st = (r, st')"
  shows "case Option.bind (item_at (tree st) p) (edited ed) of
      Some t' \<Rightarrow> r = Inr () \<and> item_at (tree st') = (item_at (tree st))(p := Some t') \<and> needs_save st'
    | None \<Rightarrow> \<not> is_ok r \<and> st' = st"
proof (cases ed)
  case (SetString v)
  with edit_item_at [of AString _ p st r st'] assms show ?thesis
    by (force simp: set_string_def edited_def split: option.splits item_type.splits Option.bind_splits)
next
  case (SetStrings vs)
  with edit_item_at [of AnArray _ p st r st'] assms show ?thesis
    by (force simp: set_string_array_def edited_def split: option.splits item_type.splits Option.bind_splits)
next
  case (SetInteger i)
  with edit_item_at [of AnInteger _ p st r st'] assms show ?thesis
    by (force simp: set_integer_def edited_def split: option.splits item_type.splits Option.bind_splits)
next
  case (SetNumber f)
  with edit_item_at [of ANumber _ p st r st'] assms show ?thesis
    by (force simp: set_number_def edited_def split: option.splits item_type.splits Option.bind_splits)
next
  case (SetVariant v)
  with edit_item_at [of AnEnum _ p st r st'] assms show ?thesis
    by (force simp: set_enum_variant_def edited_def split: option.splits item_type.splits Option.bind_splits)
next
  case Toggle
  with edit_item_at [of ABool _ p st r st'] assms show ?thesis
    by (force simp: toggle_bool_def edited_def split: option.splits item_type.splits Option.bind_splits)
qed

definition demo_state :: "unit app_state" where
  "demo_state = app_new \<lparr>doc_root = \<lparr>root_version = [], root_title = [], root_menu = demo_menu None (Some 0)\<rparr>, doc_config = ''c.json''\<rparr>"

lemma demo_edit:
  "apply_edit (SetVariant ''safe'') [''mode''] demo_state = (Inr (), mark_dirty (set_tree (demo_menu None (Some 1)) demo_state))"
  by code_simp

theorem edits_are_local_witness:
  "item_at (tree (set_tree (demo_menu None (Some 1)) demo_state)) =
     (item_at (tree demo_state))([''mode''] := Some (EnumItem \<lparr>en_variants = [''fast'', ''safe''], en_value = Some 1, en_default = None\<rparr>))"
proof -
  have "Option.bind (item_at (tree demo_state) [''mode'']) (edited (SetVariant ''safe'')) =
      Some (EnumItem \<lparr>en_variants = [''fast'', ''safe''], en_value = Some 1, en_default = None\<rparr>)"
    by code_simp
  with edits_are_local [OF demo_edit] show ?thesis by (simp add: mark_dirty_def)
qed

section \<open>Nothing changes the shape\<close>

text \<open>Every enumeration has a variant to select.\<close>

fun inhabited :: "element \<Rightarrow> bool" where
  "inhabited (Menu b cs st) \<longleftrightarrow> list_all inhabited cs"
| "inhabited (OneOf b vs sel d) \<longleftrightarrow> list_all inhabited vs"
| "inhabited (Item b t) \<longleftrightarrow> (case t of EnumItem e \<Rightarrow> en_variants e \<noteq> [] | _ \<Rightarrow> True)"

lemma inhabited_blank: "inhabited (blank e) = inhabited e"
proof (induction e rule: inhabited.induct)
  case (3 b t)
  then show ?case by (cases t) simp_all
qed (auto simp: list_all_iff)

definition keeps_shape :: "element \<Rightarrow> element \<Rightarrow> bool" where
  "keeps_shape x y \<longleftrightarrow> blank y = blank x \<and> (inhabited x \<longrightarrow> valid x \<longrightarrow> valid y)"

lemma keeps_shape_refl [simp]: "keeps_shape x x"
  by (simp add: keeps_shape_def)

lemma keeps_shape_trans: "keeps_shape x y \<Longrightarrow> keeps_shape y z \<Longrightarrow> keeps_shape x z"
  unfolding keeps_shape_def by (metis inhabited_blank)

lemma keeps_shape_list:
  assumes "i < length xs" "keeps_shape (xs ! i) y"
  shows "map blank (xs[i := y]) = map blank xs" "list_all inhabited xs \<Longrightarrow> list_all valid xs \<Longrightarrow> list_all valid (xs[i := y])"
  using assms by (auto simp: keeps_shape_def list_update_map_same list_all_iff dest!: set_update_subset_insert [THEN subsetD])

lemma modify_shape:
  "modify_from full f e p = Inr (r, e') \<Longrightarrow> (\<And>x. keeps_shape x (snd (f x))) \<Longrightarrow> keeps_shape e e'"
proof (induction full f e p arbitrary: r e' rule: modify_from.induct)
  case (1 full f e)
  from "1.prems"(2) [of e] "1.prems"(1) show ?case by simp
next
  case (2 full f b cs st k ks)
  then obtain i c where i: "find_child k cs = Some i" "modify_from full f (cs ! i) ks = Inr (r, c)" "e' = Menu b (cs[i := c]) st"
    by (auto simp: rbind_Inr_iff split: option.splits)
  then have "i < length cs" by (auto simp: find_child_def dest: position_Some)
  from keeps_shape_list [OF this "2.IH" [OF i(1,2) "2.prems"(2)]] i(3) show ?case by (simp add: keeps_shape_def)
next
  case (3 full f b vs sel d k ks)
  then obtain v c where v: "selected vs sel = Some v" "modify_from full f v (k # ks) = Inr (r, c)"
    "e' = OneOf b (vs[the sel := c]) sel d"
    by (auto simp: rbind_Inr_iff split: option.splits)
  then have s: "v = vs ! the sel" "the sel < length vs"
    by (auto simp: selected_def get_at_def split: Option.bind_splits if_splits)
  with "3.IH" [OF v(1,2) "3.prems"(2)] have "keeps_shape (vs ! the sel) c" by simp
  from keeps_shape_list [OF s(2) this] v(3) show ?case by (simp add: keeps_shape_def)
qed simp

lemma with_element_shape:
  assumes "with_element f p st = (r, st')" "\<And>x. keeps_shape x (snd (f x))"
  shows "keeps_shape (tree st) (tree st') \<and> nav_stack st' = nav_stack st"
  using assms(1) modify_shape [of p f "tree st" p] assms(2)
  by (auto simp: with_element_def resolve_mut_def set_tree_def mark_dirty_def split: sum.splits prod.splits)

lemma edited_shape: "edited ed t = Some t' \<Longrightarrow> item_clear t' = item_clear t \<and> (item_valid t \<longrightarrow> item_valid t')"
  by (cases ed; cases t) (auto simp: edited_def dest: position_Some)

lemma set_none_shape: "keeps_shape x (set_none x)"
proof (cases x)
  case (Item b t)
  then show ?thesis by (cases t) (auto simp: keeps_shape_def set_none_def)
qed (auto simp: keeps_shape_def set_none_def)

lemma set_selected_index_shape: "keeps_shape (OneOf b vs sel d) (snd (set_selected_index i b vs sel d))"
proof (cases "i < length vs")
  case True
  let ?v = "case vs ! i of Menu mb cs st \<Rightarrow> Menu mb cs True
            | Item ib (EnumItem e) \<Rightarrow> Item ib (EnumItem (e\<lparr>en_value := Some 0\<rparr>))
            | _ \<Rightarrow> vs ! i"
  have "keeps_shape (vs ! i) ?v"
    by (auto simp: keeps_shape_def split: element.split item_type.split)
  note keep = keeps_shape_list [OF True this]
  from True have "set_selected_index i b vs sel d = (Inr (), OneOf b (vs[i := ?v]) (Some i) d)"
    by (simp add: set_selected_index_def get_at_def)
  then show ?thesis using keep True by (simp add: keeps_shape_def)
qed (simp add: set_selected_index_def get_at_def)

lemma edit_shape:
  assumes "apply_edit ed p st = (r, st')"
  shows "keeps_shape (tree st) (tree st') \<and> nav_stack st' = nav_stack st"
proof -
  have "keeps_shape (tree st) (tree st') \<and> nav_stack st' = nav_stack st"
    if e: "edit_item kind g p st = (r, st')"
      and g: "\<And>t t'. g t = Some (Inr t') \<Longrightarrow> item_clear t' = item_clear t \<and> (item_valid t \<longrightarrow> item_valid t')"
    for kind g
    using e unfolding edit_item_def
  proof (rule with_element_shape)
    fix x
    show "keeps_shape x (snd (case (case x of Item b t \<Rightarrow> g t | _ \<Rightarrow> None) of
         Some (Inr t) \<Rightarrow> (Inr (), Item (base x) t)
       | Some (Inl err) \<Rightarrow> (Inl err, x)
       | None \<Rightarrow> (Inl (NotA kind p), x)))"
      using g by (cases x) (auto simp: keeps_shape_def split: option.split sum.split)
  qed
  note shape = this
  show ?thesis
  proof (cases ed)
    case (SetString v)
    with assms show ?thesis by (intro shape [of AString]) (auto simp: set_string_def split: item_type.splits)
  next
    case (SetStrings v)
    with assms show ?thesis by (intro shape [of AnArray]) (auto simp: set_string_array_def split: item_type.splits)
  next
    case (SetInteger v)
    with assms show ?thesis by (intro shape [of AnInteger]) (auto simp: set_integer_def split: item_type.splits)
  next
    case (SetNumber v)
    with assms show ?thesis by (intro shape [of ANumber]) (auto simp: set_number_def split: item_type.splits)
  next
    case (SetVariant v)
    with assms show ?thesis
      by (intro shape [of AnEnum]) (auto simp: set_enum_variant_def split: item_type.splits option.splits dest!: position_Some)
  next
    case Toggle
    with assms show ?thesis by (intro shape [of ABool]) (auto simp: toggle_bool_def split: item_type.splits)
  qed
qed

text \<open>What a user does between opening and closing the editor.\<close>

inductive app_step :: "'h app_state \<Rightarrow> 'h app_state \<Rightarrow> bool" where
  edit: "apply_edit ed p st = (r, st') \<Longrightarrow> app_step st st'"
| choose: "set_oneof_index p i st = (r, st') \<Longrightarrow> app_step st st'"
| clear: "clear_optional p st = (r, st') \<Longrightarrow> app_step st st'"
| toggle: "toggle_menu_set p st = (r, st') \<Longrightarrow> app_step st st'"
| enter: "app_step st (enter_menu p st)"
| leave: "navigate_back st = (b, st') \<Longrightarrow> app_step st st'"
| select: "set_selected i st = Some st' \<Longrightarrow> app_step st st'"
| move: "move_selection delta st = Some st' \<Longrightarrow> app_step st st'"
| discard: "app_step st (discard_changes st)"

lemma set_selected_frame: "set_selected i st = Some st' \<Longrightarrow> tree st' = tree st \<and> (nav_stack st \<noteq> [] \<longrightarrow> nav_stack st' \<noteq> [])"
  by (auto simp: set_selected_def split: option.splits)

lemma move_selection_frame: "move_selection d st = Some st' \<Longrightarrow> tree st' = tree st \<and> (nav_stack st \<noteq> [] \<longrightarrow> nav_stack st' \<noteq> [])"
  using set_selected_frame
  by (auto simp: move_selection_def Let_def split: Option.bind_splits option.splits if_splits)

lemma app_step_shape:
  "app_step st st' \<Longrightarrow> keeps_shape (tree st) (tree st') \<and> (nav_stack st \<noteq> [] \<longrightarrow> nav_stack st' \<noteq> [])"
proof (induction rule: app_step.induct)
  case (edit ed p st r st')
  then show ?case using edit_shape by metis
next
  case (choose p i st r st')
  have "keeps_shape x (snd (case x of OneOf b vs sel d \<Rightarrow> apfst (map_sum Schema id) (set_selected_index i b vs sel d)
       | _ \<Rightarrow> (Inl (NotAOneOf p), x)))" for x
    using set_selected_index_shape by (cases x) simp_all
  from with_element_shape [OF choose [unfolded set_oneof_index_def] this] show ?case by simp
next
  case (clear p st r st')
  have "keeps_shape x (snd (if el_required (base x) then (Inl (RequiredElement p), x) else (Inr (), set_none x)))" for x
    using set_none_shape by simp
  from with_element_shape [OF clear [unfolded clear_optional_def] this] show ?case by simp
next
  case (toggle p st r st')
  have "keeps_shape x (snd (case x of
         Menu b cs st \<Rightarrow> if el_required b then (Inl (RequiredMenu p), x) else (Inr (), Menu b cs (\<not> st))
       | _ \<Rightarrow> (Inl (NotAMenu p), x)))" for x
    by (cases x) (simp_all add: keeps_shape_def)
  from with_element_shape [OF toggle [unfolded toggle_menu_set_def] this] show ?case by simp
next
  case (leave st b st')
  then show ?case by (cases "nav_stack st" rule: rev_cases) (auto simp: navigate_back_def split: if_splits)
next
  case (select i st st')
  then show ?case using set_selected_frame by (metis keeps_shape_refl)
next
  case (move delta st st')
  then show ?case using move_selection_frame by (metis keeps_shape_refl)
qed (simp_all add: enter_menu_def discard_changes_def)

lemma app_steps_shape:
  assumes "app_step\<^sup>*\<^sup>* st st'" "nav_stack st \<noteq> []"
  shows "keeps_shape (tree st) (tree st') \<and> nav_stack st' \<noteq> []"
  using assms(1)
proof (induction rule: rtranclp_induct)
  case base
  with assms(2) show ?case by simp
next
  case (step y z)
  with app_step_shape keeps_shape_trans show ?case by metis
qed

lemma loaded_document:
  assumes "new_with_init_and_schema n fmt init path schema = Done d"
  obtains r where "menu_root_of_schema n schema = Some (Inr r)" "blank (root_menu (doc_root d)) = blank (root_menu r)"
    "valid (root_menu r) \<Longrightarrow> valid (root_menu (doc_root d))"
proof -
  from assms obtain r r' where r: "of_schema n schema = Done r" "load_config fmt path init r = Inr r'" "doc_root d = r'"
    by (auto simp: new_with_init_and_schema_def document_of_def split: outcome.splits sum.splits)
  from r(1) have "menu_root_of_schema n schema = Some (Inr r)"
    by (auto simp: of_schema_def split: option.splits sum.splits schema_fault.splits)
  moreover have "blank (root_menu r') = blank (root_menu r) \<and> (valid (root_menu r) \<longrightarrow> valid (root_menu r'))"
  proof (cases "trim init = []")
    case True
    with r(2) show ?thesis by (simp add: load_config_def)
  next
    case False
    with r(2) obtain v where v: "(case update_element (print_float fmt) None v (root_menu r) of
        (Inl e, _) \<Rightarrow> Inl (Schema e) | (Inr _, m) \<Rightarrow> Inr (r\<lparr>root_menu := m\<rparr>)) = Inr r'"
      by (auto simp: load_config_def rbind_Inr_iff)
    obtain x m where u: "update_element (print_float fmt) None v (root_menu r) = (x, m)"
      by (cases "update_element (print_float fmt) None v (root_menu r)")
    with v have "root_menu r' = m" by (cases x) auto
    with update_shape(1) [OF u] show ?thesis by simp
  qed
  ultimately show thesis using that r(3) by blast
qed

text \<open>
  C27: The tree keeps the shape its schema gave it. Open a document by converting a schema and loading a
  configuration, then edit, select, clear and navigate in any way: the fields, their types, defaults
  and names are those of the conversion, the menu stack is not empty, so asking for the current menu
  does not panic, and if every enumeration has a variant, every selected index is in range.
\<close>

theorem session_keeps_shape:
  assumes "new_with_init_and_schema n fmt init path schema = Done d" "good_schema schema"
    and "app_step\<^sup>*\<^sup>* (app_new d) st"
  shows "\<exists>r. menu_root_of_schema n schema = Some (Inr r) \<and> blank (tree st) = root_menu r \<and>
    well_named (tree st) \<and> current_menu st \<noteq> None \<and> (if inhabited (tree st) then valid (tree st) else True)"
proof -
  obtain r where r: "menu_root_of_schema n schema = Some (Inr r)" "blank (root_menu (doc_root d)) = blank (root_menu r)"
    "valid (root_menu r) \<Longrightarrow> valid (root_menu (doc_root d))"
    using loaded_document [OF assms(1)] by blast
  note root = root_of_schema [OF r(1) assms(2)]
  have shape: "keeps_shape (root_menu (doc_root d)) (tree st)" "nav_stack st \<noteq> []"
    using app_steps_shape [OF assms(3)] by (simp_all add: app_new_def)
  have "blank (tree st) = root_menu r" using shape(1) r(2) root by (simp add: keeps_shape_def)
  moreover from this root have "well_named (tree st)" by (metis well_named_blank)
  moreover have "current_menu st \<noteq> None" using shape(2) by (simp add: current_menu_def current_state_def)
  moreover have "inhabited (tree st) \<Longrightarrow> valid (tree st)"
    using shape(1) r(3) root unfolding keeps_shape_def by (metis inhabited_blank)
  ultimately show ?thesis using r(1) by auto
qed

definition demo_formats :: formats where
  "demo_formats = \<lparr>parse_json = (\<lambda>_. Inr (Obj [(''name'', Str ''x'')])), parse_toml = (\<lambda>_. Inr Null),
     print_json = (\<lambda>_. Inr []), print_toml = (\<lambda>_. Inr []), print_float = (\<lambda>_. [])\<rparr>"

definition demo_document :: document where
  "demo_document = \<lparr>doc_root = \<lparr>root_version = ''draft'', root_title = ''Root'', root_menu = demo_root False None (Some ''x'')\<rparr>,
     doc_config = ''c.json''\<rparr>"

lemma demo_open: "new_with_init_and_schema 5 demo_formats ''{}'' ''c.json'' demo_schema = Done demo_document"
proof -
  have "trim ''{}'' = ''{}''" by (rule trim_printable) (simp_all add: printable_def)
  moreover have "of_schema 5 demo_schema = Done \<lparr>root_version = ''draft'', root_title = ''Root'', root_menu = demo_root False None None\<rparr>"
    using demo_schema_root by (simp add: of_schema_def)
  moreover have "parse_config demo_formats ''c.json'' ''{}'' = Inr (Obj [(''name'', Str ''x'')])" by code_simp
  moreover have "update_element (\<lambda>_. []) None (Obj [(''name'', Str ''x'')]) (demo_root False None None) =
      (Inr (), demo_root False None (Some ''x''))" by code_simp
  ultimately show ?thesis
    by (simp add: new_with_init_and_schema_def load_config_def document_of_def demo_document_def demo_formats_def)
qed

theorem session_keeps_shape_witness:
  "\<exists>st. app_step\<^sup>*\<^sup>* (app_new demo_document :: unit app_state) st \<and> needs_save st \<and>
     blank (tree st) = demo_root False None None \<and> current_menu st \<noteq> None"
proof -
  let ?st = "snd (set_oneof_index [''animal''] 1 (app_new demo_document :: unit app_state))"
  have "app_step (app_new demo_document) ?st" by (rule choose [of "[''animal'']" 1 _ "fst (set_oneof_index [''animal''] 1 (app_new demo_document :: unit app_state))"]) simp
  then have steps: "app_step\<^sup>*\<^sup>* (app_new demo_document) ?st" by blast
  have "good_schema demo_schema" "needs_save ?st" by code_simp+
  with session_keeps_shape [OF demo_open _ steps] demo_schema_root steps show ?thesis by auto
qed

section \<open>The check before saving\<close>

text \<open>The elements a saved document speaks of: the fields of the menus that are required or set, and
  the selected variants.\<close>

inductive saved_part :: "element \<Rightarrow> element \<Rightarrow> bool" where
  part_self: "saved_part e e"
| part_field: "el_required b \<or> st \<Longrightarrow> c \<in> set cs \<Longrightarrow> saved_part c x \<Longrightarrow> saved_part (Menu b cs st) x"
| part_variant: "selected vs sel = Some v \<Longrightarrow> saved_part v x \<Longrightarrow> saved_part (OneOf b vs sel d) x"

inductive_simps saved_part_simps:
  "saved_part (Menu b cs st) x" "saved_part (OneOf b vs sel d) x" "saved_part (Item b t) x"

fun lacks_value :: "element \<Rightarrow> bool" where
  "lacks_value (Menu b cs st) \<longleftrightarrow> False"
| "lacks_value (OneOf b vs sel d) \<longleftrightarrow> selected vs sel = None"
| "lacks_value (Item b t) \<longleftrightarrow> item_is_none t"

lemma collect_missing_iff:
  "collect_missing e = [] \<longleftrightarrow> (\<forall>x. saved_part e x \<longrightarrow> el_required (base x) \<longrightarrow> \<not> lacks_value x)"
proof (induction e rule: collect_missing.induct)
  case (1 b cs st)
  show ?case
  proof (cases "el_required b \<or> st")
    case True
    with 1 show ?thesis by (auto simp: saved_part_simps)
  qed (auto simp: saved_part_simps)
next
  case (2 b vs sel d)
  then show ?case by (cases "selected vs sel") (auto simp: saved_part_simps)
next
  case (3 b t)
  then show ?case by (auto simp: saved_part_simps)
qed

lemma collect_missing_part: "saved_part e x \<Longrightarrow> collect_missing e = [] \<Longrightarrow> collect_missing x = []"
  by (induction rule: saved_part.induct) auto

lemma saved_part_named: "saved_part e x \<Longrightarrow> well_named e \<Longrightarrow> well_named x"
  by (induction rule: saved_part.induct) (auto simp: list_all_iff dest: selected_mem)

text \<open>An alternative writes under its own name only.\<close>

lemma well_named_plain: "well_named e \<Longrightarrow> plain e"
proof (induction e rule: as_json_fields_json.induct(1) [where Q = "\<lambda>_ _. True"])
  case (2 b vs sel d)
  show ?case
  proof (cases "selected vs sel")
    case None
    then show ?thesis by (simp add: plain_def)
  next
    case (Some v)
    then have n: "well_named v" "field_name (base v) = field_name b"
      using "2.prems" selected_mem [OF Some] by (auto simp: list_all_iff)
    show ?thesis
    proof (cases v)
      case (Menu mb cs st)
      with Some n show ?thesis by (simp add: plain_def)
    next
      case (Item ib t)
      with Some item_json_no_object [of t] show ?thesis by (simp add: plain_def split: json.splits)
    next
      case (OneOf b' vs' sel' d')
      with 2 Some n(1) have "plain v" by simp
      moreover have "as_json (OneOf b vs sel d) = as_json v" using Some OneOf by simp
      ultimately show ?thesis using OneOf n(2) by (simp only: plain_def element.case element.sel)
    qed
  qed
qed (simp_all add: plain_def)

text \<open>
  C26: What is saved lacks nothing. The check before saving passes exactly when no required element of
  a menu that is set, or of a selected variant, is without a value; and when it passes, in the saved
  form of every such menu each required field is present under its name, with what it saves. So a
  program that reads the file finds all the fields the schema requires.
\<close>

theorem save_complete:
  assumes "well_named (tree st)"
  shows "(is_ok (validate_before_save st) \<longleftrightarrow>
      (\<forall>x. saved_part (tree st) x \<longrightarrow> el_required (base x) \<longrightarrow> \<not> lacks_value x)) \<and>
    (is_ok (validate_before_save st) \<longrightarrow>
      (\<forall>b cs s c. saved_part (tree st) (Menu b cs s) \<longrightarrow> el_required b \<or> s \<longrightarrow> c \<in> set cs \<longrightarrow> el_required (base c) \<longrightarrow>
        as_json (Menu b cs s) = Obj (fields_json cs []) \<and>
        map_of (fields_json cs []) (field_name (base c)) = Some (saved c)))"
proof (intro conjI impI allI)
  show "is_ok (validate_before_save st) \<longleftrightarrow>
      (\<forall>x. saved_part (tree st) x \<longrightarrow> el_required (base x) \<longrightarrow> \<not> lacks_value x)"
    using collect_missing_iff [of "tree st"] by (simp add: validate_before_save_def missing_required_paths_def)
next
  fix b cs s c
  assume v: "is_ok (validate_before_save st)" and m: "saved_part (tree st) (Menu b cs s)" "el_required b \<or> s"
    and c: "c \<in> set cs" "el_required (base c)"
  have "collect_missing (tree st) = []"
    using v by (simp add: validate_before_save_def missing_required_paths_def split: if_splits)
  from collect_missing_part [OF m(1) this] have "collect_missing (Menu b cs s) = []" .
  then have "\<not> lacks_value c"
    using collect_missing_iff [of "Menu b cs s"] m(2) c part_self part_field by blast
  then have "\<not> is_none c" using c(2) by (cases c) (auto simp: selected_def bind_eq_Some_conv)
  then have mem: "(field_name (base c), saved c) \<in> set (entries cs)" using c(1) by (auto simp: entries_def)
  have n: "well_named (Menu b cs s)" using saved_part_named [OF m(1) assms] .
  then have d: "distinct (map (field_name \<circ> base) cs)" and p: "\<And>c. c \<in> set cs \<Longrightarrow> \<not> is_none c \<Longrightarrow> plain c"
    using well_named_plain by (auto simp: list_all_iff)
  from fields_json_map(2) [OF d p] distinct_entries [OF d] mem
  show "map_of (fields_json cs []) (field_name (base c)) = Some (saved c)" by simp
qed simp

definition demo_complete :: "unit app_state" where
  "demo_complete = set_tree (demo_root True (Some 1) (Some ''x'')) (app_new demo_document)"

theorem save_complete_witness:
  "is_ok (validate_before_save demo_complete) \<and>
   map_of (fields_json (menu_children (demo_root True (Some 1) (Some ''x''))) []) ''name'' = Some (Str ''x'')"
proof -
  let ?c = "Item (demo_base ''name'' True ''string'') (StringItem (Some ''x'') None)"
  have t: "tree demo_complete = demo_root True (Some 1) (Some ''x'')"
    by (simp add: demo_complete_def set_tree_def)
  have "is_ok (validate_before_save demo_complete)" "well_named (tree demo_complete)" by code_simp+
  moreover obtain cs where cs: "demo_root True (Some 1) (Some ''x'') = Menu (demo_base [] True ''Root'') cs True" "?c \<in> set cs"
    by (auto simp: demo_root_def)
  moreover have "field_name (base ?c) = ''name''" "saved ?c = Str ''x''" "el_required (base ?c)"
    by code_simp+
  ultimately show ?thesis
    using save_complete [of demo_complete] t part_self [of "tree demo_complete"]
    by (fastforce simp: demo_base_def)
qed

section \<open>Files that are written but not read\<close>

text \<open>A configuration with the extension \<open>tml\<close> is written in the TOML format and refused by the loader.\<close>

lemma tml_not_reloaded:
  "extension ''a.tml'' = Some ''tml''"
  "doc_config d = ''a.tml'' \<Longrightarrow> render fmt d = print_toml fmt (document_json d)"
  "parse_config fmt ''a.tml'' content = Inl (UnsupportedExtension ''tml'')"
proof -
  show e: "extension ''a.tml'' = Some ''tml''" by code_simp
  show "doc_config d = ''a.tml'' \<Longrightarrow> render fmt d = print_toml fmt (document_json d)" by (simp add: render_def e)
  show "parse_config fmt ''a.tml'' content = Inl (UnsupportedExtension ''tml'')" by (simp add: parse_config_def e)
qed

section \<open>Navigation\<close>

text \<open>A selection that is set stays within the menu.\<close>

lemma set_selected_bound:
  assumes "set_selected i st = Some st'" "current_menu st = Some (Some menu)" "menu_children menu \<noteq> []"
  shows "ms_selected (last (nav_stack st')) < length (menu_children menu)"
proof -
  have "min i (length (menu_children menu) - 1) < length (menu_children menu)"
    using assms(3) by (cases "menu_children menu") auto
  with assms show ?thesis by (auto simp: set_selected_def)
qed

text \<open>Leaving a menu after entering one restores the state.\<close>

lemma back_after_enter: "nav_stack st \<noteq> [] \<Longrightarrow> navigate_back (enter_menu p st) = (True, st)"
  by (auto simp: navigate_back_def enter_menu_def)

section \<open>Two lookups\<close>

text \<open>The older lookup finds an item that is a selected variant under any name at all.\<close>

lemma lookups_disagree:
  fixes ob ib :: element_base
  assumes "field_name ob = ''animal''"
  defines "root \<equiv> Menu ib [OneOf ob [Item ib (StringItem None None)] (Some 0) None] True"
  shows "get_by_key root ''animal.anything'' = Some (Some (Item ib (StringItem None None)))"
    "resolve root [''animal'', ''anything''] = Inl (MissingPath ''animal.anything'')"
  using assms(1) by (simp_all add: root_def get_by_key_def resolve_def find_child_def selected_def get_at_def as_key_def)

end
