(* ===== verification/Spec2Isabelle.thy ===== *)
theory Spec2Isabelle
  imports Fit_Properties Crc16 Crc32 Ymodem Serial_Protocol Ota_Properties Loader_Properties Lease_Theorems
    Shell_Theorems Output_Matcher Serial_Manager_Properties
    Serial_Scan Serial_Runtime_Properties Uboot_Properties Menu_State_Properties
begin

text \<open>
  A verification library for ostool, a toolbox that builds operating-system images, boots them on
  boards and watches them run, and for its server, which shares boards between users.

  \<^bold>\<open>The program and its theories.\<close> Paths are relative to the repository.

  \<^item> \<open>Ostool_Prelude\<close>: machine integers as words, \<open>Result\<close> as a sum, strings as bytes, big- and
    little-endian encodings, and the locales of machines with an invariant.
  \<^item> \<open>Rust_Text\<close>, \<open>Utf8\<close>, \<open>Text_Utf8\<close>: \<open>str::trim\<close>, \<open>str::find\<close>, the validation of UTF-8 and the
    replacement of malformed sequences, and the interface of the regex crate (\<open>regex_api\<close>).
    \<open>Assoc_Map\<close>: the maps of the server.
  \<^item> \<open>fitimage/\<close>, the writer of U-Boot FIT images. \<open>String_Table\<close>, \<open>Fdt_Format\<close>, \<open>Fit_Config\<close>,
    \<open>Fit_Builder\<close> follow \<open>string_table.rs\<close>, \<open>fdt_tokens.rs\<close>, \<open>fdt_header.rs\<close>, \<open>config.rs\<close>,
    \<open>gzip.rs\<close>, \<open>standard_dt_builder.rs\<close> and \<open>builder.rs\<close>; \<open>Fit_Reader\<close> is the specification (what
    an image means), and \<open>Fit_Properties\<close> shows the writer meets it. \<open>Crc32\<close> is \<open>crc.rs\<close> and
    \<open>hash.rs\<close>.
  \<^item> \<open>uboot-shell/\<close>: \<open>Crc16\<close> and \<open>Ymodem\<close> (\<open>ymodem.rs\<close>), the upload of an image to a boot loader, and
    \<open>Uboot_Shell\<close> (\<open>lib.rs\<close>), the console of the boot loader: the interrupt, the prompt, commands in
    lockstep with their echo, replies, the environment, and \<open>loady\<close>, which starts \<open>Ymodem\<close> on the same
    line. \<open>Uboot_Properties\<close> shows what is on the line when they return.
  \<^item> \<open>httpboot-protocol/\<close>: \<open>Httpboot_Protocol\<close> and \<open>Serial_Protocol\<close>, the vocabulary of network
    boot, serial bindings and the decoder of identification beacons.
  \<^item> \<open>ostool-server/\<close>: \<open>Ota_Store\<close> (\<open>ota.rs\<close>, firmware updates), \<open>Loader_Registry\<close> (\<open>loader.rs\<close>),
    \<open>Board_Pool\<close> (\<open>board_pool.rs\<close>), \<open>Session\<close> (\<open>session.rs\<close>) and \<open>Lease_Manager\<close> (\<open>state.rs\<close>):
    the lease manager picks a board with the pool, gives it to a session, and takes it back when
    the session is stopped or expires, by a release job that stops its tasks, cuts the power and
    removes its files. Properties are in \<open>Ota_Properties\<close>, \<open>Loader_Properties\<close>,
    \<open>Lease_Properties\<close> and \<open>Lease_Theorems\<close>. \<open>Serial_Runtime\<close> (\<open>serial/runtime.rs\<close>) is the task that owns
    the serial line of a session: it asks the discovery actor for the port of the device that has
    booted, holds the lease (\<open>Serial_Lease\<close>), and tells the device that it is bound;
    \<open>Serial_Runtime_Properties\<close> treats its callers and its loop as interleaved steps.
  \<^item> \<open>ostool-serial/\<close>: \<open>Serial_Manager\<close> (\<open>manager.rs\<close>, the actor that looks for devices on the serial
    ports of the host), \<open>Serial_Scan\<close> (\<open>scan\<close> in \<open>manager.rs\<close>, the task that listens on one port) and
    \<open>Serial_Lease\<close> (\<open>lib.rs\<close>, the open port in the hands of a session). The actor starts scans, a
    scan reports one end (\<open>scan_reports_once\<close>), which is what the system of
    \<open>Serial_Manager_Properties\<close> assumes of its tasks; the bytes a scan has read become the prefix of
    the lease.
  \<^item> \<open>ostool/src/run/\<close>: \<open>Shell_Steps\<close> and \<open>Shell_Check\<close> (\<open>shell_check.rs\<close>: prompts, commands and
    results on a terminal) with \<open>Shell_Properties\<close> and \<open>Shell_Theorems\<close>, and \<open>Output_Matcher\<close>
    (\<open>output_matcher.rs\<close>).
  \<^item> \<open>jkconfig/src/data/\<close>, the configuration editor: \<open>Rust_Numbers\<close> and \<open>Json_Value\<close> are the numbers of the
    standard library and the values of serde_json; \<open>Menu_Data\<close> is the tree with loading and saving
    (\<open>types.rs\<close>, \<open>item.rs\<close>, \<open>menu.rs\<close>, \<open>oneof.rs\<close>), \<open>Menu_Schema\<close> its conversion from a JSON Schema
    (\<open>schema.rs\<close>), \<open>Menu_State\<close> the editing, navigation and files (\<open>path.rs\<close>, \<open>resolver.rs\<close>,
    \<open>app_data.rs\<close>). A schema becomes an empty tree, a file is loaded into it, edits change it, and it is
    saved after a check; \<open>Menu_Properties\<close>, \<open>Menu_Schema_Properties\<close> and \<open>Menu_State_Properties\<close>
    follow a configuration along this way.

  \<^bold>\<open>How the code is modelled.\<close> A struct is a record, an enum a datatype, a method a function from
  the state to a result and the state. Integers keep their width where they can wrap; a length is
  a natural number. An error is the left of a sum or \<open>None\<close>; a panic (an \<open>expect\<close>, an index or a
  slice out of range) is a value of the result too, and the theorems on totality show that it is
  not reached. A store with concurrent clients is a step relation or a fold over requests, one step
  per critical section, so an invariant of the runs covers every interleaving.

  \<^bold>\<open>What the lemmas show.\<close> For each component an invariant kept by every operation, the result of
  each operation on every branch, and the properties across operations: round trips of the image
  writer, the file transfer and the beacons, equivalence of the checksums with polynomial division
  and of the matchers with their one-line specifications, exclusive leases of boards and of serial ports, authority of at most
  one loader, the evidence behind every serial binding and the return of every serial lease, soundness of updates and a bound on their retries, and the evidence and the end of every release.

  \<^bold>\<open>Parameters.\<close> Third-party code and the operating system are arguments of the definitions: the
  deflate codec, the CRC and digest crates, the regex crate, clocks, random identifiers, file and
  power operations. A device on a line is the list of its answers (a byte, silence until the time
  limit, an error) and of the faults of its writes; a clock that is only compared with a limit is the
  list of the comparisons' results. A theorem that relies on their documented behaviour names it as a hypothesis
  and has a witness on an instance.

  \<^bold>\<open>Bounds.\<close> One definition takes fuel: \<open>as_element_type\<close>, the conversion of a schema, has the number of
  nested calls it may make, because references can go round (\<open>cyclic_overflow\<close>); if they do not, some
  number is enough and every larger one gives the same answer (\<open>schema_conversion_ends\<close>). Other loops that the code bounds recurse on the bound (block
  retries, the rounds of a block of output, the bytes of a text); loops that wait for the
  environment recurse on its scripted answers, and a theorem says which answers end them. The
  release job's loop is described by the rounds of its environment, with termination exactly when
  every stage has succeeded once; the sleep that lets a board settle moves the clock of the round, and
  \<open>lease_history\<close> keeps the rounds of all jobs beside the state, so that \<open>board_freed_by_release\<close> can say
  what the environment had answered. Retryable failures of an update are counted along a run in the same
  way (\<open>retryable_failures\<close>).

  \<^bold>\<open>Not modelled.\<close> The text of JSON and TOML, HTTP handlers, sockets and processes, the terminal user interface
  and the drivers of serial ports (\<open>native.rs\<close>, \<open>physical.rs\<close>) and power relays are input and output around the modelled state.
  Of \<open>device.rs\<close> the HTTP exchange with a device, of \<open>loader.rs\<close> the UDP loop, of \<open>state.rs\<close> the construction of the services are left out. In
  \<open>session.rs\<close> the stop request sent by \<open>Drop\<close> cannot happen while the actor holds its own
  reference, so it is not a step.
\<close>

end
